(* ===== verification/Prelude.thy ===== *)
theory Prelude
  imports Complex_Main "HOL-Library.State_Monad"
begin

text \<open>
  Shared material of the development: the Go time arithmetic the code uses, the state-monad
  vocabulary in which the engine is written, a small weakest-precondition calculus for it, and
  lemmas on sums over the entries of a finite map.
\<close>

named_theorems wp_spec \<open>specifications of operations in weakest-precondition form\<close>
named_theorems wp_body \<open>bodies of operations that the calculus enters\<close>

subsection \<open>Time\<close>

text \<open>
  A Go \<open>time.Time\<close> is an integer number of nanoseconds; 0 stands for the zero value that
  \<open>IsZero\<close> recognises. A \<open>time.Duration\<close> is an integer number of nanoseconds.
  \<open>time_sub\<close> is \<open>Time.Sub\<close>, which saturates at the bounds of the 64-bit \<open>Duration\<close>.
\<close>

type_synonym time = int
type_synonym duration = int

definition max_duration :: duration where
  "max_duration = 2 ^ 63 - 1"

definition min_duration :: duration where
  "min_duration = - (2 ^ 63)"

definition time_sub :: "time \<Rightarrow> time \<Rightarrow> duration" where
  "time_sub a b = max min_duration (min max_duration (a - b))"

abbreviation second :: duration where
  "second \<equiv> 1000000000"

abbreviation millisecond :: duration where
  "millisecond \<equiv> 1000000"

text \<open>
  The Unix epoch on the scale whose zero is Go's zero time, 1 January of year 1; \<open>UnixNano\<close> is exact from 1678
  to 2262, where the code's 64 bits do not wrap.
\<close>

abbreviation unixEpoch :: time where
  "unixEpoch \<equiv> 62135596800 * second"

definition UnixNano :: "time \<Rightarrow> int" where
  "UnixNano t = t - unixEpoch"

definition Unix :: "time \<Rightarrow> int" where
  "Unix t = UnixNano t div second"

lemma time_sub_self [simp]: "time_sub t t = 0"
  by (simp add: time_sub_def max_duration_def min_duration_def)

lemma time_sub_mono: "a \<le> b \<Longrightarrow> time_sub a t \<le> time_sub b t"
  by (simp add: time_sub_def)

lemma time_sub_le_diff: "0 \<le> a - b \<Longrightarrow> time_sub a b \<le> a - b"
  by (simp add: time_sub_def max_duration_def min_duration_def)

lemma time_sub_exact:
  "min_duration \<le> a - b \<Longrightarrow> a - b \<le> max_duration \<Longrightarrow> time_sub a b = a - b"
  by (simp add: time_sub_def)

subsection \<open>State-monad vocabulary\<close>

abbreviation ret :: "'a \<Rightarrow> ('s, 'a) state" where
  "ret \<equiv> State_Monad.return"

abbreviation skip :: "('s, unit) state" where
  "skip \<equiv> State_Monad.return ()"

abbreviation get_state :: "('s, 's) state" where
  "get_state \<equiv> State_Monad.get"

definition modify :: "('s \<Rightarrow> 's) \<Rightarrow> ('s, unit) state" where
  "modify f = State (\<lambda>s. ((), f s))"

definition gets :: "('s \<Rightarrow> 'a) \<Rightarrow> ('s, 'a) state" where
  "gets f = State (\<lambda>s. (f s, s))"

definition whenM :: "bool \<Rightarrow> ('s, unit) state \<Rightarrow> ('s, unit) state" where
  "whenM b m = (if b then m else skip)"

definition exec :: "('s, 'a) state \<Rightarrow> 's \<Rightarrow> 's" where
  "exec m s = snd (run_state m s)"

definition result :: "('s, 'a) state \<Rightarrow> 's \<Rightarrow> 'a" where
  "result m s = fst (run_state m s)"

subsection \<open>Weakest preconditions\<close>

definition wp :: "('s, 'a) state \<Rightarrow> ('a \<Rightarrow> 's \<Rightarrow> bool) \<Rightarrow> 's \<Rightarrow> bool" where
  "wp m Q s \<longleftrightarrow> (case run_state m s of (a, s') \<Rightarrow> Q a s')"

lemma run_state_gets [simp]: "run_state (gets f) s = (f s, s)"
  by (simp add: gets_def)

lemma run_state_modify [simp]: "run_state (modify f) s = ((), f s)"
  by (simp add: modify_def)

lemma wp_ret [simp]: "wp (ret a) Q s = Q a s"
  by (simp add: wp_def)

lemma wp_bind [simp]: "wp (State_Monad.bind m f) Q s = wp m (\<lambda>a. wp (f a) Q) s"
  by (simp add: wp_def split: prod.split)

lemma wp_eta [simp]:
  "wp (State_Monad.bind m f) Q = wp m (\<lambda>a. wp (f a) Q)"
  "wp (ret a) Q = Q a"
  by (rule ext, simp)+

lemma wp_get [simp]: "wp get_state Q s = Q s s"
  by (simp add: wp_def)

lemma wp_gets [simp]: "wp (gets f) Q s = Q (f s) s"
  by (simp add: wp_def)

lemma wp_modify [simp]: "wp (modify f) Q s = Q () (f s)"
  by (simp add: wp_def)

lemma wp_eta_state [simp]:
  "wp get_state Q = (\<lambda>s. Q s s)"
  "wp (gets f) R = (\<lambda>s. R (f s) s)"
  "wp (modify g) S = (\<lambda>s. S () (g s))"
  by (rule ext, simp)+

lemma wp_if [simp]: "wp (if b then m else n) Q s = (if b then wp m Q s else wp n Q s)"
  by simp

lemma wp_whenM [simp]: "wp (whenM b m) Q s = (if b then wp m Q s else Q () s)"
  by (simp add: whenM_def)

lemma wp_case_option [simp]:
  "wp (case x of None \<Rightarrow> m | Some y \<Rightarrow> f y) Q s =
     (case x of None \<Rightarrow> wp m Q s | Some y \<Rightarrow> wp (f y) Q s)"
  by (simp split: option.split)

lemma wp_case_sum [simp]:
  "wp (case x of Inl y \<Rightarrow> f y | Inr z \<Rightarrow> g z) Q s =
     (case x of Inl y \<Rightarrow> wp (f y) Q s | Inr z \<Rightarrow> wp (g z) Q s)"
  by (simp split: sum.split)

lemma wp_case_prod [simp]:
  "wp (case x of (a, b) \<Rightarrow> f a b) Q s = (case x of (a, b) \<Rightarrow> wp (f a b) Q s)"
  by (simp split: prod.split)

lemma wp_let [simp]: "wp (let x = e in f x) Q s = wp (f e) Q s"
  by (simp add: Let_def)

lemma wp_mono: "wp m Q s \<Longrightarrow> (\<And>a s'. Q a s' \<Longrightarrow> Q' a s') \<Longrightarrow> wp m Q' s"
  by (auto simp: wp_def split: prod.splits)

lemma wp_always: "(\<And>a s'. Q a s') \<Longrightarrow> wp m Q s"
  by (simp add: wp_def split: prod.split)

lemma wp_conj: "wp m (\<lambda>a s'. Q a s' \<and> Q' a s') s = (wp m Q s \<and> wp m Q' s)"
  by (auto simp: wp_def split: prod.splits)

lemma wp_iff: "wp m Q s = Q (result m s) (exec m s)"
  by (simp add: wp_def exec_def result_def split: prod.split)

lemma exec_of_wp: "wp m (\<lambda>_ s'. Q s') s \<Longrightarrow> Q (exec m s)"
  by (simp add: wp_iff)

subsection \<open>Sums over finite maps\<close>

definition map_sum :: "('v \<Rightarrow> int) \<Rightarrow> ('k \<rightharpoonup> 'v) \<Rightarrow> int" where
  "map_sum f m = (\<Sum>k\<in>dom m. f (the (m k)))"

lemma map_sum_empty [simp]: "map_sum f Map.empty = 0"
  by (simp add: map_sum_def)

lemma map_sum_insert:
  assumes "finite (dom m)" and "m k = None"
  shows "map_sum f (m(k \<mapsto> v)) = map_sum f m + f v"
proof -
  have k: "k \<notin> dom m" using assms(2) by auto
  have "(\<Sum>j\<in>dom m. f (the ((m(k \<mapsto> v)) j))) = (\<Sum>j\<in>dom m. f (the (m j)))"
    using k by (intro sum.cong) auto
  then show ?thesis using assms(1) k by (simp add: map_sum_def)
qed

lemma map_sum_update:
  assumes "finite (dom m)" and "m k = Some u"
  shows "map_sum f (m(k \<mapsto> v)) = map_sum f m - f u + f v"
proof -
  have d: "dom m = insert k (dom m - {k})" using assms(2) by auto
  have fin: "finite (dom m - {k})" using assms(1) by simp
  have "(\<Sum>j\<in>dom m - {k}. f (the ((m(k \<mapsto> v)) j))) = (\<Sum>j\<in>dom m - {k}. f (the (m j)))"
    by (intro sum.cong) auto
  moreover have "map_sum f m = f u + (\<Sum>j\<in>dom m - {k}. f (the (m j)))"
    using assms(2) fin by (subst map_sum_def, subst d, subst sum.insert) auto
  moreover have "map_sum f (m(k \<mapsto> v)) = f v + (\<Sum>j\<in>dom m - {k}. f (the ((m(k \<mapsto> v)) j)))"
  proof -
    have "dom (m(k \<mapsto> v)) = insert k (dom m - {k})" by auto
    then have "map_sum f (m(k \<mapsto> v)) =
        (\<Sum>j\<in>insert k (dom m - {k}). f (the ((m(k \<mapsto> v)) j)))"
      unfolding map_sum_def by (rule arg_cong)
    then show ?thesis using fin by (simp del: insert_Diff_single)
  qed
  ultimately show ?thesis by simp
qed

end
