(* ===== verification/OrderRegistry.thy ===== *)
theory OrderRegistry
  imports Prelude
begin

text \<open>
  One own order's fill account and the ledger of them
  (\<open>strategies/execengine/orderregistry/orderregistry.go\<close>), the set of unconfirmed taker ids
  (\<open>hedgemanager/hedgemanager.go\<close>) and the trade-id dedup (\<open>dedup.go\<close>).
\<close>

subsection \<open>Accounts and the ledger\<close>

record OrdAcct =
  Maker :: bool
  Sym :: string
  IsBuy :: bool
  Price :: real
  Placed :: int
  Folded :: int
  Seen :: int
  Credited :: int
  Final :: int
  PlacedAt :: time
  LastProbe :: time
  DeadSeen :: bool
  ProbeLogged :: bool
  Deferred :: bool

definition Confirmed :: "OrdAcct \<Rightarrow> bool" where
  "Confirmed a \<longleftrightarrow> Final a \<ge> 0 \<or> Seen a \<ge> Placed a"

type_synonym Ledger = "string \<rightharpoonup> OrdAcct"

text \<open>
  The account literals of the two placement paths. Go leaves the fields a composite literal does
  not name at their zero values.
\<close>

definition makerAcct :: "string \<Rightarrow> bool \<Rightarrow> real \<Rightarrow> int \<Rightarrow> OrdAcct" where
  "makerAcct symb isBuy price lots =
     \<lparr>Maker = True, Sym = symb, IsBuy = isBuy, Price = price, Placed = lots, Folded = 0, Seen = 0,
      Credited = 0, Final = - 1, PlacedAt = 0, LastProbe = 0, DeadSeen = False,
      ProbeLogged = False, Deferred = False\<rparr>"

definition takerAcct :: "string \<Rightarrow> bool \<Rightarrow> int \<Rightarrow> time \<Rightarrow> OrdAcct" where
  "takerAcct symb isBuy lots placedAt =
     \<lparr>Maker = False, Sym = symb, IsBuy = isBuy, Price = 0, Placed = lots, Folded = 0, Seen = 0,
      Credited = 0, Final = - 1, PlacedAt = placedAt, LastProbe = 0, DeadSeen = False,
      ProbeLogged = False, Deferred = False\<rparr>"

lemma makerAcct_simps [simp]:
  "Maker (makerAcct sy b p n)" "Sym (makerAcct sy b p n) = sy" "IsBuy (makerAcct sy b p n) = b"
  "Price (makerAcct sy b p n) = p" "Placed (makerAcct sy b p n) = n"
  "Folded (makerAcct sy b p n) = 0" "Seen (makerAcct sy b p n) = 0"
  "Credited (makerAcct sy b p n) = 0" "Final (makerAcct sy b p n) = - 1"
  "\<not> Deferred (makerAcct sy b p n)"
  by (simp_all add: makerAcct_def)

lemma takerAcct_simps [simp]:
  "\<not> Maker (takerAcct sy b n t)" "Sym (takerAcct sy b n t) = sy" "IsBuy (takerAcct sy b n t) = b"
  "Placed (takerAcct sy b n t) = n"
  "Folded (takerAcct sy b n t) = 0" "Seen (takerAcct sy b n t) = 0"
  "Credited (takerAcct sy b n t) = 0" "Final (takerAcct sy b n t) = - 1"
  "PlacedAt (takerAcct sy b n t) = t" "\<not> DeadSeen (takerAcct sy b n t)"
  "\<not> Deferred (takerAcct sy b n t)"
  by (simp_all add: takerAcct_def)

subsection \<open>The pending set\<close>

text \<open>
  A Go map used as a set, kept as a list without order meaning: the iteration order is chosen by
  the environment (see \<open>p_order\<close> of the engine's ports).
\<close>

type_synonym PendingSet = "string list"

definition pending_add :: "string \<Rightarrow> PendingSet \<Rightarrow> PendingSet" where
  "pending_add oid p = List.insert oid p"

definition pending_delete :: "string \<Rightarrow> PendingSet \<Rightarrow> PendingSet" where
  "pending_delete oid p = removeAll oid p"

lemma set_pending_add [simp]: "set (pending_add oid p) = insert oid (set p)"
  by (simp add: pending_add_def)

lemma set_pending_delete [simp]: "set (pending_delete oid p) = set p - {oid}"
  by (simp add: pending_delete_def)

subsection \<open>Trade-id dedup\<close>

text \<open>
  \<open>TradeDedup.seen\<close>; the nil map of the zero value and an empty map answer every lookup alike,
  so both are the empty set.
\<close>

record TradeDedup =
  seen :: "string set"

definition zero_dedup :: TradeDedup where
  "zero_dedup = \<lparr>seen = {}\<rparr>"

definition SeenTrade :: "string \<Rightarrow> TradeDedup \<Rightarrow> bool \<times> TradeDedup" where
  "SeenTrade tid d =
     (if tid = '''' then (False, d)
      else if tid \<in> seen d then (True, d)
      else (False, d\<lparr>seen := insert tid (seen d)\<rparr>))"

text \<open>The runner's use: the trades of a delivery sequence that are folded.\<close>

fun fold_trades :: "string list \<Rightarrow> TradeDedup \<Rightarrow> string list \<times> TradeDedup" where
  "fold_trades [] d = ([], d)"
| "fold_trades (t # ts) d =
     (case SeenTrade t d of (dup, d') \<Rightarrow>
        (case fold_trades ts d' of (acc, d'') \<Rightarrow> (if dup then acc else t # acc, d'')))"

lemma SeenTrade_seen:
  "seen (snd (SeenTrade t d)) = seen d \<union> ({t} - {''''})"
  "fst (SeenTrade t d) = (t \<noteq> '''' \<and> t \<in> seen d)"
  by (auto simp: SeenTrade_def)

lemma fold_trades_Cons:
  "fst (fold_trades (t # ts) d) =
     (if t \<noteq> '''' \<and> t \<in> seen d then fst (fold_trades ts (snd (SeenTrade t d)))
      else t # fst (fold_trades ts (snd (SeenTrade t d))))"
  "snd (fold_trades (t # ts) d) = snd (fold_trades ts (snd (SeenTrade t d)))"
  using SeenTrade_seen(2) [of t d] by (auto split: prod.split)

lemma fold_trades_seen:
  "seen (snd (fold_trades ts d)) = seen d \<union> (set ts - {''''}) \<and>
     set (fst (fold_trades ts d)) - {''''} = set ts - {''''} - seen d"
proof (induction ts arbitrary: d)
  case Nil
  then show ?case by simp
next
  case (Cons t ts)
  show ?case
    using Cons [of "snd (SeenTrade t d)"] SeenTrade_seen(1) [of t d]
    by (simp only: fold_trades_Cons) auto
qed

lemma fold_trades_distinct:
  "distinct (filter (\<lambda>t. t \<noteq> '''') (fst (fold_trades ts d)))"
proof (induction ts arbitrary: d)
  case Nil
  then show ?case by simp
next
  case (Cons t ts)
  let ?d = "snd (SeenTrade t d)"
  have "t \<noteq> '''' \<Longrightarrow> t \<notin> set (fst (fold_trades ts ?d))"
    using fold_trades_seen [of ts ?d] SeenTrade_seen(1) [of t d] by auto
  then show ?case using Cons [of ?d] by (simp only: fold_trades_Cons) auto
qed

text \<open>
  A replayed trade is folded once: over any delivery sequence from the zero dedup, the trades
  let through are exactly the ids delivered, each non-empty id once, in order of first delivery.
\<close>

theorem trades_fold_once:
  "distinct (filter (\<lambda>t. t \<noteq> '''') (fst (fold_trades ts zero_dedup))) \<and>
   set (fst (fold_trades ts zero_dedup)) - {''''} = set ts - {''''}"
  using fold_trades_distinct [of ts zero_dedup] fold_trades_seen [of ts zero_dedup]
  by (simp add: zero_dedup_def)

end
