(* ===== verification/Limiter.thy ===== *)
theory Limiter
  imports Prelude
begin

text \<open>
  The order-placement quota limiter of \<open>strategies/execengine/limiter.go\<close>. Each method holds the
  mutex from its first to its last statement, so a method is one atomic function on the state.
\<close>

definition DefaultPlaceOrderBudget :: int where
  "DefaultPlaceOrderBudget = 200"

definition DefaultQuotaWindow :: duration where
  "DefaultQuotaWindow = 60 * second"

record QuotaLimiter =
  margin :: int
  windowLimit :: int
  window :: duration
  remaining :: int
  resetAt :: time
  known :: bool
  totalSpent :: int
  lastSetToken :: int
  epoch :: int

record QuotaToken =
  tkSpent :: int
  tkEpoch :: int

definition NewQuotaLimiter :: "int \<Rightarrow> QuotaLimiter" where
  "NewQuotaLimiter mg =
     \<lparr>margin = mg, windowLimit = 0, window = 0, remaining = 0, resetAt = 0, known = False,
      totalSpent = 0, lastSetToken = 0, epoch = 0\<rparr>"

definition NewQuotaLimiterBudget :: "int \<Rightarrow> int \<Rightarrow> duration \<Rightarrow> QuotaLimiter" where
  "NewQuotaLimiterBudget mg wl w =
     (let w' = (if w \<le> 0 then DefaultQuotaWindow else w)
      in \<lparr>margin = mg, windowLimit = wl, window = w', remaining = 0, resetAt = 0, known = False,
          totalSpent = 0, lastSetToken = 0, epoch = 0\<rparr>)"

definition Snapshot :: "QuotaLimiter \<Rightarrow> QuotaToken" where
  "Snapshot q = \<lparr>tkSpent = totalSpent q, tkEpoch = epoch q\<rparr>"

definition qSet :: "int \<Rightarrow> time \<Rightarrow> time \<Rightarrow> QuotaToken \<Rightarrow> QuotaLimiter \<Rightarrow> QuotaLimiter" where
  "qSet rem reset now token q =
     (if known q \<and> tkSpent token < lastSetToken q then q
      else if windowLimit q > 0 \<and> \<not> reset > now then q
      else if windowLimit q > 0 \<and> tkEpoch token < epoch q then q
      else
        (let computed = rem - (totalSpent q - tkSpent token);
             computed' = (if known q \<and> resetAt q = reset \<and> computed > remaining q
                          then remaining q else computed)
         in q\<lparr>remaining := computed', resetAt := reset, known := True,
              lastSetToken := tkSpent token\<rparr>))"

definition refreshWindow :: "time \<Rightarrow> QuotaLimiter \<Rightarrow> QuotaLimiter" where
  "refreshWindow now q =
     (if windowLimit q \<le> 0 then q
      else if resetAt q = 0 \<or> \<not> now < resetAt q then
        q\<lparr>remaining := windowLimit q, resetAt := now + window q, epoch := epoch q + 1\<rparr>
      else q)"

definition Allow :: "time \<Rightarrow> int \<Rightarrow> QuotaLimiter \<Rightarrow> (bool \<times> time) \<times> QuotaLimiter" where
  "Allow now ops q =
     (let q' = refreshWindow now q in
      if \<not> known q' \<and> windowLimit q' \<le> 0 then ((True, 0), q')
      else if remaining q' \<ge> ops + margin q' then ((True, resetAt q'), q')
      else ((False, resetAt q'), q'))"

definition Spend :: "time \<Rightarrow> int \<Rightarrow> QuotaLimiter \<Rightarrow> QuotaLimiter" where
  "Spend now ops q =
     (let q1 = q\<lparr>totalSpent := totalSpent q + ops\<rparr>;
          q2 = refreshWindow now q1
      in if known q2 \<or> windowLimit q2 > 0 then q2\<lparr>remaining := remaining q2 - ops\<rparr> else q2)"

definition Remaining :: "QuotaLimiter \<Rightarrow> int \<times> bool" where
  "Remaining q = (remaining q, known q \<or> windowLimit q > 0)"

text \<open>The permissive default limiter.\<close>

definition noLimit_Allow :: "time \<Rightarrow> int \<Rightarrow> bool \<times> time" where
  "noLimit_Allow now ops = (True, 0)"

subsection \<open>The interface: a limiter that keeps a reserve\<close>

text \<open>
  What the engine relies on: a granted burst leaves at least the reserve after it is spent, and a
  declined one takes nothing. The client is the engine's pattern \<open>Allow\<close>, then \<open>Spend\<close> at the
  same clock reading.
\<close>

locale reserve_limiter =
  fixes allow :: "time \<Rightarrow> int \<Rightarrow> 'l \<Rightarrow> (bool \<times> time) \<times> 'l"
    and spend :: "time \<Rightarrow> int \<Rightarrow> 'l \<Rightarrow> 'l"
    and room :: "'l \<Rightarrow> int"
    and reserve :: "'l \<Rightarrow> int"
    and linv :: "'l \<Rightarrow> bool"
  assumes allow_linv: "linv l \<Longrightarrow> allow now n l = (r, l') \<Longrightarrow> linv l'"
    and spend_linv: "linv l \<Longrightarrow> linv (spend now n l)"
    and allow_reserve: "linv l \<Longrightarrow> allow now n l = (r, l') \<Longrightarrow> reserve l' = reserve l"
    and spend_reserve: "linv l \<Longrightarrow> reserve (spend now n l) = reserve l"
    and allow_granted: "linv l \<Longrightarrow> allow now n l = ((True, t), l') \<Longrightarrow> n + reserve l' \<le> room l'"
    and allow_room: "linv l \<Longrightarrow> allow now n l = (r, l') \<Longrightarrow> reserve l \<le> room l \<Longrightarrow> reserve l \<le> room l'"
    and spend_room: "linv l \<Longrightarrow> 0 < now \<Longrightarrow> allow now n l = (r, l') \<Longrightarrow> room (spend now n l') = room l' - n"
begin

fun burst :: "(time \<times> int) list \<Rightarrow> 'l \<Rightarrow> 'l" where
  "burst [] l = l"
| "burst ((now, n) # xs) l =
     (case allow now n l of ((ok, t), l') \<Rightarrow> burst xs (if ok then spend now n l' else l'))"

lemma burst_keeps_reserve:
  "linv l \<Longrightarrow> reserve l \<le> room l \<Longrightarrow> (\<And>now n. (now, n) \<in> set xs \<Longrightarrow> 0 < now) \<Longrightarrow>
     reserve l \<le> room (burst xs l)"
proof (induction xs arbitrary: l)
  case Nil
  then show ?case by simp
next
  case (Cons x xs)
  obtain now n where x: "x = (now, n)" by (cases x)
  obtain ok t l' where a: "allow now n l = ((ok, t), l')" by (metis prod.exhaust)
  let ?l = "if ok then spend now n l' else l'"
  have inv: "linv l'" and res: "reserve l' = reserve l"
    using allow_linv [OF Cons.prems(1) a] allow_reserve [OF Cons.prems(1) a] by simp_all
  have inv': "linv ?l" and res': "reserve ?l = reserve l"
    using inv res spend_linv spend_reserve by simp_all
  have now: "0 < now" using Cons.prems(3) [of now n] x by simp
  have "reserve l \<le> room ?l"
  proof (cases ok)
    case True
    then show ?thesis
      using allow_granted [of l now n t l'] spend_room [OF Cons.prems(1) now a] Cons.prems(1) a res
      by simp
  next
    case False
    then show ?thesis using allow_room [OF Cons.prems(1) a Cons.prems(2)] by simp
  qed
  moreover have "\<And>now n. (now, n) \<in> set xs \<Longrightarrow> 0 < now" using Cons.prems(3) by auto
  ultimately show ?case using Cons.IH [OF inv'] res' x a by simp
qed

end

subsection \<open>The quota limiter provides it in fail-safe mode\<close>

definition failsafe :: "QuotaLimiter \<Rightarrow> bool" where
  "failsafe q \<longleftrightarrow> windowLimit q > 0 \<and> margin q \<le> windowLimit q \<and> window q > 0"

lemma refreshWindow_fields [simp]:
  "margin (refreshWindow now q) = margin q" "windowLimit (refreshWindow now q) = windowLimit q"
  "window (refreshWindow now q) = window q" "known (refreshWindow now q) = known q"
  "totalSpent (refreshWindow now q) = totalSpent q"
  "lastSetToken (refreshWindow now q) = lastSetToken q"
  by (simp_all add: refreshWindow_def)

lemma refreshWindow_idem:
  assumes "window q > 0" and "now + window q \<noteq> 0"
  shows "refreshWindow now (refreshWindow now q) = refreshWindow now q"
  using assms by (simp add: refreshWindow_def)

lemma failsafe_simps [simp]:
  "failsafe (refreshWindow now q) = failsafe q"
  "failsafe (q\<lparr>remaining := x\<rparr>) = failsafe q"
  "failsafe (q\<lparr>totalSpent := y\<rparr>) = failsafe q"
  by (simp_all add: failsafe_def)

lemma Allow_snd: "snd (Allow now n q) = refreshWindow now q"
  by (simp add: Allow_def Let_def)

lemma Spend_failsafe:
  assumes "failsafe q"
  shows "Spend now n q =
    (refreshWindow now (q\<lparr>totalSpent := totalSpent q + n\<rparr>))
      \<lparr>remaining := remaining (refreshWindow now q) - n\<rparr>"
  using assms by (simp add: Spend_def Let_def failsafe_def refreshWindow_def)

text \<open>
  The room is the remaining budget after the lazy rollover, so before the first call of a window
  it is the whole window budget.
\<close>

definition quota_room :: "QuotaLimiter \<Rightarrow> int" where
  "quota_room q = (if resetAt q = 0 then windowLimit q else remaining q)"

lemma refreshWindow_room:
  assumes "failsafe q" and "0 < now"
  shows "resetAt (refreshWindow now q) \<noteq> 0"
    and "margin q \<le> quota_room q \<Longrightarrow> margin q \<le> remaining (refreshWindow now q)"
    and "refreshWindow now (refreshWindow now q) = refreshWindow now q"
  using assms by (auto simp: refreshWindow_def quota_room_def failsafe_def)

lemma refreshWindow_remaining:
  "quota_room (refreshWindow now q) = remaining (refreshWindow now q)" if "failsafe q"
  using that by (auto simp: refreshWindow_def quota_room_def failsafe_def)

interpretation quota: reserve_limiter Allow Spend quota_room margin failsafe
proof (unfold_locales, goal_cases)
  case (1 l now n r l')
  then show ?case using Allow_snd [of now n l] by simp
next
  case (2 l now n)
  then show ?case by (simp add: Spend_failsafe)
next
  case (3 l now n r l')
  then show ?case using Allow_snd [of now n l] by simp
next
  case (4 l now n)
  then show ?case by (simp add: Spend_failsafe)
next
  case (5 l now n t l')
  then have "l' = refreshWindow now l" using Allow_snd [of now n l] by simp
  then show ?case
    using 5 refreshWindow_remaining [OF 5(1), of now]
    by (auto simp: Allow_def Let_def failsafe_def split: if_splits)
next
  case (6 l now n r l')
  then show ?case using Allow_snd [of now n l]
    by (auto simp: refreshWindow_def failsafe_def quota_room_def split: if_splits)
next
  case (7 l now n r l')
  have l': "l' = refreshWindow now l" using 7 Allow_snd [of now n l] by simp
  have "refreshWindow now l' = l'" unfolding l' by (rule refreshWindow_room(3) [OF 7(1,2)])
  then show ?case
    using 7(1) l' refreshWindow_room(1) [OF 7(1,2)] refreshWindow_remaining [OF 7(1), of now]
      refreshWindow_room(1) [of "l'\<lparr>totalSpent := totalSpent l' + n\<rparr>", OF _ 7(2)]
    by (simp add: Spend_failsafe quota_room_def)
qed

subsection \<open>Bursts against the limiter\<close>

text \<open>The engine's pattern over a sequence of clock readings and burst sizes, and what it is granted.\<close>

fun order_bursts :: "(time \<times> int) list \<Rightarrow> QuotaLimiter \<Rightarrow> QuotaLimiter" where
  "order_bursts [] q = q"
| "order_bursts ((now, n) # xs) q =
     (case Allow now n q of ((ok, t), q') \<Rightarrow> order_bursts xs (if ok then Spend now n q' else q'))"

fun granted :: "(time \<times> int) list \<Rightarrow> QuotaLimiter \<Rightarrow> int" where
  "granted [] q = 0"
| "granted ((now, n) # xs) q =
     (case Allow now n q of ((ok, t), q') \<Rightarrow>
        if ok then n + granted xs (Spend now n q') else granted xs q')"

lemma order_bursts_burst: "order_bursts xs q = quota.burst xs q"
  by (induction xs q rule: order_bursts.induct) (simp_all split: prod.split)

lemma fresh_failsafe:
  "0 < wl \<Longrightarrow> mg \<le> wl \<Longrightarrow> failsafe (NewQuotaLimiterBudget mg wl w)"
  by (simp add: failsafe_def NewQuotaLimiterBudget_def Let_def DefaultQuotaWindow_def)

lemma fresh_room: "quota_room (NewQuotaLimiterBudget mg wl w) = wl"
  by (simp add: quota_room_def NewQuotaLimiterBudget_def Let_def)

lemma granted_in_window:
  assumes "failsafe q" and "resetAt q \<noteq> 0" and "\<forall>(now, n)\<in>set xs. now < resetAt q"
    and "margin q \<le> remaining q"
  shows "granted xs q \<le> remaining q - margin q"
  using assms
proof (induction xs arbitrary: q)
  case (Cons x xs)
  obtain now n where x: "x = (now, n)" by (cases x)
  have same: "refreshWindow now q = q" using Cons.prems x by (auto simp: refreshWindow_def)
  have sp: "Spend now n q = q\<lparr>totalSpent := totalSpent q + n, remaining := remaining q - n\<rparr>"
    using Cons.prems x by (auto simp: Spend_failsafe same refreshWindow_def)
  have "granted xs (Spend now n q) \<le> remaining q - n - margin q" if "n + margin q \<le> remaining q"
    unfolding sp by (rule order_trans [OF Cons.IH]) (use Cons.prems that in auto)
  moreover have "granted xs q \<le> remaining q - margin q"
    by (rule Cons.IH) (use Cons.prems in auto)
  ultimately show ?case
    using x same Cons.prems(1) by (auto simp: Allow_def Let_def failsafe_def)
qed simp

subsection \<open>Properties\<close>

text \<open>
  C10. A strategy keeps the reserve of the shared quota: from a fresh fail-safe limiter, whatever
  bursts it asks for at whatever times, the budget left never falls below the margin.
\<close>

theorem quota_reserve_kept:
  assumes "0 < wl" and "mg \<le> wl" and "\<And>now n. (now, n) \<in> set xs \<Longrightarrow> 0 < now"
  shows "mg \<le> quota_room (order_bursts xs (NewQuotaLimiterBudget mg wl w))"
  using quota.burst_keeps_reserve [OF fresh_failsafe [OF assms(1,2)], of w xs] assms
  by (simp add: fresh_room order_bursts_burst) (simp add: NewQuotaLimiterBudget_def Let_def)

theorem quota_reserve_kept_witness:
  "2 \<le> quota_room (order_bursts [(1, 2), (1, 2), (2, 4)] (NewQuotaLimiterBudget 2 5 0)) \<and>
   quota_room (order_bursts [(1, 2), (1, 2), (2, 4)] (NewQuotaLimiterBudget 2 5 0)) = 3"
  using quota_reserve_kept [of 5 2 "[(1, 2), (1, 2), (2, 4)]" 0]
  by (auto simp: quota_room_def NewQuotaLimiterBudget_def Allow_def Spend_def refreshWindow_def
      Let_def DefaultQuotaWindow_def)

text \<open>
  C11. Within one quota window a fresh limiter grants at most the window's budget less the margin,
  over all bursts together.
\<close>

theorem quota_window_bounded:
  assumes "0 < wl" and "mg \<le> wl" and "0 < t0" and "0 < w"
    and "\<forall>(now, n)\<in>set xs. t0 \<le> now \<and> now < t0 + w"
  shows "granted ((t0, n0) # xs) (NewQuotaLimiterBudget mg wl w) \<le> wl - mg"
proof -
  let ?q = "NewQuotaLimiterBudget mg wl w"
  let ?r = "refreshWindow t0 ?q"
  have q: "failsafe ?q" by (rule fresh_failsafe [OF assms(1,2)])
  have r: "failsafe ?r" "remaining ?r = wl" "resetAt ?r = t0 + w" "margin ?r = mg"
    using q assms by (simp_all add: refreshWindow_def NewQuotaLimiterBudget_def Let_def failsafe_def)
  have sp: "Spend t0 n0 ?r = ?r\<lparr>totalSpent := totalSpent ?r + n0, remaining := wl - n0\<rparr>"
    using r assms(3,4) by (auto simp: Spend_failsafe refreshWindow_def [of t0 ?r] refreshWindow_def [of t0 "?r\<lparr>totalSpent := _\<rparr>"])
  have "granted xs (Spend t0 n0 ?r) \<le> wl - n0 - mg" if "n0 + mg \<le> wl"
    unfolding sp by (rule order_trans [OF granted_in_window]) (use r assms that in auto)
  moreover have "granted xs ?r \<le> wl - mg"
    by (rule order_trans [OF granted_in_window]) (use r assms in auto)
  ultimately show ?thesis
    using r by (auto simp: Allow_def Let_def failsafe_def)
qed

theorem quota_window_bounded_witness:
  "granted [(1, 3), (2, 2), (5, 1)] (NewQuotaLimiterBudget 2 6 10) \<le> 4 \<and>
   granted [(1, 3), (2, 2), (5, 1)] (NewQuotaLimiterBudget 2 6 10) = 4"
  using quota_window_bounded [of 6 2 1 10 "[(2, 2), (5, 1)]" 3]
  by (simp add: NewQuotaLimiterBudget_def Allow_def Spend_def refreshWindow_def Let_def)

text \<open>
  A poll never raises the budget inside the window it reports on, and a poll that was captured before the
  one already folded changes nothing.
\<close>

lemma qSet_never_raises:
  assumes "known q"
  shows "(resetAt q = reset \<longrightarrow> remaining (qSet rem reset now token q) \<le> remaining q) \<and>
     (tkSpent token < lastSetToken q \<longrightarrow> qSet rem reset now token q = q)"
  using assms by (auto simp: qSet_def Let_def)

end
