(* ===== verification/BrokerErrors.thy ===== *)
theory BrokerErrors
  imports Prelude
begin

text \<open>
  Broker errors and their classification: \<open>strategies/execengine/broker_errors.go\<close>. A Go
  \<open>error\<close> value is a tree of wrappers: a leaf, a leaf \<open>fmt.Errorf ... %w\<close> wraps, or an
  \<open>outcomeMarker\<close>; \<open>errors.As\<close> walks the \<open>Unwrap\<close> chain. A \<open>nil\<close> error is \<open>None\<close>.
  \<open>Leaf kind msg\<close> carries an uninterpreted kind, from which a transport (gRPC) may read a code.
\<close>

datatype placement_outcome = outcomeDefinitiveReject | outcomeConfirmedNotPlaced

datatype go_error =
    Leaf nat string
  | Wrapped string go_error
  | outcomeMarker go_error placement_outcome

definition NewDefinitiveReject :: "go_error option \<Rightarrow> go_error option" where
  "NewDefinitiveReject err =
     (case err of None \<Rightarrow> None | Some e \<Rightarrow> Some (outcomeMarker e outcomeDefinitiveReject))"

definition NewConfirmedNotPlaced :: "go_error option \<Rightarrow> go_error option" where
  "NewConfirmedNotPlaced err =
     (case err of None \<Rightarrow> None | Some e \<Rightarrow> Some (outcomeMarker e outcomeConfirmedNotPlaced))"

text \<open>\<open>errors.As(err, &m)\<close> for an \<open>*outcomeMarker\<close> target: the first marker on the chain.\<close>

fun as_marker :: "go_error \<Rightarrow> placement_outcome option" where
  "as_marker (Leaf k m) = None"
| "as_marker (Wrapped m e) = as_marker e"
| "as_marker (outcomeMarker e out) = Some out"

text \<open>\<open>Unwrap\<close> of a marker gives back the original error.\<close>

fun unwrap :: "go_error \<Rightarrow> go_error option" where
  "unwrap (Leaf k m) = None"
| "unwrap (Wrapped m e) = Some e"
| "unwrap (outcomeMarker e out) = Some e"

definition MaybeDelivered :: "go_error option \<Rightarrow> bool" where
  "MaybeDelivered err = (case err of None \<Rightarrow> False | Some e \<Rightarrow> as_marker e = None)"

lemma MaybeDelivered_None [simp]: "\<not> MaybeDelivered None"
  by (simp add: MaybeDelivered_def)

lemma MaybeDelivered_Leaf [simp]: "MaybeDelivered (Some (Leaf k m))"
  by (simp add: MaybeDelivered_def)

text \<open>Wrapping with \<open>%w\<close> any number of times never changes the classification.\<close>

fun wrap_all :: "string list \<Rightarrow> go_error \<Rightarrow> go_error" where
  "wrap_all [] e = e"
| "wrap_all (m # ms) e = Wrapped m (wrap_all ms e)"

lemma as_marker_wrap_all [simp]: "as_marker (wrap_all ms e) = as_marker e"
  by (induction ms) auto

lemma MaybeDelivered_wrap_all:
  "MaybeDelivered (Some (wrap_all ms e)) = MaybeDelivered (Some e)"
  by (simp add: MaybeDelivered_def)

lemma MaybeDelivered_marked [simp]:
  "\<not> MaybeDelivered (NewDefinitiveReject err)" "\<not> MaybeDelivered (NewConfirmedNotPlaced err)"
  by (auto simp: MaybeDelivered_def NewDefinitiveReject_def NewConfirmedNotPlaced_def
      split: option.splits)

text \<open>
  An error is definitive exactly when a marker stands somewhere on its chain.
\<close>

inductive on_chain :: "go_error \<Rightarrow> go_error \<Rightarrow> bool" where
  here: "on_chain e e"
| there: "unwrap e = Some e' \<Longrightarrow> on_chain e' f \<Longrightarrow> on_chain e f"

inductive_cases on_chain_LeafE: "on_chain (Leaf k m) f"
inductive_cases on_chain_WrappedE: "on_chain (Wrapped m e) f"

lemma marker_iff_on_chain:
  "as_marker e \<noteq> None \<longleftrightarrow> (\<exists>g out. on_chain e (outcomeMarker g out))"
proof (induction e)
  case (Leaf k m)
  then show ?case by (auto elim: on_chain_LeafE)
next
  case (Wrapped m e)
  then show ?case
    by (fastforce elim!: on_chain_WrappedE intro: on_chain.there [of "Wrapped m e" e])
next
  case (outcomeMarker e out)
  then show ?case by (auto intro: on_chain.here)
qed

text \<open>
  An error is taken for maybe delivered exactly when no outcome marker stands anywhere on its
  chain of wrappers; so a marked rejection stays definitive under any wrapping, and an unmarked
  error stays ambiguous.
\<close>

theorem MaybeDelivered_chain:
  "MaybeDelivered (Some (wrap_all ms e)) \<longleftrightarrow> \<not> (\<exists>g out. on_chain e (outcomeMarker g out))"
  using marker_iff_on_chain [of e] unfolding MaybeDelivered_wrap_all by (auto simp: MaybeDelivered_def)

end
