(* ===== verification/QuoteBook.thy ===== *)
theory QuoteBook
  imports Prelude
begin

text \<open>
  The quote book of \<open>strategies/execengine/quotebook/quotebook.go\<close>: the latest touch of both
  legs and the backoff that suppresses opening a new clip. Prices are finite \<open>float64\<close> values,
  read as reals: the component only copies and compares them.
\<close>

record Touch =
  Bid :: real
  Ask :: real
  TS :: time
  OK :: bool

definition zero_touch :: Touch where
  "zero_touch = \<lparr>Bid = 0, Ask = 0, TS = 0, OK = False\<rparr>"

definition Valid :: "Touch \<Rightarrow> bool" where
  "Valid t \<longleftrightarrow> OK t \<and> Bid t > 0 \<and> Ask t > 0 \<and> Ask t \<ge> Bid t"

definition SidePrice :: "Touch \<Rightarrow> bool \<Rightarrow> real" where
  "SidePrice t isBid = (if isBid then Bid t else Ask t)"

record Book =
  bkLegA :: string
  bkLegB :: string
  touchA :: Touch
  touchB :: Touch
  backoffUntil :: time

definition newBook :: "string \<Rightarrow> string \<Rightarrow> Book" where
  "newBook a b =
     \<lparr>bkLegA = a, bkLegB = b, touchA = zero_touch, touchB = zero_touch, backoffUntil = 0\<rparr>"

definition Update :: "string \<Rightarrow> time \<Rightarrow> real \<Rightarrow> real \<Rightarrow> Book \<Rightarrow> bool \<times> Book" where
  "Update symbol ts bestBid bestAsk b =
     (if symbol = bkLegA b then
        (if OK (touchA b) \<and> ts < TS (touchA b) then (False, b)
         else (True, b\<lparr>touchA := \<lparr>Bid = bestBid, Ask = bestAsk, TS = ts, OK = True\<rparr>\<rparr>))
      else if symbol = bkLegB b then
        (if OK (touchB b) \<and> ts < TS (touchB b) then (False, b)
         else (True, b\<lparr>touchB := \<lparr>Bid = bestBid, Ask = bestAsk, TS = ts, OK = True\<rparr>\<rparr>))
      else (False, b))"

definition CanQuote :: "time \<Rightarrow> duration \<Rightarrow> Book \<Rightarrow> bool" where
  "CanQuote ts maxStaleness b =
     (if \<not> Valid (touchA b) \<or> \<not> Valid (touchB b) then False
      else if maxStaleness > 0 \<and>
        (time_sub ts (TS (touchA b)) > maxStaleness \<or> time_sub ts (TS (touchB b)) > maxStaleness)
      then False
      else True)"

definition Stale :: "time \<Rightarrow> duration \<Rightarrow> Book \<Rightarrow> bool \<times> bool" where
  "Stale now maxStaleness b =
     (\<not> OK (touchA b) \<or> time_sub now (TS (touchA b)) > maxStaleness,
      \<not> OK (touchB b) \<or> time_sub now (TS (touchB b)) > maxStaleness)"

definition CrossPrice :: "string \<Rightarrow> bool \<Rightarrow> Book \<Rightarrow> real" where
  "CrossPrice symbol buy b =
     (let t = (if symbol = bkLegB b then touchB b else touchA b) in SidePrice t (\<not> buy))"

definition SetBackoff :: "time \<Rightarrow> Book \<Rightarrow> Book" where
  "SetBackoff until b = b\<lparr>backoffUntil := until\<rparr>"

subsection \<open>Properties\<close>

lemma Update_symbols [simp]:
  "bkLegA (snd (Update sy ts bb ba b)) = bkLegA b"
  "bkLegB (snd (Update sy ts bb ba b)) = bkLegB b"
  by (auto simp: Update_def)

lemma Update_backoff [simp]: "backoffUntil (snd (Update sy ts bb ba b)) = backoffUntil b"
  by (auto simp: Update_def)

text \<open>A touch never moves back in time, whatever order updates are delivered in.\<close>

definition touch_le :: "Touch \<Rightarrow> Touch \<Rightarrow> bool" where
  "touch_le t u \<longleftrightarrow> (OK t \<longrightarrow> OK u \<and> TS t \<le> TS u)"

lemma touch_le_refl [simp]: "touch_le t t"
  by (simp add: touch_le_def)

lemma touch_le_trans: "touch_le t u \<Longrightarrow> touch_le u v \<Longrightarrow> touch_le t v"
  by (auto simp: touch_le_def)

lemma Update_touch_le:
  "touch_le (touchA b) (touchA (snd (Update sy ts bb ba b)))"
  "touch_le (touchB b) (touchB (snd (Update sy ts bb ba b)))"
  by (auto simp: Update_def touch_le_def)

fun updates :: "(string \<times> time \<times> real \<times> real) list \<Rightarrow> Book \<Rightarrow> Book" where
  "updates [] b = b"
| "updates ((sy, ts, bb, ba) # us) b = updates us (snd (Update sy ts bb ba b))"

lemma updates_touch_le:
  "touch_le (touchA b) (touchA (updates us b)) \<and> touch_le (touchB b) (touchB (updates us b))"
proof (induction us arbitrary: b)
  case Nil
  then show ?case by simp
next
  case (Cons u us)
  obtain sy ts bb ba where u: "u = (sy, ts, bb, ba)" by (cases u)
  show ?case using Cons [of "snd (Update sy ts bb ba b)"] Update_touch_le [of b sy ts bb ba] u
    by (auto intro: touch_le_trans)
qed

subsection \<open>Touch order\<close>

text \<open>The newest update of a leg in a sequence, as the book should end up quoting it.\<close>

fun newest :: "string \<Rightarrow> (string \<times> time \<times> real \<times> real) list \<Rightarrow> Touch \<Rightarrow> Touch" where
  "newest leg [] t = t"
| "newest leg ((sy, ts, bb, ba) # us) t =
     newest leg us (if sy = leg \<and> (OK t \<longrightarrow> TS t \<le> ts)
        then \<lparr>Bid = bb, Ask = ba, TS = ts, OK = True\<rparr> else t)"

lemma updates_newest:
  assumes "bkLegA b \<noteq> bkLegB b"
  shows "touchA (updates us b) = newest (bkLegA b) us (touchA b) \<and>
     touchB (updates us b) = newest (bkLegB b) us (touchB b)"
  using assms
proof (induction us arbitrary: b)
  case (Cons u us)
  obtain sy ts bb ba where u: "u = (sy, ts, bb, ba)" by (cases u)
  have "touchA (snd (Update sy ts bb ba b)) =
      (if sy = bkLegA b \<and> (OK (touchA b) \<longrightarrow> TS (touchA b) \<le> ts)
       then \<lparr>Bid = bb, Ask = ba, TS = ts, OK = True\<rparr> else touchA b)"
    "touchB (snd (Update sy ts bb ba b)) =
      (if sy = bkLegB b \<and> (OK (touchB b) \<longrightarrow> TS (touchB b) \<le> ts)
       then \<lparr>Bid = bb, Ask = ba, TS = ts, OK = True\<rparr> else touchB b)"
    using Cons.prems by (auto simp: Update_def)
  then show ?case using Cons.IH [of "snd (Update sy ts bb ba b)"] Cons.prems u by simp
qed simp

lemma newest_mono: "OK t \<Longrightarrow> OK (newest leg us t) \<and> TS t \<le> TS (newest leg us t)"
proof (induction us arbitrary: t)
  case (Cons u us)
  obtain sy ts bb ba where u: "u = (sy, ts, bb, ba)" by (cases u)
  let ?t = "if sy = leg \<and> (OK t \<longrightarrow> TS t \<le> ts) then \<lparr>Bid = bb, Ask = ba, TS = ts, OK = True\<rparr> else t"
  have "OK ?t" "TS t \<le> TS ?t" using Cons.prems by auto
  then show ?case using Cons.IH [of ?t] u by simp
qed simp

lemma newest_TS:
  "(leg, ts, bb, ba) \<in> set us \<Longrightarrow> OK (newest leg us t) \<and> ts \<le> TS (newest leg us t)"
proof (induction us arbitrary: t)
  case (Cons u us)
  obtain sy' ts' bb' ba' where u: "u = (sy', ts', bb', ba')" by (cases u)
  let ?t = "if sy' = leg \<and> (OK t \<longrightarrow> TS t \<le> ts') then \<lparr>Bid = bb', Ask = ba', TS = ts', OK = True\<rparr> else t"
  show ?case
  proof (cases "(leg, ts, bb, ba) = u")
    case True
    then have "OK ?t" "ts \<le> TS ?t" using u by auto
    then show ?thesis using newest_mono [of ?t leg us] u by simp
  next
    case False
    then have "(leg, ts, bb, ba) \<in> set us" using Cons.prems by auto
    then show ?thesis using Cons.IH [of ?t] u by simp
  qed
qed simp

text \<open>
  The quote book keeps the newest touch of each leg however the updates are delivered: after any sequence, no
  update of LegA that it contained is newer than the touch kept, and the touch is not older than the one before.
\<close>

lemma book_keeps_newest:
  assumes "bkLegA b \<noteq> bkLegB b"
  shows "((bkLegA b, ts, bb, ba) \<in> set us \<longrightarrow> OK (touchA (updates us b)) \<and> ts \<le> TS (touchA (updates us b))) \<and>
     ((bkLegB b, ts, bb, ba) \<in> set us \<longrightarrow> OK (touchB (updates us b)) \<and> ts \<le> TS (touchB (updates us b))) \<and>
     touch_le (touchA b) (touchA (updates us b)) \<and> touch_le (touchB b) (touchB (updates us b))"
  using updates_newest [OF assms, of us] newest_TS updates_touch_le [of b us] by metis

end
