(* ===== verification/Recovery.thy ===== *)
theory Recovery
  imports Prelude
begin

text \<open>
  The degraded-operation state of \<open>strategies/execengine/recoverymachine/recoverymachine.go\<close>:
  kill-switch, impaired mode, reconcile suspicion and the obligation queues. Log lines are not
  modelled; every method is a function on the machine.
\<close>

record HedgeDebt =
  dSym :: string
  dBuy :: bool
  dLots :: int

record Machine =
  halted :: bool
  suspect :: bool
  unverified :: bool
  impaired :: bool
  takerDeadStreak :: int
  retireQ :: "string list"
  debts :: "HedgeDebt list"
  nextRetryAt :: time
  retryGap :: duration
  mismatchLogged :: bool

definition newMachine :: Machine where
  "newMachine =
     \<lparr>halted = False, suspect = False, unverified = False, impaired = False,
      takerDeadStreak = 0, retireQ = [], debts = [], nextRetryAt = 0, retryGap = 0,
      mismatchLogged = False\<rparr>"

definition Suspect :: "Machine \<Rightarrow> bool" where
  "Suspect m \<longleftrightarrow> suspect m \<or> unverified m"

definition mHalt :: "Machine \<Rightarrow> bool \<times> Machine" where
  "mHalt m = (if halted m then (False, m) else (True, m\<lparr>halted := True\<rparr>))"

definition EnterImpaired :: "time \<Rightarrow> duration \<Rightarrow> Machine \<Rightarrow> Machine" where
  "EnterImpaired now backoff m =
     (if halted m \<or> impaired m then m
      else m\<lparr>impaired := True, retryGap := backoff, nextRetryAt := now + backoff\<rparr>)"

definition mDeferHedge :: "string \<Rightarrow> bool \<Rightarrow> int \<Rightarrow> time \<Rightarrow> duration \<Rightarrow> Machine \<Rightarrow> Machine" where
  "mDeferHedge symb buy lots now backoff m =
     EnterImpaired now backoff
       (m\<lparr>debts := debts m @ [\<lparr>dSym = symb, dBuy = buy, dLots = lots\<rparr>]\<rparr>)"

definition QueueRetire :: "string \<Rightarrow> time \<Rightarrow> duration \<Rightarrow> Machine \<Rightarrow> Machine" where
  "QueueRetire orderID now backoff m =
     EnterImpaired now backoff (m\<lparr>retireQ := retireQ m @ [orderID]\<rparr>)"

definition AdvancePace :: "time \<Rightarrow> bool \<Rightarrow> duration \<Rightarrow> duration \<Rightarrow> Machine \<Rightarrow> Machine" where
  "AdvancePace now progressed baseBackoff maxGap m =
     (let gap = (if progressed then baseBackoff
                 else let g = retryGap m * 2 in if g > maxGap then maxGap else g)
      in m\<lparr>retryGap := gap, nextRetryAt := now + gap\<rparr>)"

definition ClearImpaired :: "Machine \<Rightarrow> Machine" where
  "ClearImpaired m = m\<lparr>impaired := False, unverified := True, retryGap := 0\<rparr>"

definition MarkUnverified :: "Machine \<Rightarrow> Machine" where
  "MarkUnverified m = m\<lparr>unverified := True\<rparr>"

definition ResetDeadStreak :: "Machine \<Rightarrow> Machine" where
  "ResetDeadStreak m = m\<lparr>takerDeadStreak := 0\<rparr>"

definition IncrementDeadStreak :: "Machine \<Rightarrow> int \<times> Machine" where
  "IncrementDeadStreak m =
     (let n = takerDeadStreak m + 1 in (n, m\<lparr>takerDeadStreak := n\<rparr>))"

definition ResumeFromSuspect :: "Machine \<Rightarrow> Machine" where
  "ResumeFromSuspect m =
     (if suspect m then m\<lparr>suspect := False, mismatchLogged := False\<rparr> else m)"

definition ClearUnverified :: "Machine \<Rightarrow> Machine" where
  "ClearUnverified m = (if unverified m then m\<lparr>unverified := False\<rparr> else m)"

definition MarkSuspect :: "Machine \<Rightarrow> bool \<times> Machine" where
  "MarkSuspect m = (if suspect m then (False, m) else (True, m\<lparr>suspect := True\<rparr>))"

definition LogPersistentMismatch :: "Machine \<Rightarrow> Machine" where
  "LogPersistentMismatch m = (if mismatchLogged m then m else m\<lparr>mismatchLogged := True\<rparr>)"

subsection \<open>Frame facts\<close>

lemma halted_simps [simp]:
  "halted (EnterImpaired now b m) = halted m"
  "halted (mDeferHedge sy bu n now b m) = halted m"
  "halted (QueueRetire oid now b m) = halted m"
  "halted (AdvancePace now p b g m) = halted m"
  "halted (ClearImpaired m) = halted m"
  "halted (MarkUnverified m) = halted m"
  "halted (ResetDeadStreak m) = halted m"
  "halted (snd (IncrementDeadStreak m)) = halted m"
  "halted (ResumeFromSuspect m) = halted m"
  "halted (ClearUnverified m) = halted m"
  "halted (snd (MarkSuspect m)) = halted m"
  "halted (LogPersistentMismatch m) = halted m"
  by (simp_all add: EnterImpaired_def mDeferHedge_def QueueRetire_def AdvancePace_def
      ClearImpaired_def MarkUnverified_def ResetDeadStreak_def IncrementDeadStreak_def
      ResumeFromSuspect_def ClearUnverified_def MarkSuspect_def LogPersistentMismatch_def Let_def)

lemma debts_simps [simp]:
  "debts (EnterImpaired now b m) = debts m"
  "debts (mDeferHedge sy bu n now b m) = debts m @ [\<lparr>dSym = sy, dBuy = bu, dLots = n\<rparr>]"
  "debts (QueueRetire oid now b m) = debts m"
  "debts (AdvancePace now p b g m) = debts m"
  "debts (ClearImpaired m) = debts m"
  "debts (MarkUnverified m) = debts m"
  "debts (ResetDeadStreak m) = debts m"
  "debts (snd (IncrementDeadStreak m)) = debts m"
  "debts (ResumeFromSuspect m) = debts m"
  "debts (ClearUnverified m) = debts m"
  "debts (snd (MarkSuspect m)) = debts m"
  "debts (LogPersistentMismatch m) = debts m"
  "debts (snd (mHalt m)) = debts m"
  by (simp_all add: EnterImpaired_def mDeferHedge_def QueueRetire_def AdvancePace_def
      ClearImpaired_def MarkUnverified_def ResetDeadStreak_def IncrementDeadStreak_def mHalt_def
      ResumeFromSuspect_def ClearUnverified_def MarkSuspect_def LogPersistentMismatch_def Let_def)

lemma retireQ_simps [simp]:
  "retireQ (EnterImpaired now b m) = retireQ m"
  "retireQ (mDeferHedge sy bu n now b m) = retireQ m"
  "retireQ (QueueRetire oid now b m) = retireQ m @ [oid]"
  "retireQ (AdvancePace now p b g m) = retireQ m"
  "retireQ (ClearImpaired m) = retireQ m"
  "retireQ (MarkUnverified m) = retireQ m"
  "retireQ (ResetDeadStreak m) = retireQ m"
  "retireQ (snd (IncrementDeadStreak m)) = retireQ m"
  "retireQ (ResumeFromSuspect m) = retireQ m"
  "retireQ (ClearUnverified m) = retireQ m"
  "retireQ (snd (MarkSuspect m)) = retireQ m"
  "retireQ (LogPersistentMismatch m) = retireQ m"
  "retireQ (snd (mHalt m)) = retireQ m"
  by (simp_all add: EnterImpaired_def mDeferHedge_def QueueRetire_def AdvancePace_def
      ClearImpaired_def MarkUnverified_def ResetDeadStreak_def IncrementDeadStreak_def mHalt_def
      ResumeFromSuspect_def ClearUnverified_def MarkSuspect_def LogPersistentMismatch_def Let_def)

lemma impaired_simps [simp]:
  "impaired (EnterImpaired now b m) = (impaired m \<or> \<not> halted m)"
  "impaired (mDeferHedge sy bu n now b m) = (impaired m \<or> \<not> halted m)"
  "impaired (QueueRetire oid now b m) = (impaired m \<or> \<not> halted m)"
  "impaired (AdvancePace now p b g m) = impaired m"
  "\<not> impaired (ClearImpaired m)"
  "impaired (MarkUnverified m) = impaired m"
  "impaired (ResetDeadStreak m) = impaired m"
  "impaired (snd (IncrementDeadStreak m)) = impaired m"
  "impaired (ResumeFromSuspect m) = impaired m"
  "impaired (ClearUnverified m) = impaired m"
  "impaired (snd (MarkSuspect m)) = impaired m"
  "impaired (LogPersistentMismatch m) = impaired m"
  "impaired (snd (mHalt m)) = impaired m"
  by (simp_all add: EnterImpaired_def mDeferHedge_def QueueRetire_def AdvancePace_def
      ClearImpaired_def MarkUnverified_def ResetDeadStreak_def IncrementDeadStreak_def mHalt_def
      ResumeFromSuspect_def ClearUnverified_def MarkSuspect_def LogPersistentMismatch_def Let_def)

lemma mHalt_halted [simp]: "halted (snd (mHalt m))"
  by (simp add: mHalt_def)

subsection \<open>The retry pace\<close>

text \<open>\<open>n\<close> obligation cycles without progress.\<close>

fun stalls :: "duration \<Rightarrow> duration \<Rightarrow> time list \<Rightarrow> Machine \<Rightarrow> Machine" where
  "stalls base cap [] m = m"
| "stalls base cap (now # ts) m = stalls base cap ts (AdvancePace now False base cap m)"

lemma stalls_retryGap:
  assumes "0 \<le> retryGap m" and "retryGap m \<le> cap"
  shows "retryGap (stalls base cap ts m) = min cap (retryGap m * 2 ^ length ts)"
  using assms
proof (induction ts arbitrary: m)
  case Nil
  then show ?case by simp
next
  case (Cons t ts)
  let ?m = "AdvancePace t False base cap m"
  have g: "retryGap ?m = min cap (retryGap m * 2)"
    by (simp add: AdvancePace_def Let_def)
  have IH: "retryGap (stalls base cap ts ?m) = min cap (retryGap ?m * 2 ^ length ts)"
    using Cons.prems g by (intro Cons.IH) auto
  have cap0: "0 \<le> cap" using Cons.prems by simp
  have "min cap (min cap (retryGap m * 2) * 2 ^ length ts) = min cap (retryGap m * 2 * 2 ^ length ts)"
  proof (cases "retryGap m * 2 \<le> cap")
    case True
    then show ?thesis by (simp add: min_absorb2)
  next
    case False
    have p: "(1::int) \<le> 2 ^ length ts" by simp
    have "cap * 1 \<le> cap * 2 ^ length ts" by (rule mult_left_mono [OF p cap0])
    then have a: "cap \<le> cap * 2 ^ length ts" by simp
    have "cap * 2 ^ length ts \<le> (retryGap m * 2) * 2 ^ length ts"
      using False by (intro mult_right_mono) auto
    then have b: "cap \<le> (retryGap m * 2) * 2 ^ length ts" using a by linarith
    have c: "min cap (retryGap m * 2) = cap" using False by simp
    show ?thesis unfolding c using a b by (simp only: min_absorb1)
  qed
  then show ?case using IH g by (simp add: algebra_simps)
qed

text \<open>
  The retry pace backs off exponentially up to its cap: after \<open>n\<close> obligation cycles without
  progress the gap is the first gap doubled \<open>n\<close> times, never more than the cap, and the next retry
  is that gap after the last cycle.
\<close>

theorem retry_pace:
  assumes "0 \<le> retryGap m" and "retryGap m \<le> cap"
  shows "retryGap (stalls base cap ts m) = min cap (retryGap m * 2 ^ length ts)"
  by (rule stalls_retryGap [OF assms])

theorem retry_pace_witness:
  "retryGap (stalls 2 60 [1, 3, 7, 15, 31] (newMachine\<lparr>retryGap := 2\<rparr>)) = 60 \<and>
   retryGap (stalls 2 60 [1, 3] (newMachine\<lparr>retryGap := 2\<rparr>)) = 8"
  using retry_pace [of "newMachine\<lparr>retryGap := 2\<rparr>" 60 2 "[1, 3, 7, 15, 31]"]
    retry_pace [of "newMachine\<lparr>retryGap := 2\<rparr>" 60 2 "[1, 3]"]
  by simp

end
