(* ===== verification/EngineTypes.thy ===== *)
theory EngineTypes
  imports BrokerErrors QuoteBook OrderRegistry Recovery
begin

text \<open>
  The data of the execution engine: \<open>strategies/execengine/types.go\<close>, the configuration and the
  engine struct of \<open>engine.go\<close>, and the engine's ports to the outside world.

  Contract counts and durations are Go \<open>int\<close>s far from the 64-bit bounds and are modelled as
  integers; prices are finite \<open>float64\<close> values that the engine only copies and compares, and are
  modelled as reals. Pointers into the engine's own maps are modelled by lookups under the same
  key: no handler keeps an account pointer across a call that could replace the map entry.
\<close>

subsection \<open>Decisions\<close>

datatype exec_mode = ExecDefault | ExecTaker | ExecSoloMaker | ExecDualPassive | ExecSoloMakerLegB

fun modeName :: "exec_mode \<Rightarrow> string" where
  "modeName ExecTaker = ''taker''"
| "modeName ExecSoloMaker = ''solo_maker''"
| "modeName ExecDualPassive = ''maker''"
| "modeName ExecSoloMakerLegB = ''solo_maker_perp''"
| "modeName ExecDefault = ''default''"

record Intent =
  Action :: int
  IsClose :: bool
  OpenPrice :: real
  Lots :: int
  inExecMode :: exec_mode

definition actionHold :: int where
  "actionHold = 0"

record 'g RowState =
  rsTime :: time
  Signal :: 'g

record legOrder =
  lo_id :: string
  lo_price :: real
  isBid :: bool
  lastRepeg :: time
  placedAt :: time

record clip =
  dir :: int
  intent :: Intent
  target :: int
  legA :: legOrder
  legB :: legOrder
  makerID :: string
  makerFilled :: int
  mode :: exec_mode
  deadline :: time

subsection \<open>Configuration\<close>

record EngineConfig =
  LegA :: string
  LegB :: string
  OrderVol :: int
  FillTimeout :: duration
  HedgeRetries :: int
  MaxStaleness :: duration
  ReconcileInterval :: duration
  PlaceRetryBackoff :: duration
  RejectRetryLotStep :: int
  RejectRetryMinLots :: int
  RepegThrottle :: duration
  MinRest :: duration
  LogTag :: string
  DisableRepeg :: bool
  SoloMakerLeg :: bool
  HedgeRatio :: int
  TakerOnly :: bool
  ForceCloseOnTimeout :: bool
  KeepPartialOpenOnTimeout :: bool
  TakerConfirmTimeout :: duration
  PullOnStaleBook :: bool

subsection \<open>Ports\<close>

text \<open>
  Everything the engine talks to is an interface in Go (\<open>Maker\<close>, \<open>Taker\<close>, \<open>Limiter\<close>, \<open>Clock\<close>,
  \<open>FillSink\<close>, \<open>Decider\<close>, \<open>Persister\<close>), so each method is a parameter: a state transformer on a
  world \<open>'w\<close> the engine never inspects. \<open>Place True\<close> is \<open>PlaceBid\<close>, \<open>Place False\<close> is
  \<open>PlaceAsk\<close>; \<open>Take True\<close> is \<open>Buy\<close>, \<open>Take False\<close> is \<open>Sell\<close>. \<open>Peek\<close> and \<open>Position\<close> are documented
  not to change the decider. Two ports stand for the nondeterminism of the Go runtime:
  \<open>MapOrder\<close>, the order in which a \<open>range\<close> visits a map, and \<open>RaceAFirst\<close>, which of the two
  concurrent taker-only placements reaches the broker first.

  The record also holds the fields of \<open>Engine\<close> that are set before the first event and never
  assigned again: the configuration and whether a fill sink is installed.
\<close>

record ('w, 'g) Wiring =
  cfg :: EngineConfig
  Place :: "bool \<Rightarrow> string \<Rightarrow> int \<Rightarrow> real \<Rightarrow> ('w, go_error + string) state"
  Cancel :: "string \<Rightarrow> ('w, go_error + int) state"
  Status :: "string \<Rightarrow> ('w, go_error + int \<times> bool) state"
  Take :: "bool \<Rightarrow> string \<Rightarrow> int \<Rightarrow> ('w, go_error + string) state"
  LimAllow :: "time \<Rightarrow> int \<Rightarrow> ('w, bool \<times> time) state"
  LimSpend :: "time \<Rightarrow> int \<Rightarrow> ('w, unit) state"
  ClockNow :: "('w, time) state"
  hasSink :: bool
  SinkFill :: "string \<Rightarrow> bool \<Rightarrow> int \<Rightarrow> real \<Rightarrow> ('w, unit) state"
  SinkAmend :: "string \<Rightarrow> bool \<Rightarrow> int \<Rightarrow> real \<Rightarrow> real \<Rightarrow> ('w, unit) state"
  Peek :: "'g RowState \<Rightarrow> 'w \<Rightarrow> Intent"
  DeciderCommit :: "Intent \<Rightarrow> time \<Rightarrow> ('w, unit) state"
  DeciderPosition :: "'w \<Rightarrow> int"
  SaveLots :: "('w, unit) state option"
  MapOrder :: "string list \<Rightarrow> 'w \<Rightarrow> string list"
  RaceAFirst :: "'w \<Rightarrow> bool"

subsection \<open>Engine state\<close>

text \<open>
  What the engine did to the outside, newest first. It is a ghost of the model: no operation reads
  it. A sink fill carries the id of the order whose account it credits.
\<close>

datatype effect =
    EPlace string bool int real "string option"
  | ETake string bool int "string option"
  | ECancel string
  | ESpend int
  | EFill string string bool int real
  | EAmend string string bool int real real
  | ECommit Intent

record 'w Engine =
  quote :: Book
  clip :: "clip option"
  recovery :: Machine
  now :: time
  pending :: PendingSet
  own :: Ledger
  world :: 'w
  elog :: "effect list"

type_synonym ('w, 'a) eng = "('w Engine, 'a) state"

abbreviation Halted :: "'w Engine \<Rightarrow> bool" where
  "Halted s \<equiv> halted (recovery s)"

abbreviation Impaired :: "'w Engine \<Rightarrow> bool" where
  "Impaired s \<equiv> impaired (recovery s)"

subsection \<open>Access to the state\<close>

definition rpc :: "('w, 'a) state \<Rightarrow> ('w, 'a) eng" where
  "rpc m = State (\<lambda>s. case run_state m (world s) of (a, w) \<Rightarrow> (a, s\<lparr>world := w\<rparr>))"

definition emit :: "effect \<Rightarrow> ('w, unit) eng" where
  "emit x = modify (\<lambda>s. s\<lparr>elog := x # elog s\<rparr>)"

definition with_recovery :: "(Machine \<Rightarrow> Machine) \<Rightarrow> ('w, unit) eng" where
  "with_recovery f = modify (\<lambda>s. s\<lparr>recovery := f (recovery s)\<rparr>)"

definition set_clip :: "clip option \<Rightarrow> ('w, unit) eng" where
  "set_clip c = modify (\<lambda>s. s\<lparr>clip := c\<rparr>)"

definition upd_acct :: "string \<Rightarrow> (OrdAcct \<Rightarrow> OrdAcct) \<Rightarrow> ('w, unit) eng" where
  "upd_acct oid f = modify (\<lambda>s. s\<lparr>own := (own s)(oid := map_option f (own s oid))\<rparr>)"

definition set_acct :: "string \<Rightarrow> OrdAcct \<Rightarrow> ('w, unit) eng" where
  "set_acct oid a = modify (\<lambda>s. s\<lparr>own := (own s)(oid \<mapsto> a)\<rparr>)"

definition set_pending :: "(PendingSet \<Rightarrow> PendingSet) \<Rightarrow> ('w, unit) eng" where
  "set_pending f = modify (\<lambda>s. s\<lparr>pending := f (pending s)\<rparr>)"

definition set_quote :: "(Book \<Rightarrow> Book) \<Rightarrow> ('w, unit) eng" where
  "set_quote f = modify (\<lambda>s. s\<lparr>quote := f (quote s)\<rparr>)"

lemma wp_rpc [simp]:
  "wp (rpc m) Q s = (case run_state m (world s) of (a, w) \<Rightarrow> Q a (s\<lparr>world := w\<rparr>))"
  by (simp add: wp_def rpc_def split: prod.split)

lemma wp_emit [simp]: "wp (emit x) Q s = Q () (s\<lparr>elog := x # elog s\<rparr>)"
  by (simp add: emit_def)

lemma wp_with_recovery [simp]: "wp (with_recovery f) Q s = Q () (s\<lparr>recovery := f (recovery s)\<rparr>)"
  by (simp add: with_recovery_def)

lemma wp_set_clip [simp]: "wp (set_clip c) Q s = Q () (s\<lparr>clip := c\<rparr>)"
  by (simp add: set_clip_def)

lemma wp_upd_acct [simp]:
  "wp (upd_acct oid f) Q s = Q () (s\<lparr>own := (own s)(oid := map_option f (own s oid))\<rparr>)"
  by (simp add: upd_acct_def)

lemma wp_set_acct [simp]: "wp (set_acct oid a) Q s = Q () (s\<lparr>own := (own s)(oid \<mapsto> a)\<rparr>)"
  by (simp add: set_acct_def)

lemma wp_set_pending [simp]: "wp (set_pending f) Q s = Q () (s\<lparr>pending := f (pending s)\<rparr>)"
  by (simp add: set_pending_def)

lemma wp_set_quote [simp]: "wp (set_quote f) Q s = Q () (s\<lparr>quote := f (quote s)\<rparr>)"
  by (simp add: set_quote_def)

subsection \<open>Calls to the ports\<close>

text \<open>
  The port calls that several operations issue, with the effect each leaves in the log.
  \<open>limiter.Spend(clock.Now(), 1)\<close> reads the processing clock right after the placement returns.
\<close>

definition err_of :: "go_error + 'a \<Rightarrow> go_error option" where
  "err_of r = (case r of Inl e \<Rightarrow> Some e | Inr _ \<Rightarrow> None)"

definition id_of :: "go_error + string \<Rightarrow> string option" where
  "id_of r = (case r of Inl _ \<Rightarrow> None | Inr i \<Rightarrow> Some i)"

definition spendOne :: "('w, 'g) Wiring \<Rightarrow> ('w, unit) eng" where
  "spendOne P = do {
     t \<leftarrow> rpc (ClockNow P);
     rpc (LimSpend P t 1);
     emit (ESpend 1)
   }"

definition cancelRPC :: "('w, 'g) Wiring \<Rightarrow> string \<Rightarrow> ('w, go_error + int) eng" where
  "cancelRPC P oid = do {
     r \<leftarrow> rpc (Cancel P oid);
     emit (ECancel oid);
     ret r
   }"

definition sinkFill :: "('w, 'g) Wiring \<Rightarrow> string \<Rightarrow> string \<Rightarrow> bool \<Rightarrow> int \<Rightarrow> real \<Rightarrow> ('w, unit) eng" where
  "sinkFill P oid symb buy lots price = do {
     rpc (SinkFill P symb buy lots price);
     emit (EFill oid symb buy lots price)
   }"

definition sinkAmend ::
  "('w, 'g) Wiring \<Rightarrow> string \<Rightarrow> string \<Rightarrow> bool \<Rightarrow> int \<Rightarrow> real \<Rightarrow> real \<Rightarrow> ('w, unit) eng" where
  "sinkAmend P oid symb buy lots from to = do {
     rpc (SinkAmend P symb buy lots from to);
     emit (EAmend oid symb buy lots from to)
   }"

subsection \<open>Configuration helpers\<close>

definition placeBackoff :: "('w, 'g) Wiring \<Rightarrow> duration" where
  "placeBackoff P =
     (if PlaceRetryBackoff (cfg P) > 0 then PlaceRetryBackoff (cfg P) else 2 * second)"

definition takerConfirmAfter :: "('w, 'g) Wiring \<Rightarrow> duration" where
  "takerConfirmAfter P =
     (if TakerConfirmTimeout (cfg P) > 0 then TakerConfirmTimeout (cfg P) else 10 * second)"

definition repegThrottle :: "('w, 'g) Wiring \<Rightarrow> duration" where
  "repegThrottle P =
     (if RepegThrottle (cfg P) > 0 then RepegThrottle (cfg P) else 500 * millisecond)"

definition hedgeRatio :: "('w, 'g) Wiring \<Rightarrow> int" where
  "hedgeRatio P = (if HedgeRatio (cfg P) > 1 then HedgeRatio (cfg P) else 1)"

definition hedgeLots :: "('w, 'g) Wiring \<Rightarrow> string \<Rightarrow> int \<Rightarrow> int" where
  "hedgeLots P symb lotsA = (if symb = LegB (cfg P) then lotsA * hedgeRatio P else lotsA)"

definition clipExecMode :: "('w, 'g) Wiring \<Rightarrow> Intent \<Rightarrow> exec_mode" where
  "clipExecMode P i =
     (let m = (if inExecMode i = ExecDefault
               then (if TakerOnly (cfg P) then ExecTaker
                     else if SoloMakerLeg (cfg P) then ExecSoloMaker
                     else ExecDualPassive)
               else inExecMode i)
      in if (m = ExecDualPassive \<or> m = ExecSoloMakerLegB) \<and> HedgeRatio (cfg P) > 1
         then ExecSoloMaker else m)"

definition takerProbeEvery :: duration where
  "takerProbeEvery = 3 * second"

definition takerDeadLimit :: int where
  "takerDeadLimit = 3"

definition impairedRetryMax :: duration where
  "impairedRetryMax = 60 * second"

definition rejectFloor :: "('w, 'g) Wiring \<Rightarrow> int" where
  "rejectFloor P =
     (if RejectRetryMinLots (cfg P) < 1 then 1 else RejectRetryMinLots (cfg P))"

definition newestPlacement :: "clip \<Rightarrow> time" where
  "newestPlacement c =
     (let t = (if lo_id (legA c) \<noteq> '''' \<and> placedAt (legA c) > 0 then placedAt (legA c) else 0)
      in if lo_id (legB c) \<noteq> '''' \<and> placedAt (legB c) > t then placedAt (legB c) else t)"

lemma placeBackoff_pos [simp]: "0 < placeBackoff P"
  by (simp add: placeBackoff_def)

lemma takerConfirmAfter_pos [simp]: "0 < takerConfirmAfter P"
  by (simp add: takerConfirmAfter_def)

lemma hedgeRatio_pos [simp]: "0 < hedgeRatio P" "1 \<le> hedgeRatio P"
  by (auto simp: hedgeRatio_def)

lemma rejectFloor_pos [simp]: "0 < rejectFloor P" "1 \<le> rejectFloor P"
  by (auto simp: rejectFloor_def)

text \<open>A clip's shape is always concrete, and LegB never rests at a hedge ratio.\<close>

lemma clipExecMode_concrete: "clipExecMode P i \<noteq> ExecDefault"
  by (auto simp: clipExecMode_def Let_def)

lemma clipExecMode_ratio:
  "HedgeRatio (cfg P) > 1 \<Longrightarrow> clipExecMode P i = ExecTaker \<or> clipExecMode P i = ExecSoloMaker"
  by (cases "inExecMode i") (auto simp: clipExecMode_def Let_def)

end
