(* ===== verification/EngineOrders.thy ===== *)
theory EngineOrders
  imports EngineTypes
begin

text \<open>
  Retiring an order and hedging with takers: the parts of \<open>engine_orders.go\<close>,
  \<open>engine_hedge.go\<close> and \<open>engine_recovery.go\<close> that do not touch the working clip. One definition
  per method, in the state monad of the engine; log lines are left out.
\<close>

subsection \<open>Deferring obligations (engine\_recovery.go)\<close>

definition deferRetire :: "('w, 'g) Wiring \<Rightarrow> string \<Rightarrow> ('w, unit) eng" where
  "deferRetire P oid = do {
     s \<leftarrow> get_state;
     case own s oid of
       None \<Rightarrow> skip
     | Some acct \<Rightarrow>
         if Deferred acct then skip
         else do {
           upd_acct oid (\<lambda>a. a\<lparr>Deferred := True\<rparr>);
           with_recovery (QueueRetire oid (now s) (placeBackoff P))
         }
   }"

definition deferHedge :: "('w, 'g) Wiring \<Rightarrow> string \<Rightarrow> bool \<Rightarrow> int \<Rightarrow> ('w, unit) eng" where
  "deferHedge P symb buy lots = do {
     t \<leftarrow> gets now;
     with_recovery (mDeferHedge symb buy lots t (placeBackoff P))
   }"

subsection \<open>Retiring an order (engine\_orders.go)\<close>

definition finishRetire :: "('w, 'g) Wiring \<Rightarrow> string \<Rightarrow> int \<Rightarrow> ('w, unit) eng" where
  "finishRetire P oid executed = do {
     s \<leftarrow> get_state;
     case own s oid of
       None \<Rightarrow> skip
     | Some acct \<Rightarrow>
         let fin = (if Placed acct > 0 \<and> executed > Placed acct then Placed acct else executed)
         in do {
           upd_acct oid (\<lambda>a. a\<lparr>Final := fin\<rparr>);
           whenM (hasSink P \<and> fin > Credited acct) (do {
             sinkFill P oid (Sym acct) (IsBuy acct) (fin - Credited acct) (Price acct);
             upd_acct oid (\<lambda>a. a\<lparr>Credited := fin\<rparr>)
           })
         }
   }"

text \<open>
  The executed count a retirement is settled with: the cancel, its one retry, then a terminal
  status; \<open>None\<close> when none of them answers.
\<close>

definition askRetired :: "('w, 'g) Wiring \<Rightarrow> string \<Rightarrow> ('w, int option) eng" where
  "askRetired P oid = do {
     r1 \<leftarrow> cancelRPC P oid;
     r2 \<leftarrow> (case r1 of Inr n \<Rightarrow> ret (Inr n) | Inl e \<Rightarrow> cancelRPC P oid);
     case r2 of
       Inr n \<Rightarrow> ret (Some n)
     | Inl e \<Rightarrow> do {
         r3 \<leftarrow> rpc (Status P oid);
         case r3 of
           Inl e' \<Rightarrow> ret None
         | Inr (n, terminal) \<Rightarrow> ret (if terminal then Some n else None)
       }
   }"

text \<open>The gap: lots the broker confirmed and the engine had not acted on.\<close>

definition foldGap :: "string \<Rightarrow> ('w, int) eng" where
  "foldGap oid = do {
     s \<leftarrow> get_state;
     case own s oid of
       None \<Rightarrow> ret 0
     | Some a \<Rightarrow>
         let gap = Final a - Folded a
         in if gap \<le> 0 then ret 0
            else do {
              upd_acct oid (\<lambda>b. b\<lparr>Folded := Final a\<rparr>);
              ret gap
            }
   }"

definition retireOrder :: "('w, 'g) Wiring \<Rightarrow> string \<Rightarrow> ('w, int) eng" where
  "retireOrder P oid = do {
     s \<leftarrow> get_state;
     case own s oid of
       None \<Rightarrow> ret 0
     | Some acct \<Rightarrow>
         if Deferred acct then ret 0
         else if Final acct < 0 then do {
           r \<leftarrow> askRetired P oid;
           case r of
             None \<Rightarrow> do { deferRetire P oid; ret 0 }
           | Some executed \<Rightarrow> do { finishRetire P oid executed; foldGap oid }
         }
         else foldGap oid
   }"

subsection \<open>Taker placement (engine\_hedge.go)\<close>

definition placeTakerRPC ::
  "('w, 'g) Wiring \<Rightarrow> string \<Rightarrow> bool \<Rightarrow> int \<Rightarrow> ('w, go_error + string) eng" where
  "placeTakerRPC P symb buy lots = do {
     r \<leftarrow> rpc (Take P buy symb lots);
     emit (ETake symb buy lots (id_of r));
     ret r
   }"

definition commitTakerPlacement ::
  "('w, 'g) Wiring \<Rightarrow> string \<Rightarrow> bool \<Rightarrow> int \<Rightarrow> go_error + string \<Rightarrow> ('w, bool) eng" where
  "commitTakerPlacement P symb buy lots r = do {
     spendOne P;
     case r of
       Inl e \<Rightarrow> ret False
     | Inr oid \<Rightarrow> do {
         s \<leftarrow> get_state;
         let price = CrossPrice symb buy (quote s);
         if oid = '''' then do {
           with_recovery MarkUnverified;
           whenM (hasSink P) (sinkFill P '''' symb buy lots price);
           ret True
         }
         else do {
           let reused = own s oid \<noteq> None;
           whenM reused (with_recovery MarkUnverified);
           set_acct oid (takerAcct symb buy lots (now s));
           set_pending (if reused then pending_delete oid else pending_add oid);
           whenM (hasSink P) (do {
             upd_acct oid (\<lambda>a. a\<lparr>Price := price\<rparr>);
             sinkFill P oid symb buy lots price;
             upd_acct oid (\<lambda>a. a\<lparr>Credited := lots\<rparr>)
           });
           ret True
         }
       }
   }"

definition tryPlaceTaker :: "('w, 'g) Wiring \<Rightarrow> string \<Rightarrow> bool \<Rightarrow> int \<Rightarrow> ('w, bool) eng" where
  "tryPlaceTaker P symb buy lots = do {
     r \<leftarrow> placeTakerRPC P symb buy lots;
     commitTakerPlacement P symb buy lots r
   }"

text \<open>
  The loop of \<open>shrinkTakerChase\<close>; \<open>sz\<close> (Go's \<open>size\<close>) and \<open>lots\<close> are its variables. The caller enters it only
  with a positive step; with a step of zero or less the Go loop need not end, and the model's loop
  is not entered.
\<close>

function chaseLoop ::
  "('w, 'g) Wiring \<Rightarrow> string \<Rightarrow> bool \<Rightarrow> int \<Rightarrow> int \<Rightarrow> ('w, int) eng" where
  "chaseLoop P symb buy sz lots =
     (if sz \<ge> rejectFloor P \<and> sz > 0 \<and> RejectRetryLotStep (cfg P) > 0 then do {
        r \<leftarrow> placeTakerRPC P symb buy sz;
        ok \<leftarrow> commitTakerPlacement P symb buy sz r;
        if ok then
          (if lots - sz \<le> 0 then ret 0
           else chaseLoop P symb buy (if sz > lots - sz then lots - sz else sz) (lots - sz))
        else if MaybeDelivered (err_of r) then ret lots
        else chaseLoop P symb buy (sz - RejectRetryLotStep (cfg P)) lots
      }
      else ret lots)"
  by pat_completeness auto
termination
  by (relation "measure (\<lambda>(P, symb, buy, sz, lots). nat sz + nat lots)") auto

declare chaseLoop.simps [simp del]

definition shrinkTakerChase ::
  "('w, 'g) Wiring \<Rightarrow> string \<Rightarrow> bool \<Rightarrow> int \<Rightarrow> ('w, int) eng" where
  "shrinkTakerChase P symb buy lots = chaseLoop P symb buy lots lots"

text \<open>The attempts of \<open>takerRetryPlain\<close>; the number counts the iterations left.\<close>

fun tryTakers ::
  "('w, 'g) Wiring \<Rightarrow> string \<Rightarrow> bool \<Rightarrow> int \<Rightarrow> nat \<Rightarrow> ('w, bool) eng" where
  "tryTakers P symb buy lots 0 = ret False"
| "tryTakers P symb buy lots (Suc n) = do {
     ok \<leftarrow> tryPlaceTaker P symb buy lots;
     if ok then ret True else tryTakers P symb buy lots n
   }"

definition takerRetryPlain ::
  "('w, 'g) Wiring \<Rightarrow> string \<Rightarrow> bool \<Rightarrow> int \<Rightarrow> int \<Rightarrow> ('w, unit) eng" where
  "takerRetryPlain P symb buy lots from =
     (let attempts = (if HedgeRetries (cfg P) < 1 then 1 else HedgeRetries (cfg P))
      in do {
        ok \<leftarrow> tryTakers P symb buy lots (nat (attempts - from));
        if ok then skip else deferHedge P symb buy lots
      })"

definition takerRetryFrom ::
  "('w, 'g) Wiring \<Rightarrow> string \<Rightarrow> bool \<Rightarrow> int \<Rightarrow> int \<Rightarrow> ('w, unit) eng" where
  "takerRetryFrom P symb buy lots from =
     (if RejectRetryLotStep (cfg P) > 0 then do {
        left \<leftarrow> shrinkTakerChase P symb buy lots;
        if left \<le> 0 then skip else takerRetryPlain P symb buy left from
      }
      else takerRetryPlain P symb buy lots from)"

definition takerRetry :: "('w, 'g) Wiring \<Rightarrow> string \<Rightarrow> bool \<Rightarrow> int \<Rightarrow> ('w, unit) eng" where
  "takerRetry P symb buy lots = do {
     s \<leftarrow> get_state;
     if Halted s then skip else takerRetryFrom P symb buy lots 0
   }"

definition hedge :: "('w, 'g) Wiring \<Rightarrow> string \<Rightarrow> bool \<Rightarrow> int \<Rightarrow> ('w, unit) eng" where
  "hedge P symb buy lots = takerRetry P symb buy lots"

definition hedgeStrayMakerFill ::
  "('w, 'g) Wiring \<Rightarrow> string \<Rightarrow> bool \<Rightarrow> int \<Rightarrow> ('w, unit) eng" where
  "hedgeStrayMakerFill P symb buy lots =
     (if lots \<le> 0 then skip
      else if symb \<noteq> LegA (cfg P) \<and> symb \<noteq> LegB (cfg P) then skip
      else
        let other = (if symb = LegA (cfg P) then LegB (cfg P) else LegA (cfg P))
        in do {
          s \<leftarrow> get_state;
          if Halted s then skip
          else if symb = LegB (cfg P) \<and> hedgeRatio P > 1 then skip
          else hedge P other (\<not> buy) (hedgeLots P other lots)
        })"

subsection \<open>Taker confirmation (engine\_hedge.go)\<close>

text \<open>The terminal count, clamped to the placed size and never below what the fill stream reported.\<close>

definition takerExecuted :: "OrdAcct \<Rightarrow> int \<Rightarrow> int" where
  "takerExecuted acct reported =
     (let e = (if Placed acct > 0 \<and> reported > Placed acct then Placed acct else reported)
      in if e < Seen acct then Seen acct else e)"

definition settleTaker :: "('w, 'g) Wiring \<Rightarrow> string \<Rightarrow> int \<Rightarrow> ('w, unit) eng" where
  "settleTaker P oid reported = do {
     s \<leftarrow> get_state;
     case own s oid of
       None \<Rightarrow> skip
     | Some acct \<Rightarrow>
         let executed = takerExecuted acct reported;
             shortfall = Placed acct - executed;
             uncredit = Credited acct - executed
         in do {
           upd_acct oid (\<lambda>a. a\<lparr>Final := executed\<rparr>);
           set_pending (pending_delete oid);
           if shortfall \<le> 0 then with_recovery ResetDeadStreak
           else do {
             whenM (uncredit > 0 \<and> hasSink P) (do {
               sinkFill P oid (Sym acct) (\<not> IsBuy acct) uncredit (Price acct);
               upd_acct oid (\<lambda>a. a\<lparr>Credited := executed\<rparr>)
             });
             m \<leftarrow> gets recovery;
             let (streak, m') = IncrementDeadStreak m;
             with_recovery (\<lambda>_. m');
             if streak \<ge> takerDeadLimit then deferHedge P (Sym acct) (IsBuy acct) shortfall
             else takerRetry P (Sym acct) (IsBuy acct) shortfall
           }
         }
   }"

definition confirmDeadTaker :: "('w, 'g) Wiring \<Rightarrow> string \<Rightarrow> ('w, unit) eng" where
  "confirmDeadTaker P oid = do {
     r \<leftarrow> rpc (Status P oid);
     case r of
       Inl e \<Rightarrow> upd_acct oid (\<lambda>a. a\<lparr>DeadSeen := True\<rparr>)
     | Inr (executed, terminal) \<Rightarrow>
         if \<not> terminal then upd_acct oid (\<lambda>a. a\<lparr>DeadSeen := True\<rparr>)
         else settleTaker P oid executed
   }"

text \<open>
  One iteration of \<open>checkPendingTakers\<close>; the result says whether the loop goes on (\<open>False\<close> is the
  return on a halt). Go's \<open>range\<close> does not visit an id deleted before it is reached; whether it
  visits an id inserted during the loop does not matter, since an account placed at the loop's
  own time is inside its confirm window and is left alone.
\<close>

definition checkPendingTaker :: "('w, 'g) Wiring \<Rightarrow> time \<Rightarrow> string \<Rightarrow> ('w, bool) eng" where
  "checkPendingTaker P t oid = do {
     s \<leftarrow> get_state;
     if oid \<notin> set (pending s) then ret True
     else case own s oid of
       None \<Rightarrow> do { set_pending (pending_delete oid); ret True }
     | Some acct \<Rightarrow>
         if Final acct \<ge> 0 then do { set_pending (pending_delete oid); ret True }
         else if Seen acct \<ge> Placed acct then do {
           upd_acct oid (\<lambda>a. a\<lparr>Final := Placed acct\<rparr>);
           with_recovery ResetDeadStreak;
           set_pending (pending_delete oid);
           ret True
         }
         else if \<not> DeadSeen acct \<and> time_sub t (PlacedAt acct) < takerConfirmAfter P then ret True
         else if LastProbe acct \<noteq> 0 \<and> time_sub t (LastProbe acct) < takerProbeEvery then ret True
         else do {
           upd_acct oid (\<lambda>a. a\<lparr>LastProbe := t, ProbeLogged := True\<rparr>);
           r \<leftarrow> rpc (Status P oid);
           case r of
             Inl e \<Rightarrow> ret True
           | Inr (executed, terminal) \<Rightarrow>
               if \<not> terminal then ret True
               else do {
                 settleTaker P oid executed;
                 h \<leftarrow> gets (\<lambda>s. Halted s);
                 ret (\<not> h)
               }
         }
   }"

fun checkPendingLoop :: "('w, 'g) Wiring \<Rightarrow> time \<Rightarrow> string list \<Rightarrow> ('w, unit) eng" where
  "checkPendingLoop P t [] = skip"
| "checkPendingLoop P t (oid # oids) = do {
     go \<leftarrow> checkPendingTaker P t oid;
     if go then checkPendingLoop P t oids else skip
   }"

definition checkPendingTakers :: "('w, 'g) Wiring \<Rightarrow> time \<Rightarrow> ('w, unit) eng" where
  "checkPendingTakers P t = do {
     s \<leftarrow> get_state;
     checkPendingLoop P t (MapOrder P (pending s) (world s))
   }"

definition awaitingTaker :: "('w, 'g) Wiring \<Rightarrow> time \<Rightarrow> 'w Engine \<Rightarrow> bool" where
  "awaitingTaker P t s =
     list_ex (\<lambda>oid. case own s oid of
         None \<Rightarrow> False
       | Some acct \<Rightarrow> \<not> Confirmed acct \<and>
           (DeadSeen acct \<or> time_sub t (PlacedAt acct) \<ge> takerConfirmAfter P))
       (pending s)"

subsection \<open>The obligation loop's retire step (engine\_recovery.go)\<close>

definition askDeferred :: "('w, 'g) Wiring \<Rightarrow> string \<Rightarrow> ('w, int option) eng" where
  "askDeferred P oid = do {
     r \<leftarrow> cancelRPC P oid;
     case r of
       Inr n \<Rightarrow> ret (Some n)
     | Inl e \<Rightarrow> do {
         r2 \<leftarrow> rpc (Status P oid);
         case r2 of
           Inl e' \<Rightarrow> ret None
         | Inr (n, terminal) \<Rightarrow> ret (if terminal then Some n else None)
       }
   }"

definition resolveDeferred :: "('w, 'g) Wiring \<Rightarrow> string \<Rightarrow> ('w, unit) eng" where
  "resolveDeferred P oid = do {
     upd_acct oid (\<lambda>a. a\<lparr>Deferred := False\<rparr>);
     s \<leftarrow> get_state;
     case own s oid of
       None \<Rightarrow> skip
     | Some a \<Rightarrow>
         let gap = Final a - Folded a
         in if gap > 0 then do {
              upd_acct oid (\<lambda>b. b\<lparr>Folded := Final a\<rparr>);
              hedgeStrayMakerFill P (Sym a) (IsBuy a) gap
            }
            else skip
   }"

definition tryDeferredRetire :: "('w, 'g) Wiring \<Rightarrow> string \<Rightarrow> ('w, bool) eng" where
  "tryDeferredRetire P oid = do {
     s \<leftarrow> get_state;
     case own s oid of
       None \<Rightarrow> ret True
     | Some acct \<Rightarrow> do {
         r \<leftarrow> (if Final acct < 0 then do {
                 q \<leftarrow> askDeferred P oid;
                 case q of
                   None \<Rightarrow> ret False
                 | Some executed \<Rightarrow> do { finishRetire P oid executed; ret True }
               }
               else ret True);
         if r then do { resolveDeferred P oid; ret True } else ret False
       }
   }"

end
