(* ===== verification/EngineClip.thy ===== *)
theory EngineClip
  imports EngineOrders
begin

text \<open>
  The clip lifecycle of \<open>engine_clip.go\<close>: open (post the passives or cross both legs), work,
  settle the pair, commit to the decider. At most one clip is in flight. Go keeps a pointer to the
  clip in a local while it calls on; nothing those calls run writes the fields read afterwards, so
  the local is a value here.
\<close>

subsection \<open>Settling and committing\<close>

definition settleClip :: "('w, 'g) Wiring \<Rightarrow> int \<Rightarrow> int \<Rightarrow> bool \<Rightarrow> ('w, unit) eng" where
  "settleClip P realA0 realB0 toTarget = do {
     s \<leftarrow> get_state;
     case clip s of
       None \<Rightarrow> skip
     | Some c \<Rightarrow> do {
         gA \<leftarrow> retireOrder P (lo_id (legA c));
         gB \<leftarrow> retireOrder P (lo_id (legB c));
         let realA = realA0 + gA;
         let realB = realB0 + gB;
         let want0 = max realA realB;
         let want = (if toTarget then max want0 (target c) else want0);
         if realA = want \<and> realB = want then skip
         else do {
           h \<leftarrow> gets (\<lambda>s. Halted s);
           if h then skip
           else do {
             whenM (realA < want) (takerRetry P (LegA (cfg P)) (isBid (legA c)) (want - realA));
             whenM (realB < want)
               (takerRetry P (LegB (cfg P)) (isBid (legB c))
                  (hedgeLots P (LegB (cfg P)) (want - realB)))
           }
         }
       }
   }"

definition CancelClip :: "('w, 'g) Wiring \<Rightarrow> ('w, unit) eng" where
  "CancelClip P = do {
     s \<leftarrow> get_state;
     case clip s of
       None \<Rightarrow> skip
     | Some c \<Rightarrow> do {
         settleClip P (makerFilled c) (makerFilled c) False;
         set_clip None
       }
   }"

definition deciderCommit :: "('w, 'g) Wiring \<Rightarrow> Intent \<Rightarrow> time \<Rightarrow> ('w, unit) eng" where
  "deciderCommit P i ts = do {
     rpc (DeciderCommit P i ts);
     emit (ECommit i);
     case SaveLots P of None \<Rightarrow> skip | Some save \<Rightarrow> rpc save
   }"

definition commitClip :: "('w, 'g) Wiring \<Rightarrow> time \<Rightarrow> ('w, unit) eng" where
  "commitClip P ts = do {
     s \<leftarrow> get_state;
     case clip s of
       None \<Rightarrow> skip
     | Some c \<Rightarrow> do {
         deciderCommit P (intent c) ts;
         set_clip None;
         if makerID c \<noteq> '''' then do {
           gap \<leftarrow> retireOrder P (makerID c);
           h \<leftarrow> gets (\<lambda>s. Halted s);
           if gap > 0 \<and> \<not> h then
             (if makerID c = lo_id (legA c)
              then takerRetry P (LegB (cfg P)) (isBid (legB c)) (hedgeLots P (LegB (cfg P)) gap)
              else takerRetry P (LegA (cfg P)) (isBid (legA c)) gap)
           else skip
         }
         else skip
       }
   }"

definition abandonClip :: "('w, 'g) Wiring \<Rightarrow> time \<Rightarrow> ('w, unit) eng" where
  "abandonClip P ts = do {
     s \<leftarrow> get_state;
     case clip s of
       None \<Rightarrow> skip
     | Some c \<Rightarrow>
         if \<not> IsClose (intent c) \<and> KeepPartialOpenOnTimeout (cfg P) then CancelClip P
         else do {
           gA \<leftarrow> retireOrder P (lo_id (legA c));
           gB \<leftarrow> retireOrder P (lo_id (legB c));
           s2 \<leftarrow> get_state;
           if Halted s2 \<or> clip s2 = None then skip
           else if gA = 0 \<and> gB = 0 then set_clip None
           else do {
             settleClip P gA gB True;
             h \<leftarrow> gets (\<lambda>s. Halted s);
             if h then skip else commitClip P ts
           }
         }
   }"

definition completeClip :: "('w, 'g) Wiring \<Rightarrow> time \<Rightarrow> ('w, unit) eng" where
  "completeClip P ts = do {
     s \<leftarrow> get_state;
     case clip s of
       None \<Rightarrow> skip
     | Some c \<Rightarrow> do {
         settleClip P (makerFilled c) (makerFilled c) True;
         h \<leftarrow> gets (\<lambda>s. Halted s);
         if h then skip else commitClip P ts
       }
   }"

definition resolveClip :: "('w, 'g) Wiring \<Rightarrow> time \<Rightarrow> ('w, unit) eng" where
  "resolveClip P ts = do {
     s \<leftarrow> get_state;
     case clip s of
       None \<Rightarrow> skip
     | Some c \<Rightarrow>
         if makerFilled c = 0 \<and> (\<not> ForceCloseOnTimeout (cfg P) \<or> \<not> IsClose (intent c))
         then abandonClip P ts
         else if \<not> IsClose (intent c) \<and> KeepPartialOpenOnTimeout (cfg P) then CancelClip P
         else completeClip P ts
   }"

definition checkTimeout :: "('w, 'g) Wiring \<Rightarrow> time \<Rightarrow> ('w, unit) eng" where
  "checkTimeout P ts = do {
     s \<leftarrow> get_state;
     case clip s of
       None \<Rightarrow> skip
     | Some c \<Rightarrow>
         if deadline c = 0 \<or> ts < deadline c then skip else resolveClip P ts
   }"

subsection \<open>Opening\<close>

definition placeLeg ::
  "('w, 'g) Wiring \<Rightarrow> legOrder \<Rightarrow> string \<Rightarrow> int \<Rightarrow> ('w, go_error option \<times> legOrder) eng" where
  "placeLeg P lo symb lots = do {
     r \<leftarrow> rpc (Place P (isBid lo) symb lots (lo_price lo));
     emit (EPlace symb (isBid lo) lots (lo_price lo) (id_of r));
     spendOne P;
     case r of
       Inl e \<Rightarrow> ret (Some e, lo)
     | Inr oid \<Rightarrow> do {
         s \<leftarrow> get_state;
         if oid = '''' then do {
           with_recovery MarkUnverified;
           ret (Some (Leaf 0 ''broker returned an empty order id''), lo)
         }
         else if own s oid \<noteq> None then do {
           with_recovery MarkUnverified;
           ret (Some (Leaf 0 ''broker reused order id''), lo)
         }
         else do {
           set_acct oid (makerAcct symb (isBid lo) (lo_price lo) lots);
           ret (None, lo\<lparr>lo_id := oid, placedAt := now s\<rparr>)
         }
       }
   }"

text \<open>
  The first attempt of \<open>openTakerOnlyClip\<close> sends both legs from two goroutines and joins them before
  it folds either outcome into the state. \<open>placeTakerRPC\<close> does not touch engine state, so what the
  goroutines share is the world behind the broker's port, and one call of that port is one step here:
  \<open>RaceAFirst\<close> says which of the two came first. A placer that makes several requests for one call (a retry,
  a search for its own order) is thus not interleaved with the other leg's between those requests.
\<close>

definition raceTakers ::
  "('w, 'g) Wiring \<Rightarrow> bool \<Rightarrow> int \<Rightarrow> int \<Rightarrow> ('w, bool \<times> bool) eng" where
  "raceTakers P buyA lots lotsB = do {
     s \<leftarrow> get_state;
     (rA, rB) \<leftarrow>
       (if RaceAFirst P (world s) then do {
          rA \<leftarrow> placeTakerRPC P (LegA (cfg P)) buyA lots;
          rB \<leftarrow> placeTakerRPC P (LegB (cfg P)) (\<not> buyA) lotsB;
          ret (rA, rB)
        } else do {
          rB \<leftarrow> placeTakerRPC P (LegB (cfg P)) (\<not> buyA) lotsB;
          rA \<leftarrow> placeTakerRPC P (LegA (cfg P)) buyA lots;
          ret (rA, rB)
        });
     okA \<leftarrow> commitTakerPlacement P (LegA (cfg P)) buyA lots rA;
     okB \<leftarrow> commitTakerPlacement P (LegB (cfg P)) (\<not> buyA) lotsB rB;
     ret (okA, okB)
   }"

definition openTakerOnlyClip ::
  "('w, 'g) Wiring \<Rightarrow> Intent \<Rightarrow> int \<Rightarrow> int \<Rightarrow> time \<Rightarrow> ('w, bool \<times> bool) eng" where
  "openTakerOnlyClip P i d lots ts = do {
     s \<leftarrow> get_state;
     if Halted s then ret (True, False)
     else do {
       let buyA = d > 0;
       let buyB = (\<not> buyA);
       let lotsB = hedgeLots P (LegB (cfg P)) lots;
       (okA, okB) \<leftarrow> raceTakers P buyA lots lotsB;
       (if \<not> okA \<and> \<not> okB \<and> \<not> IsClose i then do {
          takerRetryPlain P (LegA (cfg P)) buyA lots 1;
          takerRetryPlain P (LegB (cfg P)) buyB lotsB 1
        } else do {
          whenM (\<not> okA) (takerRetryFrom P (LegA (cfg P)) buyA lots 1);
          whenM (\<not> okB) (takerRetryFrom P (LegB (cfg P)) buyB lotsB 1)
        });
       deciderCommit P (i\<lparr>Lots := lots\<rparr>) ts;
       ret (True, False)
     }
   }"

definition armDeadline :: "('w, 'g) Wiring \<Rightarrow> time \<Rightarrow> time" where
  "armDeadline P ts = (if FillTimeout (cfg P) > 0 then ts + FillTimeout (cfg P) else 0)"

definition newClip ::
  "('w, 'g) Wiring \<Rightarrow> Intent \<Rightarrow> int \<Rightarrow> legOrder \<Rightarrow> legOrder \<Rightarrow> exec_mode \<Rightarrow> time \<Rightarrow> clip" where
  "newClip P i lots a b m ts =
     \<lparr>dir = Action i, intent = i, target = lots, legA = a, legB = b, makerID = '''',
      makerFilled = 0, mode = m, deadline = armDeadline P ts\<rparr>"

definition backoffFrom :: "('w, 'g) Wiring \<Rightarrow> time \<Rightarrow> ('w, unit) eng" where
  "backoffFrom P ts = set_quote (SetBackoff (ts + placeBackoff P))"

definition installClip :: "clip \<Rightarrow> ('w, bool \<times> bool) eng" where
  "installClip c = do {
     set_clip (Some c);
     ret (True, False)
   }"

text \<open>A failed first placement: only a closing clip's definitive reject may be retried smaller.\<close>

definition rejectOpen ::
  "('w, 'g) Wiring \<Rightarrow> Intent \<Rightarrow> go_error option \<Rightarrow> time \<Rightarrow> ('w, bool \<times> bool) eng" where
  "rejectOpen P i err ts = do {
     backoffFrom P ts;
     ret (False, IsClose i \<and> \<not> MaybeDelivered err)
   }"

text \<open>The second leg of a dual-passive clip, with the unwind of the first.\<close>

definition openSecondLeg ::
  "('w, 'g) Wiring \<Rightarrow> Intent \<Rightarrow> int \<Rightarrow> legOrder \<Rightarrow> legOrder \<Rightarrow> exec_mode \<Rightarrow> time \<Rightarrow>
     ('w, bool \<times> bool) eng" where
  "openSecondLeg P i lots a b m ts = do {
     (errB, b') \<leftarrow> placeLeg P b (LegB (cfg P)) lots;
     if errB \<noteq> None then do {
       gap \<leftarrow> retireOrder P (lo_id a);
       whenM (gap > 0)
         (takerRetry P (LegB (cfg P)) (isBid b) (hedgeLots P (LegB (cfg P)) gap));
       backoffFrom P ts;
       ret (False, False)
     }
     else installClip (newClip P i lots a b' m ts)
   }"

definition newLeg :: "real \<Rightarrow> bool \<Rightarrow> legOrder" where
  "newLeg price bid =
     \<lparr>lo_id = '''', lo_price = price, isBid = bid, lastRepeg = 0, placedAt = 0\<rparr>"

definition openClip ::
  "('w, 'g) Wiring \<Rightarrow> Intent \<Rightarrow> int \<Rightarrow> time \<Rightarrow> ('w, bool \<times> bool) eng" where
  "openClip P i lots ts =
     (let d = Action i; m = clipExecMode P i in
      if m = ExecTaker then openTakerOnlyClip P i d lots ts
      else do {
        s \<leftarrow> get_state;
        let a = newLeg (SidePrice (touchA (quote s)) (d > 0)) (d > 0);
        let b = newLeg (SidePrice (touchB (quote s)) (d < 0)) (d < 0);
        if m = ExecSoloMakerLegB then do {
          (err, b') \<leftarrow> placeLeg P b (LegB (cfg P)) (hedgeLots P (LegB (cfg P)) lots);
          if err \<noteq> None then rejectOpen P i err ts
          else installClip (newClip P i lots a b' m ts)
        }
        else do {
          (err, a') \<leftarrow> placeLeg P a (LegA (cfg P)) lots;
          if err \<noteq> None then rejectOpen P i err ts
          else if m = ExecDualPassive then openSecondLeg P i lots a' b m ts
          else installClip (newClip P i lots a' b m ts)
        }
      })"

text \<open>
  The loop of \<open>tryOpenClip\<close>; each rung asks the limiter again. A declined burst backs off until
  the limiter's reset, translated from the processing clock to the event clock as a duration.
\<close>

function openLadder ::
  "('w, 'g) Wiring \<Rightarrow> Intent \<Rightarrow> int \<Rightarrow> time \<Rightarrow> ('w, unit) eng" where
  "openLadder P i lots ts = do {
     pnow \<leftarrow> rpc (ClockNow P);
     (ok, retryAt) \<leftarrow> rpc (LimAllow P pnow 2);
     if \<not> ok then
       (if retryAt > pnow then set_quote (SetBackoff (ts + time_sub retryAt pnow))
        else backoffFrom P ts)
     else do {
       (opened, retryable) \<leftarrow> openClip P i lots ts;
       if opened \<or> \<not> retryable \<or> RejectRetryLotStep (cfg P) \<le> 0 then skip
       else if lots - RejectRetryLotStep (cfg P) < rejectFloor P then skip
       else openLadder P i (lots - RejectRetryLotStep (cfg P)) ts
     }
   }"
  by pat_completeness auto
termination
  by (relation "measure (\<lambda>(P, i, lots, ts). nat lots)")
    (auto simp: not_less dest: order_trans [OF rejectFloor_pos(2)])

declare openLadder.simps [simp del]

definition tryOpenClip :: "('w, 'g) Wiring \<Rightarrow> Intent \<Rightarrow> time \<Rightarrow> ('w, unit) eng" where
  "tryOpenClip P i ts =
     (let lots = (if Lots i \<le> 0 then OrderVol (cfg P) else Lots i)
      in if lots \<le> 0 then skip else openLadder P i lots ts)"

subsection \<open>Keeping or pulling the working clip\<close>

definition manageWorkingClip :: "('w, 'g) Wiring \<Rightarrow> 'g RowState \<Rightarrow> ('w, unit) eng" where
  "manageWorkingClip P st = do {
     s \<leftarrow> get_state;
     case clip s of
       None \<Rightarrow> skip
     | Some c \<Rightarrow>
         let i = Peek P st (world s)
         in if Action i = dir c \<and> clipExecMode P i = mode c then skip
            else resolveClip P (rsTime st)
   }"

definition PullIfUnwanted :: "('w, 'g) Wiring \<Rightarrow> 'g RowState \<Rightarrow> ('w, unit) eng" where
  "PullIfUnwanted P st = do {
     s \<leftarrow> get_state;
     case clip s of
       None \<Rightarrow> skip
     | Some c \<Rightarrow>
         if MinRest (cfg P) > 0 \<and> time_sub (rsTime st) (newestPlacement c) < MinRest (cfg P)
         then skip
         else if Action (Peek P st (world s)) = dir c then skip
         else CancelClip P
   }"

end
