(* ===== verification/EngineCore.thy ===== *)
theory EngineCore
  imports EngineClip
begin

text \<open>
  The handlers of the engine: the constructor, \<open>OnFill\<close> and \<open>OnTick\<close> (\<open>engine.go\<close>), \<open>OnState\<close>
  (\<open>engine_clip.go\<close>), \<open>OnBook\<close> and the re-peg (\<open>engine_quote.go\<close>), \<open>OnOrderStatus\<close>
  (\<open>engine_orders.go\<close>) and the degraded-operation loop, halt and reconcile
  (\<open>engine_recovery.go\<close>); then the events a runner feeds one at a time, and the states they reach.
\<close>

subsection \<open>Construction\<close>

definition NewEngine :: "('w, 'g) Wiring \<Rightarrow> 'w \<Rightarrow> 'w Engine" where
  "NewEngine P w =
     \<lparr>quote = newBook (LegA (cfg P)) (LegB (cfg P)), clip = None,
      recovery =
        (if HedgeRatio (cfg P) > 1 \<and> \<not> SoloMakerLeg (cfg P) \<and> \<not> TakerOnly (cfg P)
         then snd (mHalt newMachine) else newMachine),
      now = 0, pending = [], own = Map.empty, world = w, elog = []\<rparr>"

definition advanceNow :: "time \<Rightarrow> ('w, unit) eng" where
  "advanceNow ts = modify (\<lambda>s. if ts > now s then s\<lparr>now := ts\<rparr> else s)"

lemma wp_advanceNow [simp]:
  "wp (advanceNow ts) Q s = Q () (if ts > now s then s\<lparr>now := ts\<rparr> else s)"
  by (simp add: advanceNow_def)

subsection \<open>Impaired mode (engine\_recovery.go)\<close>

text \<open>
  The two queue passes of \<open>serviceImpaired\<close>: what stays queued, and whether anything resolved.
\<close>

fun retirePass :: "('w, 'g) Wiring \<Rightarrow> string list \<Rightarrow> ('w, string list \<times> bool) eng" where
  "retirePass P [] = ret ([], False)"
| "retirePass P (oid # q) = do {
     ok \<leftarrow> tryDeferredRetire P oid;
     (rest, progressed) \<leftarrow> retirePass P q;
     ret (if ok then (rest, True) else (oid # rest, progressed))
   }"

fun debtPass :: "('w, 'g) Wiring \<Rightarrow> HedgeDebt list \<Rightarrow> ('w, HedgeDebt list \<times> bool) eng" where
  "debtPass P [] = ret ([], False)"
| "debtPass P (d # ds) = do {
     ok \<leftarrow> tryPlaceTaker P (dSym d) (dBuy d) (dLots d);
     (rest, progressed) \<leftarrow> debtPass P ds;
     ret (if ok then (rest, True) else (d # rest, progressed))
   }"

definition serviceObligations :: "('w, 'g) Wiring \<Rightarrow> ('w, unit) eng" where
  "serviceObligations P = do {
     q \<leftarrow> gets (\<lambda>s. retireQ (recovery s));
     (q', p1) \<leftarrow> retirePass P q;
     with_recovery (\<lambda>m. if q = [] then m else m\<lparr>retireQ := q'\<rparr>);
     d \<leftarrow> gets (\<lambda>s. debts (recovery s));
     (d', p2) \<leftarrow> debtPass P d;
     with_recovery (\<lambda>m. if d = [] then m else m\<lparr>debts := d'\<rparr>);
     s \<leftarrow> get_state;
     if retireQ (recovery s) = [] \<and> debts (recovery s) = [] \<and> clip s = None
     then with_recovery ClearImpaired
     else with_recovery (AdvancePace (now s) (p1 \<or> p2) (placeBackoff P) impairedRetryMax)
   }"

definition serviceImpaired :: "('w, 'g) Wiring \<Rightarrow> ('w, unit) eng" where
  "serviceImpaired P = do {
     s \<leftarrow> get_state;
     if \<not> Impaired s \<or> Halted s then skip
     else do {
       whenM (clip s \<noteq> None) (resolveClip P (now s));
       s2 \<leftarrow> get_state;
       if now s2 < nextRetryAt (recovery s2) then skip
       else serviceObligations P
     }
   }"

subsection \<open>Halt, reconcile and state queries (engine\_recovery.go)\<close>

definition Halt :: "('w, 'g) Wiring \<Rightarrow> ('w, unit) eng" where
  "Halt P = do {
     m \<leftarrow> gets recovery;
     let (tripped, m') = mHalt m;
     if \<not> tripped then skip
     else do {
       with_recovery (\<lambda>_. m');
       CancelClip P
     }
   }"

definition Position :: "('w, 'g) Wiring \<Rightarrow> 'w Engine \<Rightarrow> int" where
  "Position P s = DeciderPosition P (world s)"

definition Reconcile :: "('w, 'g) Wiring \<Rightarrow> int \<Rightarrow> int \<Rightarrow> ('w, unit) eng" where
  "Reconcile P legAActual legBActual = do {
     s \<leftarrow> get_state;
     if Halted s \<or> clip s \<noteq> None \<or> Impaired s then skip
     else
       let pos = Position P s;
           wantB = - hedgeLots P (LegB (cfg P)) pos
       in if legAActual = pos \<and> legBActual = wantB then do {
            with_recovery ResumeFromSuspect;
            with_recovery ClearUnverified
          }
          else
            let (first, m') = MarkSuspect (recovery s)
            in if first then with_recovery (\<lambda>_. m')
               else with_recovery LogPersistentMismatch
   }"

definition StateLabel :: "'w Engine \<Rightarrow> string" where
  "StateLabel s =
     (if Halted s then ''halted''
      else if Impaired s then ''impaired''
      else if clip s \<noteq> None then ''working''
      else if Suspect (recovery s) then ''suspect''
      else '''')"

definition Own :: "string \<Rightarrow> 'w Engine \<Rightarrow> bool" where
  "Own oid s \<longleftrightarrow> own s oid \<noteq> None"

definition Working :: "'w Engine \<Rightarrow> bool" where
  "Working s \<longleftrightarrow> clip s \<noteq> None"

subsection \<open>The signal bar (engine\_clip.go)\<close>

definition OnState :: "('w, 'g) Wiring \<Rightarrow> 'g RowState \<Rightarrow> ('w, unit) eng" where
  "OnState P st = do {
     advanceNow (rsTime st);
     h \<leftarrow> gets (\<lambda>s. Halted s);
     if h then skip
     else do {
       serviceImpaired P;
       t \<leftarrow> gets now;
       checkPendingTakers P t;
       s \<leftarrow> get_state;
       if Impaired s then skip
       else if clip s \<noteq> None then manageWorkingClip P st
       else if Suspect (recovery s) then skip
       else if awaitingTaker P (now s) s then skip
       else if \<not> CanQuote (rsTime st) (MaxStaleness (cfg P)) (quote s) then skip
       else if rsTime st < backoffUntil (quote s) then skip
       else
         let i = Peek P st (world s)
         in if Action i = actionHold then skip else tryOpenClip P i (rsTime st)
     }
   }"

subsection \<open>Quoting (engine\_quote.go)\<close>

text \<open>
  \<open>repegLeg\<close> gets a pointer to one of the clip's legs; \<open>onA\<close> says which. The leg is written back
  into the clip that is in flight.
\<close>

definition legOf :: "bool \<Rightarrow> clip \<Rightarrow> legOrder" where
  "legOf onA c = (if onA then legA c else legB c)"

definition put_leg :: "bool \<Rightarrow> (legOrder \<Rightarrow> legOrder) \<Rightarrow> clip \<Rightarrow> clip" where
  "put_leg onA f c = (if onA then c\<lparr>legA := f (legA c)\<rparr> else c\<lparr>legB := f (legB c)\<rparr>)"

definition upd_clip :: "(clip \<Rightarrow> clip) \<Rightarrow> ('w, unit) eng" where
  "upd_clip f = modify (\<lambda>s. s\<lparr>clip := map_option f (clip s)\<rparr>)"

lemma wp_upd_clip [simp]: "wp (upd_clip f) Q s = Q () (s\<lparr>clip := map_option f (clip s)\<rparr>)"
  by (simp add: upd_clip_def)

definition repegReplace ::
  "('w, 'g) Wiring \<Rightarrow> bool \<Rightarrow> string \<Rightarrow> real \<Rightarrow> time \<Rightarrow> ('w, unit) eng" where
  "repegReplace P onA symb price ts = do {
     upd_clip (put_leg onA (\<lambda>lo. lo\<lparr>lo_price := price\<rparr>));
     s \<leftarrow> get_state;
     case clip s of
       None \<Rightarrow> skip
     | Some c \<Rightarrow> do {
         (err, lo') \<leftarrow> placeLeg P (legOf onA c) symb (target c);
         if err \<noteq> None then do {
           CancelClip P;
           backoffFrom P ts
         }
         else upd_clip (put_leg onA (\<lambda>_. lo'\<lparr>lastRepeg := ts\<rparr>))
       }
   }"

definition repegLeg ::
  "('w, 'g) Wiring \<Rightarrow> bool \<Rightarrow> string \<Rightarrow> Touch \<Rightarrow> time \<Rightarrow> ('w, unit) eng" where
  "repegLeg P onA symb t ts = do {
     s \<leftarrow> get_state;
     case clip s of
       None \<Rightarrow> skip
     | Some c \<Rightarrow>
         let lo = legOf onA c;
             price = (if isBid lo then Bid t else Ask t);
             behind = (if isBid lo then Bid t > lo_price lo else Ask t < lo_price lo)
         in if \<not> Valid t then skip
            else if \<not> behind then skip
            else if MinRest (cfg P) > 0 \<and> time_sub ts (placedAt lo) < MinRest (cfg P) then skip
            else if lastRepeg lo \<noteq> 0 \<and> time_sub ts (lastRepeg lo) < repegThrottle P then skip
            else do {
              pnow \<leftarrow> rpc (ClockNow P);
              (ok, retryAt) \<leftarrow> rpc (LimAllow P pnow 1);
              if \<not> ok then skip
              else do {
                gap \<leftarrow> retireOrder P (lo_id lo);
                if gap > 0 then do {
                  upd_clip (\<lambda>c. c\<lparr>makerID := lo_id lo, makerFilled := gap\<rparr>);
                  (if onA then settleClip P gap 0 True else settleClip P 0 gap True);
                  h \<leftarrow> gets (\<lambda>s. Halted s);
                  if h then skip else commitClip P ts
                }
                else do {
                  s2 \<leftarrow> get_state;
                  if Halted s2 \<or> Impaired s2 \<or> clip s2 = None then skip
                  else repegReplace P onA symb price ts
                }
              }
            }
   }"

definition maybeRepeg :: "('w, 'g) Wiring \<Rightarrow> string \<Rightarrow> time \<Rightarrow> ('w, unit) eng" where
  "maybeRepeg P symb ts = do {
     s \<leftarrow> get_state;
     case clip s of
       None \<Rightarrow> skip
     | Some c \<Rightarrow>
         if Halted s \<or> makerID c \<noteq> '''' \<or> DisableRepeg (cfg P) then skip
         else if symb = LegA (cfg P) then
           (if mode c = ExecSoloMakerLegB then skip
            else repegLeg P True (LegA (cfg P)) (touchA (quote s)) ts)
         else if symb = LegB (cfg P) then
           (if mode c = ExecSoloMaker then skip
            else repegLeg P False (LegB (cfg P)) (touchB (quote s)) ts)
         else skip
   }"

definition OnBook ::
  "('w, 'g) Wiring \<Rightarrow> string \<Rightarrow> time \<Rightarrow> real \<Rightarrow> real \<Rightarrow> ('w, unit) eng" where
  "OnBook P symb ts bestBid bestAsk = do {
     advanceNow ts;
     q \<leftarrow> gets quote;
     let (updated, q') = Update symb ts bestBid bestAsk q;
     if \<not> updated then skip
     else do {
       set_quote (\<lambda>_. q');
       serviceImpaired P;
       maybeRepeg P symb ts
     }
   }"

definition checkStaleBooks :: "('w, 'g) Wiring \<Rightarrow> time \<Rightarrow> ('w, unit) eng" where
  "checkStaleBooks P t = do {
     s \<leftarrow> get_state;
     if \<not> PullOnStaleBook (cfg P) \<or> MaxStaleness (cfg P) \<le> 0 \<or> clip s = None \<or> Halted s then skip
     else
       let (staleA, staleB) = Stale t (MaxStaleness (cfg P)) (quote s)
       in if \<not> staleA \<and> \<not> staleB then skip else resolveClip P t
   }"

subsection \<open>Fills (engine.go)\<close>

text \<open>
  The three parts of \<open>OnFill\<close> after the event has been bound to its account and clamped to the
  placed size. \<open>reported\<close> is the account's \<open>Seen\<close> before the event.
\<close>

definition foldTakerFill ::
  "('w, 'g) Wiring \<Rightarrow> string \<Rightarrow> OrdAcct \<Rightarrow> int \<Rightarrow> int \<Rightarrow> real \<Rightarrow> ('w, unit) eng" where
  "foldTakerFill P oid acct reported lots price = do {
     let pre = Credited acct - reported;
     whenM (hasSink P \<and> pre > 0 \<and> price \<noteq> Price acct)
       (sinkAmend P oid (Sym acct) (IsBuy acct) (min pre lots) (Price acct) price);
     let beyond = Seen acct - max (Final acct) reported;
     whenM (Final acct \<ge> 0 \<and> beyond > 0 \<and> hasSink P) (do {
       sinkFill P oid (Sym acct) (IsBuy acct) beyond price;
       upd_acct oid (\<lambda>a. a\<lparr>Credited := Credited a + beyond\<rparr>)
     })
   }"

definition foldRetiredFill ::
  "('w, 'g) Wiring \<Rightarrow> string \<Rightarrow> string \<Rightarrow> bool \<Rightarrow> OrdAcct \<Rightarrow> int \<Rightarrow> int \<Rightarrow> real \<Rightarrow> ('w, unit) eng" where
  "foldRetiredFill P oid symb buy acct reported lots price = do {
     let excess = max 0 (Seen acct - max (Final acct) reported);
     whenM (hasSink P) (do {
       let dup = lots - excess;
       whenM (dup > 0 \<and> price \<noteq> Price acct)
         (sinkAmend P oid (Sym acct) (IsBuy acct) dup (Price acct) price);
       whenM (excess > 0) (do {
         sinkFill P oid (Sym acct) (IsBuy acct) excess price;
         upd_acct oid (\<lambda>a. a\<lparr>Credited := Credited a + excess\<rparr>)
       })
     });
     whenM (excess > 0) (hedgeStrayMakerFill P symb buy excess)
   }"

text \<open>The working clip's side of a live maker fill: designate the maker and resolve the pair.\<close>

definition pairFirstFill ::
  "('w, 'g) Wiring \<Rightarrow> time \<Rightarrow> string \<Rightarrow> clip \<Rightarrow> ('w, unit) eng" where
  "pairFirstFill P ts oid c = do {
     let cpIsB = (oid = lo_id (legA c));
     let cp = (if cpIsB then legB c else legA c);
     let cpSym = (if cpIsB then LegB (cfg P) else LegA (cfg P));
     executed \<leftarrow> retireOrder P (lo_id cp);
     if executed > makerFilled c then do {
       let realA = (if cpIsB then makerFilled c else executed);
       let realB = (if cpIsB then executed else makerFilled c);
       if \<not> IsClose (intent c) \<and> KeepPartialOpenOnTimeout (cfg P) then do {
         settleClip P realA realB False;
         set_clip None
       }
       else do {
         settleClip P realA realB True;
         h \<leftarrow> gets (\<lambda>s. Halted s);
         if h then skip else commitClip P ts
       }
     }
     else do {
       whenM (executed < makerFilled c)
         (takerRetry P cpSym (isBid cp) (hedgeLots P cpSym (makerFilled c - executed)));
       h \<leftarrow> gets (\<lambda>s. Halted s);
       if h then skip
       else whenM (makerFilled c \<ge> target c) (commitClip P ts)
     }
   }"

definition pairLaterFill ::
  "('w, 'g) Wiring \<Rightarrow> time \<Rightarrow> string \<Rightarrow> clip \<Rightarrow> int \<Rightarrow> ('w, unit) eng" where
  "pairLaterFill P ts oid c lots = do {
     (if oid = lo_id (legA c)
      then hedge P (LegB (cfg P)) (dir c < 0) (hedgeLots P (LegB (cfg P)) lots)
      else hedge P (LegA (cfg P)) (dir c > 0) lots);
     h \<leftarrow> gets (\<lambda>s. Halted s);
     if h then skip
     else whenM (makerFilled c \<ge> target c) (commitClip P ts)
   }"

definition clipFill ::
  "('w, 'g) Wiring \<Rightarrow> time \<Rightarrow> string \<Rightarrow> string \<Rightarrow> bool \<Rightarrow> int \<Rightarrow> clip \<Rightarrow> ('w, unit) eng" where
  "clipFill P ts oid symb buy lots c =
     (if oid \<noteq> lo_id (legA c) \<and> oid \<noteq> lo_id (legB c) then hedgeStrayMakerFill P symb buy lots
      else
        let firstFill = (makerID c = '''');
            c1 = (if firstFill then c\<lparr>makerID := oid\<rparr> else c)
        in do {
          set_clip (Some c1);
          if oid \<noteq> makerID c1 then hedgeStrayMakerFill P symb buy lots
          else
            let c2 = c1\<lparr>makerFilled := makerFilled c1 + lots\<rparr>
            in do {
              set_clip (Some c2);
              if firstFill then pairFirstFill P ts oid c2 else pairLaterFill P ts oid c2 lots
            }
        })"

definition foldLiveFill ::
  "('w, 'g) Wiring \<Rightarrow> time \<Rightarrow> string \<Rightarrow> string \<Rightarrow> bool \<Rightarrow> OrdAcct \<Rightarrow> int \<Rightarrow> real \<Rightarrow> ('w, unit) eng" where
  "foldLiveFill P ts oid symb buy acct lots price = do {
     whenM (hasSink P) (do {
       sinkFill P oid (Sym acct) (IsBuy acct) lots price;
       upd_acct oid (\<lambda>a. a\<lparr>Credited := Credited a + lots\<rparr>)
     });
     upd_acct oid (\<lambda>a. a\<lparr>Folded := Folded a + lots\<rparr>);
     s \<leftarrow> get_state;
     case clip s of
       None \<Rightarrow> hedgeStrayMakerFill P symb buy lots
     | Some c \<Rightarrow> clipFill P ts oid symb buy lots c
   }"

definition foldFill ::
  "('w, 'g) Wiring \<Rightarrow> time \<Rightarrow> string \<Rightarrow> string \<Rightarrow> bool \<Rightarrow> OrdAcct \<Rightarrow> int \<Rightarrow> real \<Rightarrow> ('w, unit) eng" where
  "foldFill P ts oid symb buy acct lots price =
     (let reported = Seen acct;
          acct' = acct\<lparr>Seen := Seen acct + lots\<rparr>
      in do {
        upd_acct oid (\<lambda>a. a\<lparr>Seen := Seen a + lots\<rparr>);
        if \<not> Maker acct then foldTakerFill P oid acct' reported lots price
        else if Final acct \<ge> 0 then foldRetiredFill P oid symb buy acct' reported lots price
        else foldLiveFill P ts oid symb buy acct' lots price
      })"

definition OnFill ::
  "('w, 'g) Wiring \<Rightarrow> time \<Rightarrow> string \<Rightarrow> string \<Rightarrow> bool \<Rightarrow> int \<Rightarrow> real \<Rightarrow> ('w, unit) eng" where
  "OnFill P ts oid symbol0 buy0 lots price = do {
     advanceNow ts;
     s \<leftarrow> get_state;
     case own s oid of
       None \<Rightarrow> skip
     | Some acct \<Rightarrow>
         if lots \<le> 0 then skip
         else
           let symb = (if Sym acct \<noteq> '''' then Sym acct else symbol0);
               buy = (if Sym acct \<noteq> '''' then IsBuy acct else buy0);
               over = Seen acct + lots - Placed acct
           in if over > 0 \<and> Placed acct > 0
              then (if lots - over \<le> 0 then skip
                    else foldFill P ts oid symb buy acct (lots - over) price)
              else foldFill P ts oid symb buy acct lots price
   }"

subsection \<open>Order status and ticks\<close>

definition OnOrderStatus :: "('w, 'g) Wiring \<Rightarrow> string \<Rightarrow> bool \<Rightarrow> ('w, unit) eng" where
  "OnOrderStatus P oid dead = do {
     s \<leftarrow> get_state;
     if \<not> dead then skip
     else case own s oid of
       Some acct \<Rightarrow>
         if \<not> Maker acct then
           (if Final acct < 0 \<and> Seen acct < Placed acct then confirmDeadTaker P oid else skip)
         else if Deferred acct \<and> \<not> Halted s then do {
           r \<leftarrow> tryDeferredRetire P oid;
           skip
         }
         else (case clip s of
             None \<Rightarrow> skip
           | Some c \<Rightarrow>
               if oid \<noteq> lo_id (legA c) \<and> oid \<noteq> lo_id (legB c) then skip
               else if Final acct \<ge> 0 then skip
               else CancelClip P)
     | None \<Rightarrow>
         (case clip s of
             None \<Rightarrow> skip
           | Some c \<Rightarrow>
               if oid \<noteq> lo_id (legA c) \<and> oid \<noteq> lo_id (legB c) then skip
               else CancelClip P)
   }"

definition OnTick :: "('w, 'g) Wiring \<Rightarrow> time \<Rightarrow> ('w, unit) eng" where
  "OnTick P t = do {
     advanceNow t;
     serviceImpaired P;
     n \<leftarrow> gets now;
     checkPendingTakers P n;
     checkStaleBooks P t;
     checkTimeout P t
   }"

subsection \<open>Events and reachable states\<close>

text \<open>The calls a runner makes, from one goroutine and one at a time.\<close>

datatype 'g event =
    EvState "'g RowState"
  | EvBook string time real real
  | EvFill time string string bool int real
  | EvStatus string bool
  | EvTick time
  | EvPull "'g RowState"
  | EvCancel
  | EvHalt
  | EvReconcile int int

fun handle :: "('w, 'g) Wiring \<Rightarrow> 'g event \<Rightarrow> ('w, unit) eng" where
  "handle P (EvState st) = OnState P st"
| "handle P (EvBook sy ts b a) = OnBook P sy ts b a"
| "handle P (EvFill ts oid sy bu n p) = OnFill P ts oid sy bu n p"
| "handle P (EvStatus oid dead) = OnOrderStatus P oid dead"
| "handle P (EvTick t) = OnTick P t"
| "handle P (EvPull st) = PullIfUnwanted P st"
| "handle P EvCancel = CancelClip P"
| "handle P EvHalt = Halt P"
| "handle P (EvReconcile a b) = Reconcile P a b"

fun run_events :: "('w, 'g) Wiring \<Rightarrow> 'g event list \<Rightarrow> 'w Engine \<Rightarrow> 'w Engine" where
  "run_events P [] s = s"
| "run_events P (ev # evs) s = run_events P evs (exec (handle P ev) s)"

text \<open>
  Between two events the world moves on its own (orders execute, the clock advances), as a
  relation \<open>Env\<close> allows.
\<close>

inductive reaches ::
  "('w, 'g) Wiring \<Rightarrow> ('w \<Rightarrow> 'w \<Rightarrow> bool) \<Rightarrow> 'w Engine \<Rightarrow> 'w Engine \<Rightarrow> bool"
  for P Env s0 where
  start: "reaches P Env s0 s0"
| event: "reaches P Env s0 s \<Longrightarrow> reaches P Env s0 (exec (handle P ev) s)"
| env: "reaches P Env s0 s \<Longrightarrow> Env (world s) w \<Longrightarrow> reaches P Env s0 (s\<lparr>world := w\<rparr>)"

inductive_cases reachesE: "reaches P Env s0 s"

abbreviation reachable ::
  "('w, 'g) Wiring \<Rightarrow> ('w \<Rightarrow> 'w \<Rightarrow> bool) \<Rightarrow> 'w \<Rightarrow> 'w Engine \<Rightarrow> bool" where
  "reachable P Env w0 \<equiv> reaches P Env (NewEngine P w0)"

lemma reaches_run_events:
  "reaches P Env s0 s \<Longrightarrow> reaches P Env s0 (run_events P evs s)"
  by (induction evs arbitrary: s) (auto intro: reaches.event)

end
