(* ===== verification/EngineSafety.thy ===== *)
theory EngineSafety
  imports EngineCore
begin

text \<open>
  What holds of every run whatever the broker, the limiter and the decider answer: the kill-switch
  is absolute, and every placement request is booked against the quota exactly once. Every
  operation keeps the relation \<open>evolves\<close> between a fixed earlier state and the current one; the
  rules are stated so that the calculus applies them backwards.
\<close>

subsection \<open>Counting the log\<close>

fun placed :: "effect list \<Rightarrow> int" where
  "placed [] = 0"
| "placed (x # xs) =
     (case x of EPlace _ _ _ _ _ \<Rightarrow> 1 + placed xs | ETake _ _ _ _ \<Rightarrow> 1 + placed xs | _ \<Rightarrow> placed xs)"

fun booked :: "effect list \<Rightarrow> int" where
  "booked [] = 0"
| "booked (x # xs) = (case x of ESpend n \<Rightarrow> n + booked xs | _ \<Rightarrow> booked xs)"

text \<open>\<open>k\<close> placement requests sent since \<open>s0\<close> are not booked yet.\<close>

definition owes :: "int \<Rightarrow> 'w Engine \<Rightarrow> 'w Engine \<Rightarrow> bool" where
  "owes k s0 s \<longleftrightarrow>
     Halted s = Halted s0 \<and>
     (Halted s0 \<longrightarrow> placed (elog s) = placed (elog s0)) \<and>
     placed (elog s) - booked (elog s) = placed (elog s0) - booked (elog s0) + k"

abbreviation evolves :: "'w Engine \<Rightarrow> 'w Engine \<Rightarrow> bool" where
  "evolves \<equiv> owes 0"

lemmas evolves_def = owes_def

lemma evolves_refl [simp]: "evolves s s"
  by (simp add: evolves_def)

lemma evolves_trans: "evolves s t \<Longrightarrow> evolves t u \<Longrightarrow> evolves s u"
  by (simp add: evolves_def)

lemma owes_halted: "owes k s0 s \<Longrightarrow> Halted s = Halted s0"
  by (simp add: owes_def)

lemmas evolves_halted = owes_halted [of 0]

subsection \<open>Retiring and hedging\<close>

named_theorems evo \<open>operations keep \<open>evolves\<close>\<close>

lemma evo_deferRetire [evo]:
  "evolves s0 s \<Longrightarrow> (\<And>a s'. evolves s0 s' \<Longrightarrow> Q a s') \<Longrightarrow> wp (deferRetire P oid) Q s"
  by (auto simp: deferRetire_def evolves_def split: option.split)

lemma evo_deferHedge [evo]:
  "evolves s0 s \<Longrightarrow> (\<And>a s'. evolves s0 s' \<Longrightarrow> Q a s') \<Longrightarrow> wp (deferHedge P sy bu n) Q s"
  by (auto simp: deferHedge_def evolves_def)

lemma evo_finishRetire [evo]:
  "evolves s0 s \<Longrightarrow> (\<And>a s'. evolves s0 s' \<Longrightarrow> Q a s') \<Longrightarrow> wp (finishRetire P oid n) Q s"
  by (auto simp: finishRetire_def sinkFill_def evolves_def Let_def split: option.split prod.split)

lemma evo_cancelRPC [evo]:
  "evolves s0 s \<Longrightarrow> (\<And>a s'. evolves s0 s' \<Longrightarrow> Q a s') \<Longrightarrow> wp (cancelRPC P oid) Q s"
  by (auto simp: cancelRPC_def evolves_def split: prod.split)

lemma evo_foldGap [evo]:
  "evolves s0 s \<Longrightarrow> (\<And>a s'. evolves s0 s' \<Longrightarrow> Q a s') \<Longrightarrow> wp (foldGap oid) Q s"
  by (auto simp: foldGap_def evolves_def Let_def split: option.split)

lemma evo_rpc: "evolves s0 (s\<lparr>world := w\<rparr>) = evolves s0 s"
  by (simp add: evolves_def)

lemma evo_askRetired [evo]:
  "evolves s0 s \<Longrightarrow> (\<And>a s'. evolves s0 s' \<Longrightarrow> Q a s') \<Longrightarrow> wp (askRetired P oid) Q s"
  by (auto simp: askRetired_def evo_rpc intro!: evo split: sum.split prod.split)

lemma evo_retireOrder [evo]:
  "evolves s0 s \<Longrightarrow> (\<And>a s'. evolves s0 s' \<Longrightarrow> Q a s') \<Longrightarrow> wp (retireOrder P oid) Q s"
  by (auto simp: retireOrder_def intro!: evo split: option.split)

lemma evo_spendOne:
  "owes (k + 1) s0 s \<Longrightarrow> (\<And>a s'. owes k s0 s' \<Longrightarrow> Q a s') \<Longrightarrow> wp (spendOne P) Q s"
  by (auto simp: spendOne_def owes_def split: prod.split)

lemma evo_placeTakerRPC:
  "owes k s0 s \<Longrightarrow> \<not> Halted s \<Longrightarrow> (\<And>a s'. owes (k + 1) s0 s' \<Longrightarrow> Q a s') \<Longrightarrow>
     wp (placeTakerRPC P sy bu n) Q s"
  by (auto simp: placeTakerRPC_def owes_def split: prod.split)

lemma evo_commitTakerPlacement:
  "owes (k + 1) s0 s \<Longrightarrow> (\<And>a s'. owes k s0 s' \<Longrightarrow> Q a s') \<Longrightarrow>
     wp (commitTakerPlacement P sy bu n r) Q s"
  unfolding commitTakerPlacement_def wp_bind
  apply (rule evo_spendOne, assumption)
  apply (auto simp: sinkFill_def owes_def Let_def split: sum.split prod.split)
  done

lemma evo_tryPlaceTaker [evo]:
  assumes "evolves s0 s" and "\<not> Halted s" and "\<And>a s'. evolves s0 s' \<Longrightarrow> Q a s'"
  shows "wp (tryPlaceTaker P sy bu n) Q s"
  unfolding tryPlaceTaker_def wp_bind
  using assms by (auto intro!: evo_placeTakerRPC evo_commitTakerPlacement)

lemma evo_chaseLoop [evo]:
  "evolves s0 s \<Longrightarrow> \<not> Halted s0 \<Longrightarrow> (\<And>a s'. evolves s0 s' \<Longrightarrow> Q a s') \<Longrightarrow>
     wp (chaseLoop P sy bu z n) Q s"
proof (induction P sy bu z n arbitrary: s rule: chaseLoop.induct)
  case (1 P sy bu z n)
  note IH = "1.IH" and prems = "1.prems"
  show ?case
  proof (cases "z \<ge> rejectFloor P \<and> z > 0 \<and> RejectRetryLotStep (cfg P) > 0")
    case True
    show ?thesis
      unfolding chaseLoop.simps [of P sy bu z n] if_P [OF True] wp_bind
      apply (rule evo_placeTakerRPC [OF prems(1)])
      using prems(1,2) apply (simp add: evolves_halted)
      apply (rule evo_commitTakerPlacement, assumption)
      using IH [OF True] prems apply auto
      done
  next
    case False
    then show ?thesis
      unfolding chaseLoop.simps [of P sy bu z n] if_not_P [OF False] using prems by simp
  qed
qed

lemma evo_tryTakers [evo]:
  "evolves s0 s \<Longrightarrow> \<not> Halted s0 \<Longrightarrow> (\<And>a s'. evolves s0 s' \<Longrightarrow> Q a s') \<Longrightarrow>
     wp (tryTakers P sy bu n k) Q s"
  by (induction k arbitrary: s) (auto intro!: evo_tryPlaceTaker simp: evolves_halted)

lemma evo_takerRetryPlain [evo]:
  "evolves s0 s \<Longrightarrow> \<not> Halted s0 \<Longrightarrow> (\<And>a s'. evolves s0 s' \<Longrightarrow> Q a s') \<Longrightarrow>
     wp (takerRetryPlain P sy bu n k) Q s"
  by (auto simp: takerRetryPlain_def Let_def intro!: evo)

lemma evo_takerRetryFrom [evo]:
  "evolves s0 s \<Longrightarrow> \<not> Halted s0 \<Longrightarrow> (\<And>a s'. evolves s0 s' \<Longrightarrow> Q a s') \<Longrightarrow>
     wp (takerRetryFrom P sy bu n k) Q s"
  by (auto simp: takerRetryFrom_def shrinkTakerChase_def intro!: evo)

lemma evo_takerRetry [evo]:
  "evolves s0 s \<Longrightarrow> (\<And>a s'. evolves s0 s' \<Longrightarrow> Q a s') \<Longrightarrow> wp (takerRetry P sy bu n) Q s"
  by (auto simp: takerRetry_def evolves_halted intro!: evo)

lemma evo_hedgeStrayMakerFill [evo]:
  "evolves s0 s \<Longrightarrow> (\<And>a s'. evolves s0 s' \<Longrightarrow> Q a s') \<Longrightarrow> wp (hedgeStrayMakerFill P sy bu n) Q s"
  by (auto simp: hedgeStrayMakerFill_def hedge_def Let_def intro!: evo)

lemma evo_set [simp]:
  "owes k s0 (s\<lparr>clip := c\<rparr>) = owes k s0 s"
  "owes k s0 (s\<lparr>quote := q\<rparr>) = owes k s0 s"
  "owes k s0 (s\<lparr>now := t\<rparr>) = owes k s0 s"
  "owes k s0 (s\<lparr>world := w\<rparr>) = owes k s0 s"
  "owes k s0 (s\<lparr>own := m\<rparr>) = owes k s0 s"
  "owes k s0 (s\<lparr>pending := p\<rparr>) = owes k s0 s"
  "owes k s0 (s\<lparr>elog := ECommit i # l\<rparr>) = owes k s0 (s\<lparr>elog := l\<rparr>)"
  "owes k s0 (s\<lparr>elog := EFill oid sy bu n pr # l\<rparr>) = owes k s0 (s\<lparr>elog := l\<rparr>)"
  "owes k s0 (s\<lparr>elog := EAmend oid sy bu n pr pr' # l\<rparr>) = owes k s0 (s\<lparr>elog := l\<rparr>)"
  by (simp_all add: owes_def)

lemma evo_recovery [simp]:
  "halted m = halted (recovery s) \<Longrightarrow> owes k s0 (s\<lparr>recovery := m\<rparr>) = owes k s0 s"
  by (simp add: owes_def)

lemma elog_same [simp]: "s\<lparr>elog := elog s\<rparr> = s"
  by simp

subsection \<open>The clip\<close>

lemma evo_settleClip [evo]:
  "evolves s0 s \<Longrightarrow> (\<And>a s'. evolves s0 s' \<Longrightarrow> Q a s') \<Longrightarrow> wp (settleClip P a b f) Q s"
  by (rule wp_mono [of _ "\<lambda>_. evolves s0"])
    (auto simp: settleClip_def evolves_halted Let_def  intro!: evo [where ?s0.0 = s0] split: option.split prod.split)

lemma evo_CancelClip [evo]:
  "evolves s0 s \<Longrightarrow> (\<And>a s'. evolves s0 s' \<Longrightarrow> Q a s') \<Longrightarrow> wp (CancelClip P) Q s"
  by (rule wp_mono [of _ "\<lambda>_. evolves s0"])
    (auto simp: CancelClip_def evolves_halted Let_def  intro!: evo [where ?s0.0 = s0] split: option.split prod.split)

lemma evo_deciderCommit [evo]:
  "evolves s0 s \<Longrightarrow> (\<And>a s'. evolves s0 s' \<Longrightarrow> Q a s') \<Longrightarrow> wp (deciderCommit P i ts) Q s"
  by (rule wp_mono [of _ "\<lambda>_. evolves s0"])
    (auto simp: deciderCommit_def evolves_halted Let_def  intro!: evo [where ?s0.0 = s0] split: option.split prod.split)

lemma evo_commitClip [evo]:
  "evolves s0 s \<Longrightarrow> (\<And>a s'. evolves s0 s' \<Longrightarrow> Q a s') \<Longrightarrow> wp (commitClip P ts) Q s"
  by (rule wp_mono [of _ "\<lambda>_. evolves s0"])
    (auto simp: commitClip_def evolves_halted Let_def  intro!: evo [where ?s0.0 = s0] split: option.split prod.split)

lemma evo_abandonClip [evo]:
  "evolves s0 s \<Longrightarrow> (\<And>a s'. evolves s0 s' \<Longrightarrow> Q a s') \<Longrightarrow> wp (abandonClip P ts) Q s"
  by (rule wp_mono [of _ "\<lambda>_. evolves s0"])
    (auto simp: abandonClip_def evolves_halted Let_def  intro!: evo [where ?s0.0 = s0] split: option.split prod.split)

lemma evo_completeClip [evo]:
  "evolves s0 s \<Longrightarrow> (\<And>a s'. evolves s0 s' \<Longrightarrow> Q a s') \<Longrightarrow> wp (completeClip P ts) Q s"
  by (rule wp_mono [of _ "\<lambda>_. evolves s0"])
    (auto simp: completeClip_def evolves_halted Let_def  intro!: evo [where ?s0.0 = s0] split: option.split prod.split)

lemma evo_resolveClip [evo]:
  "evolves s0 s \<Longrightarrow> (\<And>a s'. evolves s0 s' \<Longrightarrow> Q a s') \<Longrightarrow> wp (resolveClip P ts) Q s"
  by (rule wp_mono [of _ "\<lambda>_. evolves s0"])
    (auto simp: resolveClip_def evolves_halted Let_def  intro!: evo [where ?s0.0 = s0] split: option.split prod.split)

lemma evo_checkTimeout [evo]:
  "evolves s0 s \<Longrightarrow> (\<And>a s'. evolves s0 s' \<Longrightarrow> Q a s') \<Longrightarrow> wp (checkTimeout P ts) Q s"
  by (rule wp_mono [of _ "\<lambda>_. evolves s0"])
    (auto simp: checkTimeout_def evolves_halted Let_def  intro!: evo [where ?s0.0 = s0] split: option.split prod.split)

lemma evo_placeLeg [evo]:
  assumes "evolves s0 s" and "\<not> Halted s0" and "\<And>a s'. evolves s0 s' \<Longrightarrow> Q a s'"
  shows "wp (placeLeg P lo sy n) Q s"
proof (rule wp_mono [of _ "\<lambda>_. evolves s0"])
  show "wp (placeLeg P lo sy n) (\<lambda>_. evolves s0) s"
    using assms(1,2)
    by (auto simp: placeLeg_def owes_def intro!: evo_spendOne [where k = 0 and ?s0.0 = s0] split: prod.split sum.split)
qed (use assms(3) in auto)

lemma evo_backoffFrom [evo]:
  "evolves s0 s \<Longrightarrow> (\<And>a s'. evolves s0 s' \<Longrightarrow> Q a s') \<Longrightarrow> wp (backoffFrom P ts) Q s"
  by (rule wp_mono [of _ "\<lambda>_. evolves s0"])
    (auto simp: backoffFrom_def evolves_halted Let_def  intro!: evo [where ?s0.0 = s0] split: option.split prod.split)

lemma evo_raceTakers [evo]:
  assumes "evolves s0 s" and "\<not> Halted s0" and "\<And>a s'. evolves s0 s' \<Longrightarrow> Q a s'"
  shows "wp (raceTakers P bu n m) Q s"
proof -
  have commits: "wp (commitTakerPlacement P (LegA (cfg P)) bu n rA)
      (\<lambda>okA. wp (commitTakerPlacement P (LegB (cfg P)) (\<not> bu) m rB)
        (\<lambda>okB. Q (okA, okB))) t" if "owes 2 s0 t" for rA rB t
    by (rule evo_commitTakerPlacement [where k = 1 and ?s0.0 = s0], use that in simp)
      (rule evo_commitTakerPlacement [where k = 0 and ?s0.0 = s0], auto intro: assms(3))
  have rpcs: "wp (placeTakerRPC P sy b k)
      (\<lambda>r. wp (placeTakerRPC P sy' b' k') (\<lambda>r'. R r r')) s"
    if "\<And>r r' t. owes 2 s0 t \<Longrightarrow> R r r' t" for R sy b k sy' b' k'
    by (rule evo_placeTakerRPC [OF assms(1)], use assms in \<open>simp add: owes_halted\<close>)
      (rule evo_placeTakerRPC [where k = 1 and ?s0.0 = s0],
        use assms that in \<open>auto dest: owes_halted\<close>)
  show ?thesis
    by (simp add: raceTakers_def) (intro conjI impI rpcs commits)
qed

lemma evo_openTakerOnlyClip [evo]:
  "evolves s0 s \<Longrightarrow> (\<And>a s'. evolves s0 s' \<Longrightarrow> Q a s') \<Longrightarrow> wp (openTakerOnlyClip P i d n ts) Q s"
  by (rule wp_mono [of _ "\<lambda>_. evolves s0"])
    (auto simp: openTakerOnlyClip_def evolves_halted
      intro!: evo [where ?s0.0 = s0] split: option.split prod.split)

lemma evo_openSecondLeg [evo]:
  "evolves s0 s \<Longrightarrow> \<not> Halted s0 \<Longrightarrow> (\<And>a s'. evolves s0 s' \<Longrightarrow> Q a s') \<Longrightarrow>
     wp (openSecondLeg P i n a b m ts) Q s"
  by (rule wp_mono [of _ "\<lambda>_. evolves s0"])
    (auto simp: openSecondLeg_def installClip_def evolves_halted
      intro!: evo [where ?s0.0 = s0] split: option.split prod.split)

lemma evo_openClip [evo]:
  "evolves s0 s \<Longrightarrow> \<not> Halted s0 \<Longrightarrow> (\<And>a s'. evolves s0 s' \<Longrightarrow> Q a s') \<Longrightarrow> wp (openClip P i n ts) Q s"
  by (rule wp_mono [of _ "\<lambda>_. evolves s0"])
    (auto simp: openClip_def installClip_def rejectOpen_def evolves_halted Let_def  intro!: evo [where ?s0.0 = s0] split: option.split prod.split)

lemma evo_openLadder_inv:
  "evolves s0 s \<Longrightarrow> \<not> Halted s0 \<Longrightarrow> wp (openLadder P i n ts) (\<lambda>_. evolves s0) s"
proof (induction P i n ts arbitrary: s rule: openLadder.induct)
  case (1 P i n ts)
  show ?case
    unfolding openLadder.simps [of P i n ts]
    using "1.prems"
    by (auto intro!: evo [where ?s0.0 = s0] "1.IH" split: prod.split)
qed

lemma evo_openLadder [evo]:
  "evolves s0 s \<Longrightarrow> \<not> Halted s0 \<Longrightarrow> (\<And>a s'. evolves s0 s' \<Longrightarrow> Q a s') \<Longrightarrow>
     wp (openLadder P i n ts) Q s"
  by (rule wp_mono [OF evo_openLadder_inv])

lemma evo_tryOpenClip [evo]:
  "evolves s0 s \<Longrightarrow> \<not> Halted s0 \<Longrightarrow> (\<And>a s'. evolves s0 s' \<Longrightarrow> Q a s') \<Longrightarrow> wp (tryOpenClip P i ts) Q s"
  by (rule wp_mono [of _ "\<lambda>_. evolves s0"])
    (auto simp: tryOpenClip_def evolves_halted Let_def  intro!: evo [where ?s0.0 = s0] split: option.split prod.split)

lemma evo_manageWorkingClip [evo]:
  "evolves s0 s \<Longrightarrow> (\<And>a s'. evolves s0 s' \<Longrightarrow> Q a s') \<Longrightarrow> wp (manageWorkingClip P st) Q s"
  by (rule wp_mono [of _ "\<lambda>_. evolves s0"])
    (auto simp: manageWorkingClip_def evolves_halted Let_def  intro!: evo [where ?s0.0 = s0] split: option.split prod.split)

lemma evo_PullIfUnwanted [evo]:
  "evolves s0 s \<Longrightarrow> (\<And>a s'. evolves s0 s' \<Longrightarrow> Q a s') \<Longrightarrow> wp (PullIfUnwanted P st) Q s"
  by (rule wp_mono [of _ "\<lambda>_. evolves s0"])
    (auto simp: PullIfUnwanted_def evolves_halted Let_def  intro!: evo [where ?s0.0 = s0] split: option.split prod.split)

subsection \<open>Takers and obligations\<close>

lemma evo_settleTaker [evo]:
  "evolves s0 s \<Longrightarrow> (\<And>a s'. evolves s0 s' \<Longrightarrow> Q a s') \<Longrightarrow> wp (settleTaker P oid n) Q s"
  by (rule wp_mono [of _ "\<lambda>_. evolves s0"])
    (auto simp: settleTaker_def IncrementDeadStreak_def evolves_halted Let_def sinkFill_def
      intro!: evo [where ?s0.0 = s0] split: option.split prod.split)

lemma evo_confirmDeadTaker [evo]:
  "evolves s0 s \<Longrightarrow> (\<And>a s'. evolves s0 s' \<Longrightarrow> Q a s') \<Longrightarrow> wp (confirmDeadTaker P oid) Q s"
  by (rule wp_mono [of _ "\<lambda>_. evolves s0"])
    (auto simp: confirmDeadTaker_def evolves_halted Let_def
      intro!: evo [where ?s0.0 = s0] split: option.split prod.split sum.split)

lemma evo_checkPendingTaker [evo]:
  "evolves s0 s \<Longrightarrow> (\<And>a s'. evolves s0 s' \<Longrightarrow> Q a s') \<Longrightarrow> wp (checkPendingTaker P t oid) Q s"
  by (rule wp_mono [of _ "\<lambda>_. evolves s0"])
    (auto simp: checkPendingTaker_def evolves_halted Let_def
      intro!: evo [where ?s0.0 = s0] split: option.split prod.split sum.split)

lemma evo_checkPendingLoop_inv:
  "evolves s0 s \<Longrightarrow> wp (checkPendingLoop P t oids) (\<lambda>_. evolves s0) s"
  by (induction oids arbitrary: s) (auto intro!: evo_checkPendingTaker [where ?s0.0 = s0])

lemma evo_checkPendingTakers [evo]:
  "evolves s0 s \<Longrightarrow> (\<And>a s'. evolves s0 s' \<Longrightarrow> Q a s') \<Longrightarrow> wp (checkPendingTakers P t) Q s"
  unfolding checkPendingTakers_def wp_bind wp_get by (rule wp_mono [OF evo_checkPendingLoop_inv])

lemma evo_askDeferred [evo]:
  "evolves s0 s \<Longrightarrow> (\<And>a s'. evolves s0 s' \<Longrightarrow> Q a s') \<Longrightarrow> wp (askDeferred P oid) Q s"
  by (rule wp_mono [of _ "\<lambda>_. evolves s0"])
    (auto simp: askDeferred_def evolves_halted Let_def
      intro!: evo [where ?s0.0 = s0] split: option.split prod.split sum.split)

lemma evo_resolveDeferred [evo]:
  "evolves s0 s \<Longrightarrow> (\<And>a s'. evolves s0 s' \<Longrightarrow> Q a s') \<Longrightarrow> wp (resolveDeferred P oid) Q s"
  by (rule wp_mono [of _ "\<lambda>_. evolves s0"])
    (auto simp: resolveDeferred_def evolves_halted Let_def
      intro!: evo [where ?s0.0 = s0] split: option.split prod.split)

lemma evo_tryDeferredRetire [evo]:
  "evolves s0 s \<Longrightarrow> (\<And>a s'. evolves s0 s' \<Longrightarrow> Q a s') \<Longrightarrow> wp (tryDeferredRetire P oid) Q s"
  by (rule wp_mono [of _ "\<lambda>_. evolves s0"])
    (auto simp: tryDeferredRetire_def evolves_halted Let_def
      intro!: evo [where ?s0.0 = s0] split: option.split prod.split)

lemma evo_retirePass_inv:
  "evolves s0 s \<Longrightarrow> wp (retirePass P q) (\<lambda>_. evolves s0) s"
proof (induction q arbitrary: s)
  case Nil
  then show ?case by simp
next
  case (Cons oid q)
  show ?case
    using Cons.prems
    by (auto intro!: evo_tryDeferredRetire [where ?s0.0 = s0]
        intro!: wp_mono [OF Cons.IH] split: prod.split)
qed

lemma evo_debtPass_inv:
  "evolves s0 s \<Longrightarrow> \<not> Halted s0 \<Longrightarrow> wp (debtPass P ds) (\<lambda>_. evolves s0) s"
proof (induction ds arbitrary: s)
  case Nil
  then show ?case by simp
next
  case (Cons d ds)
  show ?case
    using Cons.prems
    by (auto intro!: evo_tryPlaceTaker [where ?s0.0 = s0]
        intro!: wp_mono [OF Cons.IH] simp: evolves_halted split: prod.split)
qed

lemma evo_retirePass [evo]:
  "evolves s0 s \<Longrightarrow> (\<And>a s'. evolves s0 s' \<Longrightarrow> Q a s') \<Longrightarrow> wp (retirePass P q) Q s"
  by (rule wp_mono [OF evo_retirePass_inv])

lemma evo_debtPass [evo]:
  "evolves s0 s \<Longrightarrow> \<not> Halted s0 \<Longrightarrow> (\<And>a s'. evolves s0 s' \<Longrightarrow> Q a s') \<Longrightarrow> wp (debtPass P q) Q s"
  by (rule wp_mono [OF evo_debtPass_inv])

lemma evo_serviceObligations [evo]:
  "evolves s0 s \<Longrightarrow> \<not> Halted s0 \<Longrightarrow> (\<And>a s'. evolves s0 s' \<Longrightarrow> Q a s') \<Longrightarrow> wp (serviceObligations P) Q s"
  by (rule wp_mono [of _ "\<lambda>_. evolves s0"])
    (auto simp: serviceObligations_def evolves_halted Let_def
      intro!: evo [where ?s0.0 = s0] split: option.split prod.split)

lemma evo_serviceImpaired [evo]:
  "evolves s0 s \<Longrightarrow> (\<And>a s'. evolves s0 s' \<Longrightarrow> Q a s') \<Longrightarrow> wp (serviceImpaired P) Q s"
  by (rule wp_mono [of _ "\<lambda>_. evolves s0"])
    (auto simp: serviceImpaired_def evolves_halted Let_def
      intro!: evo [where ?s0.0 = s0] split: option.split prod.split)

subsection \<open>Handlers\<close>

lemma evo_Reconcile [evo]:
  "evolves s0 s \<Longrightarrow> (\<And>a s'. evolves s0 s' \<Longrightarrow> Q a s') \<Longrightarrow> wp (Reconcile P a b) Q s"
  by (rule wp_mono [of _ "\<lambda>_. evolves s0"])
    (auto simp: Reconcile_def MarkSuspect_def evolves_halted Let_def
      intro!: evo [where ?s0.0 = s0] split: option.split prod.split)

lemma evo_OnState [evo]:
  "evolves s0 s \<Longrightarrow> (\<And>a s'. evolves s0 s' \<Longrightarrow> Q a s') \<Longrightarrow> wp (OnState P st) Q s"
  by (rule wp_mono [of _ "\<lambda>_. evolves s0"])
    (auto simp: OnState_def evolves_halted Let_def
      intro!: evo [where ?s0.0 = s0] split: option.split prod.split)

lemma evo_upd_clip [evo]:
  "evolves s0 s \<Longrightarrow> (\<And>a s'. evolves s0 s' \<Longrightarrow> Q a s') \<Longrightarrow> wp (upd_clip f) Q s"
  by (rule wp_mono [of _ "\<lambda>_. evolves s0"])
    (auto simp: upd_clip_def evolves_halted Let_def
      intro!: evo [where ?s0.0 = s0] split: option.split prod.split)

lemma evo_repegReplace [evo]:
  "evolves s0 s \<Longrightarrow> \<not> Halted s0 \<Longrightarrow> (\<And>a s'. evolves s0 s' \<Longrightarrow> Q a s') \<Longrightarrow> wp (repegReplace P onA sy pr ts) Q s"
  by (rule wp_mono [of _ "\<lambda>_. evolves s0"])
    (auto simp: repegReplace_def evolves_halted Let_def
      intro!: evo [where ?s0.0 = s0] split: option.split prod.split)

lemma evo_repegLeg [evo]:
  "evolves s0 s \<Longrightarrow> \<not> Halted s0 \<Longrightarrow> (\<And>a s'. evolves s0 s' \<Longrightarrow> Q a s') \<Longrightarrow> wp (repegLeg P onA sy t ts) Q s"
  by (rule wp_mono [of _ "\<lambda>_. evolves s0"])
    (auto simp: repegLeg_def evolves_halted Let_def
      intro!: evo [where ?s0.0 = s0] split: option.split prod.split)

lemma evo_maybeRepeg [evo]:
  "evolves s0 s \<Longrightarrow> (\<And>a s'. evolves s0 s' \<Longrightarrow> Q a s') \<Longrightarrow> wp (maybeRepeg P sy ts) Q s"
  by (rule wp_mono [of _ "\<lambda>_. evolves s0"])
    (auto simp: maybeRepeg_def evolves_halted Let_def
      intro!: evo [where ?s0.0 = s0] split: option.split prod.split)

lemma evo_OnBook [evo]:
  "evolves s0 s \<Longrightarrow> (\<And>a s'. evolves s0 s' \<Longrightarrow> Q a s') \<Longrightarrow> wp (OnBook P sy ts b a) Q s"
  by (rule wp_mono [of _ "\<lambda>_. evolves s0"])
    (auto simp: OnBook_def evolves_halted Let_def
      intro!: evo [where ?s0.0 = s0] split: option.split prod.split)

lemma evo_checkStaleBooks [evo]:
  "evolves s0 s \<Longrightarrow> (\<And>a s'. evolves s0 s' \<Longrightarrow> Q a s') \<Longrightarrow> wp (checkStaleBooks P t) Q s"
  by (rule wp_mono [of _ "\<lambda>_. evolves s0"])
    (auto simp: checkStaleBooks_def evolves_halted Let_def
      intro!: evo [where ?s0.0 = s0] split: option.split prod.split)

lemma evo_foldTakerFill [evo]:
  "evolves s0 s \<Longrightarrow> (\<And>a s'. evolves s0 s' \<Longrightarrow> Q a s') \<Longrightarrow> wp (foldTakerFill P oid acct r n pr) Q s"
  by (rule wp_mono [of _ "\<lambda>_. evolves s0"])
    (auto simp: foldTakerFill_def evolves_halted Let_def sinkFill_def sinkAmend_def
      intro!: evo [where ?s0.0 = s0] split: option.split prod.split)

lemma evo_foldRetiredFill [evo]:
  "evolves s0 s \<Longrightarrow> (\<And>a s'. evolves s0 s' \<Longrightarrow> Q a s') \<Longrightarrow> wp (foldRetiredFill P oid sy bu acct r n pr) Q s"
  by (rule wp_mono [of _ "\<lambda>_. evolves s0"])
    (auto simp: foldRetiredFill_def evolves_halted Let_def sinkFill_def sinkAmend_def
      intro!: evo [where ?s0.0 = s0] split: option.split prod.split)

lemma evo_pairFirstFill [evo]:
  "evolves s0 s \<Longrightarrow> (\<And>a s'. evolves s0 s' \<Longrightarrow> Q a s') \<Longrightarrow> wp (pairFirstFill P ts oid c) Q s"
  by (rule wp_mono [of _ "\<lambda>_. evolves s0"])
    (auto simp: pairFirstFill_def evolves_halted Let_def
      intro!: evo [where ?s0.0 = s0] split: option.split prod.split)

lemma evo_pairLaterFill [evo]:
  "evolves s0 s \<Longrightarrow> (\<And>a s'. evolves s0 s' \<Longrightarrow> Q a s') \<Longrightarrow> wp (pairLaterFill P ts oid c n) Q s"
  by (rule wp_mono [of _ "\<lambda>_. evolves s0"])
    (auto simp: pairLaterFill_def evolves_halted Let_def hedge_def
      intro!: evo [where ?s0.0 = s0] split: option.split prod.split)

lemma evo_foldLiveFill [evo]:
  "evolves s0 s \<Longrightarrow> (\<And>a s'. evolves s0 s' \<Longrightarrow> Q a s') \<Longrightarrow> wp (foldLiveFill P ts oid sy bu acct n pr) Q s"
  by (rule wp_mono [of _ "\<lambda>_. evolves s0"])
    (auto simp: foldLiveFill_def clipFill_def evolves_halted Let_def sinkFill_def
      intro!: evo [where ?s0.0 = s0] split: option.split prod.split)

lemma evo_foldFill [evo]:
  "evolves s0 s \<Longrightarrow> (\<And>a s'. evolves s0 s' \<Longrightarrow> Q a s') \<Longrightarrow> wp (foldFill P ts oid sy bu acct n pr) Q s"
  by (rule wp_mono [of _ "\<lambda>_. evolves s0"])
    (auto simp: foldFill_def evolves_halted Let_def
      intro!: evo [where ?s0.0 = s0] split: option.split prod.split)

lemma evo_OnFill [evo]:
  "evolves s0 s \<Longrightarrow> (\<And>a s'. evolves s0 s' \<Longrightarrow> Q a s') \<Longrightarrow> wp (OnFill P ts oid sy bu n pr) Q s"
  by (rule wp_mono [of _ "\<lambda>_. evolves s0"])
    (auto simp: OnFill_def evolves_halted Let_def
      intro!: evo [where ?s0.0 = s0] split: option.split prod.split)

lemma evo_OnOrderStatus [evo]:
  "evolves s0 s \<Longrightarrow> (\<And>a s'. evolves s0 s' \<Longrightarrow> Q a s') \<Longrightarrow> wp (OnOrderStatus P oid dead) Q s"
  by (rule wp_mono [of _ "\<lambda>_. evolves s0"])
    (auto simp: OnOrderStatus_def evolves_halted Let_def
      intro!: evo [where ?s0.0 = s0] split: option.split prod.split)

lemma evo_OnTick [evo]:
  "evolves s0 s \<Longrightarrow> (\<And>a s'. evolves s0 s' \<Longrightarrow> Q a s') \<Longrightarrow> wp (OnTick P t) Q s"
  by (rule wp_mono [of _ "\<lambda>_. evolves s0"])
    (auto simp: OnTick_def evolves_halted Let_def
      intro!: evo [where ?s0.0 = s0] split: option.split prod.split)

subsection \<open>Every event\<close>

lemma evo_Halt:
  "wp (Halt P) (\<lambda>_ s'. Halted s' \<and> placed (elog s') = placed (elog s) \<and> booked (elog s') = booked (elog s)) s"
proof (cases "Halted s")
  case True
  then show ?thesis by (simp add: Halt_def mHalt_def)
next
  case False
  let ?s = "s\<lparr>recovery := (recovery s)\<lparr>halted := True\<rparr>\<rparr>"
  have "wp (CancelClip P) (\<lambda>_. evolves ?s) ?s" by (rule evo_CancelClip) simp_all
  then have "wp (CancelClip P) (\<lambda>_ s'. Halted s' \<and> placed (elog s') = placed (elog s) \<and>
      booked (elog s') = booked (elog s)) ?s"
    by (rule wp_mono) (simp add: owes_def)
  then show ?thesis using False by (simp add: Halt_def mHalt_def)
qed

lemma evo_handle:
  assumes "ev \<noteq> EvHalt"
  shows "wp (handle P ev) (\<lambda>_. evolves s) s"
  using assms by (cases ev) (auto intro: evo [where ?s0.0 = s])

lemma handle_frame:
  "Halted s \<Longrightarrow> Halted (exec (handle P ev) s) \<and>
     placed (elog (exec (handle P ev) s)) = placed (elog s)"
  "placed (elog (exec (handle P ev) s)) - booked (elog (exec (handle P ev) s)) =
     placed (elog s) - booked (elog s)"
proof -
  have "ev = EvHalt \<or> evolves s (exec (handle P ev) s)"
    using exec_of_wp [OF evo_handle [of ev P s]] by blast
  moreover have "Halted (exec (Halt P) s) \<and> placed (elog (exec (Halt P) s)) = placed (elog s) \<and>
      booked (elog (exec (Halt P) s)) = booked (elog s)"
    by (rule exec_of_wp [OF evo_Halt])
  ultimately show "Halted s \<Longrightarrow> Halted (exec (handle P ev) s) \<and>
      placed (elog (exec (handle P ev) s)) = placed (elog s)"
    "placed (elog (exec (handle P ev) s)) - booked (elog (exec (handle P ev) s)) =
      placed (elog s) - booked (elog s)"
    by (auto simp: owes_def)
qed

lemma reaches_halted:
  "reaches P Env s s' \<Longrightarrow> Halted s \<Longrightarrow> Halted s' \<and> placed (elog s') = placed (elog s)"
  by (induction rule: reaches.induct) (auto simp: handle_frame)

lemma reaches_booked:
  "reaches P Env s s' \<Longrightarrow>
     placed (elog s') - booked (elog s') = placed (elog s) - booked (elog s)"
  by (induction rule: reaches.induct) (auto simp: handle_frame)

subsection \<open>Halt pulls what rests\<close>

definition live :: "string \<Rightarrow> 'w Engine \<Rightarrow> bool" where
  "live oid s \<longleftrightarrow> (\<exists>a. own s oid = Some a \<and> Final a < 0 \<and> \<not> Deferred a)"

definition pulled :: "string \<Rightarrow> 'w Engine \<Rightarrow> 'w Engine \<Rightarrow> bool" where
  "pulled oid s s' \<longleftrightarrow>
     (live oid s \<longrightarrow> ECancel oid \<in> set (elog s')) \<and> set (elog s) \<subseteq> set (elog s') \<and>
     (\<forall>x. x \<noteq> oid \<longrightarrow> own s' x = own s x) \<and> Halted s' = Halted s"

lemma askRetired_pulled:
  "wp (askRetired P oid) (\<lambda>_ s'. ECancel oid \<in> set (elog s') \<and> set (elog s) \<subseteq> set (elog s') \<and>
     own s' = own s \<and> Halted s' = Halted s) s"
  by (auto simp: askRetired_def cancelRPC_def split: sum.split prod.split)

lemma finishRetire_pulled:
  "wp (finishRetire P oid n) (\<lambda>_ s'. set (elog s) \<subseteq> set (elog s') \<and>
     (\<forall>x. x \<noteq> oid \<longrightarrow> own s' x = own s x) \<and> Halted s' = Halted s) s"
  by (auto simp: finishRetire_def sinkFill_def Let_def split: option.split prod.split)

lemma foldGap_pulled:
  "wp (foldGap oid) (\<lambda>_ s'. elog s' = elog s \<and>
     (\<forall>x. x \<noteq> oid \<longrightarrow> own s' x = own s x) \<and> Halted s' = Halted s) s"
  by (auto simp: foldGap_def Let_def split: option.split)

lemma deferRetire_pulled:
  "wp (deferRetire P oid) (\<lambda>_ s'. elog s' = elog s \<and>
     (\<forall>x. x \<noteq> oid \<longrightarrow> own s' x = own s x) \<and> Halted s' = Halted s) s"
  by (auto simp: deferRetire_def split: option.split)

lemma retireOrder_pulled: "wp (retireOrder P oid) (\<lambda>_. pulled oid s) s"
proof (cases "live oid s")
  case False
  then show ?thesis
    unfolding retireOrder_def
    by (auto simp: live_def pulled_def split: option.split intro!: wp_mono [OF foldGap_pulled])
next
  case True
  then obtain a where a: "own s oid = Some a" "Final a < 0" "\<not> Deferred a"
    by (auto simp: live_def)
  show ?thesis
    unfolding retireOrder_def wp_bind wp_get
    apply (simp add: a)
    apply (rule wp_mono [OF askRetired_pulled])
    apply (clarsimp split: option.split, intro conjI allI impI)
     apply (rule wp_mono [OF deferRetire_pulled])
     apply (auto simp: pulled_def) [1]
    apply (rule wp_mono [OF finishRetire_pulled])
    apply (rule wp_mono [OF foldGap_pulled])
    apply (auto simp: pulled_def) [1]
    done
qed

lemma pulled_two:
  assumes "pulled x s s1" and "pulled y s1 s2"
  shows "(live x s \<longrightarrow> ECancel x \<in> set (elog s2)) \<and> (live y s \<longrightarrow> ECancel y \<in> set (elog s2)) \<and>
     Halted s2 = Halted s"
proof (cases "x = y")
  case True
  then show ?thesis using assms by (auto simp: pulled_def)
next
  case False
  then have "live y s1 = live y s" using assms by (simp add: pulled_def live_def)
  then show ?thesis using assms by (auto simp: pulled_def)
qed

lemma live_recovery [simp]: "live x (s\<lparr>recovery := m\<rparr>) = live x s"
  by (simp add: live_def)

lemma halt_pulls_legs:
  assumes "clip s = Some c" and "\<not> Halted s"
  shows "wp (Halt P) (\<lambda>_ s'. clip s' = None \<and>
     (live (lo_id (legA c)) s \<longrightarrow> ECancel (lo_id (legA c)) \<in> set (elog s')) \<and>
     (live (lo_id (legB c)) s \<longrightarrow> ECancel (lo_id (legB c)) \<in> set (elog s'))) s"
proof -
  have "wp (settleClip P (makerFilled c) (makerFilled c) False) (\<lambda>_ s'.
     (live (lo_id (legA c)) s \<longrightarrow> ECancel (lo_id (legA c)) \<in> set (elog s')) \<and>
     (live (lo_id (legB c)) s \<longrightarrow> ECancel (lo_id (legB c)) \<in> set (elog s')))
     (s\<lparr>recovery := (recovery s)\<lparr>halted := True\<rparr>\<rparr>)"
    unfolding settleClip_def wp_bind wp_get
    apply (simp add: assms(1))
    apply (rule wp_mono [OF retireOrder_pulled])
    apply (rule wp_mono [OF retireOrder_pulled])
    apply (drule (1) pulled_two)
    apply (simp add: Let_def)
    done
  then show ?thesis
    using assms by (simp add: Halt_def mHalt_def CancelClip_def) (erule wp_mono, simp)
qed

end
