(* ===== verification/EngineBalance.thy ===== *)
theory EngineBalance
  imports EngineSafety
begin

text \<open>
  The two-legged book. An account's effective lots are what the engine's book counts for its
  order; the balance weighs LegA by the hedge ratio and adds the queued debts. Under the documented
  laws of the broker (locale \<open>broker\<close>: every accepted placement gets a fresh non-empty id, counts
  are not negative) every operation moves the balance by a known amount and keeps the account
  invariant; \<open>EngineHandlers\<close> composes them into the handlers.
\<close>

declare wp_rpc [simp del]

subsection \<open>Accounts and the balance\<close>

definition sgn_of :: "bool \<Rightarrow> int" where
  "sgn_of b = (if b then 1 else - 1)"

lemma sgn_of_simps [simp]: "sgn_of True = 1" "sgn_of False = - 1" "sgn_of (\<not> b) = - sgn_of b"
  by (simp_all add: sgn_of_def)

definition eff :: "OrdAcct \<Rightarrow> int" where
  "eff a =
     (if Maker a then (if Final a < 0 then Folded a else max (Final a) (Seen a))
      else if Final a < 0 then Placed a else Final a)"

definition weight :: "('w, 'g) Wiring \<Rightarrow> string \<Rightarrow> int" where
  "weight P sy = (if sy = LegA (cfg P) then hedgeRatio P else 1)"

definition contrib :: "('w, 'g) Wiring \<Rightarrow> OrdAcct \<Rightarrow> int" where
  "contrib P a = weight P (Sym a) * (sgn_of (IsBuy a) * eff a)"

definition debt_contrib :: "('w, 'g) Wiring \<Rightarrow> HedgeDebt \<Rightarrow> int" where
  "debt_contrib P d = weight P (dSym d) * (sgn_of (dBuy d) * dLots d)"

definition bal :: "('w, 'g) Wiring \<Rightarrow> 'w Engine \<Rightarrow> int" where
  "bal P s = map_sum (contrib P) (own s) + (\<Sum>d\<leftarrow>debts (recovery s). debt_contrib P d)"

definition credit_of :: "('w, 'g) Wiring \<Rightarrow> OrdAcct \<Rightarrow> int" where
  "credit_of P a =
     (if \<not> hasSink P then 0
      else if \<not> Maker a \<and> Final a < 0 then Placed a
      else max (Final a) (Seen a))"

definition acct_ok :: "('w, 'g) Wiring \<Rightarrow> OrdAcct \<Rightarrow> bool" where
  "acct_ok P a \<longleftrightarrow>
     0 < Placed a \<and> 0 \<le> Seen a \<and> Seen a \<le> Placed a \<and> - 1 \<le> Final a \<and> Final a \<le> Placed a \<and>
     (Sym a = LegA (cfg P) \<or> Sym a = LegB (cfg P)) \<and>
     Credited a = credit_of P a \<and>
     (Maker a \<longrightarrow> (Final a < 0 \<longrightarrow> Folded a = Seen a) \<and> (0 \<le> Final a \<longrightarrow> Final a \<le> Folded a) \<and>
        (Sym a = LegB (cfg P) \<longrightarrow> hedgeRatio P = 1)) \<and>
     (Deferred a \<longrightarrow> Maker a \<and> Final a < 0)"

definition same_order :: "OrdAcct \<Rightarrow> OrdAcct \<Rightarrow> bool" where
  "same_order a b \<longleftrightarrow> Maker b = Maker a \<and> Sym b = Sym a \<and> IsBuy b = IsBuy a \<and> Placed b = Placed a"

lemma same_order_refl [simp]: "same_order a a"
  by (simp add: same_order_def)

lemma same_order_trans: "same_order a b \<Longrightarrow> same_order b c \<Longrightarrow> same_order a c"
  by (simp add: same_order_def)

subsection \<open>What the sink has been handed\<close>

fun sunk :: "string \<Rightarrow> effect list \<Rightarrow> int" where
  "sunk oid [] = 0"
| "sunk oid (x # xs) =
     (case x of EFill i sy bu n pr \<Rightarrow> (if i = oid then sgn_of bu * n else 0) + sunk oid xs
      | _ \<Rightarrow> sunk oid xs)"

fun sink_net :: "string \<Rightarrow> effect list \<Rightarrow> int" where
  "sink_net sy [] = 0"
| "sink_net sy (x # xs) =
     (case x of EFill i sy' bu n pr \<Rightarrow> (if sy' = sy then sgn_of bu * n else 0) + sink_net sy xs
      | _ \<Rightarrow> sink_net sy xs)"

definition acct_credit :: "OrdAcct \<Rightarrow> int" where
  "acct_credit a = sgn_of (IsBuy a) * Credited a"

definition credit_in :: "string \<Rightarrow> OrdAcct \<Rightarrow> int" where
  "credit_in sy a = (if Sym a = sy then acct_credit a else 0)"

subsection \<open>The invariant\<close>

definition ledger_ok :: "('w, 'g) Wiring \<Rightarrow> Ledger \<Rightarrow> bool" where
  "ledger_ok P m \<longleftrightarrow> finite (dom m) \<and> m '''' = None \<and> (\<forall>oid a. m oid = Some a \<longrightarrow> acct_ok P a)"

definition sink_ok :: "Ledger \<Rightarrow> effect list \<Rightarrow> bool" where
  "sink_ok m l \<longleftrightarrow>
     (\<forall>oid. sunk oid l = (case m oid of None \<Rightarrow> 0 | Some a \<Rightarrow> acct_credit a)) \<and>
     (\<forall>sy. sink_net sy l = map_sum (credit_in sy) m)"

definition queues_ok :: "('w, 'g) Wiring \<Rightarrow> Ledger \<Rightarrow> Machine \<Rightarrow> bool" where
  "queues_ok P m r \<longleftrightarrow>
     (\<forall>oid\<in>set (retireQ r). \<exists>a. m oid = Some a \<and> Maker a) \<and>
     (\<forall>oid a. m oid = Some a \<longrightarrow> Deferred a \<longrightarrow> oid \<in> set (retireQ r)) \<and>
     (\<forall>d\<in>set (debts r). 0 < dLots d \<and> (dSym d = LegA (cfg P) \<or> dSym d = LegB (cfg P))) \<and>
     (\<not> halted r \<longrightarrow> retireQ r \<noteq> [] \<or> debts r \<noteq> [] \<longrightarrow> impaired r)"

definition pending_ok :: "Ledger \<Rightarrow> PendingSet \<Rightarrow> bool" where
  "pending_ok m p \<longleftrightarrow> (\<forall>oid\<in>set p. \<exists>a. m oid = Some a \<and> \<not> Maker a)"

lemma queues_ok_upd:
  assumes q: "queues_ok P m r" and a: "m oid = Some a" and same: "same_order a b"
    and def: "Deferred b \<Longrightarrow> Deferred a"
  shows "queues_ok P (m(oid \<mapsto> b)) r"
proof -
  have mk: "Maker b = Maker a" using same by (simp add: same_order_def)
  have "\<exists>c. (m(oid \<mapsto> b)) x = Some c \<and> Maker c" if "x \<in> set (retireQ r)" for x
    using q that a mk by (cases "x = oid") (auto simp: queues_ok_def)
  moreover have "x \<in> set (retireQ r)" if "(m(oid \<mapsto> b)) x = Some c" "Deferred c" for x c
    using q that a def by (cases "x = oid") (auto simp: queues_ok_def)
  ultimately show ?thesis using q by (simp add: queues_ok_def)
qed

lemma pending_ok_upd:
  assumes "pending_ok m p" and "m oid = Some a" and "same_order a b" and "set p' \<subseteq> set p"
  shows "pending_ok (m(oid \<mapsto> b)) p'"
  unfolding pending_ok_def
proof
  fix x assume "x \<in> set p'"
  then obtain c where "m x = Some c" "\<not> Maker c" using assms by (auto simp: pending_ok_def)
  then show "\<exists>c. (m(oid \<mapsto> b)) x = Some c \<and> \<not> Maker c"
    using assms(2,3) by (cases "x = oid") (auto simp: same_order_def)
qed

lemma queues_ok_new:
  assumes q: "queues_ok P m r" and "m oid = None" and "\<not> Deferred b"
  shows "queues_ok P (m(oid \<mapsto> b)) r"
proof -
  have "\<exists>c. (m(oid \<mapsto> b)) x = Some c \<and> Maker c" if "x \<in> set (retireQ r)" for x
    using q that assms(2) by (cases "x = oid") (force simp: queues_ok_def)+
  moreover have "x \<in> set (retireQ r)" if "(m(oid \<mapsto> b)) x = Some c" "Deferred c" for x c
    using q that assms by (cases "x = oid") (auto simp: queues_ok_def)
  ultimately show ?thesis using q by (simp add: queues_ok_def)
qed

lemma pending_ok_new:
  assumes "pending_ok m p" and "m oid = None"
    and "p' = p \<or> p' = pending_add oid p \<and> \<not> Maker b"
  shows "pending_ok (m(oid \<mapsto> b)) p'"
  unfolding pending_ok_def
proof
  fix x assume x: "x \<in> set p'"
  show "\<exists>c. (m(oid \<mapsto> b)) x = Some c \<and> \<not> Maker c"
  proof (cases "x = oid")
    case True
    then show ?thesis using assms x by (force simp: pending_ok_def)
  next
    case False
    then have "x \<in> set p" using assms(3) x by auto
    then show ?thesis using assms(1) False by (auto simp: pending_ok_def)
  qed
qed

definition leg_ok :: "Ledger \<Rightarrow> string \<Rightarrow> legOrder \<Rightarrow> bool" where
  "leg_ok m sy lo \<longleftrightarrow>
     lo_id lo = '''' \<or>
     (\<exists>a. m (lo_id lo) = Some a \<and> Maker a \<and> Sym a = sy \<and> IsBuy a = isBid lo)"

definition clip_ok :: "('w, 'g) Wiring \<Rightarrow> Ledger \<Rightarrow> clip \<Rightarrow> bool" where
  "clip_ok P m c \<longleftrightarrow>
     leg_ok m (LegA (cfg P)) (legA c) \<and> leg_ok m (LegB (cfg P)) (legB c) \<and>
     dir c \<noteq> 0 \<and> isBid (legA c) = (dir c > 0) \<and> isBid (legB c) = (dir c < 0) \<and>
     0 < target c \<and> 0 \<le> makerFilled c \<and>
     (lo_id (legB c) \<noteq> '''' \<longrightarrow> hedgeRatio P = 1) \<and>
     makerID c \<in> {'''', lo_id (legA c), lo_id (legB c)} \<and>
     (makerID c = '''' \<longrightarrow> makerFilled c = 0) \<and>
     (mode c = ExecSoloMaker \<or> hedgeRatio P = 1)"

subsection \<open>The laws of the broker\<close>

definition advances :: "('w \<Rightarrow> string set) \<Rightarrow> ('w \<Rightarrow> bool) \<Rightarrow> 'w \<Rightarrow> 'w \<Rightarrow> bool" where
  "advances issued winv w w' \<longleftrightarrow> winv w' \<and> issued w \<subseteq> issued w'"

definition keeps_world :: "('w \<Rightarrow> string set) \<Rightarrow> ('w \<Rightarrow> bool) \<Rightarrow> ('w, 'a) state \<Rightarrow> bool" where
  "keeps_world issued winv m \<longleftrightarrow>
     (\<forall>w. winv w \<longrightarrow> advances issued winv w (snd (run_state m w)))"

definition places_fresh ::
  "('w \<Rightarrow> string set) \<Rightarrow> ('w \<Rightarrow> bool) \<Rightarrow> ('w, go_error + string) state \<Rightarrow> bool" where
  "places_fresh issued winv m \<longleftrightarrow>
     keeps_world issued winv m \<and>
     (\<forall>w oid. winv w \<longrightarrow> fst (run_state m w) = Inr oid \<longrightarrow>
        oid \<noteq> '''' \<and> oid \<notin> issued w \<and> oid \<in> issued (snd (run_state m w)))"

text \<open>
  \<open>issued w\<close> are the ids the broker has given out. The laws: an accepted placement returns an id
  that is not empty and was never given out before; a cancel and a status report counts that are
  not negative; nothing else concerns the engine's book.
\<close>

locale broker =
  fixes P :: "('w, 'g) Wiring"
    and issued :: "'w \<Rightarrow> string set"
    and winv :: "'w \<Rightarrow> bool"
    and Env :: "'w \<Rightarrow> 'w \<Rightarrow> bool"
  assumes legs: "LegA (cfg P) \<noteq> LegB (cfg P)" "LegA (cfg P) \<noteq> ''''" "LegB (cfg P) \<noteq> ''''"
    and place_fresh: "places_fresh issued winv (Place P b sy n pr)"
    and take_fresh: "places_fresh issued winv (Take P b sy n)"
    and cancel_keeps: "keeps_world issued winv (Cancel P oid)"
    and cancel_count: "winv w \<Longrightarrow> fst (run_state (Cancel P oid) w) = Inr k \<Longrightarrow> 0 \<le> k"
    and status_keeps: "keeps_world issued winv (Status P oid)"
    and status_count: "winv w \<Longrightarrow> fst (run_state (Status P oid) w) = Inr (k, term) \<Longrightarrow> 0 \<le> k"
    and allow_keeps: "keeps_world issued winv (LimAllow P t k)"
    and spend_keeps: "keeps_world issued winv (LimSpend P t k)"
    and clock_keeps: "keeps_world issued winv (ClockNow P)"
    and fill_keeps: "keeps_world issued winv (SinkFill P sy b n pr)"
    and amend_keeps: "keeps_world issued winv (SinkAmend P sy b n pr pr')"
    and commit_keeps: "keeps_world issued winv (DeciderCommit P i t)"
    and save_keeps: "SaveLots P = Some m \<Longrightarrow> keeps_world issued winv m"
    and env_keeps: "winv w \<Longrightarrow> Env w w' \<Longrightarrow> advances issued winv w w'"
begin

abbreviation adv :: "'w \<Rightarrow> 'w \<Rightarrow> bool" where
  "adv \<equiv> advances issued winv"

definition base :: "'w Engine \<Rightarrow> bool" where
  "base s \<longleftrightarrow>
     winv (world s) \<and> dom (own s) \<subseteq> issued (world s) \<and> ledger_ok P (own s) \<and>
     sink_ok (own s) (elog s) \<and> queues_ok P (own s) (recovery s) \<and> pending_ok (own s) (pending s)"

text \<open>
  \<open>s\<close> follows \<open>s0\<close> in the same handler: the same clip and kill-switch, every order still the same
  order, no order newly deferred out of the queue, and the balance moved to \<open>d\<close>.
\<close>

definition good :: "'w Engine \<Rightarrow> int \<Rightarrow> 'w Engine \<Rightarrow> bool" where
  "good s0 d s \<longleftrightarrow>
     base s \<and> clip s = clip s0 \<and> Halted s = Halted s0 \<and>
     (\<forall>oid a. own s0 oid = Some a \<longrightarrow> (\<exists>b. own s oid = Some b \<and> same_order a b)) \<and>
     (\<not> Halted s0 \<longrightarrow> bal P s = d)"

lemma keepsD:
  assumes "keeps_world issued winv m" and "winv w" and "run_state m w = (a, w')"
  shows "adv w w'"
  using assms by (force simp: keeps_world_def)

lemma placesD:
  assumes "places_fresh issued winv m" and "winv w" and "run_state m w = (r, w')"
  shows "adv w w'" and "r = Inr oid \<Longrightarrow> oid \<noteq> '''' \<and> oid \<notin> issued w \<and> oid \<in> issued w'"
  using assms by (force simp: places_fresh_def keeps_world_def)+

lemma adv_refl: "winv w \<Longrightarrow> adv w w"
  by (simp add: advances_def)

lemma adv_trans: "adv w w1 \<Longrightarrow> adv w1 w2 \<Longrightarrow> adv w w2"
  by (auto simp: advances_def)

lemma base_winv [simp]: "base s \<Longrightarrow> winv (world s)"
  by (simp add: base_def)

lemma good_winv: "good s0 d s \<Longrightarrow> winv (world s)"
  by (simp add: good_def)

lemma good_halted: "good s0 d s \<Longrightarrow> Halted s = Halted s0"
  by (simp add: good_def)

lemma good_acct: "good s0 d s \<Longrightarrow> own s oid = Some a \<Longrightarrow> acct_ok P a"
  by (auto simp: good_def base_def ledger_ok_def)

subsection \<open>Elementary steps\<close>

text \<open>A step that leaves the book alone.\<close>

lemma good_quiet:
  assumes "good s0 d s" and "adv (world s) (world s')"
    and "own s' = own s" "clip s' = clip s" "pending s' = pending s" "recovery s' = recovery s"
    and "\<And>oid. sunk oid (elog s') = sunk oid (elog s)" "\<And>sy. sink_net sy (elog s') = sink_net sy (elog s)"
  shows "good s0 d s'"
  using assms by (auto simp: good_def base_def advances_def bal_def sink_ok_def)

text \<open>A step of the recovery machine that leaves the queues and the kill-switch alone.\<close>

lemma good_recovery:
  assumes "good s0 d s" and "retireQ m = retireQ (recovery s)" "debts m = debts (recovery s)"
    "halted m = halted (recovery s)" "impaired m = impaired (recovery s)"
  shows "good s0 d (s\<lparr>recovery := m\<rparr>)"
  using assms by (auto simp: good_def base_def bal_def queues_ok_def)

text \<open>A step of one account, with what it hands to the sink.\<close>

lemma good_account_queues:
  assumes g: "good s0 d s" and a: "own s oid = Some a" and ok: "acct_ok P b" and same: "same_order a b"
    and w: "adv (world s) (world s')" and own': "own s' = (own s)(oid \<mapsto> b)"
    and clip': "clip s' = clip s"
    and debts': "debts (recovery s') = debts (recovery s)" and halt': "Halted s' = Halted s"
    and queues': "queues_ok P (own s') (recovery s')"
    and pend: "set (pending s') \<subseteq> set (pending s)"
    and sunk': "\<And>x. sunk x (elog s') =
        sunk x (elog s) + (if x = oid then sgn_of (IsBuy a) * (Credited b - Credited a) else 0)"
    and net': "\<And>sy. sink_net sy (elog s') =
        sink_net sy (elog s) + (if sy = Sym a then sgn_of (IsBuy a) * (Credited b - Credited a) else 0)"
    and d: "d' = d + contrib P b - contrib P a"
  shows "good s0 d' s'"
proof -
  have fin: "finite (dom (own s))" using g by (simp add: good_def base_def ledger_ok_def)
  have sums: "map_sum f (own s') = map_sum f (own s) - f a + f b" for f
    unfolding own' by (rule map_sum_update [OF fin a])
  have cr: "acct_credit b = acct_credit a + sgn_of (IsBuy a) * (Credited b - Credited a)"
    using same by (simp add: acct_credit_def same_order_def algebra_simps)
  have "sink_ok (own s') (elog s')"
    unfolding sink_ok_def
  proof (intro conjI allI)
    fix x show "sunk x (elog s') = (case own s' x of None \<Rightarrow> 0 | Some a \<Rightarrow> acct_credit a)"
      using g a cr sunk' [of x] by (auto simp: good_def base_def sink_ok_def own')
  next
    fix sy show "sink_net sy (elog s') = map_sum (credit_in sy) (own s')"
      using g cr net' [of sy] same sums [of "credit_in sy"]
      by (auto simp: good_def base_def sink_ok_def credit_in_def same_order_def)
  qed
  moreover have "oid \<noteq> ''''" using g a by (auto simp: good_def base_def ledger_ok_def)
  then have "ledger_ok P (own s')"
    using g ok by (auto simp: good_def base_def ledger_ok_def own')
  moreover have "pending_ok (own s') (pending s')"
    using g unfolding own' by (intro pending_ok_upd [where m = "own s", OF _ a same pend]) (simp add: good_def base_def)
  moreover have "dom (own s') \<subseteq> issued (world s')" "winv (world s')"
    using g a w unfolding own' by (auto simp: good_def base_def advances_def)
  ultimately have "base s'" using queues' by (simp add: base_def)
  moreover have "\<forall>x c. own s0 x = Some c \<longrightarrow> (\<exists>e. own s' x = Some e \<and> same_order c e)"
  proof (intro allI impI)
    fix x c assume "own s0 x = Some c"
    then obtain e where "own s x = Some e" "same_order c e" using g by (auto simp: good_def)
    then show "\<exists>e. own s' x = Some e \<and> same_order c e"
      using a same unfolding own' by (cases "x = oid") (auto intro: same_order_trans)
  qed
  ultimately show ?thesis
    using g d sums [of "contrib P"] unfolding good_def clip' halt' by (simp add: bal_def debts')
qed

lemma good_account:
  assumes g: "good s0 d s" and a: "own s oid = Some a" and ok: "acct_ok P b" and same: "same_order a b"
    and w: "adv (world s) (world s')" and own': "own s' = (own s)(oid \<mapsto> b)"
    and clip': "clip s' = clip s" and rec': "recovery s' = recovery s"
    and pend: "set (pending s') \<subseteq> set (pending s)" and def: "Deferred b \<Longrightarrow> Deferred a"
    and sunk': "\<And>x. sunk x (elog s') =
        sunk x (elog s) + (if x = oid then sgn_of (IsBuy a) * (Credited b - Credited a) else 0)"
    and net': "\<And>sy. sink_net sy (elog s') =
        sink_net sy (elog s) + (if sy = Sym a then sgn_of (IsBuy a) * (Credited b - Credited a) else 0)"
    and d: "d' = d + contrib P b - contrib P a"
  shows "good s0 d' s'"
proof (rule good_account_queues [OF g a ok same w own' clip'])
  show "queues_ok P (own s') (recovery s')"
    using g unfolding rec' own'
    by (intro queues_ok_upd [where m = "own s", OF _ a same def]) (simp add: good_def base_def)
qed (use rec' pend sunk' net' d in simp_all)

text \<open>A new account under a fresh id.\<close>

lemma good_new:
  assumes g: "good s0 d s" and none: "own s oid = None" and ok: "acct_ok P b" "\<not> Deferred b"
    and oid: "oid \<noteq> ''''" "oid \<in> issued (world s)" and w: "adv (world s) (world s')"
    and own': "own s' = (own s)(oid \<mapsto> b)" and clip': "clip s' = clip s"
    and rec': "recovery s' = recovery s"
    and pend: "pending s' = pending s \<or> pending s' = pending_add oid (pending s) \<and> \<not> Maker b"
    and sunk': "\<And>x. sunk x (elog s') = sunk x (elog s) + (if x = oid then acct_credit b else 0)"
    and net': "\<And>sy. sink_net sy (elog s') = sink_net sy (elog s) + credit_in sy b"
    and d: "d' = d + contrib P b"
  shows "good s0 d' s'"
proof -
  have fin: "finite (dom (own s))" using g by (simp add: good_def base_def ledger_ok_def)
  have sums: "map_sum f (own s') = map_sum f (own s) + f b" for f
    unfolding own' by (rule map_sum_insert [OF fin none])
  have "sink_ok (own s') (elog s')"
    using g none sunk' net' sums unfolding sink_ok_def good_def base_def
    by (auto simp: own')
  moreover have "ledger_ok P (own s')"
    using g ok oid by (auto simp: good_def base_def ledger_ok_def own')
  moreover have "queues_ok P (own s') (recovery s')"
    using g unfolding rec' own' by (intro queues_ok_new [where m = "own s", OF _ none ok(2)]) (simp add: good_def base_def)
  moreover have "pending_ok (own s') (pending s')"
    using g unfolding own' by (intro pending_ok_new [where m = "own s", OF _ none pend]) (simp add: good_def base_def)
  moreover have "dom (own s') \<subseteq> issued (world s')" "winv (world s')"
    using g w oid unfolding own' by (auto simp: good_def base_def advances_def)
  ultimately have "base s'" by (simp add: base_def)
  moreover have "\<forall>x c. own s0 x = Some c \<longrightarrow> (\<exists>e. own s' x = Some e \<and> same_order c e)"
  proof (intro allI impI)
    fix x c assume "own s0 x = Some c"
    then obtain e where "own s x = Some e" "same_order c e" using g by (auto simp: good_def)
    then show "\<exists>e. own s' x = Some e \<and> same_order c e"
      using none unfolding own' by (cases "x = oid") auto
  qed
  ultimately show ?thesis
    using g d sums [of "contrib P"] unfolding good_def clip' rec' by (simp add: bal_def rec')
qed

subsection \<open>Retiring\<close>

text \<open>\<open>oid\<close> is empty or a maker order of the given leg and side, in the state \<open>s0\<close>.\<close>

definition maker_id :: "'w Engine \<Rightarrow> string \<Rightarrow> string \<Rightarrow> bool \<Rightarrow> bool" where
  "maker_id s0 oid sy bu \<longleftrightarrow>
     oid = '''' \<or> (\<exists>a. own s0 oid = Some a \<and> Maker a \<and> Sym a = sy \<and> IsBuy a = bu)"

lemma maker_id_now:
  assumes "good s0 d s" and "maker_id s0 oid sy bu"
  shows "own s oid = None \<or> (\<exists>a. own s oid = Some a \<and> Maker a \<and> Sym a = sy \<and> IsBuy a = bu)"
proof (cases "oid = ''''")
  case True
  then show ?thesis using assms(1) by (simp add: good_def base_def ledger_ok_def)
next
  case False
  then obtain a where a: "own s0 oid = Some a" "Maker a" "Sym a = sy" "IsBuy a = bu"
    using assms(2) by (auto simp: maker_id_def)
  then obtain b where "own s oid = Some b" "same_order a b" using assms(1) by (auto simp: good_def)
  then show ?thesis using a by (auto simp: same_order_def)
qed

lemma good_rpc:
  assumes "good s0 d s" and "keeps_world issued winv m"
    and "\<And>a w. run_state m (world s) = (a, w) \<Longrightarrow> good s0 d (s\<lparr>world := w\<rparr>) \<Longrightarrow> Q a (s\<lparr>world := w\<rparr>)"
  shows "wp (rpc m) Q s"
proof -
  obtain a w where r: "run_state m (world s) = (a, w)" by (cases "run_state m (world s)")
  have "adv (world s) w" by (rule keepsD [OF assms(2) good_winv [OF assms(1)] r])
  then have "good s0 d (s\<lparr>world := w\<rparr>)" by (intro good_quiet [OF assms(1)]) simp_all
  then show ?thesis using r assms(3) by (simp add: wp_rpc)
qed

lemma good_ecancel: "good s0 d s \<Longrightarrow> good s0 d (s\<lparr>elog := ECancel oid # elog s\<rparr>)"
  by (rule good_quiet) (auto intro: adv_refl good_winv)

lemma good_espend: "good s0 d s \<Longrightarrow> good s0 d (s\<lparr>elog := ESpend n # elog s\<rparr>)"
  by (rule good_quiet) (auto intro: adv_refl good_winv)

text \<open>Questions to the broker leave the book alone, and their answers are not negative.\<close>

lemma good_cancelRPC:
  assumes g: "good s0 d s"
    and Q: "\<And>r s'. good s0 d s' \<Longrightarrow> own s' = own s \<Longrightarrow> recovery s' = recovery s \<Longrightarrow>
        (\<And>k. r = Inr k \<Longrightarrow> 0 \<le> k) \<Longrightarrow> Q r s'"
  shows "wp (cancelRPC P oid) Q s"
  unfolding cancelRPC_def wp_bind
proof (rule good_rpc [OF g cancel_keeps])
  fix r w assume r: "run_state (Cancel P oid) (world s) = (r, w)" and g': "good s0 d (s\<lparr>world := w\<rparr>)"
  have "\<And>k. r = Inr k \<Longrightarrow> 0 \<le> k" using cancel_count [OF good_winv [OF g], of oid] r by simp
  then show "wp (emit (ECancel oid)) (\<lambda>a. wp (ret r) Q) (s\<lparr>world := w\<rparr>)"
    using good_ecancel [OF g', of oid] by (auto intro!: Q)
qed

lemma good_statusRPC:
  assumes g: "good s0 d s"
    and Q: "\<And>r s'. good s0 d s' \<Longrightarrow> own s' = own s \<Longrightarrow> recovery s' = recovery s \<Longrightarrow>
        (\<And>k t. r = Inr (k, t) \<Longrightarrow> 0 \<le> k) \<Longrightarrow> Q r s'"
  shows "wp (rpc (Status P oid)) Q s"
proof (rule good_rpc [OF g status_keeps])
  fix r w assume r: "run_state (Status P oid) (world s) = (r, w)" and g': "good s0 d (s\<lparr>world := w\<rparr>)"
  have "\<And>k t. r = Inr (k, t) \<Longrightarrow> 0 \<le> k" using status_count [OF good_winv [OF g], of oid] r by simp
  then show "Q r (s\<lparr>world := w\<rparr>)" using g' by (auto intro!: Q)
qed

lemma good_askRetired:
  assumes g: "good s0 d s"
    and Q: "\<And>r s'. good s0 d s' \<Longrightarrow> own s' = own s \<Longrightarrow> recovery s' = recovery s \<Longrightarrow>
        (\<And>k. r = Some k \<Longrightarrow> 0 \<le> k) \<Longrightarrow> Q r s'"
  shows "wp (askRetired P oid) Q s"
  unfolding askRetired_def wp_bind
  apply (rule good_cancelRPC [OF g])
  apply (clarsimp split: sum.split, intro conjI allI impI)
   apply (rule good_cancelRPC, assumption)
   apply (clarsimp split: sum.split, intro conjI allI impI)
    apply (rule good_statusRPC, assumption)
    apply (auto split: sum.split prod.split intro!: Q)
  done

lemma good_askDeferred:
  assumes g: "good s0 d s"
    and Q: "\<And>r s'. good s0 d s' \<Longrightarrow> own s' = own s \<Longrightarrow> recovery s' = recovery s \<Longrightarrow>
        (\<And>k. r = Some k \<Longrightarrow> 0 \<le> k) \<Longrightarrow> Q r s'"
  shows "wp (askDeferred P oid) Q s"
  unfolding askDeferred_def wp_bind
  apply (rule good_cancelRPC [OF g])
  apply (clarsimp split: sum.split, intro conjI allI impI)
   apply (rule good_statusRPC, assumption)
   apply (auto split: sum.split prod.split intro!: Q)
  done

text \<open>The gap a settled retirement folds is what the book gains.\<close>

lemma good_account2:
  assumes "good s0 d s" and "own s oid = Some a"
    and "own s' = (own s)(oid \<mapsto> the (own s' oid))"
    and "acct_ok P (the (own s' oid))" and "same_order a (the (own s' oid))"
    and "adv (world s) (world s')"
    and "clip s' = clip s" and "recovery s' = recovery s"
    and "set (pending s') \<subseteq> set (pending s)" and "Deferred (the (own s' oid)) \<Longrightarrow> Deferred a"
    and "\<And>x. sunk x (elog s') = sunk x (elog s) +
        (if x = oid then sgn_of (IsBuy a) * (Credited (the (own s' oid)) - Credited a) else 0)"
    and "\<And>sy. sink_net sy (elog s') = sink_net sy (elog s) +
        (if sy = Sym a then sgn_of (IsBuy a) * (Credited (the (own s' oid)) - Credited a) else 0)"
    and "d' = d + contrib P (the (own s' oid)) - contrib P a"
  shows "good s0 d' s'"
  by (rule good_account [OF assms(1,2,4,5,6,3,7,8,9,10)]) (use assms(11-13) in simp_all)

lemma sinkFill_run:
  assumes "winv (world s)"
  obtains w where "run_state (SinkFill P sy bu n pr) (world s) = ((), w)" and "adv (world s) w"
proof -
  obtain w where "run_state (SinkFill P sy bu n pr) (world s) = ((), w)"
    by (cases "run_state (SinkFill P sy bu n pr) (world s)") auto
  then show thesis using keepsD [OF fill_keeps assms] that by blast
qed

lemma good_settled:
  assumes g: "good s0 d s" and a: "own s oid = Some a" "Maker a" "Final a < 0"
    and fin: "0 \<le> fin" "fin \<le> Placed a"
    and s': "own s' = (own s)(oid \<mapsto> b)" "adv (world s) (world s')" "clip s' = clip s"
      "recovery s' = recovery s" "pending s' = pending s"
    and b: "same_order a b" "Seen b = Seen a" "Final b = fin" "\<not> Deferred b"
      "Folded b = (if fin > Folded a then fin else Folded a)" "gap = Folded b - Folded a"
    and cr': "if hasSink P \<and> fin > Credited a
       then Credited b = fin \<and> elog s' = EFill oid (Sym a) (IsBuy a) (fin - Credited a) (Price a) # elog s
       else Credited b = Credited a \<and> elog s' = elog s"
  shows "good s0 (d + weight P (Sym a) * (sgn_of (IsBuy a) * gap)) s'"
proof -
  have ok: "acct_ok P a" by (rule good_acct [OF g a(1)])
  have seen: "Folded a = Seen a" "Seen a \<le> Placed a" "0 \<le> Seen a"
    and cr: "Credited a = (if hasSink P then Seen a else 0)"
    using ok a by (auto simp: acct_ok_def credit_of_def)
  show ?thesis
  proof (rule good_account [OF g a(1) _ b(1) s'(2,1,3,4)])
    show "acct_ok P b"
      using b cr' ok a cr seen fin
      by (auto simp: acct_ok_def credit_of_def same_order_def split: if_splits)
    show "d + weight P (Sym a) * (sgn_of (IsBuy a) * gap) = d + contrib P b - contrib P a"
      using b a seen fin
      by (auto simp: contrib_def eff_def same_order_def right_diff_distrib split: if_splits)
  qed (use s' b cr' cr in \<open>auto split: if_splits\<close>)
qed

text \<open>
  The two continuations of a settled retirement: the synchronous one folds the gap, the deferred
  one also hedges it.
\<close>

lemma good_finishRetire:
  assumes g: "good s0 d s" and a: "own s oid = Some a" "Maker a" "Final a < 0" and n: "0 \<le> n"
    and k: "\<And>fin b s'. 0 \<le> fin \<Longrightarrow> fin \<le> Placed a \<Longrightarrow> own s' = (own s)(oid \<mapsto> b) \<Longrightarrow>
        adv (world s) (world s') \<Longrightarrow> clip s' = clip s \<Longrightarrow> recovery s' = recovery s \<Longrightarrow>
        pending s' = pending s \<Longrightarrow> same_order a b \<Longrightarrow> Seen b = Seen a \<Longrightarrow> Final b = fin \<Longrightarrow>
        Deferred b = Deferred a \<Longrightarrow> Folded b = Folded a \<Longrightarrow>
        (if hasSink P \<and> fin > Credited a
         then Credited b = fin \<and> elog s' = EFill oid (Sym a) (IsBuy a) (fin - Credited a) (Price a) # elog s
         else Credited b = Credited a \<and> elog s' = elog s) \<Longrightarrow> Q () s'"
  shows "wp (finishRetire P oid n) Q s"
proof -
  define fin where "fin = (if n > Placed a then Placed a else n)"
  have pl: "0 < Placed a" using good_acct [OF g a(1)] by (simp add: acct_ok_def)
  have fin: "0 \<le> fin" "fin \<le> Placed a" using n pl by (auto simp: fin_def)
  have fin': "(if 0 < Placed a \<and> Placed a < n then Placed a else n) = fin" using pl by (simp add: fin_def)
  show ?thesis
  proof (cases "hasSink P \<and> fin > Credited a")
    case True
    obtain w where w: "run_state (SinkFill P (Sym a) (IsBuy a) (fin - Credited a) (Price a)) (world s) = ((), w)"
      "adv (world s) w" by (rule sinkFill_run [OF good_winv [OF g]])
    have "Q () (s\<lparr>world := w, elog := EFill oid (Sym a) (IsBuy a) (fin - Credited a) (Price a) # elog s,
        own := (own s)(oid \<mapsto> a\<lparr>Final := fin, Credited := fin\<rparr>)\<rparr>)"
      by (rule k [of fin _ "a\<lparr>Final := fin, Credited := fin\<rparr>"])
        (simp_all add: fin w True same_order_def)
    then show ?thesis by (simp add: finishRetire_def sinkFill_def a fin' True w wp_rpc)
  next
    case False
    then have nc: "(hasSink P \<and> Credited a < fin) = False" by simp
    have "Q () (s\<lparr>own := (own s)(oid \<mapsto> a\<lparr>Final := fin\<rparr>)\<rparr>)"
      by (rule k [of fin _ "a\<lparr>Final := fin\<rparr>"])
        (simp_all add: fin nc same_order_def adv_refl [OF good_winv [OF g]])
    then show ?thesis by (simp add: finishRetire_def a fin' nc)
  qed
qed

lemma good_settle_retire:
  assumes g: "good s0 d s" and a: "own s oid = Some a" "Maker a" "Final a < 0" and n: "0 \<le> n"
    and Q: "\<And>gap s'. good s0 (d + weight P (Sym a) * (sgn_of (IsBuy a) * gap)) s' \<Longrightarrow> 0 \<le> gap \<Longrightarrow> Q gap s'"
    and def: "\<not> Deferred a"
  shows "wp (finishRetire P oid n) (\<lambda>_. wp (foldGap oid) Q) s"
proof (rule good_finishRetire [OF g a n])
  fix fin b and s' :: "'w Engine"
  assume fin: "0 \<le> fin" "fin \<le> Placed a" and own': "own s' = (own s)(oid \<mapsto> b)"
    and s': "adv (world s) (world s')" "clip s' = clip s" "recovery s' = recovery s" "pending s' = pending s"
    and b: "same_order a b" "Seen b = Seen a" "Final b = fin" "Deferred b = Deferred a" "Folded b = Folded a"
    and cr: "if hasSink P \<and> fin > Credited a
         then Credited b = fin \<and> elog s' = EFill oid (Sym a) (IsBuy a) (fin - Credited a) (Price a) # elog s
         else Credited b = Credited a \<and> elog s' = elog s"
  show "wp (foldGap oid) Q s'"
  proof (cases "fin > Folded a")
    case True
    let ?s = "s'\<lparr>own := (own s')(oid \<mapsto> b\<lparr>Folded := fin\<rparr>)\<rparr>"
    have "good s0 (d + weight P (Sym a) * (sgn_of (IsBuy a) * (fin - Folded a))) ?s"
      by (rule good_settled [OF g a fin, where b = "b\<lparr>Folded := fin\<rparr>"])
        (use own' s' b cr def True in \<open>simp_all add: same_order_def\<close>)
    then show ?thesis using Q [of "fin - Folded a" ?s] True own' b by (simp add: foldGap_def)
  next
    case False
    have "good s0 (d + weight P (Sym a) * (sgn_of (IsBuy a) * 0)) s'"
      by (rule good_settled [OF g a fin, where b = b])
        (use own' s' b cr def False in simp_all)
    then show ?thesis using Q [of 0 s'] False own' b by (simp add: foldGap_def)
  qed
qed

lemma good_deferRetire:
  assumes g: "good s0 d s" and a: "own s oid = Some a" "Maker a" "Final a < 0" "\<not> Deferred a"
    and Q: "\<And>s'. good s0 d s' \<Longrightarrow> Q () s'"
  shows "wp (deferRetire P oid) Q s"
proof -
  let ?m = "QueueRetire oid (now s) (placeBackoff P) (recovery s)"
  let ?b = "a\<lparr>Deferred := True\<rparr>"
  let ?s = "s\<lparr>own := (own s)(oid \<mapsto> ?b), recovery := ?m\<rparr>"
  have ok: "acct_ok P a" by (rule good_acct [OF g a(1)])
  have q: "queues_ok P (own s) (recovery s)" using g by (simp add: good_def base_def)
  have "queues_ok P (own ?s) (recovery ?s)"
    using q a by (auto simp: queues_ok_def)
  then have "good s0 d ?s"
    by (intro good_account_queues [OF g a(1), where b = ?b])
      (use ok a adv_refl [OF good_winv [OF g]] in
        \<open>simp_all add: acct_ok_def same_order_def contrib_def eff_def credit_of_def\<close>)
  then show ?thesis using a Q by (simp add: deferRetire_def)
qed

lemma good_deferHedge:
  assumes g: "good s0 d s" and n: "0 < n" "sy = LegA (cfg P) \<or> sy = LegB (cfg P)"
    and Q: "\<And>s'. good s0 (d + weight P sy * (sgn_of bu * n)) s' \<Longrightarrow> own s' = own s \<Longrightarrow> Q () s'"
  shows "wp (deferHedge P sy bu n) Q s"
proof -
  let ?m = "mDeferHedge sy bu n (now s) (placeBackoff P) (recovery s)"
  have "good s0 (d + weight P sy * (sgn_of bu * n)) (s\<lparr>recovery := ?m\<rparr>)"
    using g n by (auto simp: good_def base_def bal_def queues_ok_def debt_contrib_def)
  then show ?thesis using Q by (simp add: deferHedge_def)
qed

lemma good_retireOrder:
  assumes g: "good s0 d s" and m: "maker_id s0 oid sy bu"
    and Q: "\<And>gap s'. good s0 (d + weight P sy * (sgn_of bu * gap)) s' \<Longrightarrow> 0 \<le> gap \<Longrightarrow>
        (oid = '''' \<longrightarrow> gap = 0) \<Longrightarrow> Q gap s'"
  shows "wp (retireOrder P oid) Q s"
proof (cases "own s oid")
  case None
  then show ?thesis using Q [of 0 s] g by (simp add: retireOrder_def)
next
  case (Some a)
  then have a: "Maker a" "Sym a = sy" "IsBuy a = bu" using maker_id_now [OF g m] by auto
  have ne: "oid \<noteq> ''''" using Some g by (auto simp: good_def base_def ledger_ok_def)
  have ok: "acct_ok P a" by (rule good_acct [OF g Some])
  have Q0: "Q 0 s'" if "good s0 d s'" for s' using Q [of 0 s'] that by simp
  consider "Deferred a" | "\<not> Deferred a" "Final a < 0" | "\<not> Deferred a" "0 \<le> Final a" by linarith
  then show ?thesis
  proof cases
    case 1
    then show ?thesis using Q0 [OF g] Some by (simp add: retireOrder_def)
  next
    case 2
    have "wp (askRetired P oid)
       (\<lambda>r. wp (case r of None \<Rightarrow> do { deferRetire P oid; ret 0 }
          | Some executed \<Rightarrow> do { finishRetire P oid executed; foldGap oid }) Q) s"
    proof (rule good_askRetired [OF g])
      fix r :: "int option" and s'
      assume s': "good s0 d s'" "own s' = own s" and k: "\<And>k. r = Some k \<Longrightarrow> 0 \<le> k"
      have o: "own s' oid = Some a" using s'(2) Some by simp
      show "wp (case r of None \<Rightarrow> do { deferRetire P oid; ret 0 }
          | Some executed \<Rightarrow> do { finishRetire P oid executed; foldGap oid }) Q s'"
        using k good_deferRetire [OF s'(1) o a(1) 2(2,1), of "\<lambda>_. Q 0"] Q0
          good_settle_retire [OF s'(1) o a(1) 2(2) _ _ 2(1), of _ Q] Q a(2,3) ne
        by (cases r) simp_all
    qed
    then show ?thesis using 2 Some by (simp add: retireOrder_def)
  next
    case 3
    then have "Final a \<le> Folded a" using ok a by (simp add: acct_ok_def)
    then show ?thesis using 3 Some Q0 [OF g] by (simp add: retireOrder_def foldGap_def)
  qed
qed

subsection \<open>Placing takers\<close>

definition fresh :: "string \<Rightarrow> 'w Engine \<Rightarrow> bool" where
  "fresh oid s \<longleftrightarrow> oid \<noteq> '''' \<and> own s oid = None \<and> oid \<in> issued (world s)"

definition fresh_reply :: "go_error + string \<Rightarrow> 'w Engine \<Rightarrow> bool" where
  "fresh_reply r s \<longleftrightarrow> (\<forall>oid. r = Inr oid \<longrightarrow> fresh oid s)"

lemma good_place_rpc:
  assumes g: "good s0 d s" and m: "places_fresh issued winv m"
    and Q: "\<And>r w. adv (world s) w \<Longrightarrow> good s0 d (s\<lparr>world := w\<rparr>) \<Longrightarrow> fresh_reply r (s\<lparr>world := w\<rparr>) \<Longrightarrow>
        (\<And>oid. r = Inr oid \<Longrightarrow> oid \<notin> issued (world s)) \<Longrightarrow> Q r (s\<lparr>world := w\<rparr>)"
  shows "wp (rpc m) Q s"
proof -
  obtain r w where r: "run_state m (world s) = (r, w)" by (cases "run_state m (world s)")
  have adv: "adv (world s) w" and new: "\<And>oid. r = Inr oid \<Longrightarrow> oid \<noteq> '''' \<and> oid \<notin> issued (world s) \<and> oid \<in> issued w"
    using placesD [OF m good_winv [OF g] r] by auto
  have g': "good s0 d (s\<lparr>world := w\<rparr>)" by (intro good_quiet [OF g]) (simp_all add: adv)
  have "fresh_reply r (s\<lparr>world := w\<rparr>)"
    using new g by (force simp: fresh_reply_def fresh_def good_def base_def)
  then show ?thesis using r Q [OF adv g'] new by (simp add: wp_rpc)
qed

lemma good_placeTakerRPC:
  assumes g: "good s0 d s"
    and Q: "\<And>r s'. good s0 d s' \<Longrightarrow> fresh_reply r s' \<Longrightarrow> own s' = own s \<Longrightarrow>
        issued (world s) \<subseteq> issued (world s') \<Longrightarrow> (\<And>oid. r = Inr oid \<Longrightarrow> oid \<notin> issued (world s)) \<Longrightarrow> Q r s'"
  shows "wp (placeTakerRPC P sy bu n) Q s"
  unfolding placeTakerRPC_def wp_bind
proof (rule good_place_rpc [OF g take_fresh])
  fix r w assume w: "adv (world s) w" "good s0 d (s\<lparr>world := w\<rparr>)" "fresh_reply r (s\<lparr>world := w\<rparr>)"
    and new: "\<And>oid. r = Inr oid \<Longrightarrow> oid \<notin> issued (world s)"
  have "good s0 d (s\<lparr>world := w, elog := ETake sy bu n (id_of r) # elog s\<rparr>)"
    by (rule good_quiet [OF w(2)]) (use adv_refl good_winv [OF w(2)] in simp_all)
  then show "wp (emit (ETake sy bu n (id_of r))) (\<lambda>a. wp (ret r) Q) (s\<lparr>world := w\<rparr>)"
    using w new by (auto intro!: Q simp: fresh_reply_def fresh_def advances_def)
qed

lemma good_spendOne:
  assumes g: "good s0 d s"
    and Q: "\<And>s'. good s0 d s' \<Longrightarrow> own s' = own s \<Longrightarrow> recovery s' = recovery s \<Longrightarrow>
        issued (world s) \<subseteq> issued (world s') \<Longrightarrow> Q () s'"
  shows "wp (spendOne P) Q s"
proof -
  obtain t w where t: "run_state (ClockNow P) (world s) = (t, w)" by (cases "run_state (ClockNow P) (world s)")
  obtain u w' where u: "run_state (LimSpend P t 1) w = (u, w')" by (cases "run_state (LimSpend P t 1) w")
  have 1: "adv (world s) w" by (rule keepsD [OF clock_keeps good_winv [OF g] t])
  then have 2: "adv w w'" using keepsD [OF spend_keeps _ u] by (simp add: advances_def)
  have "good s0 d (s\<lparr>world := w', elog := ESpend 1 # elog s\<rparr>)"
    by (rule good_quiet [OF g]) (use adv_trans [OF 1 2] in simp_all)
  moreover have "issued (world s) \<subseteq> issued w'" using adv_trans [OF 1 2] by (simp add: advances_def)
  ultimately show ?thesis using t u Q by (simp add: spendOne_def wp_rpc)
qed

lemma good_commitTakerPlacement:
  assumes g: "good s0 d s" and f: "fresh_reply r s"
    and n: "0 < n" "sy = LegA (cfg P) \<or> sy = LegB (cfg P)"
    and Q: "\<And>s'. good s0 (d + (if isl r then 0 else weight P sy * (sgn_of bu * n))) s' \<Longrightarrow>
        (\<And>x. r \<noteq> Inr x \<Longrightarrow> own s' x = own s x) \<Longrightarrow> issued (world s) \<subseteq> issued (world s') \<Longrightarrow>
        Q (\<not> isl r) s'"
  shows "wp (commitTakerPlacement P sy bu n r) Q s"
  unfolding commitTakerPlacement_def wp_bind
proof (rule good_spendOne [OF g])
  fix s1 assume s1: "good s0 d s1" "own s1 = own s" "issued (world s) \<subseteq> issued (world s1)"
  have f1: "fresh_reply r s1" using f s1 by (auto simp: fresh_reply_def fresh_def)
  show "wp (case r of Inl e \<Rightarrow> ret False
     | Inr oid \<Rightarrow> do {
         s \<leftarrow> get_state;
         let price = CrossPrice sy bu (quote s);
         if oid = '''' then do {
           with_recovery MarkUnverified;
           whenM (hasSink P) (sinkFill P '''' sy bu n price);
           ret True
         }
         else do {
           let reused = own s oid \<noteq> None;
           whenM reused (with_recovery MarkUnverified);
           set_acct oid (takerAcct sy bu n (now s));
           set_pending (if reused then pending_delete oid else pending_add oid);
           whenM (hasSink P) (do {
             upd_acct oid (\<lambda>a. a\<lparr>Price := price\<rparr>);
             sinkFill P oid sy bu n price;
             upd_acct oid (\<lambda>a. a\<lparr>Credited := n\<rparr>)
           });
           ret True
         }
       }) Q s1"
  proof (cases r)
    case (Inl e)
    then show ?thesis using Q [of s1] s1 by simp
  next
    case (Inr oid)
    then have fr: "oid \<noteq> ''''" "own s1 oid = None" "oid \<in> issued (world s1)"
      using f1 by (auto simp: fresh_reply_def fresh_def)
    let ?p = "CrossPrice sy bu (quote s1)"
    obtain w where w: "run_state (SinkFill P sy bu n ?p) (world s1) = ((), w)" "adv (world s1) w"
      by (rule sinkFill_run [OF good_winv [OF s1(1)]])
    have step: "good s0 (d + weight P sy * (sgn_of bu * n)) s'"
      if "own s' = (own s1)(oid \<mapsto> b)" "adv (world s1) (world s')" "clip s' = clip s1"
        "recovery s' = recovery s1" "pending s' = pending_add oid (pending s1)"
        "\<not> Maker b" "Sym b = sy" "IsBuy b = bu" "Placed b = n" "Seen b = 0" "Final b = - 1" "\<not> Deferred b"
        "if hasSink P then Credited b = n \<and> elog s' = EFill oid sy bu n ?p # elog s1
         else Credited b = 0 \<and> elog s' = elog s1" for s' b
    proof (rule good_new [OF s1(1) fr(2) _ that(12) fr(1,3) that(2,1,3,4)])
      show "acct_ok P b" using that n by (auto simp: acct_ok_def credit_of_def)
      show "d + weight P sy * (sgn_of bu * n) = d + contrib P b"
        using that by (simp add: contrib_def eff_def)
    qed (use that in \<open>auto simp: acct_credit_def credit_in_def split: if_splits\<close>)
    have mono: "issued (world s) \<subseteq> issued w" using s1(3) w(2) by (auto simp: advances_def)
    show ?thesis
    proof (cases "hasSink P")
      case True
      let ?s = "s1\<lparr>pending := pending_add oid (pending s1), world := w,
        elog := EFill oid sy bu n ?p # elog s1,
        own := (own s1)(oid \<mapsto> (takerAcct sy bu n (now s1))\<lparr>Price := ?p, Credited := n\<rparr>)\<rparr>"
      have "good s0 (d + weight P sy * (sgn_of bu * n)) ?s"
        by (rule step [where b = "(takerAcct sy bu n (now s1))\<lparr>Price := ?p, Credited := n\<rparr>"])
          (simp_all add: True w)
      then show ?thesis
        using Inr fr True w Q [of ?s] s1(2) mono by (simp add: sinkFill_def wp_rpc)
    next
      case False
      let ?s = "s1\<lparr>own := (own s1)(oid \<mapsto> takerAcct sy bu n (now s1)),
        pending := pending_add oid (pending s1)\<rparr>"
      have "good s0 (d + weight P sy * (sgn_of bu * n)) ?s"
        by (rule step [where b = "takerAcct sy bu n (now s1)"])
          (simp_all add: False adv_refl [OF good_winv [OF s1(1)]])
      then show ?thesis using Inr fr False Q [of ?s] s1(2,3) by simp
    qed
  qed
qed

lemma good_tryPlaceTaker:
  assumes g: "good s0 d s" and n: "0 < n" "sy = LegA (cfg P) \<or> sy = LegB (cfg P)"
    and Q: "\<And>ok s'. good s0 (d + (if ok then weight P sy * (sgn_of bu * n) else 0)) s' \<Longrightarrow> Q ok s'"
  shows "wp (tryPlaceTaker P sy bu n) Q s"
  unfolding tryPlaceTaker_def wp_bind
proof (rule good_placeTakerRPC [OF g])
  fix r s' assume "good s0 d s'" "fresh_reply r s'"
  then show "wp (commitTakerPlacement P sy bu n r) Q s'"
    by (rule good_commitTakerPlacement [OF _ _ n]) (use Q [of "\<not> isl r"] in \<open>simp split: if_splits\<close>)
qed

lemma good_vacuous: "good s0 d s \<Longrightarrow> Halted s \<Longrightarrow> good s0 d' s"
  by (simp add: good_def)

lemma good_chaseLoop:
  assumes "good s0 d s" and "z \<le> n" and "0 \<le> n" and sy: "sy = LegA (cfg P) \<or> sy = LegB (cfg P)"
    and "\<And>left s'. good s0 (d + weight P sy * (sgn_of bu * (n - left))) s' \<Longrightarrow> 0 \<le> left \<Longrightarrow> Q left s'"
  shows "wp (chaseLoop P sy bu z n) Q s"
  using assms(1,2,3,5)
proof (induction "nat z + nat n" arbitrary: s d z n rule: less_induct)
  case less
  let ?step = "RejectRetryLotStep (cfg P)"
  show ?case
  proof (cases "z \<ge> rejectFloor P \<and> z > 0 \<and> ?step > 0")
    case True
    have "wp (commitTakerPlacement P sy bu z r)
        (\<lambda>ok. wp (if ok then (if n - z \<le> 0 then ret 0
             else chaseLoop P sy bu (if z > n - z then n - z else z) (n - z))
          else if MaybeDelivered (err_of r) then ret n else chaseLoop P sy bu (z - ?step) n) Q) s1"
      if s1: "good s0 d s1" "fresh_reply r s1" for r s1
    proof (rule good_commitTakerPlacement [OF s1 _ sy])
      show "0 < z" using True by simp
      fix s2
      assume s2: "good s0 (d + (if isl r then 0 else weight P sy * (sgn_of bu * z))) s2"
      show "wp (if \<not> isl r then (if n - z \<le> 0 then ret 0
             else chaseLoop P sy bu (if z > n - z then n - z else z) (n - z))
          else if MaybeDelivered (err_of r) then ret n else chaseLoop P sy bu (z - ?step) n) Q s2"
      proof (cases "isl r")
        case isl: True
        have g2: "good s0 d s2" using s2 isl by simp
        show ?thesis
        proof (cases "MaybeDelivered (err_of r)")
          case True
          then show ?thesis using isl g2 less.prems(4) [of n s2] less.prems(3) by simp
        next
          case False
          have "wp (chaseLoop P sy bu (z - ?step) n) Q s2"
            by (rule less.hyps [OF _ g2]) (use True less.prems in auto)
          then show ?thesis using isl False by simp
        qed
      next
        case inr: False
        let ?d = "d + weight P sy * (sgn_of bu * z)"
        have g2: "good s0 ?d s2" using s2 inr by simp
        show ?thesis
        proof (cases "n - z \<le> 0")
          case le: True
          then have "n = z" using less.prems(2) by simp
          then show ?thesis using inr g2 less.prems(4) [of 0 s2] by simp
        next
          case gt: False
          have "wp (chaseLoop P sy bu (if z > n - z then n - z else z) (n - z)) Q s2"
          proof (rule less.hyps [OF _ g2])
            show "nat (if z > n - z then n - z else z) + nat (n - z) < nat z + nat n"
              using True gt by auto
            fix left s'
            assume "good s0 (?d + weight P sy * (sgn_of bu * (n - z - left))) s'" "0 \<le> left"
            then show "Q left s'"
              using less.prems(4) [of left s'] by (simp add: algebra_simps)
          qed (use True gt less.prems in auto)
          then show ?thesis using inr gt by simp
        qed
      qed
    qed
    then show ?thesis
      unfolding chaseLoop.simps [of P sy bu z n] if_P [OF True] wp_bind
      by (intro good_placeTakerRPC [OF less.prems(1)])
  next
    case False
    then show ?thesis
      unfolding chaseLoop.simps [of P sy bu z n] if_not_P [OF False]
      using less.prems(1,3) less.prems(4) [of n s] by simp
  qed
qed

lemma good_tryTakers:
  assumes "good s0 d s" and n: "0 < n" "sy = LegA (cfg P) \<or> sy = LegB (cfg P)"
    and "\<And>ok s'. good s0 (d + (if ok then weight P sy * (sgn_of bu * n) else 0)) s' \<Longrightarrow> Q ok s'"
  shows "wp (tryTakers P sy bu n k) Q s"
  using assms(1,4)
proof (induction k arbitrary: s)
  case 0
  then show ?case using 0(2) [of False s] by simp
next
  case (Suc k)
  show ?case
    unfolding tryTakers.simps wp_bind
  proof (rule good_tryPlaceTaker [OF Suc.prems(1) n])
    fix ok s' assume g: "good s0 (d + (if ok then weight P sy * (sgn_of bu * n) else 0)) s'"
    show "wp (if ok then ret True else tryTakers P sy bu n k) Q s'"
      using g Suc.prems(2) [of True s'] Suc.IH [of s'] Suc.prems(2) by (cases ok) simp_all
  qed
qed

lemma good_takerRetryPlain:
  assumes g: "good s0 d s" and n: "0 < n" "sy = LegA (cfg P) \<or> sy = LegB (cfg P)"
    and Q: "\<And>s'. good s0 (d + weight P sy * (sgn_of bu * n)) s' \<Longrightarrow> Q () s'"
  shows "wp (takerRetryPlain P sy bu n k) Q s"
  unfolding takerRetryPlain_def wp_let wp_bind
proof (rule good_tryTakers [OF g n])
  fix ok s' assume g': "good s0 (d + (if ok then weight P sy * (sgn_of bu * n) else 0)) s'"
  show "wp (if ok then skip else deferHedge P sy bu n) Q s'"
    using g' Q good_deferHedge [OF _ n, of s0 d s' bu Q] by (cases ok) simp_all
qed

lemma good_takerRetryFrom:
  assumes g: "good s0 d s" and n: "0 < n" and sy: "sy = LegA (cfg P) \<or> sy = LegB (cfg P)"
    and Q: "\<And>s'. good s0 (d + weight P sy * (sgn_of bu * n)) s' \<Longrightarrow> Q () s'"
  shows "wp (takerRetryFrom P sy bu n k) Q s"
proof (cases "RejectRetryLotStep (cfg P) > 0")
  case True
  have "wp (chaseLoop P sy bu n n) (\<lambda>left. wp (if left \<le> 0 then skip else takerRetryPlain P sy bu left k) Q) s"
  proof (rule good_chaseLoop [OF g _ _ sy])
    fix left s'
    assume g': "good s0 (d + weight P sy * (sgn_of bu * (n - left))) s'" "0 \<le> left"
    show "wp (if left \<le> 0 then skip else takerRetryPlain P sy bu left k) Q s'"
    proof (cases "left = 0")
      case True
      then show ?thesis using g' Q by simp
    next
      case False
      then have "wp (takerRetryPlain P sy bu left k) Q s'"
        using g' by (intro good_takerRetryPlain [OF g'(1) _ sy] Q) (auto simp: algebra_simps)
      then show ?thesis using False g'(2) by simp
    qed
  qed (use n in auto)
  then show ?thesis using True by (simp add: takerRetryFrom_def shrinkTakerChase_def)
next
  case False
  moreover have "wp (takerRetryPlain P sy bu n k) Q s"
    by (rule good_takerRetryPlain [OF g n sy], rule Q)
  ultimately show ?thesis by (simp add: takerRetryFrom_def)
qed

lemma good_takerRetry:
  assumes g: "good s0 d s" and n: "0 < n" and sy: "sy = LegA (cfg P) \<or> sy = LegB (cfg P)"
    and Q: "\<And>s'. good s0 (d + weight P sy * (sgn_of bu * n)) s' \<Longrightarrow> Q () s'"
  shows "wp (takerRetry P sy bu n) Q s"
proof -
  have "wp (takerRetryFrom P sy bu n 0) Q s" by (rule good_takerRetryFrom [OF g n sy], rule Q)
  then show ?thesis using good_vacuous [OF g] Q by (simp add: takerRetry_def)
qed

lemma weights [simp]: "weight P (LegA (cfg P)) = hedgeRatio P" "weight P (LegB (cfg P)) = 1"
  using legs by (simp_all add: weight_def)

lemma hedgeLots_legs [simp]:
  "hedgeLots P (LegA (cfg P)) n = n" "hedgeLots P (LegB (cfg P)) n = n * hedgeRatio P"
  using legs by (simp_all add: hedgeLots_def)

lemma good_hedgeStray:
  assumes g: "good s0 d s" and sy: "sy = LegA (cfg P) \<or> sy = LegB (cfg P) \<and> hedgeRatio P = 1"
    and n: "0 \<le> n"
    and Q: "\<And>s'. good s0 (d - weight P sy * (sgn_of bu * n)) s' \<Longrightarrow> Q () s'"
  shows "wp (hedgeStrayMakerFill P sy bu n) Q s"
proof (cases "n = 0 \<or> Halted s")
  case True
  then have "Q () s" using g good_vacuous [OF g] Q [of s] by auto
  then show ?thesis using True by (auto simp: hedgeStrayMakerFill_def Let_def)
next
  case False
  then have n': "0 < n" using n by simp
  from sy show ?thesis
  proof
    assume a: "sy = LegA (cfg P)"
    have "wp (takerRetry P (LegB (cfg P)) (\<not> bu) (n * hedgeRatio P)) Q s"
      by (rule good_takerRetry [OF g]) (use a n' Q in \<open>auto simp: mult.commute mult.left_commute\<close>)
    then show ?thesis using a n' False legs by (simp add: hedgeStrayMakerFill_def hedge_def)
  next
    assume b: "sy = LegB (cfg P) \<and> hedgeRatio P = 1"
    have "wp (takerRetry P (LegA (cfg P)) (\<not> bu) n) Q s"
      by (rule good_takerRetry [OF g]) (use b n' Q in auto)
    then show ?thesis using b n' False legs by (simp add: hedgeStrayMakerFill_def hedge_def)
  qed
qed

end

end
