(* ===== verification/EngineHandlers.thy ===== *)
theory EngineHandlers
  imports EngineBalance
begin

text \<open>
  The laws of the single operations composed: taker confirmation, the obligation loop, the clip
  and every handler keep the book balanced and the invariant of the ledger, the sink, the queues
  and the clip. The theorems at the end hold in every reachable state.
\<close>

subsection \<open>What placing and hedging leave alone\<close>

named_theorems qf \<open>operations that neither queue nor defer a retirement\<close>

definition qframe :: "'w Engine \<Rightarrow> 'w Engine \<Rightarrow> bool" where
  "qframe s0 s \<longleftrightarrow>
     retireQ (recovery s) = retireQ (recovery s0) \<and>
     (\<forall>x b. own s x = Some b \<longrightarrow> Deferred b \<longrightarrow> (\<exists>a. own s0 x = Some a \<and> Deferred a))"

lemma qframe_refl [simp]: "qframe s s"
  by (simp add: qframe_def)

lemma qframe_trans: "qframe s t \<Longrightarrow> qframe t u \<Longrightarrow> qframe s u"
  by (fastforce simp: qframe_def)

lemma qframe_simps [simp]:
  "qframe s0 (s\<lparr>world := w\<rparr>) = qframe s0 s"
  "qframe s0 (s\<lparr>elog := l\<rparr>) = qframe s0 s"
  "qframe s0 (s\<lparr>pending := p\<rparr>) = qframe s0 s"
  by (simp_all add: qframe_def)

lemma qframe_recovery [simp]:
  "retireQ m = retireQ (recovery s) \<Longrightarrow> qframe s0 (s\<lparr>recovery := m\<rparr>) = qframe s0 s"
  by (simp add: qframe_def)

lemma qframe_acct:
  "qframe s0 s \<Longrightarrow> own s x = Some a \<Longrightarrow> (Deferred b \<Longrightarrow> Deferred a) \<Longrightarrow>
     qframe s0 (s\<lparr>own := (own s)(x \<mapsto> b)\<rparr>)"
  by (auto simp: qframe_def split: if_splits)

lemma qframe_new:
  "qframe s0 s \<Longrightarrow> \<not> Deferred b \<Longrightarrow> qframe s0 (s\<lparr>own := (own s)(x \<mapsto> b)\<rparr>)"
  by (auto simp: qframe_def split: if_splits)

lemma qf_upd_acct [qf]:
  assumes "qframe s0 s" and "\<And>a. Deferred (f a) \<Longrightarrow> Deferred a" and "\<And>a s'. qframe s0 s' \<Longrightarrow> Q a s'"
  shows "wp (upd_acct oid f) Q s"
  using assms qframe_acct [OF assms(1), of oid _ "f _"] by (cases "own s oid") (auto simp: fun_upd_idem)

lemma qf_set_acct [qf]:
  "qframe s0 s \<Longrightarrow> \<not> Deferred b \<Longrightarrow> (\<And>a s'. qframe s0 s' \<Longrightarrow> Q a s') \<Longrightarrow> wp (set_acct oid b) Q s"
  by (simp add: qframe_new)

lemma qf_rpc [qf]:
  "qframe s0 s \<Longrightarrow> (\<And>a s'. qframe s0 s' \<Longrightarrow> Q a s') \<Longrightarrow> wp (rpc m) Q s"
  by (auto simp: wp_rpc split: prod.split)

lemma qf_spendOne [qf]:
  "qframe s0 s \<Longrightarrow> (\<And>a s'. qframe s0 s' \<Longrightarrow> Q a s') \<Longrightarrow> wp (spendOne P) Q s"
  by (rule wp_mono [of _ "\<lambda>_. qframe s0"])
    (auto simp: spendOne_def Let_def intro!: qf [where ?s0.0 = s0] split: option.split prod.split sum.split if_splits)

lemma qf_cancelRPC [qf]:
  "qframe s0 s \<Longrightarrow> (\<And>a s'. qframe s0 s' \<Longrightarrow> Q a s') \<Longrightarrow> wp (cancelRPC P oid) Q s"
  by (rule wp_mono [of _ "\<lambda>_. qframe s0"])
    (auto simp: cancelRPC_def Let_def intro!: qf [where ?s0.0 = s0] split: option.split prod.split sum.split if_splits)

lemma qf_sinkFill [qf]:
  "qframe s0 s \<Longrightarrow> (\<And>a s'. qframe s0 s' \<Longrightarrow> Q a s') \<Longrightarrow> wp (sinkFill P oid sy bu n pr) Q s"
  by (rule wp_mono [of _ "\<lambda>_. qframe s0"])
    (auto simp: sinkFill_def Let_def intro!: qf [where ?s0.0 = s0] split: option.split prod.split sum.split if_splits)

lemma qf_placeTakerRPC [qf]:
  "qframe s0 s \<Longrightarrow> (\<And>a s'. qframe s0 s' \<Longrightarrow> Q a s') \<Longrightarrow> wp (placeTakerRPC P sy bu n) Q s"
  by (rule wp_mono [of _ "\<lambda>_. qframe s0"])
    (auto simp: placeTakerRPC_def Let_def intro!: qf [where ?s0.0 = s0] split: option.split prod.split sum.split if_splits)

lemma qf_commitTakerPlacement [qf]:
  "qframe s0 s \<Longrightarrow> (\<And>a s'. qframe s0 s' \<Longrightarrow> Q a s') \<Longrightarrow> wp (commitTakerPlacement P sy bu n r) Q s"
  by (rule wp_mono [of _ "\<lambda>_. qframe s0"])
    (auto simp del: wp_upd_acct wp_set_acct simp: commitTakerPlacement_def Let_def intro!: qf [where ?s0.0 = s0] split: option.split prod.split sum.split if_splits)

lemma qf_tryPlaceTaker [qf]:
  "qframe s0 s \<Longrightarrow> (\<And>a s'. qframe s0 s' \<Longrightarrow> Q a s') \<Longrightarrow> wp (tryPlaceTaker P sy bu n) Q s"
  by (rule wp_mono [of _ "\<lambda>_. qframe s0"])
    (auto simp: tryPlaceTaker_def Let_def intro!: qf [where ?s0.0 = s0] split: option.split prod.split sum.split if_splits)

lemma qf_chaseLoop [qf]:
  "qframe s0 s \<Longrightarrow> (\<And>a s'. qframe s0 s' \<Longrightarrow> Q a s') \<Longrightarrow> wp (chaseLoop P sy bu z n) Q s"
proof (induction P sy bu z n arbitrary: s rule: chaseLoop.induct)
  case (1 P sy bu z n)
  show ?case
  proof (cases "z \<ge> rejectFloor P \<and> z > 0 \<and> RejectRetryLotStep (cfg P) > 0")
    case True
    show ?thesis
      unfolding chaseLoop.simps [of P sy bu z n] if_P [OF True] wp_bind
      apply (rule qf_placeTakerRPC [OF "1.prems"(1)])
      apply (rule qf_commitTakerPlacement, assumption)
      using "1.IH" [OF True] "1.prems" apply auto
      done
  next
    case False
    then show ?thesis
      unfolding chaseLoop.simps [of P sy bu z n] if_not_P [OF False] using "1.prems" by simp
  qed
qed

lemma qf_tryTakers [qf]:
  "qframe s0 s \<Longrightarrow> (\<And>a s'. qframe s0 s' \<Longrightarrow> Q a s') \<Longrightarrow> wp (tryTakers P sy bu n k) Q s"
  by (induction k arbitrary: s) (auto intro!: qf_tryPlaceTaker)

lemma qf_deferHedge [qf]:
  "qframe s0 s \<Longrightarrow> (\<And>a s'. qframe s0 s' \<Longrightarrow> Q a s') \<Longrightarrow> wp (deferHedge P sy bu n) Q s"
  by (rule wp_mono [of _ "\<lambda>_. qframe s0"])
    (auto simp: deferHedge_def Let_def intro!: qf [where ?s0.0 = s0] split: option.split prod.split sum.split if_splits)

lemma qf_takerRetryPlain [qf]:
  "qframe s0 s \<Longrightarrow> (\<And>a s'. qframe s0 s' \<Longrightarrow> Q a s') \<Longrightarrow> wp (takerRetryPlain P sy bu n k) Q s"
  by (rule wp_mono [of _ "\<lambda>_. qframe s0"])
    (auto simp: takerRetryPlain_def Let_def intro!: qf [where ?s0.0 = s0] split: option.split prod.split sum.split if_splits)

lemma qf_takerRetryFrom [qf]:
  "qframe s0 s \<Longrightarrow> (\<And>a s'. qframe s0 s' \<Longrightarrow> Q a s') \<Longrightarrow> wp (takerRetryFrom P sy bu n k) Q s"
  by (rule wp_mono [of _ "\<lambda>_. qframe s0"])
    (auto simp: takerRetryFrom_def shrinkTakerChase_def Let_def intro!: qf [where ?s0.0 = s0] split: option.split prod.split sum.split if_splits)

lemma qf_takerRetry [qf]:
  "qframe s0 s \<Longrightarrow> (\<And>a s'. qframe s0 s' \<Longrightarrow> Q a s') \<Longrightarrow> wp (takerRetry P sy bu n) Q s"
  by (rule wp_mono [of _ "\<lambda>_. qframe s0"])
    (auto simp: takerRetry_def Let_def intro!: qf [where ?s0.0 = s0] split: option.split prod.split sum.split if_splits)

lemma qf_hedgeStrayMakerFill [qf]:
  "qframe s0 s \<Longrightarrow> (\<And>a s'. qframe s0 s' \<Longrightarrow> Q a s') \<Longrightarrow> wp (hedgeStrayMakerFill P sy bu n) Q s"
  by (rule wp_mono [of _ "\<lambda>_. qframe s0"])
    (auto simp: hedgeStrayMakerFill_def hedge_def Let_def intro!: qf [where ?s0.0 = s0] split: option.split prod.split sum.split if_splits)

lemma qf_askDeferred [qf]:
  "qframe s0 s \<Longrightarrow> (\<And>a s'. qframe s0 s' \<Longrightarrow> Q a s') \<Longrightarrow> wp (askDeferred P oid) Q s"
  by (rule wp_mono [of _ "\<lambda>_. qframe s0"])
    (auto simp: askDeferred_def Let_def intro!: qf [where ?s0.0 = s0] split: option.split prod.split sum.split if_splits)

lemma qf_finishRetire [qf]:
  "qframe s0 s \<Longrightarrow> (\<And>a s'. qframe s0 s' \<Longrightarrow> Q a s') \<Longrightarrow> wp (finishRetire P oid n) Q s"
  by (rule wp_mono [of _ "\<lambda>_. qframe s0"])
    (auto simp del: wp_upd_acct simp: finishRetire_def Let_def intro!: qf [where ?s0.0 = s0] split: option.split prod.split sum.split if_splits)

lemma qf_resolveDeferred [qf]:
  "qframe s0 s \<Longrightarrow> (\<And>a s'. qframe s0 s' \<Longrightarrow> Q a s') \<Longrightarrow> wp (resolveDeferred P oid) Q s"
  by (rule wp_mono [of _ "\<lambda>_. qframe s0"])
    (auto simp del: wp_upd_acct simp: resolveDeferred_def Let_def intro!: qf [where ?s0.0 = s0] split: option.split prod.split sum.split if_splits)

lemma qf_tryDeferredRetire [qf]:
  "qframe s0 s \<Longrightarrow> (\<And>a s'. qframe s0 s' \<Longrightarrow> Q a s') \<Longrightarrow> wp (tryDeferredRetire P oid) Q s"
  by (rule wp_mono [of _ "\<lambda>_. qframe s0"])
    (auto simp: tryDeferredRetire_def Let_def intro!: qf [where ?s0.0 = s0] split: option.split prod.split sum.split if_splits)

lemma pending_recovery_swap: "s\<lparr>pending := p, recovery := m\<rparr> = s\<lparr>recovery := m, pending := p\<rparr>"
  by (rule Engine.equality) simp_all

context broker
begin

subsection \<open>The obligation loop's retire step\<close>

lemma good_resolveDeferred:
  assumes g: "good s0 d s" and a: "own s oid = Some a" "Maker a" and ok: "\<not> Deferred a" "0 \<le> Final a"
    and Q: "\<And>s'. good s0 d s' \<Longrightarrow> Q () s'"
  shows "wp (resolveDeferred P oid) Q s"
proof -
  have "Final a \<le> Folded a" using good_acct [OF g a(1)] a(2) ok by (simp add: acct_ok_def)
  moreover have "s\<lparr>own := (own s)(oid \<mapsto> a\<lparr>Deferred := False\<rparr>)\<rparr> = s"
    using a(1) ok(1) by (simp add: fun_upd_idem)
  ultimately show ?thesis using a(1) g Q by (simp add: resolveDeferred_def)
qed

lemma good_tryDeferredRetire:
  assumes g: "good s0 d s" and m: "own s oid = None \<or> (\<exists>a. own s oid = Some a \<and> Maker a)"
    and Q: "\<And>ok s'. good s0 d s' \<Longrightarrow> Q ok s'"
  shows "wp (tryDeferredRetire P oid) Q s"
proof (cases "own s oid")
  case None
  then show ?thesis using g Q by (simp add: tryDeferredRetire_def)
next
  case (Some a)
  then have mk: "Maker a" using m by simp
  have ok: "acct_ok P a" by (rule good_acct [OF g Some])
  show ?thesis
  proof (cases "Final a < 0")
    case False
    then have "\<not> Deferred a" using ok by (simp add: acct_ok_def)
    then have "wp (resolveDeferred P oid) (\<lambda>_. Q True) s"
      using False by (intro good_resolveDeferred [OF g Some mk] Q) auto
    then show ?thesis using Some False by (simp add: tryDeferredRetire_def)
  next
    case True
    have "wp (askDeferred P oid)
       (\<lambda>r. case r of None \<Rightarrow> Q False
          | Some n \<Rightarrow> wp (finishRetire P oid n) (\<lambda>_. wp (resolveDeferred P oid) (\<lambda>_. Q True))) s"
    proof (rule good_askDeferred [OF g])
      fix r :: "int option" and s1
      assume s1: "good s0 d s1" "own s1 = own s" and k: "\<And>k. r = Some k \<Longrightarrow> 0 \<le> k"
      have o: "own s1 oid = Some a" using s1 Some by simp
      have "wp (finishRetire P oid n) (\<lambda>_. wp (resolveDeferred P oid) (\<lambda>_. Q True)) s1" if n: "0 \<le> n" for n
      proof (rule good_finishRetire [OF s1(1) o mk True n])
        fix fin b and s' :: "'w Engine"
        assume fin: "0 \<le> fin" "fin \<le> Placed a" and own': "own s' = (own s1)(oid \<mapsto> b)"
          and s': "adv (world s1) (world s')" "clip s' = clip s1" "recovery s' = recovery s1"
            "pending s' = pending s1"
          and b: "same_order a b" "Seen b = Seen a" "Final b = fin" "Deferred b = Deferred a" "Folded b = Folded a"
          and cr: "if hasSink P \<and> fin > Credited a
             then Credited b = fin \<and> elog s' = EFill oid (Sym a) (IsBuy a) (fin - Credited a) (Price a) # elog s1
             else Credited b = Credited a \<and> elog s' = elog s1"
        have sym: "Sym b = Sym a" "IsBuy b = IsBuy a" using b(1) by (simp_all add: same_order_def)
        have leg: "Sym a = LegA (cfg P) \<or> Sym a = LegB (cfg P) \<and> hedgeRatio P = 1"
          using ok mk by (auto simp: acct_ok_def)
        show "wp (resolveDeferred P oid) (\<lambda>_. Q True) s'"
        proof (cases "fin > Folded a")
          case gap: True
          let ?b = "b\<lparr>Deferred := False, Folded := fin\<rparr>"
          let ?s = "s'\<lparr>own := (own s')(oid \<mapsto> ?b)\<rparr>"
          have g': "good s0 (d + weight P (Sym a) * (sgn_of (IsBuy a) * (fin - Folded a))) ?s"
            by (rule good_settled [OF s1(1) o mk True fin, where b = ?b])
              (use own' s' b cr gap in \<open>simp_all add: same_order_def\<close>)
          have "wp (hedgeStrayMakerFill P (Sym a) (IsBuy a) (fin - Folded a)) (\<lambda>_. Q True) ?s"
            by (rule good_hedgeStray [OF g' leg]) (use gap Q in simp_all)
          then show ?thesis using gap own' b sym by (simp add: resolveDeferred_def)
        next
          case nogap: False
          let ?b = "b\<lparr>Deferred := False\<rparr>"
          let ?s = "s'\<lparr>own := (own s')(oid \<mapsto> ?b)\<rparr>"
          have "good s0 (d + weight P (Sym a) * (sgn_of (IsBuy a) * 0)) ?s"
            by (rule good_settled [OF s1(1) o mk True fin, where b = ?b])
              (use own' s' b cr nogap in \<open>simp_all add: same_order_def\<close>)
          then show ?thesis using nogap own' b Q by (simp add: resolveDeferred_def)
        qed
      qed
      then show "(case r of None \<Rightarrow> Q False
          | Some n \<Rightarrow> wp (finishRetire P oid n) (\<lambda>_. wp (resolveDeferred P oid) (\<lambda>_. Q True))) s1"
        using k s1 Q by (cases r) auto
    qed
    then have "wp (askDeferred P oid)
       (\<lambda>r. wp (case r of None \<Rightarrow> ret False
          | Some n \<Rightarrow> do { finishRetire P oid n; ret True })
          (\<lambda>r. wp (if r then do { resolveDeferred P oid; ret True } else ret False) Q)) s"
      by (rule wp_mono) (simp split: option.splits)
    then show ?thesis using Some True by (simp add: tryDeferredRetire_def)
  qed
qed

subsection \<open>Taker confirmation\<close>

lemma good_taker_settled:
  assumes g: "good s0 d s" and a: "own s oid = Some a" "\<not> Maker a" "Final a < 0"
    and e: "Seen a \<le> e" "e \<le> Placed a"
    and s': "own s' = (own s)(oid \<mapsto> b)" "adv (world s) (world s')" "clip s' = clip s"
      "recovery s' = recovery s" "pending s' = pending_delete oid (pending s)"
    and b: "same_order a b" "Seen b = Seen a" "Final b = e" "Deferred b = Deferred a"
    and cr: "if hasSink P \<and> e < Placed a
       then Credited b = e \<and> elog s' = EFill oid (Sym a) (\<not> IsBuy a) (Placed a - e) (Price a) # elog s
       else Credited b = Credited a \<and> elog s' = elog s"
  shows "good s0 (d - weight P (Sym a) * (sgn_of (IsBuy a) * (Placed a - e))) s'"
proof -
  have ok: "acct_ok P a" by (rule good_acct [OF g a(1)])
  then have c: "Credited a = (if hasSink P then Placed a else 0)" "0 \<le> Seen a" "\<not> Deferred a"
    using a by (auto simp: acct_ok_def credit_of_def)
  show ?thesis
  proof (rule good_account [OF g a(1) _ b(1) s'(2,1,3,4)])
    show "acct_ok P b"
      using b cr ok a c e by (auto simp: acct_ok_def credit_of_def same_order_def split: if_splits)
    show "d - weight P (Sym a) * (sgn_of (IsBuy a) * (Placed a - e)) = d + contrib P b - contrib P a"
      using b a c e by (simp add: contrib_def eff_def same_order_def right_diff_distrib)
  qed (use s' b cr c e in \<open>auto split: if_splits simp: algebra_simps\<close>)
qed

lemma good_rehedge:
  assumes g: "good s0 d s" and n: "0 < n" and sy: "sy = LegA (cfg P) \<or> sy = LegB (cfg P)"
    and Q: "\<And>s'. good s0 (d + weight P sy * (sgn_of bu * n)) s' \<Longrightarrow> Q () s'"
  shows "wp (do {
       m \<leftarrow> gets recovery;
       let (streak, m') = IncrementDeadStreak m;
       with_recovery (\<lambda>_. m');
       if streak \<ge> takerDeadLimit then deferHedge P sy bu n else takerRetry P sy bu n
     }) Q s"
proof -
  let ?m = "(recovery s)\<lparr>takerDeadStreak := takerDeadStreak (recovery s) + 1\<rparr>"
  have "good s0 d (s\<lparr>recovery := ?m\<rparr>)" by (rule good_recovery [OF g]) simp_all
  then have "wp (deferHedge P sy bu n) Q (s\<lparr>recovery := ?m\<rparr>)"
    "wp (takerRetry P sy bu n) Q (s\<lparr>recovery := ?m\<rparr>)"
    by (auto intro!: good_deferHedge [OF _ n sy] good_takerRetry [OF _ n sy] Q)
  then show ?thesis by (simp add: IncrementDeadStreak_def Let_def)
qed

lemma good_settleTaker:
  assumes g: "good s0 d s" and a: "own s oid = Some a" "\<not> Maker a" "Final a < 0"
    and Q: "\<And>s'. good s0 d s' \<Longrightarrow> Q () s'"
  shows "wp (settleTaker P oid n) Q s"
proof -
  have ok: "acct_ok P a" by (rule good_acct [OF g a(1)])
  then have pl: "0 < Placed a" "0 \<le> Seen a" "Seen a \<le> Placed a"
    and sy: "Sym a = LegA (cfg P) \<or> Sym a = LegB (cfg P)"
    and c: "Credited a = (if hasSink P then Placed a else 0)"
    using a by (auto simp: acct_ok_def credit_of_def)
  define e where "e = takerExecuted a n"
  have e: "Seen a \<le> e" "e \<le> Placed a" using pl by (auto simp: e_def takerExecuted_def Let_def)
  let ?d = "d - weight P (Sym a) * (sgn_of (IsBuy a) * (Placed a - e))"
  have settled: "good s0 ?d s'"
    if "own s' = (own s)(oid \<mapsto> b)" "adv (world s) (world s')" "clip s' = clip s"
      "recovery s' = recovery s" "pending s' = pending_delete oid (pending s)"
      "same_order a b" "Seen b = Seen a" "Final b = e" "Deferred b = Deferred a"
      "if hasSink P \<and> e < Placed a
       then Credited b = e \<and> elog s' = EFill oid (Sym a) (\<not> IsBuy a) (Placed a - e) (Price a) # elog s
       else Credited b = Credited a \<and> elog s' = elog s" for s' b
    by (rule good_taker_settled [OF g a e that])
  let ?s1 = "s\<lparr>own := (own s)(oid \<mapsto> a\<lparr>Final := e\<rparr>), pending := pending_delete oid (pending s)\<rparr>"
  show ?thesis
  proof (cases "Placed a - e \<le> 0")
    case True
    have "good s0 ?d ?s1"
      by (rule settled [where b = "a\<lparr>Final := e\<rparr>"])
        (use True adv_refl [OF good_winv [OF g]] in \<open>simp_all add: same_order_def\<close>)
    then have "good s0 d ?s1" using True e by simp
    then have "good s0 d (?s1\<lparr>recovery := ResetDeadStreak (recovery s)\<rparr>)"
      using good_recovery [of s0 d ?s1] by (simp add: ResetDeadStreak_def)
    then show ?thesis
      using a True Q unfolding settleTaker_def by (simp add: Let_def e_def [symmetric])
  next
    case False
    have rehedge: "wp (do {
         m \<leftarrow> gets recovery;
         let (streak, m') = IncrementDeadStreak m;
         with_recovery (\<lambda>_. m');
         if streak \<ge> takerDeadLimit then deferHedge P (Sym a) (IsBuy a) (Placed a - e)
         else takerRetry P (Sym a) (IsBuy a) (Placed a - e)
       }) Q s'" if "good s0 ?d s'" for s'
      by (rule good_rehedge [OF that _ sy]) (use False Q in auto)
    show ?thesis
    proof (cases "hasSink P")
      case True
      obtain w where w: "run_state (SinkFill P (Sym a) (\<not> IsBuy a) (Placed a - e) (Price a)) (world s) = ((), w)"
        "adv (world s) w" by (rule sinkFill_run [OF good_winv [OF g]])
      let ?s = "s\<lparr>pending := pending_delete oid (pending s), world := w,
        elog := EFill oid (Sym a) (\<not> IsBuy a) (Placed a - e) (Price a) # elog s,
        own := (own s)(oid \<mapsto> a\<lparr>Final := e, Credited := e\<rparr>)\<rparr>"
      have "good s0 ?d ?s"
        by (rule settled [where b = "a\<lparr>Final := e, Credited := e\<rparr>"])
          (use True False w in \<open>simp_all add: same_order_def\<close>)
      from rehedge [OF this] show ?thesis
        using a True False w c unfolding settleTaker_def
        by (simp add: Let_def e_def [symmetric] sinkFill_def wp_rpc del: wp_gets)
    next
      case nosink: False
      have "good s0 ?d ?s1"
        by (rule settled [where b = "a\<lparr>Final := e\<rparr>"])
          (use nosink adv_refl [OF good_winv [OF g]] in \<open>simp_all add: same_order_def\<close>)
      from rehedge [OF this] show ?thesis
        using a nosink False unfolding settleTaker_def
        by (simp add: Let_def e_def [symmetric] del: wp_gets)
    qed
  qed
qed

lemma good_upd_quiet:
  assumes g: "good s0 d s"
    and f: "\<And>a. own s oid = Some a \<Longrightarrow> Maker (f a) = Maker a \<and> Sym (f a) = Sym a \<and> IsBuy (f a) = IsBuy a \<and>
        Placed (f a) = Placed a \<and> Seen (f a) = Seen a \<and> Final (f a) = Final a \<and>
        Credited (f a) = Credited a \<and> Folded (f a) = Folded a \<and> Deferred (f a) = Deferred a"
  shows "good s0 d (s\<lparr>own := (own s)(oid := map_option f (own s oid))\<rparr>)"
proof (cases "own s oid")
  case None
  then show ?thesis using g by (simp add: fun_upd_idem)
next
  case (Some a)
  note fa = f [OF Some]
  have "acct_ok P (f a)" using good_acct [OF g Some] fa by (simp add: acct_ok_def credit_of_def)
  then show ?thesis
    using Some fa adv_refl [OF good_winv [OF g]]
    by (intro good_account [OF g Some, where b = "f a"])
      (simp_all add: same_order_def contrib_def eff_def)
qed

lemma good_confirmDeadTaker:
  assumes g: "good s0 d s" and a: "own s oid = Some a" "\<not> Maker a" "Final a < 0"
    and Q: "\<And>s'. good s0 d s' \<Longrightarrow> Q () s'"
  shows "wp (confirmDeadTaker P oid) Q s"
  unfolding confirmDeadTaker_def wp_bind
proof (rule good_statusRPC [OF g])
  fix r :: "go_error + int \<times> bool" and s'
  assume s': "good s0 d s'" "own s' = own s"
  have dead: "wp (upd_acct oid (\<lambda>a. a\<lparr>DeadSeen := True\<rparr>)) Q s'"
    using good_upd_quiet [OF s'(1), of oid "\<lambda>a. a\<lparr>DeadSeen := True\<rparr>"] Q by simp
  have set: "wp (settleTaker P oid n) Q s'" for n
    using a s' by (intro good_settleTaker [OF s'(1), of oid a] Q) auto
  show "wp (case r of Inl e \<Rightarrow> upd_acct oid (\<lambda>a. a\<lparr>DeadSeen := True\<rparr>)
     | Inr (executed, terminal) \<Rightarrow>
         if \<not> terminal then upd_acct oid (\<lambda>a. a\<lparr>DeadSeen := True\<rparr>)
         else settleTaker P oid executed) Q s'"
    using dead set by (auto split: sum.split prod.split simp del: wp_upd_acct)
qed

lemma good_checkPendingTaker:
  assumes g: "good s0 d s" and Q: "\<And>go s'. good s0 d s' \<Longrightarrow> Q go s'"
  shows "wp (checkPendingTaker P t oid) Q s"
proof (cases "oid \<in> set (pending s)")
  case False
  then show ?thesis using g Q by (simp add: checkPendingTaker_def)
next
  case True
  then obtain a where a: "own s oid = Some a" "\<not> Maker a"
    using g by (auto simp: good_def base_def pending_ok_def)
  have ok: "acct_ok P a" by (rule good_acct [OF g a(1)])
  have del: "good s0 d (s\<lparr>pending := pending_delete oid (pending s)\<rparr>)"
    using good_account [OF g a(1) ok, where s' = "s\<lparr>pending := pending_delete oid (pending s)\<rparr>"]
      a adv_refl [OF good_winv [OF g]] by (auto simp: fun_upd_idem)
  have conf: "good s0 d (s\<lparr>own := (own s)(oid \<mapsto> a\<lparr>Final := Placed a\<rparr>),
      recovery := ResetDeadStreak (recovery s), pending := pending_delete oid (pending s)\<rparr>)"
    if "\<not> 0 \<le> Final a" "Placed a \<le> Seen a"
  proof -
    have "good s0 (d - weight P (Sym a) * (sgn_of (IsBuy a) * (Placed a - Placed a)))
        (s\<lparr>own := (own s)(oid \<mapsto> a\<lparr>Final := Placed a\<rparr>), pending := pending_delete oid (pending s)\<rparr>)"
      by (rule good_taker_settled [OF g a, where b = "a\<lparr>Final := Placed a\<rparr>"])
        (use that ok adv_refl [OF good_winv [OF g]] in \<open>simp_all add: same_order_def acct_ok_def\<close>)
    then have "good s0 d (s\<lparr>own := (own s)(oid \<mapsto> a\<lparr>Final := Placed a\<rparr>),
        pending := pending_delete oid (pending s), recovery := ResetDeadStreak (recovery s)\<rparr>)"
      by (intro good_recovery) (simp_all add: ResetDeadStreak_def)
    then show ?thesis by (simp only: pending_recovery_swap)
  qed
  have probe: "wp (rpc (Status P oid)) (\<lambda>r. wp (case r of Inl e \<Rightarrow> ret True
       | Inr (executed, terminal) \<Rightarrow>
           if \<not> terminal then ret True
           else do {
             settleTaker P oid executed;
             h \<leftarrow> gets (\<lambda>s. Halted s);
             ret (\<not> h)
           }) Q) (s\<lparr>own := (own s)(oid \<mapsto> a\<lparr>LastProbe := t, ProbeLogged := True\<rparr>)\<rparr>)"
    if "\<not> 0 \<le> Final a"
  proof (rule good_statusRPC [where d = d and ?s0.0 = s0])
    show "good s0 d (s\<lparr>own := (own s)(oid \<mapsto> a\<lparr>LastProbe := t, ProbeLogged := True\<rparr>)\<rparr>)"
      using good_upd_quiet [OF g, of oid "\<lambda>a. a\<lparr>LastProbe := t, ProbeLogged := True\<rparr>"] a by simp
    fix r :: "go_error + int \<times> bool" and s'
    assume s': "good s0 d s'"
      "own s' = own (s\<lparr>own := (own s)(oid \<mapsto> a\<lparr>LastProbe := t, ProbeLogged := True\<rparr>)\<rparr>)"
    have "wp (settleTaker P oid n) (\<lambda>_ s. Q (\<not> Halted s) s) s'" for n
      using a s' that
      by (intro good_settleTaker [OF s'(1), of oid "a\<lparr>LastProbe := t, ProbeLogged := True\<rparr>"] Q) auto
    then show "wp (case r of Inl e \<Rightarrow> ret True
       | Inr (executed, terminal) \<Rightarrow>
           if \<not> terminal then ret True
           else do {
             settleTaker P oid executed;
             h \<leftarrow> gets (\<lambda>s. Halted s);
             ret (\<not> h)
           }) Q s'"
      using s' Q by (auto split: sum.split prod.split)
  qed
  show ?thesis
    using a True g del conf probe Q
    by (simp add: checkPendingTaker_def)
qed

lemma good_checkPendingLoop:
  "good s0 d s \<Longrightarrow> wp (checkPendingLoop P t oids) (\<lambda>_. good s0 d) s"
  by (induction oids arbitrary: s) (auto intro!: good_checkPendingTaker)

subsection \<open>Fills of one account\<close>

lemma amend_opt:
  assumes "winv (world s)"
    and "\<And>w l. adv (world s) w \<Longrightarrow> (\<And>x. sunk x l = sunk x (elog s)) \<Longrightarrow>
        (\<And>y. sink_net y l = sink_net y (elog s)) \<Longrightarrow> Q () (s\<lparr>world := w, elog := l\<rparr>)"
  shows "wp (whenM b (sinkAmend P oid sy bu n p p')) Q s"
proof -
  obtain w where r: "run_state (SinkAmend P sy bu n p p') (world s) = ((), w)"
    by (cases "run_state (SinkAmend P sy bu n p p') (world s)") auto
  have "adv (world s) w" by (rule keepsD [OF amend_keeps assms(1) r])
  then have "Q () (s\<lparr>world := w, elog := EAmend oid sy bu n p p' # elog s\<rparr>)"
    by (intro assms(2)) simp_all
  moreover have "Q () (s\<lparr>world := world s, elog := elog s\<rparr>)"
    by (intro assms(2) adv_refl assms(1)) simp_all
  ultimately show ?thesis using r by (simp add: sinkAmend_def wp_rpc)
qed

lemma credit_opt:
  assumes "winv (world s)" and "own s oid = Some a" and "0 \<le> n"
    and "b \<longleftrightarrow> hasSink P \<and> 0 < n"
    and "\<And>w l. adv (world s) w \<Longrightarrow>
        (\<And>x. sunk x l = sunk x (elog s) + (if x = oid \<and> hasSink P then sgn_of bu * n else 0)) \<Longrightarrow>
        (\<And>y. sink_net y l = sink_net y (elog s) + (if y = sy \<and> hasSink P then sgn_of bu * n else 0)) \<Longrightarrow>
        Q () (s\<lparr>world := w, elog := l,
          own := (own s)(oid \<mapsto> a\<lparr>Credited := Credited a + (if hasSink P then n else 0)\<rparr>)\<rparr>)"
  shows "wp (whenM b (do {
       sinkFill P oid sy bu n p;
       upd_acct oid (\<lambda>a. a\<lparr>Credited := Credited a + n\<rparr>)
     })) Q s"
proof (cases b)
  case True
  obtain w where r: "run_state (SinkFill P sy bu n p) (world s) = ((), w)" "adv (world s) w"
    by (rule sinkFill_run [OF assms(1)])
  have "Q () (s\<lparr>world := w, elog := EFill oid sy bu n p # elog s,
      own := (own s)(oid \<mapsto> a\<lparr>Credited := Credited a + (if hasSink P then n else 0)\<rparr>)\<rparr>)"
    by (rule assms(5)) (use r True assms(4) in auto)
  then show ?thesis using True assms(2,4) r by (simp add: sinkFill_def wp_rpc)
next
  case False
  then have z: "(if hasSink P then n else 0) = 0" using assms(3,4) by auto
  have "Q () (s\<lparr>world := world s, elog := elog s,
      own := (own s)(oid \<mapsto> a\<lparr>Credited := Credited a + (if hasSink P then n else 0)\<rparr>)\<rparr>)"
    by (rule assms(5)) (use False assms(3,4) adv_refl [OF assms(1)] in auto)
  then show ?thesis using False assms(2) by (simp only: z) (simp add: fun_upd_idem)
qed

text \<open>
  The lots a reported fill newly credits: all of them on a live maker, those beyond the terminal
  count on a settled order, none on a live taker (credited when it was placed).
\<close>

definition newly :: "OrdAcct \<Rightarrow> int \<Rightarrow> int" where
  "newly a n =
     (if Final a < 0 then (if Maker a then n else 0)
      else max 0 (Seen a + n - max (Final a) (Seen a)))"

lemma good_filled:
  assumes g: "good s0 d s" and a: "own s oid = Some a" and n: "0 < n" "Seen a + n \<le> Placed a"
    and s': "own s' = (own s)(oid \<mapsto> b)" "adv (world s) (world s')" "clip s' = clip s"
      "recovery s' = recovery s" "pending s' = pending s"
    and b: "same_order a b" "Deferred b = Deferred a" "Final b = Final a" "Seen b = Seen a + n"
      "Folded b = (if Maker a \<and> Final a < 0 then Folded a + n else Folded a)"
      "Credited b = Credited a + (if hasSink P then newly a n else 0)"
    and sunk': "\<And>x. sunk x (elog s') = sunk x (elog s) +
        (if x = oid \<and> hasSink P then sgn_of (IsBuy a) * newly a n else 0)"
    and net': "\<And>y. sink_net y (elog s') = sink_net y (elog s) +
        (if y = Sym a \<and> hasSink P then sgn_of (IsBuy a) * newly a n else 0)"
    and d: "d' = d + weight P (Sym a) * (sgn_of (IsBuy a) * (if Maker a then newly a n else 0))"
  shows "good s0 d' s'"
proof -
  have ok: "acct_ok P a" by (rule good_acct [OF g a])
  show ?thesis
  proof (rule good_account [OF g a _ b(1) s'(2,1,3,4)])
    show "acct_ok P b"
    proof (cases "Final a < 0")
      case True
      then show ?thesis
        using ok n b by (cases "Maker a") (auto simp: acct_ok_def credit_of_def same_order_def newly_def)
    next
      case False
      then have "Credited b = (if hasSink P then max (Final b) (Seen b) else 0)"
        using ok n b by (auto simp: acct_ok_def credit_of_def newly_def)
      then show ?thesis
        using False ok n b by (simp add: acct_ok_def credit_of_def same_order_def)
    qed
    have "eff b = eff a + (if Maker a then newly a n else 0)"
      using ok n b by (auto simp: acct_ok_def eff_def same_order_def newly_def)
    then show "d' = d + contrib P b - contrib P a"
      using b(1) d by (simp add: contrib_def same_order_def distrib_left)
  qed (use s' b sunk' net' in auto)
qed

lemma good_foldTakerFill:
  assumes g: "good s0 d s" and a: "own s oid = Some a" "\<not> Maker a" and n: "0 < n" "Seen a + n \<le> Placed a"
    and Q: "\<And>s'. good s0 d s' \<Longrightarrow> Q () s'"
  shows "wp (foldTakerFill P oid (a\<lparr>Seen := Seen a + n\<rparr>) (Seen a) n price) Q
     (s\<lparr>own := (own s)(oid \<mapsto> a\<lparr>Seen := Seen a + n\<rparr>)\<rparr>)"
proof -
  let ?a = "a\<lparr>Seen := Seen a + n\<rparr>"
  define beyond where "beyond = Seen a + n - max (Final a) (Seen a)"
  have credit: "wp (whenM (0 \<le> Final a \<and> 0 < beyond \<and> hasSink P) (do {
       sinkFill P oid (Sym a) (IsBuy a) beyond price;
       upd_acct oid (\<lambda>a. a\<lparr>Credited := Credited a + beyond\<rparr>)
     })) Q s1"
    if s1: "own s1 = (own s)(oid \<mapsto> ?a)" "adv (world s) (world s1)" "clip s1 = clip s"
        "recovery s1 = recovery s" "pending s1 = pending s"
        "\<And>x. sunk x (elog s1) = sunk x (elog s)" "\<And>y. sink_net y (elog s1) = sink_net y (elog s)" for s1
  proof (cases "0 \<le> Final a \<and> 0 < beyond")
    case True
    then have nb: "newly a n = beyond" by (simp add: newly_def beyond_def)
    show ?thesis
    proof (rule credit_opt [where a = ?a])
      fix w l
      assume w: "adv (world s1) w"
        "\<And>x. sunk x l = sunk x (elog s1) + (if x = oid \<and> hasSink P then sgn_of (IsBuy a) * beyond else 0)"
        "\<And>y. sink_net y l = sink_net y (elog s1) + (if y = Sym a \<and> hasSink P then sgn_of (IsBuy a) * beyond else 0)"
      have "good s0 d (s1\<lparr>world := w, elog := l,
          own := (own s1)(oid \<mapsto> ?a\<lparr>Credited := Credited ?a + (if hasSink P then beyond else 0)\<rparr>)\<rparr>)"
        by (rule good_filled [OF g a(1) n, where b = "?a\<lparr>Credited := Credited ?a + (if hasSink P then beyond else 0)\<rparr>"])
          (use s1 w a nb adv_trans [OF s1(2) w(1)] in \<open>auto simp: same_order_def\<close>)
      then show "Q () (s1\<lparr>world := w, elog := l,
          own := (own s1)(oid \<mapsto> ?a\<lparr>Credited := Credited ?a + (if hasSink P then beyond else 0)\<rparr>)\<rparr>)"
        by (rule Q)
    qed (use s1 True in \<open>auto simp: advances_def\<close>)
  next
    case False
    then have nb: "newly a n = 0" using a by (auto simp: newly_def beyond_def)
    have "good s0 d s1"
      by (rule good_filled [OF g a(1) n, where b = ?a])
        (use s1 a nb in \<open>auto simp: same_order_def\<close>)
    then show ?thesis using False Q by auto
  qed
  show ?thesis
    unfolding foldTakerFill_def wp_let wp_bind
  proof (rule amend_opt, goal_cases)
    case 1
    then show ?case using good_winv [OF g] by simp
  next
    case (2 w l)
    then show ?case
      using credit [of "s\<lparr>own := (own s)(oid \<mapsto> ?a), world := w, elog := l\<rparr>"] by (simp add: beyond_def)
  qed
qed

lemma good_foldRetiredFill:
  assumes g: "good s0 d s" and a: "own s oid = Some a" "Maker a" "0 \<le> Final a"
    and n: "0 < n" "Seen a + n \<le> Placed a" and Q: "\<And>s'. good s0 d s' \<Longrightarrow> Q () s'"
  shows "wp (foldRetiredFill P oid (Sym a) (IsBuy a) (a\<lparr>Seen := Seen a + n\<rparr>) (Seen a) n price) Q
     (s\<lparr>own := (own s)(oid \<mapsto> a\<lparr>Seen := Seen a + n\<rparr>)\<rparr>)"
proof -
  let ?a = "a\<lparr>Seen := Seen a + n\<rparr>"
  let ?d = "d + weight P (Sym a) * (sgn_of (IsBuy a) * newly a n)"
  have ok: "acct_ok P a" by (rule good_acct [OF g a(1)])
  then have leg: "Sym a = LegA (cfg P) \<or> Sym a = LegB (cfg P) \<and> hedgeRatio P = 1"
    using a by (auto simp: acct_ok_def)
  have ex: "max 0 (Seen ?a - max (Final ?a) (Seen a)) = newly a n" and ex0: "0 \<le> newly a n"
    using a by (simp_all add: newly_def)
  have hedge: "wp (whenM (0 < newly a n) (hedgeStrayMakerFill P (Sym a) (IsBuy a) (newly a n))) Q s1"
    if "good s0 ?d s1" for s1
  proof -
    have "wp (hedgeStrayMakerFill P (Sym a) (IsBuy a) (newly a n)) Q s1"
      by (rule good_hedgeStray [OF that leg ex0]) (use Q in simp)
    moreover have "newly a n = 0 \<Longrightarrow> Q () s1" using that Q by simp
    ultimately show ?thesis using ex0 by auto
  qed
  have credit: "wp (whenM (0 < newly a n) (do {
       sinkFill P oid (Sym a) (IsBuy a) (newly a n) price;
       upd_acct oid (\<lambda>b. b\<lparr>Credited := Credited b + newly a n\<rparr>)
     })) (\<lambda>_. wp (whenM (0 < newly a n) (hedgeStrayMakerFill P (Sym a) (IsBuy a) (newly a n))) Q) s1"
    if s1: "own s1 = (own s)(oid \<mapsto> ?a)" "adv (world s) (world s1)" "clip s1 = clip s"
        "recovery s1 = recovery s" "pending s1 = pending s"
        "\<And>x. sunk x (elog s1) = sunk x (elog s)" "\<And>y. sink_net y (elog s1) = sink_net y (elog s)"
      and sink: "hasSink P" for s1
  proof (rule credit_opt [where a = ?a])
    fix w l
    assume w: "adv (world s1) w"
      "\<And>x. sunk x l = sunk x (elog s1) + (if x = oid \<and> hasSink P then sgn_of (IsBuy a) * newly a n else 0)"
      "\<And>y. sink_net y l = sink_net y (elog s1) + (if y = Sym a \<and> hasSink P then sgn_of (IsBuy a) * newly a n else 0)"
    have "good s0 ?d (s1\<lparr>world := w, elog := l,
        own := (own s1)(oid \<mapsto> ?a\<lparr>Credited := Credited ?a + (if hasSink P then newly a n else 0)\<rparr>)\<rparr>)"
      by (rule good_filled [OF g a(1) n, where b = "?a\<lparr>Credited := Credited ?a + (if hasSink P then newly a n else 0)\<rparr>"])
        (use s1 w a adv_trans [OF s1(2) w(1)] in \<open>auto simp: same_order_def\<close>)
    then show "wp (whenM (0 < newly a n) (hedgeStrayMakerFill P (Sym a) (IsBuy a) (newly a n))) Q
        (s1\<lparr>world := w, elog := l,
          own := (own s1)(oid \<mapsto> ?a\<lparr>Credited := Credited ?a + (if hasSink P then newly a n else 0)\<rparr>)\<rparr>)"
      by (rule hedge)
  qed (use s1 ex0 sink in \<open>auto simp: advances_def\<close>)
  show ?thesis
  proof (cases "hasSink P")
    case True
    show ?thesis
      unfolding foldRetiredFill_def wp_let wp_bind ex wp_whenM [of "hasSink P"] if_P [OF True]
    proof (rule amend_opt, goal_cases)
      case 1
      then show ?case using good_winv [OF g] by simp
    next
      case (2 w l)
      then show ?case
        using credit [of "s\<lparr>own := (own s)(oid \<mapsto> ?a), world := w, elog := l\<rparr>", OF _ _ _ _ _ _ _ True]
        by simp
    qed
  next
    case False
    have "good s0 ?d (s\<lparr>own := (own s)(oid \<mapsto> ?a)\<rparr>)"
      by (rule good_filled [OF g a(1) n, where b = ?a])
        (use a False adv_refl [OF good_winv [OF g]] in \<open>auto simp: same_order_def\<close>)
    from hedge [OF this] show ?thesis
      unfolding foldRetiredFill_def wp_let wp_bind ex using False by simp
  qed
qed

end

end
