(* ===== verification/EngineInvariant.thy ===== *)
theory EngineInvariant
  imports EngineHandlers
begin

text \<open>
  The engine's invariant: the base invariant of \<open>EngineBalance\<close>, a well-formed working clip and,
  unless the kill-switch is tripped, a balance of zero. Every handler keeps it, so it holds in
  every reachable state.
\<close>

context broker
begin

definition inv :: "'w Engine \<Rightarrow> bool" where
  "inv s \<longleftrightarrow>
     base s \<and> (\<forall>c. clip s = Some c \<longrightarrow> clip_ok P (own s) c) \<and> (\<not> Halted s \<longrightarrow> bal P s = 0)"

lemma inv_good: "inv s \<Longrightarrow> good s 0 s"
  by (auto simp: inv_def good_def)

lemma good_rebase: "good s0 d s \<Longrightarrow> good s d s"
  by (simp add: good_def)

lemma good_leg_ok:
  assumes "good s0 d s" and "leg_ok (own s0) sy lo"
  shows "leg_ok (own s) sy lo"
proof (cases "lo_id lo = ''''")
  case False
  then obtain a where a: "own s0 (lo_id lo) = Some a" "Maker a" "Sym a = sy" "IsBuy a = isBid lo"
    using assms(2) by (auto simp: leg_ok_def)
  then obtain b where "own s (lo_id lo) = Some b" "same_order a b" using assms(1) by (auto simp: good_def)
  then show ?thesis using a by (auto simp: leg_ok_def same_order_def)
qed (simp add: leg_ok_def)

lemma good_clip_ok: "good s0 d s \<Longrightarrow> clip_ok P (own s0) c \<Longrightarrow> clip_ok P (own s) c"
  using good_leg_ok by (auto simp: clip_ok_def)

lemma good_clip: "good s0 d s \<Longrightarrow> clip s = clip s0"
  by (simp add: good_def)

lemma good_inv:
  assumes "good s0 0 s" and "\<And>c. clip s0 = Some c \<Longrightarrow> clip_ok P (own s0) c"
  shows "inv s"
  using assms good_clip_ok [OF assms(1)] good_clip [OF assms(1)] by (auto simp: inv_def good_def)

lemma inv_clip_ok: "inv s \<Longrightarrow> clip s = Some c \<Longrightarrow> clip_ok P (own s) c"
  by (simp add: inv_def)

lemma inv_step: "inv s0 \<Longrightarrow> good s0 0 s \<Longrightarrow> inv s"
  by (erule good_inv) (simp add: inv_clip_ok)

lemma good_set_clip: "good s0 d s \<Longrightarrow> good (s\<lparr>clip := c\<rparr>) d (s\<lparr>clip := c\<rparr>)"
  by (auto simp: good_def base_def bal_def)

lemma inv_set_None: "good s0 0 s \<Longrightarrow> inv (s\<lparr>clip := None\<rparr>)"
  by (auto simp: inv_def good_def base_def bal_def)

lemma inv_halted_None: "good s0 d s \<Longrightarrow> Halted s \<Longrightarrow> inv (s\<lparr>clip := None\<rparr>)"
  by (auto simp: inv_def good_def base_def bal_def)

lemma inv_frame [simp]:
  "inv (s\<lparr>quote := q\<rparr>) = inv s" "inv (s\<lparr>now := t\<rparr>) = inv s"
  by (simp_all add: inv_def base_def bal_def)

lemma good_frame [simp]: "good s0 d (s\<lparr>quote := q\<rparr>) = good s0 d s"
  by (simp add: good_def base_def bal_def)

lemma leg_maker_id: "leg_ok (own s0) sy lo \<Longrightarrow> maker_id s0 (lo_id lo) sy (isBid lo)"
  by (auto simp: leg_ok_def maker_id_def)

text \<open>The two legs of a well-formed clip, retired one after the other.\<close>

lemma clip_sides:
  "clip_ok P m c \<Longrightarrow> sgn_of (isBid (legB c)) = - sgn_of (isBid (legA c))"
  by (auto simp: clip_ok_def)

lemma good_retire_legs:
  assumes g: "good s0 d s" and c: "clip_ok P (own s0) c"
    and Q: "\<And>gA gB s'. good s0 (d + hedgeRatio P * (sgn_of (isBid (legA c)) * (gA - gB))) s' \<Longrightarrow>
        0 \<le> gA \<Longrightarrow> 0 \<le> gB \<Longrightarrow> R gA gB s'"
  shows "wp (retireOrder P (lo_id (legA c))) (\<lambda>gA. wp (retireOrder P (lo_id (legB c))) (R gA)) s"
proof (rule good_retireOrder [OF g])
  show "maker_id s0 (lo_id (legA c)) (LegA (cfg P)) (isBid (legA c))"
    using c by (intro leg_maker_id) (simp add: clip_ok_def)
  fix gA s1
  assume g1: "good s0 (d + weight P (LegA (cfg P)) * (sgn_of (isBid (legA c)) * gA)) s1" "0 \<le> gA"
  show "wp (retireOrder P (lo_id (legB c))) (R gA) s1"
  proof (rule good_retireOrder [OF g1(1)])
    show "maker_id s0 (lo_id (legB c)) (LegB (cfg P)) (isBid (legB c))"
      using c by (intro leg_maker_id) (simp add: clip_ok_def)
    fix gB s2
    assume g2: "good s0 (d + weight P (LegA (cfg P)) * (sgn_of (isBid (legA c)) * gA) +
        weight P (LegB (cfg P)) * (sgn_of (isBid (legB c)) * gB)) s2" "0 \<le> gB"
      "lo_id (legB c) = '''' \<longrightarrow> gB = 0"
    have "gB = 0 \<or> hedgeRatio P = 1" using c g2(3) by (auto simp: clip_ok_def)
    then have "good s0 (d + hedgeRatio P * (sgn_of (isBid (legA c)) * (gA - gB))) s2"
      using g2(1) clip_sides [OF c] by (auto simp: algebra_simps)
    then show "R gA gB s2" using Q g1(2) g2(2) by blast
  qed
qed

lemma good_settleClip:
  assumes g: "good s0 d s" and s0: "clip s0 = Some c" and c: "clip_ok P (own s0) c"
    and Q: "\<And>s'. good s0 (d + hedgeRatio P * (sgn_of (isBid (legA c)) * (realB - realA))) s' \<Longrightarrow> Q () s'"
  shows "wp (settleClip P realA realB full) Q s"
proof -
  let ?sA = "sgn_of (isBid (legA c))"
  let ?d = "d + hedgeRatio P * (?sA * (realB - realA))"
  have topup: "wp (do {
       h \<leftarrow> gets (\<lambda>s. Halted s);
       if h then skip
       else do {
         whenM (x < want) (takerRetry P (LegA (cfg P)) (isBid (legA c)) (want - x));
         whenM (y < want)
           (takerRetry P (LegB (cfg P)) (isBid (legB c)) (hedgeLots P (LegB (cfg P)) (want - y)))
       }
     }) Q s1"
    if s1: "good s0 (?d + hedgeRatio P * (?sA * (x - y))) s1" and w: "x \<le> want" "y \<le> want" for x y want s1
  proof (cases "Halted s1")
    case True
    then show ?thesis using good_vacuous [OF s1 True] Q by simp
  next
    case False
    have B: "wp (whenM (y < want)
           (takerRetry P (LegB (cfg P)) (isBid (legB c)) (hedgeLots P (LegB (cfg P)) (want - y)))) Q s2"
      if s2: "good s0 (?d + hedgeRatio P * (?sA * (want - y))) s2" for s2
    proof (cases "y < want")
      case True
      then have "wp (takerRetry P (LegB (cfg P)) (isBid (legB c)) ((want - y) * hedgeRatio P)) Q s2"
        by (intro good_takerRetry [OF s2] Q)
          (use clip_sides [OF c] in \<open>auto simp: algebra_simps zero_less_mult_iff\<close>)
      then show ?thesis using True by simp
    next
      case False
      then show ?thesis using s2 w Q by simp
    qed
    have "wp (whenM (x < want) (takerRetry P (LegA (cfg P)) (isBid (legA c)) (want - x)))
        (\<lambda>_. wp (whenM (y < want)
           (takerRetry P (LegB (cfg P)) (isBid (legB c)) (hedgeLots P (LegB (cfg P)) (want - y)))) Q) s1"
    proof (cases "x < want")
      case True
      have "wp (takerRetry P (LegA (cfg P)) (isBid (legA c)) (want - x))
        (\<lambda>_. wp (whenM (y < want)
           (takerRetry P (LegB (cfg P)) (isBid (legB c)) (hedgeLots P (LegB (cfg P)) (want - y)))) Q) s1"
        by (intro good_takerRetry [OF s1] B) (use True in \<open>auto simp: algebra_simps\<close>)
      then show ?thesis using True by simp
    next
      case xw: False
      then have "x = want" using w by simp
      then show ?thesis using B [of s1] s1 by simp
    qed
    then show ?thesis using False by simp
  qed
  have cs: "clip s = Some c" using good_clip [OF g] s0 by simp
  show ?thesis
    unfolding settleClip_def wp_bind wp_get cs option.case
  proof (rule good_retire_legs [OF g c])
    fix gA gB s1
    assume s1: "good s0 (d + hedgeRatio P * (?sA * (gA - gB))) s1" "0 \<le> gA" "0 \<le> gB"
    let ?x = "realA + gA" and ?y = "realB + gB"
    let ?want = "if full then max (max ?x ?y) (target c) else max ?x ?y"
    have s1': "good s0 (?d + hedgeRatio P * (?sA * (?x - ?y))) s1" using s1(1) by (simp add: algebra_simps)
    show "wp (let realA = realA + gA; realB = realB + gB; want0 = max realA realB;
             want = if full then max want0 (target c) else want0
         in if realA = want \<and> realB = want then skip
            else do {
              h \<leftarrow> gets (\<lambda>s. Halted s);
              if h then skip
              else do {
                whenM (realA < want) (takerRetry P (LegA (cfg P)) (isBid (legA c)) (want - realA));
                whenM (realB < want)
                  (takerRetry P (LegB (cfg P)) (isBid (legB c))
                     (hedgeLots P (LegB (cfg P)) (want - realB)))
              }
            }) Q s1"
    proof (cases "?x = ?want \<and> ?y = ?want")
      case True
      then have "?x - ?y = 0" by linarith
      then have "good s0 ?d s1" using s1' by (simp only: mult_zero_right add_0_right)
      then have "Q () s1" by (rule Q)
      then show ?thesis unfolding wp_let if_P [OF True] by simp
    next
      case False
      show ?thesis
        unfolding wp_let if_not_P [OF False]
        by (rule topup [OF s1']) auto
    qed
  qed
qed

subsection \<open>Disposing of a clip\<close>

lemma inv_CancelClip:
  assumes i: "inv s" and Q: "\<And>s'. inv s' \<Longrightarrow> clip s' = None \<Longrightarrow> Q () s'"
  shows "wp (CancelClip P) Q s"
proof (cases "clip s")
  case None
  then show ?thesis using i Q by (simp add: CancelClip_def)
next
  case (Some c)
  have "wp (settleClip P (makerFilled c) (makerFilled c) False) (\<lambda>_ s. Q () (s\<lparr>clip := None\<rparr>)) s"
    by (rule good_settleClip [OF inv_good [OF i] Some inv_clip_ok [OF i Some]])
      (auto intro!: Q inv_set_None)
  then show ?thesis using Some by (simp add: CancelClip_def) (erule wp_mono, simp)
qed

lemma good_deciderCommit:
  assumes g: "good s0 d s" and Q: "\<And>s'. good s0 d s' \<Longrightarrow> Q () s'"
  shows "wp (deciderCommit P i ts) Q s"
  unfolding deciderCommit_def wp_bind
proof (rule good_rpc [OF g commit_keeps])
  fix a w assume "good s0 d (s\<lparr>world := w\<rparr>)"
  then have g': "good s0 d (s\<lparr>world := w, elog := ECommit i # elog s\<rparr>)"
    by (rule good_quiet) (use adv_refl [OF good_winv [OF \<open>good s0 d (s\<lparr>world := w\<rparr>)\<close>]] in simp_all)
  have "wp (case SaveLots P of None \<Rightarrow> skip | Some save \<Rightarrow> rpc save) Q
      (s\<lparr>world := w, elog := ECommit i # elog s\<rparr>)"
  proof (cases "SaveLots P")
    case None
    then show ?thesis using g' Q by simp
  next
    case (Some m)
    then show ?thesis using good_rpc [OF g' save_keeps [OF Some], of Q] Q by simp
  qed
  then show "wp (emit (ECommit i)) (\<lambda>_. wp (case SaveLots P of None \<Rightarrow> skip | Some save \<Rightarrow> rpc save) Q)
      (s\<lparr>world := w\<rparr>)" by simp
qed

lemma inv_commitClip:
  assumes i: "inv s" and Q: "\<And>s'. inv s' \<Longrightarrow> Q () s'"
  shows "wp (commitClip P ts) Q s"
proof (cases "clip s")
  case None
  then show ?thesis using i Q by (simp add: commitClip_def)
next
  case (Some c)
  let ?sA = "sgn_of (isBid (legA c))"
  let ?top = "\<lambda>gap. do {
       h \<leftarrow> gets (\<lambda>s. Halted s);
       if gap > 0 \<and> \<not> h then
         (if makerID c = lo_id (legA c)
          then takerRetry P (LegB (cfg P)) (isBid (legB c)) (hedgeLots P (LegB (cfg P)) gap)
          else takerRetry P (LegA (cfg P)) (isBid (legA c)) gap)
       else skip
     }"
  have pull: "wp (if makerID c \<noteq> '''' then retireOrder P (makerID c) \<bind> ?top else skip) Q (s1\<lparr>clip := None\<rparr>)"
    if s1: "good s 0 s1" for s1
  proof (cases "makerID c = ''''")
    case True
    then show ?thesis using Q inv_set_None [OF s1] by simp
  next
    case False
    let ?s2 = "s1\<lparr>clip := None\<rparr>"
    have c: "clip_ok P (own ?s2) c" using good_clip_ok [OF s1 inv_clip_ok [OF i Some]] by simp
    have g2: "good ?s2 0 ?s2" by (rule good_set_clip [OF s1])
    have fin: "Q () s'" if "good ?s2 0 s'" for s'
      by (rule Q, rule good_inv [OF that]) simp
    have halted: "Q () s'" if "good ?s2 d s'" "Halted s'" for d s'
      using fin good_vacuous [OF that] by blast
    show ?thesis
    proof (cases "makerID c = lo_id (legA c)")
      case A: True
      have "wp (retireOrder P (makerID c)) (\<lambda>gap. wp (?top gap) Q) ?s2"
      proof (rule good_retireOrder [OF g2])
        show "maker_id ?s2 (makerID c) (LegA (cfg P)) (isBid (legA c))"
          unfolding A using c by (intro leg_maker_id) (simp add: clip_ok_def)
        fix gap s'
        assume s': "good ?s2 (0 + weight P (LegA (cfg P)) * (?sA * gap)) s'" "0 \<le> gap"
        have "wp (takerRetry P (LegB (cfg P)) (isBid (legB c)) (gap * hedgeRatio P)) Q s'"
          if "0 < gap"
          by (rule good_takerRetry [OF s'(1)], use that in \<open>simp add: zero_less_mult_iff\<close>, simp)
            (rule fin, use clip_sides [OF c] in \<open>simp add: algebra_simps\<close>)
        moreover have "Q () s'" if "gap = 0" using s' that fin by simp
        ultimately show "wp (?top gap) Q s'" using A s' halted by auto
      qed
      then show ?thesis using False by simp
    next
      case B: False
      then have mB: "makerID c = lo_id (legB c)" and R: "hedgeRatio P = 1"
        using c False by (auto simp: clip_ok_def)
      have "wp (retireOrder P (makerID c)) (\<lambda>gap. wp (?top gap) Q) ?s2"
      proof (rule good_retireOrder [OF g2])
        show "maker_id ?s2 (makerID c) (LegB (cfg P)) (isBid (legB c))"
          unfolding mB using c by (intro leg_maker_id) (simp add: clip_ok_def)
        fix gap s'
        assume s': "good ?s2 (0 + weight P (LegB (cfg P)) * (sgn_of (isBid (legB c)) * gap)) s'" "0 \<le> gap"
        have "wp (takerRetry P (LegA (cfg P)) (isBid (legA c)) gap) Q s'"
          if "0 < gap"
          by (rule good_takerRetry [OF s'(1)], use that in simp, simp)
            (rule fin, use clip_sides [OF c] R in \<open>simp add: algebra_simps\<close>)
        moreover have "Q () s'" if "gap = 0" using s' that fin by simp
        ultimately show "wp (?top gap) Q s'" using B s' halted by auto
      qed
      then show ?thesis using False by simp
    qed
  qed
  have "wp (deciderCommit P (intent c) ts)
     (\<lambda>_ s. wp (if makerID c \<noteq> '''' then retireOrder P (makerID c) \<bind> ?top else skip) Q (s\<lparr>clip := None\<rparr>)) s"
    by (rule good_deciderCommit [OF inv_good [OF i]]) (rule pull)
  then show ?thesis
    unfolding commitClip_def wp_bind wp_get Some option.case
    by (rule wp_mono) simp
qed

lemma inv_settle_commit:
  assumes g: "good s0 d s" and s0: "clip s0 = Some c" and c: "clip_ok P (own s0) c"
    and d: "d = hedgeRatio P * (sgn_of (isBid (legA c)) * (realA - realB))"
    and Q: "\<And>s'. inv s' \<Longrightarrow> Q () s'"
  shows "wp (settleClip P realA realB full) (\<lambda>_. wp (do {
       h \<leftarrow> gets (\<lambda>s. Halted s);
       if h then skip else commitClip P ts
     }) Q) s"
proof (rule good_settleClip [OF g s0 c])
  fix s'
  assume "good s0 (d + hedgeRatio P * (sgn_of (isBid (legA c)) * (realB - realA))) s'"
  then have "good s0 0 s'" using d by (simp add: algebra_simps)
  then have "inv s'" by (rule good_inv) (use s0 c in simp)
  then show "wp (do {
       h \<leftarrow> gets (\<lambda>s. Halted s);
       if h then skip else commitClip P ts
     }) Q s'"
    using Q by (auto intro!: inv_commitClip)
qed

lemma inv_completeClip:
  assumes i: "inv s" and Q: "\<And>s'. inv s' \<Longrightarrow> Q () s'"
  shows "wp (completeClip P ts) Q s"
proof (cases "clip s")
  case None
  then show ?thesis using i Q by (simp add: completeClip_def)
next
  case (Some c)
  show ?thesis
    unfolding completeClip_def wp_bind wp_get Some option.case
    using inv_settle_commit [OF inv_good [OF i] Some inv_clip_ok [OF i Some], of "makerFilled c" "makerFilled c" Q] Q
    by simp
qed

lemma inv_abandonClip:
  assumes i: "inv s" and Q: "\<And>s'. inv s' \<Longrightarrow> Q () s'"
  shows "wp (abandonClip P ts) Q s"
proof (cases "clip s")
  case None
  then show ?thesis using i Q by (simp add: abandonClip_def)
next
  case (Some c)
  note ck = inv_clip_ok [OF i Some]
  show ?thesis
  proof (cases "\<not> IsClose (intent c) \<and> KeepPartialOpenOnTimeout (cfg P)")
    case True
    then show ?thesis using Some Q by (auto simp: abandonClip_def intro!: inv_CancelClip [OF i])
  next
    case False
    let ?tail = "\<lambda>gA gB. do {
         s2 \<leftarrow> get_state;
         if Halted s2 \<or> clip s2 = None then skip
         else if gA = 0 \<and> gB = 0 then set_clip None
         else do {
           settleClip P gA gB True;
           h \<leftarrow> gets (\<lambda>s. Halted s);
           if h then skip else commitClip P ts
         }
       }"
    have tail: "wp (?tail gA gB) Q s'"
      if s': "good s (0 + hedgeRatio P * (sgn_of (isBid (legA c)) * (gA - gB))) s'" for gA gB s'
    proof -
      have cs: "clip s' = Some c" using good_clip [OF s'] Some by simp
      have "Q () s'" if "Halted s'"
        by (rule Q, rule inv_step [OF i good_vacuous [OF s' that]])
      moreover have "Q () (s'\<lparr>clip := None\<rparr>)" if "gA = 0" "gB = 0"
        using s' that by (intro Q inv_set_None [of s]) simp
      moreover have "wp (settleClip P gA gB True) (\<lambda>_. wp (do {
           h \<leftarrow> gets (\<lambda>s. Halted s);
           if h then skip else commitClip P ts
         }) Q) s'"
        by (rule inv_settle_commit [OF s' Some ck], simp, rule Q)
      ultimately show ?thesis using cs by simp
    qed
    have "wp (retireOrder P (lo_id (legA c)))
        (\<lambda>gA. wp (retireOrder P (lo_id (legB c))) (\<lambda>gB. wp (?tail gA gB) Q)) s"
      by (rule good_retire_legs [OF inv_good [OF i] ck]) (rule tail)
    then show ?thesis
      unfolding abandonClip_def wp_bind wp_get Some option.case if_not_P [OF False]
      by simp
  qed
qed

lemma inv_resolveClip:
  assumes i: "inv s" and Q: "\<And>s'. inv s' \<Longrightarrow> Q () s'"
  shows "wp (resolveClip P ts) Q s"
  using i Q
  by (auto simp: resolveClip_def split: option.split
      intro!: inv_abandonClip inv_CancelClip inv_completeClip)

lemma inv_checkTimeout:
  assumes i: "inv s" and Q: "\<And>s'. inv s' \<Longrightarrow> Q () s'"
  shows "wp (checkTimeout P ts) Q s"
  using i Q by (auto simp: checkTimeout_def split: option.split intro!: inv_resolveClip)

subsection \<open>Opening a clip\<close>

lemma good_placeLeg:
  assumes g: "good s0 d s" and n: "0 < n" and sy: "sy = LegA (cfg P) \<or> sy = LegB (cfg P) \<and> hedgeRatio P = 1"
    and Q: "\<And>err lo' s'. good s0 d s' \<Longrightarrow> isBid lo' = isBid lo \<Longrightarrow>
        (if err = None then leg_ok (own s') sy lo' else lo' = lo) \<Longrightarrow> Q (err, lo') s'"
  shows "wp (placeLeg P lo sy n) Q s"
  unfolding placeLeg_def wp_eta
proof (rule good_place_rpc [OF g place_fresh])
  fix r w assume w: "good s0 d (s\<lparr>world := w\<rparr>)" "fresh_reply r (s\<lparr>world := w\<rparr>)"
  let ?s1 = "s\<lparr>world := w, elog := EPlace sy (isBid lo) n (lo_price lo) (id_of r) # elog s\<rparr>"
  have g1: "good s0 d ?s1"
    by (rule good_quiet [OF w(1)]) (use adv_refl [OF good_winv [OF w(1)]] in simp_all)
  have "wp (spendOne P) (\<lambda>_. wp (case r of
       Inl e \<Rightarrow> ret (Some e, lo)
     | Inr oid \<Rightarrow> do {
         s \<leftarrow> get_state;
         if oid = '''' then do {
           with_recovery MarkUnverified;
           ret (Some (Leaf 0 ''broker returned an empty order id''), lo)
         }
         else if own s oid \<noteq> None then do {
           with_recovery MarkUnverified;
           ret (Some (Leaf 0 ''broker reused order id''), lo)
         }
         else do {
           set_acct oid (makerAcct sy (isBid lo) (lo_price lo) n);
           ret (None, lo\<lparr>lo_id := oid, placedAt := now s\<rparr>)
         }
       }) Q) ?s1"
  proof (rule good_spendOne [OF g1])
    fix s2 assume s2: "good s0 d s2" "own s2 = own ?s1" "issued (world ?s1) \<subseteq> issued (world s2)"
    show "wp (case r of
       Inl e \<Rightarrow> ret (Some e, lo)
     | Inr oid \<Rightarrow> do {
         s \<leftarrow> get_state;
         if oid = '''' then do {
           with_recovery MarkUnverified;
           ret (Some (Leaf 0 ''broker returned an empty order id''), lo)
         }
         else if own s oid \<noteq> None then do {
           with_recovery MarkUnverified;
           ret (Some (Leaf 0 ''broker reused order id''), lo)
         }
         else do {
           set_acct oid (makerAcct sy (isBid lo) (lo_price lo) n);
           ret (None, lo\<lparr>lo_id := oid, placedAt := now s\<rparr>)
         }
       }) Q s2"
    proof (cases r)
      case (Inl e)
      then show ?thesis using s2 Q by simp
    next
      case (Inr oid)
      have fr: "oid \<noteq> ''''" "own s2 oid = None" "oid \<in> issued (world s2)"
        using w(2) s2 Inr by (auto simp: fresh_reply_def fresh_def)
      let ?b = "makerAcct sy (isBid lo) (lo_price lo) n"
      have ok: "acct_ok P ?b" using n sy legs by (auto simp: acct_ok_def credit_of_def)
      have "good s0 d (s2\<lparr>own := (own s2)(oid \<mapsto> ?b)\<rparr>)"
        by (rule good_new [OF s2(1) fr(2) ok _ fr(1,3)])
          (use adv_refl [OF good_winv [OF s2(1)]] in
            \<open>simp_all add: acct_credit_def credit_in_def contrib_def eff_def\<close>)
      then have "Q (None, lo\<lparr>lo_id := oid, placedAt := now s2\<rparr>) (s2\<lparr>own := (own s2)(oid \<mapsto> ?b)\<rparr>)"
        by (rule Q) (simp_all add: leg_ok_def)
      then show ?thesis using Inr fr by simp
    qed
  qed
  then show "wp (emit (EPlace sy (isBid lo) n (lo_price lo) (id_of r))) (\<lambda>_. wp (spendOne P) (\<lambda>_. wp (case r of
       Inl e \<Rightarrow> ret (Some e, lo)
     | Inr oid \<Rightarrow> do {
         s \<leftarrow> get_state;
         if oid = '''' then do {
           with_recovery MarkUnverified;
           ret (Some (Leaf 0 ''broker returned an empty order id''), lo)
         }
         else if own s oid \<noteq> None then do {
           with_recovery MarkUnverified;
           ret (Some (Leaf 0 ''broker reused order id''), lo)
         }
         else do {
           set_acct oid (makerAcct sy (isBid lo) (lo_price lo) n);
           ret (None, lo\<lparr>lo_id := oid, placedAt := now s\<rparr>)
         }
       }) Q)) (s\<lparr>world := w\<rparr>)" by simp
qed

lemma good_raceTakers:
  assumes g: "good s0 d s" and n: "0 < n" "0 < m"
    and Q: "\<And>okA okB s'. good s0 (d + (if okA then weight P (LegA (cfg P)) * (sgn_of bu * n) else 0)
          + (if okB then weight P (LegB (cfg P)) * (sgn_of (\<not> bu) * m) else 0)) s' \<Longrightarrow> Q (okA, okB) s'"
  shows "wp (raceTakers P bu n m) Q s"
proof -
  let ?wA = "weight P (LegA (cfg P)) * (sgn_of bu * n)" and ?wB = "weight P (LegB (cfg P)) * (sgn_of (\<not> bu) * m)"
  have commits: "wp (commitTakerPlacement P (LegA (cfg P)) bu n rA)
      (\<lambda>okA. wp (commitTakerPlacement P (LegB (cfg P)) (\<not> bu) m rB) (\<lambda>okB. Q (okA, okB))) t"
    if t: "good s0 d t" "fresh_reply rA t" "fresh_reply rB t" "\<And>x. rA = Inr x \<Longrightarrow> rB \<noteq> Inr x" for rA rB t
  proof (rule good_commitTakerPlacement [OF t(1,2) n(1)])
    fix u
    assume u: "good s0 (d + (if isl rA then 0 else ?wA)) u" "\<And>x. rA \<noteq> Inr x \<Longrightarrow> own u x = own t x"
      "issued (world t) \<subseteq> issued (world u)"
    have fB: "fresh_reply rB u"
      unfolding fresh_reply_def
    proof (intro allI impI)
      fix x assume x: "rB = Inr x"
      then have "rA \<noteq> Inr x" using t(4) by blast
      then show "fresh x u" using x t(3) u(2,3) by (auto simp: fresh_reply_def fresh_def)
    qed
    show "wp (commitTakerPlacement P (LegB (cfg P)) (\<not> bu) m rB) (\<lambda>okB. Q (\<not> isl rA, okB)) u"
    proof (rule good_commitTakerPlacement [OF u(1) fB n(2)])
      fix v assume "good s0 (d + (if isl rA then 0 else ?wA) + (if isl rB then 0 else ?wB)) v"
      then show "Q (\<not> isl rA, \<not> isl rB) v" by (intro Q) (simp split: if_splits)
    qed simp
  qed simp
  have rpcs: "wp (placeTakerRPC P sy b k) (\<lambda>r. wp (placeTakerRPC P sy' b' k') (\<lambda>r'. R r r')) s"
    if R: "\<And>r r' t. good s0 d t \<Longrightarrow> fresh_reply r t \<Longrightarrow> fresh_reply r' t \<Longrightarrow>
        (\<And>x. r = Inr x \<Longrightarrow> r' \<noteq> Inr x) \<Longrightarrow> R r r' t" for R sy b k sy' b' k'
  proof (rule good_placeTakerRPC [OF g])
    fix r s1 assume s1: "good s0 d s1" "fresh_reply r s1"
    show "wp (placeTakerRPC P sy' b' k') (\<lambda>r'. R r r') s1"
    proof (rule good_placeTakerRPC [OF s1(1)])
      fix r' s2
      assume s2: "good s0 d s2" "fresh_reply r' s2" "own s2 = own s1" "issued (world s1) \<subseteq> issued (world s2)"
        "\<And>oid. r' = Inr oid \<Longrightarrow> oid \<notin> issued (world s1)"
      show "R r r' s2"
        by (rule R [OF s2(1) _ s2(2)]) (use s1(2) s2 in \<open>auto simp: fresh_reply_def fresh_def\<close>)
    qed
  qed
  show ?thesis
    by (simp add: raceTakers_def) (intro conjI impI rpcs commits; auto)
qed

lemma inv_openTakerOnlyClip:
  assumes i: "inv s" and n: "0 < n" and Q: "\<And>r s'. inv s' \<Longrightarrow> Q r s'"
  shows "wp (openTakerOnlyClip P it d n ts) Q s"
proof (cases "Halted s")
  case True
  then show ?thesis using i Q by (simp add: openTakerOnlyClip_def)
next
  case False
  let ?wA = "hedgeRatio P * (sgn_of (d > 0) * n)"
  have m: "0 < n * hedgeRatio P" using n by (simp add: zero_less_mult_iff)
  have commit: "wp (deciderCommit P (it\<lparr>Lots := n\<rparr>) ts) (\<lambda>_. Q (True, False)) s'" if "good s 0 s'" for s'
    by (rule good_deciderCommit [OF that], rule Q, rule inv_step [OF i])
  have plain: "wp (takerRetryPlain P (LegA (cfg P)) (d > 0) n 1)
      (\<lambda>_. wp (takerRetryPlain P (LegB (cfg P)) (\<not> d > 0) (n * hedgeRatio P) 1)
        (\<lambda>_. wp (deciderCommit P (it\<lparr>Lots := n\<rparr>) ts) (\<lambda>_. Q (True, False)))) s'"
    if "good s 0 s'" for s'
    by (rule good_takerRetryPlain [OF that n], simp,
        rule good_takerRetryPlain [OF _ m], assumption, simp, rule commit, simp add: algebra_simps)
  have B: "wp (whenM (\<not> okB) (takerRetryFrom P (LegB (cfg P)) (\<not> d > 0) (n * hedgeRatio P) 1))
        (\<lambda>_. wp (deciderCommit P (it\<lparr>Lots := n\<rparr>) ts) (\<lambda>_. Q (True, False))) s'"
    if s': "good s (?wA + (if okB then - ?wA else 0)) s'" for okB s'
  proof (cases okB)
    case True
    then show ?thesis using commit s' by simp
  next
    case False
    have "wp (takerRetryFrom P (LegB (cfg P)) (\<not> d > 0) (n * hedgeRatio P) 1)
        (\<lambda>_. wp (deciderCommit P (it\<lparr>Lots := n\<rparr>) ts) (\<lambda>_. Q (True, False))) s'"
      by (rule good_takerRetryFrom [OF s' m], simp, rule commit, use False in \<open>simp add: algebra_simps\<close>)
    then show ?thesis using False by simp
  qed
  have chase: "wp (whenM (\<not> okA) (takerRetryFrom P (LegA (cfg P)) (d > 0) n 1))
      (\<lambda>_. wp (whenM (\<not> okB) (takerRetryFrom P (LegB (cfg P)) (\<not> d > 0) (n * hedgeRatio P) 1))
        (\<lambda>_. wp (deciderCommit P (it\<lparr>Lots := n\<rparr>) ts) (\<lambda>_. Q (True, False)))) s'"
    if s': "good s ((if okA then ?wA else 0) + (if okB then - ?wA else 0)) s'" for okA okB s'
  proof (cases okA)
    case True
    then show ?thesis using B [of okB s'] s' by simp
  next
    case False
    have "wp (takerRetryFrom P (LegA (cfg P)) (d > 0) n 1)
      (\<lambda>_. wp (whenM (\<not> okB) (takerRetryFrom P (LegB (cfg P)) (\<not> d > 0) (n * hedgeRatio P) 1))
        (\<lambda>_. wp (deciderCommit P (it\<lparr>Lots := n\<rparr>) ts) (\<lambda>_. Q (True, False)))) s'"
      by (rule good_takerRetryFrom [OF s' n], simp, rule B, use False in \<open>simp add: algebra_simps\<close>)
    then show ?thesis using False by simp
  qed
  show ?thesis
    unfolding openTakerOnlyClip_def wp_eta wp_get wp_let if_not_P [OF False] hedgeLots_legs
  proof (rule good_raceTakers [OF inv_good [OF i] n m])
    fix okA okB s'
    assume "good s (0 + (if okA then weight P (LegA (cfg P)) * (sgn_of (d > 0) * n) else 0)
        + (if okB then weight P (LegB (cfg P)) * (sgn_of (\<not> d > 0) * (n * hedgeRatio P)) else 0)) s'"
    then have g: "good s ((if okA then ?wA else 0) + (if okB then - ?wA else 0)) s'"
      by (simp add: algebra_simps split: if_splits)
    show "wp (case (okA, okB) of (okA, okB) \<Rightarrow> do {
         (if \<not> okA \<and> \<not> okB \<and> \<not> IsClose it then do {
            takerRetryPlain P (LegA (cfg P)) (d > 0) n 1;
            takerRetryPlain P (LegB (cfg P)) (\<not> d > 0) (n * hedgeRatio P) 1
          } else do {
            whenM (\<not> okA) (takerRetryFrom P (LegA (cfg P)) (d > 0) n 1);
            whenM (\<not> okB) (takerRetryFrom P (LegB (cfg P)) (\<not> d > 0) (n * hedgeRatio P) 1)
          });
         deciderCommit P (it\<lparr>Lots := n\<rparr>) ts;
         ret (True, False)
       }) Q s'"
    proof (cases "\<not> okA \<and> \<not> okB \<and> \<not> IsClose it")
      case True
      then show ?thesis using plain [of s'] g by simp
    next
      case False
      show ?thesis
        unfolding prod.case if_not_P [OF False] wp_eta by (rule chase [OF g])
    qed
  qed
qed

lemma inv_set_Some: "good s0 0 s \<Longrightarrow> clip_ok P (own s) c \<Longrightarrow> inv (s\<lparr>clip := Some c\<rparr>)"
  by (auto simp: inv_def good_def base_def bal_def)

lemma newClip_ok:
  assumes "leg_ok m (LegA (cfg P)) a" "leg_ok m (LegB (cfg P)) b" "Action i \<noteq> 0" "0 < n"
    "isBid a = (Action i > 0)" "isBid b = (Action i < 0)"
    "lo_id b = '''' \<or> hedgeRatio P = 1" "md = ExecSoloMaker \<or> hedgeRatio P = 1"
  shows "clip_ok P m (newClip P i n a b md ts)"
  using assms by (auto simp: clip_ok_def newClip_def)

lemma ratio_mode: "clipExecMode P i = ExecTaker \<or> clipExecMode P i = ExecSoloMaker \<or> hedgeRatio P = 1"
  using clipExecMode_ratio [of P i] by (auto simp: hedgeRatio_def)

lemma wp_backoffFrom [simp]:
  "wp (backoffFrom P ts) Q s = Q () (s\<lparr>quote := SetBackoff (ts + placeBackoff P) (quote s)\<rparr>)"
  by (simp add: backoffFrom_def)

lemma newLeg_simps [simp]: "isBid (newLeg p b) = b" "lo_id (newLeg p b) = ''''"
  by (simp_all add: newLeg_def)

lemma inv_rejectOpen:
  "inv s \<Longrightarrow> (\<And>r s'. inv s' \<Longrightarrow> Q r s') \<Longrightarrow> wp (rejectOpen P it err ts) Q s"
  by (simp add: rejectOpen_def)

lemma inv_installClip:
  "good s0 0 s \<Longrightarrow> clip_ok P (own s) c \<Longrightarrow> (\<And>r s'. inv s' \<Longrightarrow> Q r s') \<Longrightarrow> wp (installClip c) Q s"
  by (simp add: installClip_def inv_set_Some)

lemma inv_openSecondLeg:
  assumes i: "inv s" and n: "0 < n" and act: "Action it \<noteq> 0" and R: "hedgeRatio P = 1"
    and a: "leg_ok (own s) (LegA (cfg P)) a" "isBid a = (Action it > 0)"
    and b: "isBid b = (Action it < 0)" and Q: "\<And>r s'. inv s' \<Longrightarrow> Q r s'"
  shows "wp (openSecondLeg P it n a b m ts) Q s"
  unfolding openSecondLeg_def wp_eta
proof (rule good_placeLeg [OF inv_good [OF i] n])
  fix err b' s1
  assume s1: "good s 0 s1" and b': "isBid b' = isBid b"
    "if err = None then leg_ok (own s1) (LegB (cfg P)) b' else b' = b"
  show "wp (case (err, b') of (errB, b') \<Rightarrow>
      if errB \<noteq> None then do {
        gap \<leftarrow> retireOrder P (lo_id a);
        whenM (gap > 0)
          (takerRetry P (LegB (cfg P)) (isBid b) (hedgeLots P (LegB (cfg P)) gap));
        backoffFrom P ts;
        ret (False, False)
      }
      else installClip (newClip P it n a b' m ts)) Q s1"
  proof (cases err)
    case None
    have "clip_ok P (own s1) (newClip P it n a b' m ts)"
      by (rule newClip_ok) (use good_leg_ok [OF s1 a(1)] a(2) b b' None act n R in auto)
    then show ?thesis using None inv_installClip [OF s1 _ Q] by simp
  next
    case (Some e)
    have fin: "Q (False, False) (s'\<lparr>quote := q\<rparr>)" if "good s 0 s'" for s' q
      using Q inv_step [OF i that] by simp
    let ?k = "\<lambda>_ s. Q (False, False) (s\<lparr>quote := SetBackoff (ts + placeBackoff P) (quote s)\<rparr>)"
    have "wp (retireOrder P (lo_id a)) (\<lambda>gap. wp (whenM (gap > 0)
          (takerRetry P (LegB (cfg P)) (isBid b) gap)) ?k) s1"
    proof (rule good_retireOrder [OF s1 leg_maker_id [OF a(1)]])
      fix gap s3
      assume s3: "good s (0 + weight P (LegA (cfg P)) * (sgn_of (isBid a) * gap)) s3" "0 \<le> gap"
      have sides: "sgn_of (isBid b) = - sgn_of (isBid a)" using a(2) b act by auto
      have "wp (takerRetry P (LegB (cfg P)) (isBid b) gap) ?k s3" if "0 < gap"
        by (rule good_takerRetry [OF s3(1) that], simp, rule fin)
          (use sides R in \<open>simp add: algebra_simps\<close>)
      moreover have "?k () s3" if "gap = 0" by (rule fin) (use s3(1) that in simp)
      ultimately show "wp (whenM (gap > 0) (takerRetry P (LegB (cfg P)) (isBid b) gap)) ?k s3"
        using s3(2) by auto
    qed
    then show ?thesis
      unfolding Some using R by simp (erule wp_mono, simp split: if_splits, erule wp_mono, simp)
  qed
qed (use R in simp)

lemma inv_openClip:
  assumes i: "inv s" and n: "0 < n" and act: "Action it \<noteq> 0" and Q: "\<And>r s'. inv s' \<Longrightarrow> Q r s'"
  shows "wp (openClip P it n ts) Q s"
proof (cases "clipExecMode P it = ExecTaker")
  case True
  then show ?thesis
    unfolding openClip_def wp_let using inv_openTakerOnlyClip [OF i n Q] by simp
next
  case False
  let ?m = "clipExecMode P it"
  let ?d = "Action it"
  let ?a = "newLeg (SidePrice (touchA (quote s)) (?d > 0)) (?d > 0)"
  let ?b = "newLeg (SidePrice (touchB (quote s)) (?d < 0)) (?d < 0)"
  have R: "?m = ExecSoloMaker \<or> hedgeRatio P = 1" using ratio_mode [of it] False by auto
  have solo: "wp (placeLeg P ?a (LegA (cfg P)) n) (\<lambda>x. wp (case x of (err, a') \<Rightarrow>
        if err \<noteq> None then rejectOpen P it err ts
        else if ?m = ExecDualPassive then openSecondLeg P it n a' ?b ?m ts
        else installClip (newClip P it n a' ?b ?m ts)) Q) s"
  proof (rule good_placeLeg [OF inv_good [OF i] n])
    fix err :: "go_error option" and a' s1
    assume s1: "good s 0 s1" and a': "isBid a' = isBid ?a"
      "if err = None then leg_ok (own s1) (LegA (cfg P)) a' else a' = ?a"
    have inv1: "inv s1" by (rule inv_step [OF i s1])
    have "wp (openSecondLeg P it n a' ?b ?m ts) Q s1" if "err = None" "?m = ExecDualPassive"
      by (rule inv_openSecondLeg [OF inv1 n act]) (use a' that R Q in auto)
    moreover have "wp (installClip (newClip P it n a' ?b ?m ts)) Q s1" if "err = None"
      by (rule inv_installClip [OF s1], rule newClip_ok)
        (use a' that act n R Q in \<open>auto simp: leg_ok_def\<close>)
    ultimately show "wp (case (err, a') of (err, a') \<Rightarrow>
        if err \<noteq> None then rejectOpen P it err ts
        else if ?m = ExecDualPassive then openSecondLeg P it n a' ?b ?m ts
        else installClip (newClip P it n a' ?b ?m ts)) Q s1"
      using inv_rejectOpen [OF inv1, of Q] Q by auto
  qed simp
  have perp: "wp (placeLeg P ?b (LegB (cfg P)) n) (\<lambda>x. wp (case x of (err, b') \<Rightarrow>
        if err \<noteq> None then rejectOpen P it err ts
        else installClip (newClip P it n ?a b' ?m ts)) Q) s" if md: "?m = ExecSoloMakerLegB"
  proof (rule good_placeLeg [OF inv_good [OF i] n])
    have r1: "hedgeRatio P = 1" using R md by simp
    then show "LegB (cfg P) = LegA (cfg P) \<or> LegB (cfg P) = LegB (cfg P) \<and> hedgeRatio P = 1" by simp
    fix err :: "go_error option" and b' s1
    assume s1: "good s 0 s1" and b': "isBid b' = isBid ?b"
      "if err = None then leg_ok (own s1) (LegB (cfg P)) b' else b' = ?b"
    have "wp (installClip (newClip P it n ?a b' ?m ts)) Q s1" if "err = None"
      by (rule inv_installClip [OF s1], rule newClip_ok)
        (use b' that act n r1 Q in \<open>auto simp: leg_ok_def\<close>)
    then show "wp (case (err, b') of (err, b') \<Rightarrow>
        if err \<noteq> None then rejectOpen P it err ts
        else installClip (newClip P it n ?a b' ?m ts)) Q s1"
      using inv_rejectOpen [OF inv_step [OF i s1], of Q] Q by auto
  qed
  have "hedgeRatio P = 1" if "?m = ExecSoloMakerLegB" using that R by simp
  then show ?thesis
    unfolding openClip_def wp_let wp_get wp_eta if_not_P [OF False]
    using solo perp by simp
qed

lemma inv_limit_rpc:
  assumes i: "inv s" and m: "keeps_world issued winv m" and Q: "\<And>a s'. inv s' \<Longrightarrow> Q a s'"
  shows "wp (rpc m) Q s"
  using good_rpc [OF inv_good [OF i] m] inv_step [OF i] Q by blast

lemma inv_openLadder:
  assumes "inv s" and "0 < n" and "Action it \<noteq> 0" and "\<And>s'. inv s' \<Longrightarrow> Q () s'"
  shows "wp (openLadder P it n ts) Q s"
  using assms
proof (induction "nat n" arbitrary: s n rule: less_induct)
  case less
  show ?case
    unfolding openLadder.simps [of P it n ts] wp_eta
  proof (rule inv_limit_rpc [OF less.prems(1) clock_keeps])
    fix pnow s1 assume s1: "inv s1"
    show "wp (rpc (LimAllow P pnow 2)) (\<lambda>x. wp (case x of (ok, retryAt) \<Rightarrow>
      if \<not> ok then
        (if retryAt > pnow then set_quote (SetBackoff (ts + time_sub retryAt pnow))
         else backoffFrom P ts)
      else do {
        (opened, retryable) \<leftarrow> openClip P it n ts;
        if opened \<or> \<not> retryable \<or> RejectRetryLotStep (cfg P) \<le> 0 then skip
        else if n - RejectRetryLotStep (cfg P) < rejectFloor P then skip
        else openLadder P it (n - RejectRetryLotStep (cfg P)) ts
      }) Q) s1"
    proof (rule inv_limit_rpc [OF s1 allow_keeps])
      fix x :: "bool \<times> time" and s2 assume s2: "inv s2"
      have rung: "wp (openLadder P it (n - RejectRetryLotStep (cfg P)) ts) Q s3"
        if "inv s3" "\<not> RejectRetryLotStep (cfg P) \<le> 0"
          "\<not> n - RejectRetryLotStep (cfg P) < rejectFloor P" for s3
      proof -
        have "1 \<le> n - RejectRetryLotStep (cfg P)" using that(3) rejectFloor_pos(2) [of P] by linarith
        then show ?thesis
          using that(2) less.prems by (intro less.hyps [OF _ that(1)]) auto
      qed
      have "wp (openClip P it n ts) (\<lambda>y. wp (case y of (opened, retryable) \<Rightarrow>
        if opened \<or> \<not> retryable \<or> RejectRetryLotStep (cfg P) \<le> 0 then skip
        else if n - RejectRetryLotStep (cfg P) < rejectFloor P then skip
        else openLadder P it (n - RejectRetryLotStep (cfg P)) ts) Q) s2"
        by (rule inv_openClip [OF s2 less.prems(2,3)])
          (use less.prems(4) rung in \<open>auto split: prod.split\<close>)
      then show "wp (case x of (ok, retryAt) \<Rightarrow>
        if \<not> ok then
          (if retryAt > pnow then set_quote (SetBackoff (ts + time_sub retryAt pnow))
           else backoffFrom P ts)
        else do {
          (opened, retryable) \<leftarrow> openClip P it n ts;
          if opened \<or> \<not> retryable \<or> RejectRetryLotStep (cfg P) \<le> 0 then skip
          else if n - RejectRetryLotStep (cfg P) < rejectFloor P then skip
          else openLadder P it (n - RejectRetryLotStep (cfg P)) ts
        }) Q s2"
        using s2 less.prems(4) by (cases x) simp
    qed
  qed
qed

lemma inv_tryOpenClip:
  "inv s \<Longrightarrow> Action it \<noteq> 0 \<Longrightarrow> (\<And>s'. inv s' \<Longrightarrow> Q () s') \<Longrightarrow> wp (tryOpenClip P it ts) Q s"
  by (auto simp: tryOpenClip_def Let_def intro!: inv_openLadder)

lemma inv_manageWorkingClip:
  "inv s \<Longrightarrow> (\<And>s'. inv s' \<Longrightarrow> Q () s') \<Longrightarrow> wp (manageWorkingClip P st) Q s"
  by (auto simp: manageWorkingClip_def Let_def split: option.split intro!: inv_resolveClip)

lemma inv_PullIfUnwanted:
  "inv s \<Longrightarrow> (\<And>s'. inv s' \<Longrightarrow> Q () s') \<Longrightarrow> wp (PullIfUnwanted P st) Q s"
  by (auto simp: PullIfUnwanted_def split: option.split intro!: inv_CancelClip)

subsection \<open>Taker confirmation and the obligation loop\<close>

lemma inv_checkPendingTakers:
  assumes i: "inv s" and Q: "\<And>s'. inv s' \<Longrightarrow> Q () s'"
  shows "wp (checkPendingTakers P t) Q s"
  unfolding checkPendingTakers_def wp_bind wp_get
  by (rule wp_mono [OF good_checkPendingLoop [OF inv_good [OF i]]])
    (use Q inv_step [OF i] in simp)

definition undeferred :: "string \<Rightarrow> 'w Engine \<Rightarrow> bool" where
  "undeferred oid s \<longleftrightarrow> (\<forall>b. own s oid = Some b \<longrightarrow> \<not> Deferred b)"

lemma undeferred_qframe: "undeferred oid s \<Longrightarrow> qframe s s' \<Longrightarrow> undeferred oid s'"
  unfolding undeferred_def qframe_def by blast

lemma resolveDeferred_clears:
  "wp (resolveDeferred P oid) (\<lambda>_ s'. undeferred oid s') s"
proof -
  let ?s = "s\<lparr>own := (own s)(oid := map_option (\<lambda>a. a\<lparr>Deferred := False\<rparr>) (own s oid))\<rparr>"
  have "undeferred oid ?s" by (cases "own s oid") (auto simp: undeferred_def)
  then have key: "undeferred oid s'" if "qframe ?s s'" for s' using that undeferred_qframe by blast
  have "wp (do {
     s \<leftarrow> get_state;
     case own s oid of
       None \<Rightarrow> skip
     | Some a \<Rightarrow>
         let gap = Final a - Folded a
         in if gap > 0 then do {
              upd_acct oid (\<lambda>b. b\<lparr>Folded := Final a\<rparr>);
              hedgeStrayMakerFill P (Sym a) (IsBuy a) gap
            }
            else skip
     }) (\<lambda>_. qframe ?s) ?s"
    by (auto simp del: wp_upd_acct simp: Let_def intro!: qf [where ?s0.0 = ?s] split: option.split)
  then show ?thesis
    unfolding resolveDeferred_def
    by (subst wp_bind, subst wp_upd_acct) (erule wp_mono, use key in blast)
qed

lemma tryDeferredRetire_clears:
  "wp (tryDeferredRetire P oid) (\<lambda>ok s'. ok \<longrightarrow> undeferred oid s') s"
proof -
  have "wp (do { resolveDeferred P oid; ret True }) (\<lambda>ok s'. ok \<longrightarrow> undeferred oid s') t" for t
    using resolveDeferred_clears by simp
  then have K: "wp (if r then do { resolveDeferred P oid; ret True } else ret False)
      (\<lambda>ok s'. ok \<longrightarrow> undeferred oid s') t" for r t
    by (cases r) simp_all
  show ?thesis
  proof (cases "own s oid")
    case None
    then show ?thesis by (simp add: tryDeferredRetire_def undeferred_def)
  next
    case (Some a)
    show ?thesis
      unfolding tryDeferredRetire_def wp_eta wp_get Some option.case
      by (rule wp_always) (rule K)
  qed
qed

lemma good_retirePass:
  assumes "good s0 d s" and "\<forall>x\<in>set q. \<exists>a. own s x = Some a \<and> Maker a"
  shows "wp (retirePass P q) (\<lambda>x s'. good s0 d s' \<and> qframe s s' \<and> set (fst x) \<subseteq> set q \<and>
     (\<forall>y\<in>set q - set (fst x). undeferred y s')) s"
  using assms
proof (induction q arbitrary: s)
  case Nil
  then show ?case by simp
next
  case (Cons oid q)
  have m: "own s oid = None \<or> (\<exists>a. own s oid = Some a \<and> Maker a)" using Cons.prems(2) by simp
  have "wp (tryDeferredRetire P oid) (\<lambda>ok s'. good s d s' \<and> good s0 d s' \<and> qframe s s' \<and>
      (ok \<longrightarrow> undeferred oid s')) s"
    unfolding wp_conj
    using good_tryDeferredRetire [OF Cons.prems(1) m, of "\<lambda>_. good s0 d"]
      good_tryDeferredRetire [OF good_rebase [OF Cons.prems(1)] m, of "\<lambda>_. good s d"]
      qf_tryDeferredRetire [OF qframe_refl, of s "\<lambda>_. qframe s" P oid] tryDeferredRetire_clears
    by blast
  then show ?case
    unfolding retirePass.simps wp_eta
  proof (rule wp_mono)
    fix ok s1
    assume s1: "good s d s1 \<and> good s0 d s1 \<and> qframe s s1 \<and>
      (ok \<longrightarrow> undeferred oid s1)"
    have "\<forall>x\<in>set q. \<exists>a. own s1 x = Some a \<and> Maker a"
      using Cons.prems(2) s1 by (fastforce simp: good_def same_order_def)
    from Cons.IH [OF _ this] s1
    have IH: "wp (retirePass P q) (\<lambda>x s'. good s0 d s' \<and> qframe s1 s' \<and> set (fst x) \<subseteq> set q \<and>
         (\<forall>y\<in>set q - set (fst x). undeferred y s')) s1" by simp
    show "wp (retirePass P q) (\<lambda>a. wp (case a of (rest, progressed) \<Rightarrow>
        ret (if ok then (rest, True) else (oid # rest, progressed)))
      (\<lambda>x s'. good s0 d s' \<and> qframe s s' \<and> set (fst x) \<subseteq> set (oid # q) \<and>
         (\<forall>y\<in>set (oid # q) - set (fst x). undeferred y s'))) s1"
    proof (rule wp_mono [OF IH])
      fix x :: "string list \<times> bool" and s2
      assume s2: "good s0 d s2 \<and> qframe s1 s2 \<and> set (fst x) \<subseteq> set q \<and>
         (\<forall>y\<in>set q - set (fst x). undeferred y s2)"
      have "undeferred oid s2" if "ok" using s1 s2 that undeferred_qframe by blast
      then show "wp (case x of (rest, progressed) \<Rightarrow>
          ret (if ok then (rest, True) else (oid # rest, progressed)))
        (\<lambda>x s'. good s0 d s' \<and> qframe s s' \<and> set (fst x) \<subseteq> set (oid # q) \<and>
           (\<forall>y\<in>set (oid # q) - set (fst x). undeferred y s')) s2"
        using s1 s2 qframe_trans [of s s1 s2] by (cases x; cases ok) auto
    qed
  qed
qed

lemma debts_tryPlaceTaker:
  "wp (tryPlaceTaker P sy bu n) (\<lambda>_ s'. debts (recovery s') = debts (recovery s)) s"
  by (auto simp: tryPlaceTaker_def placeTakerRPC_def commitTakerPlacement_def spendOne_def
      sinkFill_def wp_rpc Let_def split: sum.split prod.split)

abbreviation debt_sum :: "HedgeDebt list \<Rightarrow> int" where
  "debt_sum ds \<equiv> \<Sum>d\<leftarrow>ds. debt_contrib P d"

lemma good_debtPass:
  assumes "good s0 d s"
    and "\<forall>x\<in>set ds. 0 < dLots x \<and> (dSym x = LegA (cfg P) \<or> dSym x = LegB (cfg P))"
  shows "wp (debtPass P ds) (\<lambda>x s'. good s0 (d + debt_sum ds - debt_sum (fst x)) s' \<and>
     debts (recovery s') = debts (recovery s) \<and> set (fst x) \<subseteq> set ds) s"
  using assms
proof (induction ds arbitrary: s d)
  case Nil
  then show ?case by simp
next
  case (Cons e ds)
  have e: "0 < dLots e" "dSym e = LegA (cfg P) \<or> dSym e = LegB (cfg P)" using Cons.prems(2) by auto
  let ?g = "\<lambda>ok s'. good s0 (d + (if ok then debt_contrib P e else 0)) s'"
  have "wp (tryPlaceTaker P (dSym e) (dBuy e) (dLots e)) (\<lambda>ok s'. ?g ok s' \<and>
      debts (recovery s') = debts (recovery s)) s"
    unfolding wp_conj
  proof
    show "wp (tryPlaceTaker P (dSym e) (dBuy e) (dLots e)) ?g s"
      by (rule good_tryPlaceTaker [OF Cons.prems(1) e]) (simp add: debt_contrib_def split: if_splits)
  qed (rule debts_tryPlaceTaker)
  then show ?case
    unfolding debtPass.simps wp_eta
  proof (rule wp_mono)
    fix ok s1
    assume s1: "?g ok s1 \<and> debts (recovery s1) = debts (recovery s)"
    have IH: "wp (debtPass P ds) (\<lambda>x s'.
        good s0 (d + (if ok then debt_contrib P e else 0) + debt_sum ds - debt_sum (fst x)) s' \<and>
        debts (recovery s') = debts (recovery s1) \<and> set (fst x) \<subseteq> set ds) s1"
      using s1 Cons.prems(2) by (intro Cons.IH) auto
    show "wp (debtPass P ds) (\<lambda>a. wp (case a of (rest, progressed) \<Rightarrow>
        ret (if ok then (rest, True) else (e # rest, progressed)))
      (\<lambda>x s'. good s0 (d + debt_sum (e # ds) - debt_sum (fst x)) s' \<and>
         debts (recovery s') = debts (recovery s) \<and> set (fst x) \<subseteq> set (e # ds))) s1"
    proof (rule wp_mono [OF IH])
      fix x :: "HedgeDebt list \<times> bool" and s2
      assume "good s0 (d + (if ok then debt_contrib P e else 0) + debt_sum ds - debt_sum (fst x)) s2 \<and>
        debts (recovery s2) = debts (recovery s1) \<and> set (fst x) \<subseteq> set ds"
      then show "wp (case x of (rest, progressed) \<Rightarrow>
          ret (if ok then (rest, True) else (e # rest, progressed)))
        (\<lambda>x s'. good s0 (d + debt_sum (e # ds) - debt_sum (fst x)) s' \<and>
           debts (recovery s') = debts (recovery s) \<and> set (fst x) \<subseteq> set (e # ds)) s2"
        using s1 by (cases x; cases ok) (auto simp: algebra_simps)
    qed
  qed
qed

lemma good_set_retireQ:
  assumes g: "good s0 d s" and q: "set q \<subseteq> set (retireQ (recovery s))"
    and def: "\<And>x b. own s x = Some b \<Longrightarrow> Deferred b \<Longrightarrow> x \<in> set q"
  shows "good s0 d (s\<lparr>recovery := (recovery s)\<lparr>retireQ := q\<rparr>\<rparr>)"
proof -
  have "q \<noteq> [] \<Longrightarrow> retireQ (recovery s) \<noteq> []" using q by auto
  then have "queues_ok P (own s) ((recovery s)\<lparr>retireQ := q\<rparr>)"
    using g q def by (auto simp: queues_ok_def good_def base_def)
  then show ?thesis using g by (simp add: good_def base_def bal_def)
qed

lemma good_set_debts:
  assumes g: "good s0 d s" and ds: "set ds \<subseteq> set (debts (recovery s))"
  shows "good s0 (d + debt_sum ds - debt_sum (debts (recovery s)))
     (s\<lparr>recovery := (recovery s)\<lparr>debts := ds\<rparr>\<rparr>)"
proof -
  have "ds \<noteq> [] \<Longrightarrow> debts (recovery s) \<noteq> []" using ds by auto
  then have "queues_ok P (own s) ((recovery s)\<lparr>debts := ds\<rparr>)"
    using g ds by (auto simp: queues_ok_def good_def base_def)
  then show ?thesis using g by (auto simp: good_def base_def bal_def)
qed

lemma good_clear:
  assumes "good s0 d s" and "retireQ (recovery s) = []" and "debts (recovery s) = []"
  shows "good s0 d (s\<lparr>recovery := ClearImpaired (recovery s)\<rparr>)"
  using assms by (auto simp: good_def base_def bal_def queues_ok_def)

lemma inv_serviceObligations:
  assumes i: "inv s" and Q: "\<And>s'. inv s' \<Longrightarrow> Q () s'"
  shows "wp (serviceObligations P) Q s"
proof -
  have queues: "queues_ok P (own s') (recovery s')" if "good s d s'" for d s'
    using that by (simp add: good_def base_def)
  define fin where "fin p1 p2 = (do {
       s \<leftarrow> get_state;
       if retireQ (recovery s) = [] \<and> debts (recovery s) = [] \<and> clip s = None
       then with_recovery ClearImpaired
       else with_recovery (AdvancePace (now s) (p1 \<or> p2) (placeBackoff P) impairedRetryMax)
     } :: ('w, unit) eng)" for p1 p2
  have fin: "wp (fin p1 p2) Q s'" if g: "good s 0 s'" for p1 p2 s'
  proof -
    have "good s 0 (s'\<lparr>recovery := AdvancePace t p b m (recovery s')\<rparr>)" for t p b m
      by (rule good_recovery [OF g]) simp_all
    then show ?thesis using Q inv_step [OF i] good_clear [OF g] by (auto simp: fin_def)
  qed
  define debt where "debt p1 = (do {
       d \<leftarrow> gets (\<lambda>s. debts (recovery s));
       (d', p2) \<leftarrow> debtPass P d;
       with_recovery (\<lambda>m. if d = [] then m else m\<lparr>debts := d'\<rparr>);
       fin p1 p2
     })" for p1
  have debt: "wp (debt p1) Q s'" if g: "good s 0 s'" for p1 s'
  proof -
    let ?ds = "debts (recovery s')"
    have "wp (debtPass P ?ds) (\<lambda>x s''. good s (0 + debt_sum ?ds - debt_sum (fst x)) s'' \<and>
        debts (recovery s'') = ?ds \<and> set (fst x) \<subseteq> set ?ds) s'"
      using queues [OF g] by (intro good_debtPass [OF g]) (simp add: queues_ok_def)
    then have "wp (debtPass P ?ds) (\<lambda>x. wp (case x of (d', p2) \<Rightarrow> do {
         with_recovery (\<lambda>m. if ?ds = [] then m else m\<lparr>debts := d'\<rparr>);
         fin p1 p2
       }) Q) s'"
    proof (rule wp_mono)
      fix x :: "HedgeDebt list \<times> bool" and s2
      assume s2: "good s (0 + debt_sum ?ds - debt_sum (fst x)) s2 \<and>
        debts (recovery s2) = ?ds \<and> set (fst x) \<subseteq> set ?ds"
      have "good s 0 (if ?ds = [] then s2 else s2\<lparr>recovery := (recovery s2)\<lparr>debts := fst x\<rparr>\<rparr>)"
        using s2 good_set_debts [of s _ s2 "fst x"] by (cases "?ds = []") fastforce+
      then show "wp (case x of (d', p2) \<Rightarrow> do {
         with_recovery (\<lambda>m. if ?ds = [] then m else m\<lparr>debts := d'\<rparr>);
         fin p1 p2
       }) Q s2"
        using fin by (cases x) (simp split: if_splits)
    qed
    then show ?thesis by (simp add: debt_def)
  qed
  let ?q = "retireQ (recovery s)"
  have "wp (retirePass P ?q) (\<lambda>x s'. good s 0 s' \<and> qframe s s' \<and> set (fst x) \<subseteq> set ?q \<and>
     (\<forall>y\<in>set ?q - set (fst x). undeferred y s')) s"
    using queues [OF inv_good [OF i]] by (intro good_retirePass [OF inv_good [OF i]]) (simp add: queues_ok_def)
  then have "wp (retirePass P ?q) (\<lambda>x. wp (case x of (q', p1) \<Rightarrow> do {
       with_recovery (\<lambda>m. if ?q = [] then m else m\<lparr>retireQ := q'\<rparr>);
       debt p1
     }) Q) s"
  proof (rule wp_mono)
    fix x :: "string list \<times> bool" and s2
    assume s2: "good s 0 s2 \<and> qframe s s2 \<and> set (fst x) \<subseteq> set ?q \<and>
       (\<forall>y\<in>set ?q - set (fst x). undeferred y s2)"
    have rq: "retireQ (recovery s2) = ?q" using s2 by (simp add: qframe_def)
    have "y \<in> set (fst x)" if "own s2 y = Some b" "Deferred b" for y b
    proof -
      have "y \<in> set ?q" using queues [of 0 s2] s2 that rq by (auto simp: queues_ok_def)
      then show ?thesis using s2 that by (auto simp: undeferred_def)
    qed
    then have "good s 0 (if ?q = [] then s2 else s2\<lparr>recovery := (recovery s2)\<lparr>retireQ := fst x\<rparr>\<rparr>)"
      using s2 rq good_set_retireQ [of s 0 s2 "fst x"] by simp
    then show "wp (case x of (q', p1) \<Rightarrow> do {
       with_recovery (\<lambda>m. if ?q = [] then m else m\<lparr>retireQ := q'\<rparr>);
       debt p1
     }) Q s2"
      using debt by (cases x) (simp split: if_splits)
  qed
  then show ?thesis by (simp add: serviceObligations_def debt_def fin_def)
qed

lemma inv_serviceImpaired:
  assumes i: "inv s" and Q: "\<And>s'. inv s' \<Longrightarrow> Q () s'"
  shows "wp (serviceImpaired P) Q s"
proof -
  have tail: "wp (do {
       s2 \<leftarrow> get_state;
       if now s2 < nextRetryAt (recovery s2) then skip else serviceObligations P
     }) Q s'" if "inv s'" for s'
    using that Q inv_serviceObligations [OF that, of Q] by simp
  show ?thesis
    using i Q tail inv_resolveClip [OF i, of "\<lambda>_. wp (do {
       s2 \<leftarrow> get_state;
       if now s2 < nextRetryAt (recovery s2) then skip else serviceObligations P
     }) Q"] by (simp add: serviceImpaired_def)
qed

subsection \<open>Halt and reconcile\<close>

lemma inv_mHalt:
  assumes i: "inv s"
  shows "inv (s\<lparr>recovery := snd (mHalt (recovery s))\<rparr>)"
  using i by (auto simp: inv_def base_def bal_def queues_ok_def mHalt_def)

lemma inv_Halt:
  assumes i: "inv s" and Q: "\<And>s'. inv s' \<Longrightarrow> Q () s'"
  shows "wp (Halt P) Q s"
  using i Q inv_CancelClip [OF inv_mHalt [OF i], of Q]
  by (cases "mHalt (recovery s)") (simp add: Halt_def)

lemma inv_recovery:
  assumes "inv s" and "retireQ m = retireQ (recovery s)" "debts m = debts (recovery s)"
    "halted m = halted (recovery s)" "impaired m = impaired (recovery s)"
  shows "inv (s\<lparr>recovery := m\<rparr>)"
  by (rule inv_step [OF assms(1)], rule good_recovery [OF inv_good [OF assms(1)]]) (use assms in simp_all)

lemma inv_Reconcile:
  assumes i: "inv s" and Q: "\<And>s'. inv s' \<Longrightarrow> Q () s'"
  shows "wp (Reconcile P a b) Q s"
proof -
  have "Q () (s\<lparr>recovery := ClearUnverified (ResumeFromSuspect (recovery s))\<rparr>)"
    "Q () (s\<lparr>recovery := snd (MarkSuspect (recovery s))\<rparr>)"
    "Q () (s\<lparr>recovery := LogPersistentMismatch (recovery s)\<rparr>)"
    by (rule Q, rule inv_recovery [OF i];
      simp add: ClearUnverified_def ResumeFromSuspect_def MarkSuspect_def LogPersistentMismatch_def Let_def)+
  then show ?thesis
    using i Q by (cases "MarkSuspect (recovery s)") (auto simp: Reconcile_def Let_def)
qed

subsection \<open>The signal bar and the book\<close>

lemma inv_advanceNow:
  "inv s \<Longrightarrow> (\<And>s'. inv s' \<Longrightarrow> Q () s') \<Longrightarrow> wp (advanceNow ts) Q s"
  by simp

lemma inv_OnState:
  assumes i: "inv s" and Q: "\<And>s'. inv s' \<Longrightarrow> Q () s'"
  shows "wp (OnState P st) Q s"
  unfolding OnState_def wp_eta
proof (rule inv_advanceNow [OF i])
  fix s1 assume s1: "inv s1"
  have rest: "wp (do {
       s \<leftarrow> get_state;
       if Impaired s then skip
       else if clip s \<noteq> None then manageWorkingClip P st
       else if Suspect (recovery s) then skip
       else if awaitingTaker P (now s) s then skip
       else if \<not> CanQuote (rsTime st) (MaxStaleness (cfg P)) (quote s) then skip
       else if rsTime st < backoffUntil (quote s) then skip
       else
         let i = Peek P st (world s)
         in if Action i = actionHold then skip else tryOpenClip P i (rsTime st)
     }) Q s2" if s2: "inv s2" for s2
    using s2 Q inv_manageWorkingClip [OF s2, of Q] inv_tryOpenClip [OF s2]
    by (cases "clip s2") (auto simp: Let_def actionHold_def)
  show "wp (gets (\<lambda>s. Halted s)) (\<lambda>h. wp (if h then skip else do {
       serviceImpaired P;
       t \<leftarrow> gets now;
       checkPendingTakers P t;
       s \<leftarrow> get_state;
       if Impaired s then skip
       else if clip s \<noteq> None then manageWorkingClip P st
       else if Suspect (recovery s) then skip
       else if awaitingTaker P (now s) s then skip
       else if \<not> CanQuote (rsTime st) (MaxStaleness (cfg P)) (quote s) then skip
       else if rsTime st < backoffUntil (quote s) then skip
       else
         let i = Peek P st (world s)
         in if Action i = actionHold then skip else tryOpenClip P i (rsTime st)
     }) Q) s1"
    using s1 Q rest
    by (auto simp del: wp_get wp_eta_state intro!: inv_serviceImpaired inv_checkPendingTakers)
qed

subsection \<open>Re-pegging\<close>

definition leg_name :: "bool \<Rightarrow> string" where
  "leg_name onA = (if onA then LegA (cfg P) else LegB (cfg P))"

lemma leg_name_simps [simp]: "leg_name True = LegA (cfg P)" "leg_name False = LegB (cfg P)"
  by (simp_all add: leg_name_def)

lemma clip_ok_put_leg:
  assumes "clip_ok P m c" and "makerID c = ''''" and "onA \<or> hedgeRatio P = 1"
    and "leg_ok m (leg_name onA) (f (legOf onA c))" and "isBid (f (legOf onA c)) = isBid (legOf onA c)"
  shows "clip_ok P m (put_leg onA f c)"
  using assms by (cases onA) (auto simp: clip_ok_def put_leg_def legOf_def)

lemma clip_ok_legOf: "clip_ok P m c \<Longrightarrow> leg_ok m (leg_name onA) (legOf onA c)"
  by (cases onA) (simp_all add: clip_ok_def legOf_def)

lemma inv_repegReplace:
  assumes i: "inv s" and c: "clip s = Some c" "makerID c = ''''" and R: "onA \<or> hedgeRatio P = 1"
    and Q: "\<And>s'. inv s' \<Longrightarrow> Q () s'"
  shows "wp (repegReplace P onA (leg_name onA) price ts) Q s"
proof -
  let ?c1 = "put_leg onA (\<lambda>lo. lo\<lparr>lo_price := price\<rparr>) c"
  let ?s1 = "s\<lparr>clip := Some ?c1\<rparr>"
  have lk: "leg_ok (own s) (leg_name onA) ((legOf onA c)\<lparr>lo_price := price\<rparr>)"
    using clip_ok_legOf [OF inv_clip_ok [OF i c(1)], of onA] by (simp add: leg_ok_def)
  have ck: "clip_ok P (own s) ?c1"
    by (rule clip_ok_put_leg [OF inv_clip_ok [OF i c(1)] c(2) R]) (use lk in simp_all)
  have i1: "inv ?s1" by (rule inv_set_Some [OF inv_good [OF i] ck])
  have m1: "makerID ?c1 = ''''" using c(2) by (simp add: put_leg_def)
  have n: "0 < target ?c1" using ck by (simp add: clip_ok_def)
  have sy: "leg_name onA = LegA (cfg P) \<or> leg_name onA = LegB (cfg P) \<and> hedgeRatio P = 1"
    using R by (cases onA) simp_all
  have "wp (placeLeg P (legOf onA ?c1) (leg_name onA) (target ?c1)) (\<lambda>x. wp (case x of (err, lo') \<Rightarrow>
      if err \<noteq> None then do { CancelClip P; backoffFrom P ts }
      else upd_clip (put_leg onA (\<lambda>_. lo'\<lparr>lastRepeg := ts\<rparr>))) Q) ?s1"
  proof (rule good_placeLeg [OF inv_good [OF i1] n sy])
    fix err lo' s'
    assume g: "good ?s1 0 s'" and b: "isBid lo' = isBid (legOf onA ?c1)"
      and lo: "if err = None then leg_ok (own s') (leg_name onA) lo' else lo' = legOf onA ?c1"
    have i': "inv s'" by (rule inv_step [OF i1 g])
    have cs: "clip s' = Some ?c1" using good_clip [OF g] by simp
    have "Q () (s'\<lparr>clip := Some (put_leg onA (\<lambda>_. lo'\<lparr>lastRepeg := ts\<rparr>) ?c1)\<rparr>)" if "err = None"
    proof (rule Q, rule inv_set_Some [OF inv_good [OF i']])
      show "clip_ok P (own s') (put_leg onA (\<lambda>_. lo'\<lparr>lastRepeg := ts\<rparr>) ?c1)"
        by (rule clip_ok_put_leg [OF inv_clip_ok [OF i' cs] m1 R])
          (use lo b that in \<open>simp_all add: leg_ok_def\<close>)
    qed
    then show "wp (case (err, lo') of (err, lo') \<Rightarrow>
        if err \<noteq> None then do { CancelClip P; backoffFrom P ts }
        else upd_clip (put_leg onA (\<lambda>_. lo'\<lparr>lastRepeg := ts\<rparr>))) Q s'"
      using cs Q by (auto intro!: inv_CancelClip [OF i'])
  qed
  then show ?thesis using c(1) by (simp add: repegReplace_def)
qed

lemma inv_repegLeg:
  assumes i: "inv s" and c: "clip s = Some c" "makerID c = ''''" and R: "onA \<or> hedgeRatio P = 1"
    and Q: "\<And>s'. inv s' \<Longrightarrow> Q () s'"
  shows "wp (repegLeg P onA (leg_name onA) t ts) Q s"
proof -
  let ?lo = "legOf onA c" and ?sy = "leg_name onA"
  let ?price = "if isBid ?lo then Bid t else Ask t"
  note ck = inv_clip_ok [OF i c(1)]
  define tail where "tail gap = (if gap > 0 then do {
       upd_clip (\<lambda>c. c\<lparr>makerID := lo_id ?lo, makerFilled := gap\<rparr>);
       (if onA then settleClip P gap 0 True else settleClip P 0 gap True);
       h \<leftarrow> gets (\<lambda>s. Halted s);
       if h then skip else commitClip P ts
     }
     else do {
       s2 \<leftarrow> get_state;
       if Halted s2 \<or> Impaired s2 \<or> clip s2 = None then skip
       else repegReplace P onA ?sy ?price ts
     })" for gap
  have pull: "wp (retireOrder P (lo_id ?lo)) (\<lambda>gap. wp (tail gap) Q) s1" if g: "good s 0 s1" for s1
  proof (rule good_retireOrder [OF g leg_maker_id [OF clip_ok_legOf [OF ck]]])
    fix gap s2
    assume s2: "good s (0 + weight P ?sy * (sgn_of (isBid ?lo) * gap)) s2" "0 \<le> gap"
      "lo_id ?lo = '''' \<longrightarrow> gap = 0"
    have cs: "clip s2 = Some c" using good_clip [OF s2(1)] c(1) by simp
    show "wp (tail gap) Q s2"
    proof (cases "gap > 0")
      case True
      let ?c1 = "c\<lparr>makerID := lo_id ?lo, makerFilled := gap\<rparr>"
      let ?s3 = "s2\<lparr>clip := Some ?c1\<rparr>"
      let ?rA = "if onA then gap else 0" and ?rB = "if onA then 0 else gap"
      have c1: "clip_ok P (own ?s3) ?c1"
        using good_clip_ok [OF s2(1) ck] s2(3) True by (auto simp: clip_ok_def legOf_def)
      have "wp (settleClip P ?rA ?rB True) (\<lambda>_. wp (do {
           h \<leftarrow> gets (\<lambda>s. Halted s);
           if h then skip else commitClip P ts
         }) Q) ?s3"
      proof (rule inv_settle_commit [where c = ?c1, OF good_set_clip [OF s2(1), of "Some ?c1"]])
        show "clip_ok P (own ?s3) ?c1" by (rule c1)
        show "0 + weight P ?sy * (sgn_of (isBid ?lo) * gap) =
            hedgeRatio P * (sgn_of (isBid (legA ?c1)) * (?rA - ?rB))"
          using clip_sides [OF ck] R by (cases onA) (auto simp: legOf_def)
      qed (use Q in simp_all)
      then show ?thesis using True cs by (cases onA) (simp_all add: tail_def)
    next
      case False
      then have "good s 0 s2" using s2 by simp
      then have "inv s2" by (rule inv_step [OF i])
      then show ?thesis using False cs Q inv_repegReplace [OF _ cs c(2) R] by (simp add: tail_def)
    qed
  qed
  have lim: "wp (rpc (ClockNow P)) (\<lambda>pnow. wp (rpc (LimAllow P pnow 1)) (\<lambda>x. wp (case x of (ok, retryAt) \<Rightarrow>
      if \<not> ok then skip else retireOrder P (lo_id ?lo) \<bind> tail) Q)) s"
    by (rule good_rpc [OF inv_good [OF i] clock_keeps], rule good_rpc [OF _ allow_keeps], assumption)
      (use Q pull inv_step [OF i] in \<open>auto split: prod.split\<close>)
  show ?thesis
    using lim i Q c(1) unfolding repegLeg_def tail_def by (auto simp: Let_def)
qed

lemma inv_maybeRepeg:
  assumes i: "inv s" and Q: "\<And>s'. inv s' \<Longrightarrow> Q () s'"
  shows "wp (maybeRepeg P sy ts) Q s"
proof (cases "clip s")
  case (Some c)
  have "hedgeRatio P = 1" if "mode c \<noteq> ExecSoloMaker"
    using inv_clip_ok [OF i Some] that by (simp add: clip_ok_def)
  then show ?thesis
    using i Q Some inv_repegLeg [OF i Some, of True Q] inv_repegLeg [OF i Some, of False Q]
    by (simp add: maybeRepeg_def)
qed (use i Q in \<open>simp add: maybeRepeg_def\<close>)

lemma inv_OnBook:
  assumes i: "inv s" and Q: "\<And>s'. inv s' \<Longrightarrow> Q () s'"
  shows "wp (OnBook P sy ts b a) Q s"
  unfolding OnBook_def wp_eta
proof (rule inv_advanceNow [OF i])
  fix s1 assume s1: "inv s1"
  obtain u q' where u: "Update sy ts b a (quote s1) = (u, q')" by (cases "Update sy ts b a (quote s1)")
  have "wp (serviceImpaired P) (\<lambda>_. wp (maybeRepeg P sy ts) Q) (s1\<lparr>quote := q'\<rparr>)"
    using s1 Q by (intro inv_serviceImpaired inv_maybeRepeg) auto
  then show "wp (gets quote) (\<lambda>q. wp (let (updated, q') = Update sy ts b a q
      in if \<not> updated then skip
         else do { set_quote (\<lambda>_. q'); serviceImpaired P; maybeRepeg P sy ts }) Q) s1"
    using u s1 Q by simp
qed

lemma inv_checkStaleBooks:
  assumes i: "inv s" and Q: "\<And>s'. inv s' \<Longrightarrow> Q () s'"
  shows "wp (checkStaleBooks P t) Q s"
  using i Q inv_resolveClip [OF i, of Q]
  by (cases "Stale t (MaxStaleness (cfg P)) (quote s)") (simp add: checkStaleBooks_def)

lemma inv_OnTick:
  assumes i: "inv s" and Q: "\<And>s'. inv s' \<Longrightarrow> Q () s'"
  shows "wp (OnTick P t) Q s"
  unfolding OnTick_def wp_eta
  by (intro inv_advanceNow [OF i] inv_serviceImpaired)
    (auto simp del: wp_advanceNow intro!: inv_checkPendingTakers inv_checkStaleBooks inv_checkTimeout Q)

subsection \<open>Fills\<close>

text \<open>
  What a live fill of \<open>n\<close> lots on one of the clip's legs leaves the book short or long of: the
  pairing step answers it with the counterpart.
\<close>

definition unpaired :: "clip \<Rightarrow> string \<Rightarrow> int \<Rightarrow> int" where
  "unpaired c oid n =
     hedgeRatio P * (sgn_of (isBid (legA c)) * (if oid = lo_id (legA c) then n else - n))"

definition on_leg :: "clip \<Rightarrow> string \<Rightarrow> bool" where
  "on_leg c oid \<longleftrightarrow> oid \<noteq> '''' \<and> (oid = lo_id (legA c) \<or> oid = lo_id (legB c))"

lemma on_leg_ratio: "clip_ok P m c \<Longrightarrow> on_leg c oid \<Longrightarrow> oid = lo_id (legA c) \<or> hedgeRatio P = 1"
  by (auto simp: clip_ok_def on_leg_def)

lemma inv_commit_if_full:
  assumes "inv s" and "\<And>s'. inv s' \<Longrightarrow> Q () s'"
  shows "wp (do {
       h \<leftarrow> gets (\<lambda>s. Halted s);
       if h then skip else whenM full (commitClip P ts)
     }) Q s"
  using assms inv_commitClip [OF assms(1), of Q ts] by simp

lemma inv_pairFirstFill:
  assumes g: "good s (unpaired c oid (makerFilled c)) s" and cs: "clip s = Some c"
    and ck: "clip_ok P (own s) c" and on: "on_leg c oid"
    and Q: "\<And>s'. inv s' \<Longrightarrow> Q () s'"
  shows "wp (pairFirstFill P ts oid c) Q s"
proof -
  define cpIsB where "cpIsB = (oid = lo_id (legA c))"
  define cp where "cp = (if cpIsB then legB c else legA c)"
  define cpSym where "cpSym = (if cpIsB then LegB (cfg P) else LegA (cfg P))"
  let ?mf = "makerFilled c"
  define realA where "realA e = (if cpIsB then ?mf else e)" for e
  define realB where "realB e = (if cpIsB then e else ?mf)" for e
  have R: "cpIsB \<or> hedgeRatio P = 1" using on_leg_ratio [OF ck on] by (simp add: cpIsB_def)
  have mid: "maker_id s (lo_id cp) cpSym (isBid cp)"
  proof -
    have "leg_ok (own s) cpSym cp" using ck by (simp add: cp_def cpSym_def clip_ok_def)
    then show ?thesis by (rule leg_maker_id)
  qed
  have cpB: "lo_id cp = '''' \<or> hedgeRatio P = 1 \<or> \<not> cpIsB"
    using ck by (auto simp: cp_def clip_ok_def)
  let ?full = "\<lambda>e. settleClip P (realA e) (realB e) True \<bind> (\<lambda>_. do {
       h \<leftarrow> gets (\<lambda>s. Halted s);
       if h then skip else commitClip P ts
     })"
  have "wp (retireOrder P (lo_id cp)) (\<lambda>e. wp (if e > ?mf then
       (if \<not> IsClose (intent c) \<and> KeepPartialOpenOnTimeout (cfg P)
        then do { settleClip P (realA e) (realB e) False; set_clip None }
        else ?full e)
     else do {
       whenM (e < ?mf) (takerRetry P cpSym (isBid cp) (hedgeLots P cpSym (?mf - e)));
       h \<leftarrow> gets (\<lambda>s. Halted s);
       if h then skip else whenM (?mf \<ge> target c) (commitClip P ts)
     }) Q) s"
  proof (rule good_retireOrder [OF g mid])
    fix e s1
    assume "good s (unpaired c oid ?mf + weight P cpSym * (sgn_of (isBid cp) * e)) s1" "0 \<le> e"
      and z: "lo_id cp = '''' \<longrightarrow> e = 0"
    moreover have "unpaired c oid ?mf + weight P cpSym * (sgn_of (isBid cp) * e) =
        hedgeRatio P * (sgn_of (isBid (legA c)) * (realA e - realB e))"
    proof (cases cpIsB)
      case True
      then have "oid = lo_id (legA c)" "e = 0 \<or> hedgeRatio P = 1" using cpB z by (auto simp: cpIsB_def)
      then show ?thesis
        using True clip_sides [OF ck]
        by (elim disjE)
          (simp_all add: unpaired_def cpSym_def cp_def realA_def realB_def right_diff_distrib)
    next
      case False
      then have "hedgeRatio P = 1" "oid \<noteq> lo_id (legA c)" using R by (auto simp: cpIsB_def)
      then show ?thesis
        using False clip_sides [OF ck]
        by (simp add: unpaired_def cpSym_def cp_def realA_def realB_def right_diff_distrib)
    qed
    ultimately have s1: "good s (hedgeRatio P * (sgn_of (isBid (legA c)) * (realA e - realB e))) s1" by simp
    have i1: "inv s2" if "good s 0 s2" for s2
      by (rule good_inv [OF that]) (use cs ck in simp)
    consider "e > ?mf" | "e = ?mf" | "e < ?mf" by linarith
    then show "wp (if e > ?mf then
       (if \<not> IsClose (intent c) \<and> KeepPartialOpenOnTimeout (cfg P)
        then do { settleClip P (realA e) (realB e) False; set_clip None }
        else ?full e)
     else do {
       whenM (e < ?mf) (takerRetry P cpSym (isBid cp) (hedgeLots P cpSym (?mf - e)));
       h \<leftarrow> gets (\<lambda>s. Halted s);
       if h then skip else whenM (?mf \<ge> target c) (commitClip P ts)
     }) Q s1"
    proof cases
      case 1
      have "wp (settleClip P (realA e) (realB e) False) (\<lambda>_ s. Q () (s\<lparr>clip := None\<rparr>)) s1"
        by (rule good_settleClip [OF s1 cs ck])
          (rule Q, rule inv_set_None [of s], simp add: algebra_simps)
      then have "wp (settleClip P (realA e) (realB e) False) (\<lambda>_. wp (set_clip None) Q) s1"
        by (rule wp_mono) simp
      moreover have "wp (?full e) Q s1"
        unfolding wp_bind by (rule inv_settle_commit [OF s1 cs ck refl, unfolded wp_eta], rule Q)
      ultimately show ?thesis using 1 by (simp del: wp_set_clip)
    next
      case 2
      then have "good s 0 s1" using s1 by (simp add: realA_def realB_def split: if_splits)
      then show ?thesis using 2 i1 Q inv_commitClip [OF i1, of s1 Q ts] by simp
    next
      case 3
      have "wp (takerRetry P cpSym (isBid cp) (hedgeLots P cpSym (?mf - e)))
          (\<lambda>_. wp (do {
             h \<leftarrow> gets (\<lambda>s. Halted s);
             if h then skip else whenM (?mf \<ge> target c) (commitClip P ts)
           }) Q) s1"
      proof (rule good_takerRetry [OF s1])
        show "0 < hedgeLots P cpSym (?mf - e)"
          using 3 by (simp add: cpSym_def zero_less_mult_iff)
        show "cpSym = LegA (cfg P) \<or> cpSym = LegB (cfg P)" by (simp add: cpSym_def)
        fix s2
        assume "good s (hedgeRatio P * (sgn_of (isBid (legA c)) * (realA e - realB e)) +
          weight P cpSym * (sgn_of (isBid cp) * hedgeLots P cpSym (?mf - e))) s2"
        moreover have "hedgeRatio P * (sgn_of (isBid (legA c)) * (realA e - realB e)) +
          weight P cpSym * (sgn_of (isBid cp) * hedgeLots P cpSym (?mf - e)) = 0"
          using R clip_sides [OF ck]
          by (cases cpIsB) (simp_all add: cpSym_def cp_def realA_def realB_def algebra_simps)
        ultimately have "good s 0 s2" by simp
        then show "wp (do {
             h \<leftarrow> gets (\<lambda>s. Halted s);
             if h then skip else whenM (?mf \<ge> target c) (commitClip P ts)
           }) Q s2" by - (rule inv_commit_if_full, erule i1, rule Q)
      qed
      then show ?thesis using 3 by simp
    qed
  qed
  then show ?thesis
    by (simp only: pairFirstFill_def Let_def cpIsB_def cp_def cpSym_def realA_def realB_def wp_eta)
qed

lemma inv_pairLaterFill:
  assumes g: "good s (unpaired c oid n) s" and cs: "clip s = Some c"
    and ck: "clip_ok P (own s) c" and on: "on_leg c oid" and n: "0 < n"
    and Q: "\<And>s'. inv s' \<Longrightarrow> Q () s'"
  shows "wp (pairLaterFill P ts oid c n) Q s"
proof -
  have i1: "inv s2" if "good s 0 s2" for s2
    by (rule good_inv [OF that]) (use cs ck in simp)
  have sides: "sgn_of (dir c < 0) = - sgn_of (isBid (legA c))" "sgn_of (dir c > 0) = sgn_of (isBid (legA c))"
    using ck by (auto simp: clip_ok_def)
  define tail where "tail = (do {
       h \<leftarrow> gets (\<lambda>s. Halted s);
       if h then skip else whenM (makerFilled c \<ge> target c) (commitClip P ts)
     })"
  have tail: "wp tail Q s2" if "good s 0 s2" for s2
    unfolding tail_def by (rule inv_commit_if_full, rule i1 [OF that], rule Q)
  show ?thesis
  proof (cases "oid = lo_id (legA c)")
    case True
    have "wp (takerRetry P (LegB (cfg P)) (dir c < 0) (n * hedgeRatio P)) (\<lambda>_. wp tail Q) s"
      by (rule good_takerRetry [OF g], use n in \<open>simp add: zero_less_mult_iff\<close>, simp)
        (rule tail, use True sides in \<open>simp add: unpaired_def algebra_simps\<close>)
    then show ?thesis
      using True by (simp add: pairLaterFill_def hedge_def tail_def)
  next
    case False
    then have R: "hedgeRatio P = 1" using on_leg_ratio [OF ck on] by simp
    have "wp (takerRetry P (LegA (cfg P)) (dir c > 0) n) (\<lambda>_. wp tail Q) s"
      by (rule good_takerRetry [OF g n], simp)
        (rule tail, use False R sides in \<open>simp add: unpaired_def\<close>)
    then show ?thesis
      using False by (simp add: pairLaterFill_def hedge_def tail_def)
  qed
qed

lemma on_leg_sides:
  assumes g: "good s0 d s" and ck: "clip_ok P (own s) c" and a: "own s oid = Some a"
    and on: "on_leg c oid"
  shows "weight P (Sym a) * (sgn_of (IsBuy a) * n) = unpaired c oid n"
proof (cases "oid = lo_id (legA c)")
  case True
  then have "Sym a = LegA (cfg P) \<and> IsBuy a = isBid (legA c)"
    using ck a on by (auto simp: clip_ok_def leg_ok_def on_leg_def)
  then show ?thesis using True by (simp add: unpaired_def)
next
  case False
  then have "oid = lo_id (legB c)" "hedgeRatio P = 1" using on on_leg_ratio [OF ck on] by (auto simp: on_leg_def)
  moreover have "Sym a = LegB (cfg P) \<and> IsBuy a = isBid (legB c)"
    using ck a on calculation by (auto simp: clip_ok_def leg_ok_def on_leg_def)
  ultimately show ?thesis using False clip_sides [OF ck] by (simp add: unpaired_def)
qed

lemma inv_clipFill:
  assumes g: "good s D s" and cs: "clip s = Some c" and ck: "clip_ok P (own s) c"
    and a: "own s oid = Some a" "Maker a" and n: "0 < n"
    and D: "D = weight P (Sym a) * (sgn_of (IsBuy a) * n)" and on: "on_leg c oid"
    and Q: "\<And>s'. inv s' \<Longrightarrow> Q () s'"
  shows "wp (clipFill P ts oid (Sym a) (IsBuy a) n c) Q s"
proof -
  have Du: "D = unpaired c oid n" using on_leg_sides [OF g ck a(1) on] D by simp
  have leg: "Sym a = LegA (cfg P) \<or> Sym a = LegB (cfg P) \<and> hedgeRatio P = 1"
    using good_acct [OF g a(1)] a(2) by (auto simp: acct_ok_def)
  let ?c2 = "c\<lparr>makerID := oid, makerFilled := makerFilled c + n\<rparr>"
  let ?s2 = "s\<lparr>clip := Some ?c2\<rparr>"
  have ck2: "clip_ok P (own ?s2) ?c2" using ck n on by (auto simp: clip_ok_def on_leg_def)
  have u2: "unpaired ?c2 oid m = unpaired c oid m" "on_leg ?c2 oid = on_leg c oid" for m
    by (simp_all add: unpaired_def on_leg_def)
  have g2: "good ?s2 D ?s2" by (rule good_set_clip [OF g])
  have leg': "\<not> (oid \<noteq> lo_id (legA c) \<and> oid \<noteq> lo_id (legB c))" using on by (auto simp: on_leg_def)
  consider "makerID c = ''''" | "makerID c \<noteq> ''''" "makerID c = oid" | "makerID c \<noteq> ''''" "makerID c \<noteq> oid"
    by blast
  then show ?thesis
  proof cases
    case 1
    then have "makerFilled c = 0" using ck by (simp add: clip_ok_def)
    then have "wp (pairFirstFill P ts oid ?c2) Q ?s2"
      using g2 Du u2 on by (intro inv_pairFirstFill [OF _ _ ck2] Q) simp_all
    then show ?thesis using 1 unfolding clipFill_def if_not_P [OF leg'] Let_def by simp
  next
    case 2
    have "wp (pairLaterFill P ts oid ?c2 n) Q ?s2"
      using g2 Du u2 on n by (intro inv_pairLaterFill [OF _ _ ck2] Q) simp_all
    moreover have "?c2 = c\<lparr>makerFilled := makerFilled c + n\<rparr>" using 2 by simp
    ultimately show ?thesis using 2 unfolding clipFill_def if_not_P [OF leg'] Let_def by simp
  next
    case 3
    let ?s1 = "s\<lparr>clip := Some c\<rparr>"
    have "wp (hedgeStrayMakerFill P (Sym a) (IsBuy a) n) Q ?s1"
    proof (rule good_hedgeStray [OF good_set_clip [OF g] leg])
      fix s' assume "good ?s1 (D - weight P (Sym a) * (sgn_of (IsBuy a) * n)) s'"
      then have "good ?s1 0 s'" using D by simp
      then show "Q () s'" by (intro Q good_inv [of ?s1]) (use ck in simp_all)
    qed (use n in simp)
    then show ?thesis using 3 unfolding clipFill_def if_not_P [OF leg'] Let_def by simp
  qed
qed

lemma inv_foldLiveFill:
  assumes i: "inv s" and a: "own s oid = Some a" "Maker a" "Final a < 0"
    and n: "0 < n" "Seen a + n \<le> Placed a" and Q: "\<And>s'. inv s' \<Longrightarrow> Q () s'"
  shows "wp (foldLiveFill P ts oid (Sym a) (IsBuy a) (a\<lparr>Seen := Seen a + n\<rparr>) n price) Q
     (s\<lparr>own := (own s)(oid \<mapsto> a\<lparr>Seen := Seen a + n\<rparr>)\<rparr>)"
proof -
  let ?a = "a\<lparr>Seen := Seen a + n\<rparr>"
  note g = inv_good [OF i]
  let ?D = "0 + weight P (Sym a) * (sgn_of (IsBuy a) * n)"
  have nl: "newly a n = n" using a by (simp add: newly_def)
  have leg: "Sym a = LegA (cfg P) \<or> Sym a = LegB (cfg P) \<and> hedgeRatio P = 1"
    using good_acct [OF g a(1)] a(2) by (auto simp: acct_ok_def)
  have oid: "oid \<noteq> ''''" using g a by (auto simp: good_def base_def ledger_ok_def)
  show ?thesis
    unfolding foldLiveFill_def wp_eta(1) [where m = "whenM _ _"]
  proof (rule credit_opt [where a = ?a])
    fix w l
    assume w: "adv (world (s\<lparr>own := (own s)(oid \<mapsto> ?a)\<rparr>)) w"
      "\<And>x. sunk x l = sunk x (elog (s\<lparr>own := (own s)(oid \<mapsto> ?a)\<rparr>)) +
         (if x = oid \<and> hasSink P then sgn_of (IsBuy ?a) * n else 0)"
      "\<And>y. sink_net y l = sink_net y (elog (s\<lparr>own := (own s)(oid \<mapsto> ?a)\<rparr>)) +
         (if y = Sym ?a \<and> hasSink P then sgn_of (IsBuy ?a) * n else 0)"
    let ?b = "?a\<lparr>Credited := Credited ?a + (if hasSink P then n else 0), Folded := Folded a + n\<rparr>"
    let ?s1 = "s\<lparr>world := w, elog := l, own := (own s)(oid \<mapsto> ?b)\<rparr>"
    have g1: "good s ?D ?s1"
      by (rule good_filled [OF g a(1) n, where b = ?b])
        (use w a nl in \<open>auto simp: same_order_def\<close>)
    have stray: "wp (hedgeStrayMakerFill P (Sym a) (IsBuy a) n) Q ?s1"
      by (rule good_hedgeStray [OF g1 leg]) (use n Q inv_step [OF i] in simp_all)
    have "wp (case clip ?s1 of
         None \<Rightarrow> hedgeStrayMakerFill P (Sym a) (IsBuy a) n
       | Some c \<Rightarrow> clipFill P ts oid (Sym a) (IsBuy a) n c) Q ?s1"
    proof (cases "clip ?s1")
      case None
      then show ?thesis using stray by simp
    next
      case (Some c)
      then have ck: "clip_ok P (own ?s1) c"
        using good_clip_ok [OF g1 inv_clip_ok [OF i]] by simp
      show ?thesis
      proof (cases "on_leg c oid")
        case True
        then have "wp (clipFill P ts oid (Sym ?b) (IsBuy ?b) n c) Q ?s1"
          by (intro inv_clipFill [where a = ?b and Q = Q, OF good_rebase [OF g1] Some ck])
            (use a n Q in simp_all)
        then show ?thesis unfolding Some option.case by simp
      next
        case False
        then have "oid \<noteq> lo_id (legA c) \<and> oid \<noteq> lo_id (legB c)" using oid by (auto simp: on_leg_def)
        then show ?thesis unfolding Some option.case using stray by (simp add: clipFill_def)
      qed
    qed
    then show "wp (do {
        upd_acct oid (\<lambda>a. a\<lparr>Folded := Folded a + n\<rparr>);
        s \<leftarrow> get_state;
        case clip s of
          None \<Rightarrow> hedgeStrayMakerFill P (Sym a) (IsBuy a) n
        | Some c \<Rightarrow> clipFill P ts oid (Sym a) (IsBuy a) n c
       }) Q (s\<lparr>own := (own s)(oid \<mapsto> ?a), world := w, elog := l,
          own := (own (s\<lparr>own := (own s)(oid \<mapsto> ?a)\<rparr>))(oid \<mapsto> ?a\<lparr>Credited := Credited ?a + (if hasSink P then n else 0)\<rparr>)\<rparr>)"
      by (simp del: wp_case_option split del: if_split)
  qed (use g a n good_winv [OF g] in auto)
qed

lemma inv_foldFill:
  assumes i: "inv s" and a: "own s oid = Some a"
    and n: "0 < n" "Seen a + n \<le> Placed a" and Q: "\<And>s'. inv s' \<Longrightarrow> Q () s'"
  shows "wp (foldFill P ts oid (Sym a) (IsBuy a) a n price) Q s"
proof -
  note g = inv_good [OF i]
  have "Q () s'" if "good s 0 s'" for s' by (rule Q, rule inv_step [OF i that])
  then show ?thesis
    using a Q good_foldTakerFill [OF g a _ n, of Q price] good_foldRetiredFill [OF g a _ _ n, of Q price]
      inv_foldLiveFill [OF i a _ _ n, of Q ts price]
    by (simp add: foldFill_def Let_def)
qed

lemma inv_OnFill:
  assumes i: "inv s" and Q: "\<And>s'. inv s' \<Longrightarrow> Q () s'"
  shows "wp (OnFill P ts oid sy bu n price) Q s"
  unfolding OnFill_def wp_eta
proof (rule inv_advanceNow [OF i])
  fix s1 assume s1: "inv s1"
  show "wp get_state (\<lambda>s. wp (case own s oid of
       None \<Rightarrow> skip
     | Some acct \<Rightarrow>
         if n \<le> 0 then skip
         else
           let symb = (if Sym acct \<noteq> '''' then Sym acct else sy);
               buy = (if Sym acct \<noteq> '''' then IsBuy acct else bu);
               over = Seen acct + n - Placed acct
           in if over > 0 \<and> Placed acct > 0
              then (if n - over \<le> 0 then skip
                    else foldFill P ts oid symb buy acct (n - over) price)
              else foldFill P ts oid symb buy acct n price) Q) s1"
  proof (cases "own s1 oid")
    case None
    then show ?thesis using s1 Q by simp
  next
    case (Some a)
    have ok: "acct_ok P a" by (rule good_acct [OF inv_good [OF s1] Some])
    then have "Sym a \<noteq> ''''" "0 < Placed a" using legs by (auto simp: acct_ok_def)
    moreover have "wp (foldFill P ts oid (Sym a) (IsBuy a) a k price) Q s1"
      if "0 < k" "Seen a + k \<le> Placed a" for k
      by (rule inv_foldFill [where Q = Q, OF s1 Some that]) (rule Q)
    ultimately show ?thesis using Some s1 Q by (simp add: Let_def)
  qed
qed

subsection \<open>Order status and the event loop\<close>

lemma inv_OnOrderStatus:
  assumes i: "inv s" and Q: "\<And>s'. inv s' \<Longrightarrow> Q () s'"
  shows "wp (OnOrderStatus P oid dead) Q s"
proof -
  note g = inv_good [OF i]
  have q: "Q () s'" if "good s 0 s'" for s' by (rule Q, rule inv_step [OF i that])
  have "wp (confirmDeadTaker P oid) Q s" if "own s oid = Some a" "\<not> Maker a" "Final a < 0" for a
    using that q by (intro good_confirmDeadTaker [OF g]) auto
  moreover have "wp (tryDeferredRetire P oid) (\<lambda>r. wp skip Q) s"
    if "own s oid = Some a" "Maker a" for a
    using that q by (intro good_tryDeferredRetire [OF g]) auto
  moreover have "wp (CancelClip P) Q s" using Q by (intro inv_CancelClip [OF i])
  ultimately show ?thesis
    using i Q unfolding OnOrderStatus_def wp_bind wp_get
    by (auto split: option.split)
qed

lemma inv_handle:
  assumes "inv s" and "\<And>s'. inv s' \<Longrightarrow> Q () s'"
  shows "wp (handle P ev) Q s"
  using assms
  by (cases ev)
    (auto intro: inv_OnState inv_OnBook inv_OnFill inv_OnOrderStatus inv_OnTick inv_PullIfUnwanted
      inv_CancelClip inv_Halt inv_Reconcile)

lemma inv_NewEngine: "winv w0 \<Longrightarrow> inv (NewEngine P w0)"
  by (auto simp: inv_def NewEngine_def base_def ledger_ok_def sink_ok_def queues_ok_def pending_ok_def
      bal_def newMachine_def mHalt_def)

lemma inv_env:
  assumes "inv s" and "Env (world s) w"
  shows "inv (s\<lparr>world := w\<rparr>)"
proof -
  have "adv (world s) w" using assms by (intro env_keeps) (simp_all add: inv_def)
  then have "good s 0 (s\<lparr>world := w\<rparr>)" by (intro good_quiet [OF inv_good [OF assms(1)]]) simp_all
  then show ?thesis by (rule inv_step [OF assms(1)])
qed

lemma reachable_inv:
  assumes "reachable P Env w0 s" and "winv w0"
  shows "inv s"
  using assms(1)
proof induction
  case start
  then show ?case by (rule inv_NewEngine [OF assms(2)])
next
  case (event s ev)
  have "wp (handle P ev) (\<lambda>_. inv) s" by (rule inv_handle [OF event.IH])
  then show ?case by (rule exec_of_wp)
next
  case (env s w)
  then show ?case using inv_env by blast
qed

end

end
