(* ===== verification/EngineScript.thy ===== *)
theory EngineScript
  imports EngineInvariant
begin

text \<open>
  A broker that follows a script, for running the engine on concrete inputs: it numbers the orders
  it accepts, refuses as many placements as it is told to, and answers cancels and status queries
  from a table of executed counts. It provides the laws of the \<open>broker\<close> locale.
\<close>

record Script =
  orders :: nat
  refuse :: nat
  mute :: bool
  counts :: "(string \<times> nat) list"
  wish :: Intent
  position :: int

definition script_id :: "nat \<Rightarrow> string" where
  "script_id n = replicate (Suc n) (CHR ''o'')"

definition script_count :: "string \<Rightarrow> Script \<Rightarrow> int" where
  "script_count oid w = (case map_of (counts w) oid of None \<Rightarrow> 0 | Some n \<Rightarrow> int n)"

definition script_place :: "(Script, go_error + string) state" where
  "script_place = State (\<lambda>w.
     if refuse w > 0 then (Inl (Leaf 14 ''unavailable''), w\<lparr>refuse := refuse w - 1\<rparr>)
     else (Inr (script_id (orders w)), w\<lparr>orders := orders w + 1\<rparr>))"

definition script_cancel :: "string \<Rightarrow> (Script, go_error + int) state" where
  "script_cancel oid = State (\<lambda>w.
     (if mute w then Inl (Leaf 4 ''deadline exceeded'') else Inr (script_count oid w), w))"

definition script_status :: "string \<Rightarrow> (Script, go_error + int \<times> bool) state" where
  "script_status oid = State (\<lambda>w.
     (if mute w then Inl (Leaf 4 ''deadline exceeded'') else Inr (script_count oid w, True), w))"

definition script_wiring :: "EngineConfig \<Rightarrow> (Script, unit) Wiring" where
  "script_wiring c =
     \<lparr>cfg = c, Place = (\<lambda>b sy n p. script_place), Cancel = script_cancel, Status = script_status,
      Take = (\<lambda>b sy n. script_place), LimAllow = (\<lambda>t n. ret (True, 0)), LimSpend = (\<lambda>t n. skip),
      ClockNow = ret 0, hasSink = True, SinkFill = (\<lambda>sy b n p. skip),
      SinkAmend = (\<lambda>sy b n p q. skip), Peek = (\<lambda>st w. wish w),
      DeciderCommit = (\<lambda>i t. modify (\<lambda>w. w\<lparr>position := position w + Action i * Lots i\<rparr>)),
      DeciderPosition = position, SaveLots = None, MapOrder = (\<lambda>l w. l), RaceAFirst = (\<lambda>w. True)\<rparr>"

text \<open>Between two events the script may change everything but the ids it has given out.\<close>

definition script_env :: "Script \<Rightarrow> Script \<Rightarrow> bool" where
  "script_env w w' \<longleftrightarrow> orders w \<le> orders w'"

definition script_issued :: "Script \<Rightarrow> string set" where
  "script_issued w = script_id ` {..<orders w}"

lemma script_id_inj [simp]: "script_id m = script_id n \<longleftrightarrow> m = n"
proof
  assume "script_id m = script_id n"
  then have "length (script_id m) = length (script_id n)" by simp
  then show "m = n" by (simp add: script_id_def)
qed simp

lemma script_id_nonempty [simp]: "script_id n \<noteq> ''''" "'''' \<noteq> script_id n"
  by (simp_all add: script_id_def)

lemma script_places: "places_fresh script_issued (\<lambda>w. True) script_place"
  by (auto simp: places_fresh_def keeps_world_def advances_def script_place_def script_issued_def)

lemma script_broker:
  assumes "LegA c \<noteq> LegB c" and "LegA c \<noteq> ''''" and "LegB c \<noteq> ''''"
  shows "broker (script_wiring c) script_issued (\<lambda>w. True) script_env"
  by unfold_locales
    (use assms script_places in \<open>auto simp: script_wiring_def keeps_world_def advances_def script_issued_def
      script_env_def script_cancel_def script_status_def script_count_def split: if_splits option.splits\<close>)

subsection \<open>Configurations\<close>

definition script_cfg :: EngineConfig where
  "script_cfg =
     \<lparr>LegA = ''A'', LegB = ''B'', OrderVol = 1, FillTimeout = 5 * second, HedgeRetries = 2,
      MaxStaleness = 0, ReconcileInterval = 0, PlaceRetryBackoff = 0, RejectRetryLotStep = 0,
      RejectRetryMinLots = 0, RepegThrottle = 0, MinRest = 0, LogTag = '''', DisableRepeg = False,
      SoloMakerLeg = True, HedgeRatio = 3, TakerOnly = False, ForceCloseOnTimeout = False,
      KeepPartialOpenOnTimeout = False, TakerConfirmTimeout = 0, PullOnStaleBook = False\<rparr>"

definition script_P :: "(Script, unit) Wiring" where
  "script_P = script_wiring script_cfg"

definition buy_two :: Intent where
  "buy_two = \<lparr>Action = 1, IsClose = False, OpenPrice = 100, Lots = 2, inExecMode = ExecDefault\<rparr>"

definition script_world :: Script where
  "script_world = \<lparr>orders = 0, refuse = 0, mute = False, counts = [], wish = buy_two, position = 0\<rparr>"

interpretation script: broker script_P script_issued "\<lambda>w. True" script_env
  unfolding script_P_def by (rule script_broker) (simp_all add: script_cfg_def)

subsection \<open>Evaluation\<close>

text \<open>
  A handler is run on a concrete state by its weakest precondition, which the simplifier computes.
\<close>

definition runs ::
  "('w, 'g) Wiring \<Rightarrow> 'g event list \<Rightarrow> 'w Engine \<Rightarrow> ('w Engine \<Rightarrow> bool) \<Rightarrow> bool" where
  "runs P evs s Q \<longleftrightarrow> Q (run_events P evs s)"

lemma runs_simps [simp]:
  "runs P [] s Q = Q s"
  "runs P (ev # evs) s Q = wp (handle P ev) (\<lambda>_ s'. runs P evs s' Q) s"
  by (simp_all add: runs_def wp_iff)

lemma script_P_simps [simp]:
  "cfg script_P = script_cfg" "Place script_P b sy n p = script_place" "Cancel script_P = script_cancel"
  "Status script_P = script_status" "Take script_P b sy n = script_place"
  "LimAllow script_P t n = ret (True, 0)" "LimSpend script_P t n = skip" "ClockNow script_P = ret 0"
  "hasSink script_P" "SinkFill script_P sy b n p = skip" "SinkAmend script_P sy b n p q = skip"
  "Peek script_P st w = wish w" "DeciderPosition script_P w = position w" "SaveLots script_P = None"
  "MapOrder script_P l w = l" "RaceAFirst script_P w"
  "DeciderCommit script_P i t = modify (\<lambda>w. w\<lparr>position := position w + Action i * Lots i\<rparr>)"
  by (simp_all add: script_P_def script_wiring_def)

lemma script_cfg_simps [simp]:
  "LegA script_cfg = ''A''" "LegB script_cfg = ''B''" "OrderVol script_cfg = 1"
  "FillTimeout script_cfg = 5 * second" "HedgeRetries script_cfg = 2" "MaxStaleness script_cfg = 0"
  "PlaceRetryBackoff script_cfg = 0" "RejectRetryLotStep script_cfg = 0"
  "RejectRetryMinLots script_cfg = 0" "RepegThrottle script_cfg = 0" "MinRest script_cfg = 0"
  "\<not> DisableRepeg script_cfg" "SoloMakerLeg script_cfg" "HedgeRatio script_cfg = 3"
  "\<not> TakerOnly script_cfg" "\<not> ForceCloseOnTimeout script_cfg"
  "\<not> KeepPartialOpenOnTimeout script_cfg" "TakerConfirmTimeout script_cfg = 0"
  "\<not> PullOnStaleBook script_cfg" "hedgeRatio script_P = 3"
  by (simp_all add: script_cfg_def hedgeRatio_def)

lemma script_rpc_simps [simp]:
  "run_state script_place w =
     (if refuse w > 0 then (Inl (Leaf 14 ''unavailable''), w\<lparr>refuse := refuse w - 1\<rparr>)
      else (Inr (script_id (orders w)), w\<lparr>orders := orders w + 1\<rparr>))"
  "run_state (script_cancel oid) w =
     (if mute w then Inl (Leaf 4 ''deadline exceeded'') else Inr (script_count oid w), w)"
  "run_state (script_status oid) w =
     (if mute w then Inl (Leaf 4 ''deadline exceeded'') else Inr (script_count oid w, True), w)"
  by (simp_all add: script_place_def script_cancel_def script_status_def)

lemmas script_eval =
  OnBook_def Update_def serviceImpaired_def maybeRepeg_def OnState_def checkPendingTakers_def
  awaitingTaker_def CanQuote_def Valid_def tryOpenClip_def openLadder.simps openClip_def installClip_def
  clipExecMode_def hedgeLots_def SidePrice_def newLeg_def newClip_def armDeadline_def
  wp_rpc id_of_def spendOne_def placeLeg_def Let_def zero_touch_def newBook_def newMachine_def
  NewEngine_def script_world_def buy_two_def Suspect_def actionHold_def manageWorkingClip_def
  OnFill_def foldFill_def foldLiveFill_def sinkFill_def clipFill_def pairFirstFill_def pairLaterFill_def
  retireOrder_def askRetired_def cancelRPC_def finishRetire_def foldGap_def takerRetry_def hedge_def
  takerRetryFrom_def takerRetryPlain_def tryPlaceTaker_def placeTakerRPC_def commitTakerPlacement_def
  numeral_2_eq_2 CrossPrice_def makerAcct_def takerAcct_def pending_add_def pending_delete_def script_count_def
  CancelClip_def settleClip_def Halt_def mHalt_def OnTick_def checkPendingTaker_def checkStaleBooks_def
  checkTimeout_def resolveClip_def abandonClip_def completeClip_def commitClip_def deciderCommit_def
  deferRetire_def QueueRetire_def EnterImpaired_def deferHedge_def mDeferHedge_def placeBackoff_def

subsection \<open>Two runs\<close>

abbreviation script_start :: "Script Engine" where
  "script_start \<equiv> NewEngine script_P script_world"

text \<open>Both books quoted, then a signal bar: the maker order on LegA rests.\<close>

definition open_run :: "unit event list" where
  "open_run =
     [EvBook ''A'' 1 100 101, EvBook ''B'' 1 50 51, EvState \<lparr>rsTime = 2, Signal = ()\<rparr>]"

text \<open>One lot of the maker order fills and is hedged three to one on LegB.\<close>

definition fill_run :: "unit event list" where
  "fill_run = open_run @ [EvFill 3 (script_id 0) ''A'' True 1 100]"

lemma open_run_facts:
  "runs script_P open_run script_start (\<lambda>s. placed (elog s) = 1 \<and> \<not> Halted s)"
  by (simp add: open_run_def script_eval)

lemma fill_run_facts:
  "runs script_P fill_run script_start (\<lambda>s. placed (elog s) = 2 \<and> \<not> Halted s \<and> debts (recovery s) = [] \<and>
     sink_net ''A'' (elog s) = 1 \<and>
     (\<exists>c. clip s = Some c \<and> target c = 2 \<and> makerID c = script_id 0 \<and> lo_id (legA c) = script_id 0 \<and>
        lo_id (legB c) = '''') \<and>
     own s = [script_id 0 \<mapsto> (makerAcct ''A'' True 100 2)\<lparr>Seen := 1, Folded := 1, Credited := 1\<rparr>,
       script_id 1 \<mapsto> (takerAcct ''B'' False 3 3)\<lparr>Price := 50, Credited := 3\<rparr>])"
  by (simp add: fill_run_def open_run_def script_eval)

lemma runs_append: "runs P (evs @ evs') s Q = runs P evs s (\<lambda>s'. runs P evs' s' Q)"
  by (induction evs arbitrary: s) (simp_all add: wp_iff)

lemma runs_reaches:
  "reaches P Env s0 s \<Longrightarrow> runs P evs s Q \<Longrightarrow> \<exists>s'. reaches P Env s0 s' \<and> Q s'"
  using reaches_run_events [of P Env s0 s evs] by (auto simp: runs_def)

text \<open>The same fill while the broker refuses every placement and answers no cancel.\<close>

abbreviation cut_off :: "Script Engine \<Rightarrow> Script Engine" where
  "cut_off s \<equiv> s\<lparr>world := (world s)\<lparr>refuse := 9, mute := True\<rparr>\<rparr>"

lemma debt_run_facts:
  "runs script_P open_run script_start (\<lambda>s1. runs script_P [EvFill 3 (script_id 0) ''A'' True 1 100, EvCancel] (cut_off s1)
     (\<lambda>s. debts (recovery s) = [\<lparr>dSym = ''B'', dBuy = False, dLots = 3\<rparr>] \<and>
        retireQ (recovery s) = [script_id 0] \<and> \<not> Halted s \<and> 
        own s = [script_id 0 \<mapsto> (makerAcct ''A'' True 100 2)\<lparr>Seen := 1, Folded := 1, Credited := 1, Deferred := True\<rparr>]))"
  by (simp add: open_run_def script_eval)

lemma cut_off_reaches: "reaches P script_env s0 s \<Longrightarrow> reaches P script_env s0 (cut_off s)"
  by (rule reaches.env) (simp_all add: script_env_def)

lemma halt_run_facts:
  "runs script_P (fill_run @ [EvHalt]) script_start (\<lambda>s. Halted s \<and> placed (elog s) = 2)"
  by (simp add: fill_run_def open_run_def script_eval)

end
