(* ===== verification/EngineTheorems.thy ===== *)
theory EngineTheorems
  imports EngineScript
begin

text \<open>
  The properties of the execution engine in every reachable state, over its model's own
  definitions: the kill-switch, the spend accounting, the two-legged balance, the fill sink, the
  obligation queues and the bounds of the order accounts. Each has a run of the scripted broker of
  \<open>EngineScript\<close> as its witness.
\<close>

subsection \<open>What the invariant says of the two legs\<close>

text \<open>The net lots the engine's book counts on one leg: its orders and the queued hedge debts.\<close>

definition leg_net :: "'w Engine \<Rightarrow> string \<Rightarrow> int" where
  "leg_net s sy =
     map_sum (\<lambda>a. if Sym a = sy then sgn_of (IsBuy a) * eff a else 0) (own s) +
     (\<Sum>d\<leftarrow>debts (recovery s). if dSym d = sy then sgn_of (dBuy d) * dLots d else 0)"

lemma map_sum_cong:
  "(\<And>k a. m k = Some a \<Longrightarrow> f a = g a) \<Longrightarrow> map_sum f m = map_sum g m"
  unfolding map_sum_def by (rule sum.cong) auto

lemma map_sum_linear: "map_sum (\<lambda>a. c * f a + g a) m = c * map_sum f m + map_sum g m"
  by (simp add: map_sum_def sum.distrib sum_distrib_left)

lemma sum_list_linear:
  "(\<Sum>x\<leftarrow>xs. c * f x + g x) = c * (\<Sum>x\<leftarrow>xs. f x) + (\<Sum>x\<leftarrow>xs. g x :: int)"
  by (induction xs) (auto simp: algebra_simps)

lemma sum_list_cong:
  "(\<And>x. x \<in> set xs \<Longrightarrow> f x = g x) \<Longrightarrow> (\<Sum>x\<leftarrow>xs. f x) = (\<Sum>x\<leftarrow>xs. g x :: int)"
  by (induction xs) auto

context broker
begin

lemma inv_acct: "inv s \<Longrightarrow> own s oid = Some a \<Longrightarrow> acct_ok P a"
  by (rule good_acct [OF inv_good])

lemma inv_id: "inv s \<Longrightarrow> own s oid = Some a \<Longrightarrow> oid \<noteq> ''''"
  by (auto simp: inv_def base_def ledger_ok_def)

lemma bal_legs:
  assumes "inv s"
  shows "bal P s = hedgeRatio P * leg_net s (LegA (cfg P)) + leg_net s (LegB (cfg P))"
proof -
  have "map_sum (contrib P) (own s) =
      map_sum (\<lambda>a. hedgeRatio P * (if Sym a = LegA (cfg P) then sgn_of (IsBuy a) * eff a else 0) +
        (if Sym a = LegB (cfg P) then sgn_of (IsBuy a) * eff a else 0)) (own s)"
  proof (rule map_sum_cong)
    fix k a assume "own s k = Some a"
    then have "Sym a = LegA (cfg P) \<or> Sym a = LegB (cfg P)"
      using inv_acct [OF assms] by (auto simp: acct_ok_def)
    then show "contrib P a = hedgeRatio P * (if Sym a = LegA (cfg P) then sgn_of (IsBuy a) * eff a else 0) +
        (if Sym a = LegB (cfg P) then sgn_of (IsBuy a) * eff a else 0)"
      using legs by (auto simp: contrib_def)
  qed
  moreover have "debt_sum (debts (recovery s)) =
      (\<Sum>d\<leftarrow>debts (recovery s). hedgeRatio P * (if dSym d = LegA (cfg P) then sgn_of (dBuy d) * dLots d else 0) +
        (if dSym d = LegB (cfg P) then sgn_of (dBuy d) * dLots d else 0))"
  proof (rule sum_list_cong)
    fix d assume "d \<in> set (debts (recovery s))"
    then have "dSym d = LegA (cfg P) \<or> dSym d = LegB (cfg P)"
      using assms by (auto simp: inv_def base_def queues_ok_def)
    then show "debt_contrib P d = hedgeRatio P * (if dSym d = LegA (cfg P) then sgn_of (dBuy d) * dLots d else 0) +
        (if dSym d = LegB (cfg P) then sgn_of (dBuy d) * dLots d else 0)"
      using legs by (auto simp: debt_contrib_def)
  qed
  ultimately show ?thesis
    unfolding map_sum_linear sum_list_linear by (simp add: bal_def leg_net_def distrib_left)
qed

lemma legs_balance:
  assumes "inv s" and "\<not> Halted s"
  shows "hedgeRatio P * leg_net s (LegA (cfg P)) + leg_net s (LegB (cfg P)) = 0"
  using bal_legs [OF assms(1)] assms by (simp add: inv_def)

lemma sink_order:
  assumes "inv s"
  shows "sunk oid (elog s) =
     (case own s oid of None \<Rightarrow> 0 | Some a \<Rightarrow> sgn_of (IsBuy a) * credit_of P a)"
proof -
  have sk: "sunk oid (elog s) = (case own s oid of None \<Rightarrow> 0 | Some a \<Rightarrow> acct_credit a)"
    using assms by (simp add: inv_def base_def sink_ok_def)
  show ?thesis
  proof (cases "own s oid")
    case None
    then show ?thesis using sk by simp
  next
    case (Some a)
    then have "Credited a = credit_of P a" using inv_acct [OF assms] by (simp add: acct_ok_def)
    then show ?thesis using sk Some by (simp add: acct_credit_def)
  qed
qed

lemma credit_eff:
  assumes "acct_ok P a" and "hasSink P" and "\<not> Maker a \<longrightarrow> 0 \<le> Final a \<longrightarrow> Seen a \<le> Final a"
  shows "credit_of P a = eff a"
  using assms by (auto simp: credit_of_def eff_def acct_ok_def)

lemma sink_hedged:
  assumes i: "inv s" and h: "\<not> Halted s" "hasSink P"
    and late: "\<And>oid a. own s oid = Some a \<Longrightarrow> \<not> Maker a \<Longrightarrow> 0 \<le> Final a \<Longrightarrow> Seen a \<le> Final a"
  shows "hedgeRatio P * sink_net (LegA (cfg P)) (elog s) + sink_net (LegB (cfg P)) (elog s) +
     debt_sum (debts (recovery s)) = 0"
proof -
  have net: "sink_net sy (elog s) =
      map_sum (\<lambda>a. if Sym a = sy then sgn_of (IsBuy a) * eff a else 0) (own s)" for sy
  proof -
    have "sink_net sy (elog s) = map_sum (credit_in sy) (own s)"
      using i by (simp add: inv_def base_def sink_ok_def)
    also have "\<dots> = map_sum (\<lambda>a. if Sym a = sy then sgn_of (IsBuy a) * eff a else 0) (own s)"
    proof (rule map_sum_cong)
      fix k a assume a: "own s k = Some a"
      have "credit_of P a = eff a" by (rule credit_eff [OF inv_acct [OF i a] h(2)]) (use late a in auto)
      then show "credit_in sy a = (if Sym a = sy then sgn_of (IsBuy a) * eff a else 0)"
        using inv_acct [OF i a] by (simp add: credit_in_def acct_credit_def acct_ok_def)
    qed
    finally show ?thesis .
  qed
  have "map_sum (contrib P) (own s) = hedgeRatio P * sink_net (LegA (cfg P)) (elog s) + sink_net (LegB (cfg P)) (elog s)"
    unfolding net map_sum_linear [symmetric]
  proof (rule map_sum_cong)
    fix k a assume "own s k = Some a"
    then have "Sym a = LegA (cfg P) \<or> Sym a = LegB (cfg P)"
      using inv_acct [OF i] by (auto simp: acct_ok_def)
    then show "contrib P a = hedgeRatio P * (if Sym a = LegA (cfg P) then sgn_of (IsBuy a) * eff a else 0) +
        (if Sym a = LegB (cfg P) then sgn_of (IsBuy a) * eff a else 0)"
      using legs by (auto simp: contrib_def)
  qed
  then show ?thesis using i h by (simp add: inv_def bal_def)
qed

lemma obligations:
  assumes "inv s"
  shows "(own s oid = Some a \<longrightarrow> Deferred a \<longrightarrow> oid \<in> set (retireQ (recovery s)) \<and> Maker a \<and> Final a < 0) \<and>
     (\<not> Halted s \<longrightarrow> retireQ (recovery s) \<noteq> [] \<or> debts (recovery s) \<noteq> [] \<longrightarrow> StateLabel s = ''impaired'')"
  using assms inv_acct [OF assms, of oid a]
  by (auto simp: inv_def base_def queues_ok_def acct_ok_def StateLabel_def)

end

subsection \<open>Runs of the scripted broker\<close>

abbreviation script_run :: "unit event list \<Rightarrow> Script Engine" where
  "script_run evs \<equiv> run_events script_P evs script_start"

definition debt_state :: "Script Engine" where
  "debt_state = run_events script_P [EvFill 3 (script_id 0) ''A'' True 1 100, EvCancel]
     (cut_off (script_run open_run))"

lemma script_reachable:
  "reachable script_P script_env script_world (script_run evs)"
  "reachable script_P script_env script_world debt_state"
  unfolding debt_state_def by (intro reaches_run_events cut_off_reaches reaches.start)+

lemma script_is_broker: "broker script_P script_issued (\<lambda>w. True) script_env"
  by (rule script.broker_axioms)

lemmas fill_run = fill_run_facts [unfolded runs_def]
lemmas halt_run = halt_run_facts [unfolded runs_def]
lemmas debt_run = debt_run_facts [unfolded runs_def, folded debt_state_def]

subsection \<open>The kill-switch\<close>

text \<open>
  C1. Halting is final and quiet: whatever events arrive after \<open>Halt\<close>, and whatever the world does
  in between, the engine stays halted and sends no further placement, maker or taker; \<open>Halt\<close>
  itself sends none either.
\<close>

theorem kill_switch:
  assumes "reaches P Env (exec (Halt P) s) s'"
  shows "Halted s' \<and> placed (elog s') = placed (elog s)"
  using reaches_halted [OF assms] exec_of_wp [OF evo_Halt [of P s]] by simp

theorem kill_switch_witness:
  "let s = script_run fill_run;
       s' = run_events script_P (open_run @ [EvTick (10 * second)]) (exec (Halt script_P) s)
   in placed (elog s) = 2 \<and> Halted s' \<and> placed (elog s') = 2"
proof -
  let ?s = "exec (Halt script_P) (script_run fill_run)"
  have "reaches script_P script_env ?s (run_events script_P (open_run @ [EvTick (10 * second)]) ?s)"
    by (intro reaches_run_events reaches.start)
  from kill_switch [OF this] show ?thesis using fill_run by (simp add: Let_def)
qed

subsection \<open>The two-legged balance\<close>

text \<open>
  C2. The two legs stay balanced: in every reachable state that is not halted, the lots the
  engine's book counts on LegA (open and settled orders and queued hedge debts, signed by side),
  times the hedge ratio, offset those on LegB exactly. It holds for every broker that gives each
  accepted order a fresh non-empty id and reports counts that are not negative.
\<close>

theorem legs_balanced:
  assumes "broker P issued winv Env" and "winv w0"
    and "reachable P Env w0 s" and "\<not> Halted s"
  shows "hedgeRatio P * leg_net s (LegA (cfg P)) + leg_net s (LegB (cfg P)) = 0"
  using broker.legs_balance [OF assms(1) broker.reachable_inv [OF assms(1,3,2)] assms(4)] .

theorem legs_balanced_witness:
  "own (script_run fill_run) (script_id 0) \<noteq> None \<and>
   3 * leg_net (script_run fill_run) ''A'' + leg_net (script_run fill_run) ''B'' = 0 \<and>
   debts (recovery debt_state) \<noteq> [] \<and> 3 * leg_net debt_state ''A'' + leg_net debt_state ''B'' = 0"
proof -
  have "\<not> Halted (script_run fill_run)" "\<not> Halted debt_state" using fill_run debt_run by blast+
  then show ?thesis
    using legs_balanced [OF script_is_broker TrueI script_reachable(1), of fill_run]
      legs_balanced [OF script_is_broker TrueI script_reachable(2)] fill_run debt_run
    by simp
qed

subsection \<open>The fill sink\<close>

text \<open>
  C3. The fill sink is told every order exactly once: in every reachable state, halted or not, the
  net lots handed to the sink for an order are those its account entitles it to (what the broker
  reported or settled, whichever is more; a taker's full size from its placement until its fate is
  known), and nothing for an id that is not an own order.
\<close>

theorem sink_credits_each_order:
  assumes "broker P issued winv Env" and "winv w0" and "reachable P Env w0 s"
  shows "sunk oid (elog s) =
     (case own s oid of None \<Rightarrow> 0 | Some a \<Rightarrow> sgn_of (IsBuy a) * credit_of P a)"
  using broker.sink_order [OF assms(1) broker.reachable_inv [OF assms(1,3,2)]] .

theorem sink_credits_each_order_witness:
  "sunk (script_id 1) (elog (script_run fill_run)) = - 3 \<and> sunk ''x'' (elog (script_run fill_run)) = 0"
  using sink_credits_each_order [OF script_is_broker TrueI script_reachable(1), of "script_id 1" fill_run]
    sink_credits_each_order [OF script_is_broker TrueI script_reachable(1), of "''x''" fill_run] fill_run
  by (simp add: credit_of_def takerAcct_def script_id_def)

text \<open>
  C4. The books the sink keeps are hedged: with a sink installed and no fill beyond a taker's
  settled count, the net lots handed to the sink on the two legs offset at the hedge ratio up to
  exactly the queued hedge debts.
\<close>

theorem sink_books_hedged:
  assumes "broker P issued winv Env" and "winv w0"
    and "reachable P Env w0 s" and "\<not> Halted s" and "hasSink P"
    and "\<And>oid a. own s oid = Some a \<Longrightarrow> \<not> Maker a \<Longrightarrow> 0 \<le> Final a \<Longrightarrow> Seen a \<le> Final a"
  shows "hedgeRatio P * sink_net (LegA (cfg P)) (elog s) + sink_net (LegB (cfg P)) (elog s) +
     (\<Sum>d\<leftarrow>debts (recovery s). debt_contrib P d) = 0"
  using broker.sink_hedged [OF assms(1) broker.reachable_inv [OF assms(1,3,2)] assms(4,5,6)] .

theorem sink_books_hedged_witness:
  "sink_net ''A'' (elog (script_run fill_run)) = 1 \<and> sink_net ''B'' (elog (script_run fill_run)) = - 3"
proof -
  have "Final a < 0" if "own (script_run fill_run) oid = Some a" for oid a
    using fill_run that by (auto split: if_splits)
  then show ?thesis
    using sink_books_hedged [OF script_is_broker TrueI script_reachable(1), of fill_run] fill_run
    by fastforce
qed

subsection \<open>Obligations and accounts\<close>

text \<open>
  C5. No obligation is lost: in every reachable state an order whose cancel is owed is in the
  retry queue and is a maker order with no settled count; and as long as the engine is not halted,
  a non-empty queue of owed cancels or hedges shows as \<open>impaired\<close>, the state in which it opens
  nothing.
\<close>

theorem obligations_kept:
  assumes "broker P issued winv Env" and "winv w0" and "reachable P Env w0 s"
  shows "(own s oid = Some a \<longrightarrow> Deferred a \<longrightarrow>
       oid \<in> set (retireQ (recovery s)) \<and> Maker a \<and> Final a < 0) \<and>
     (\<not> Halted s \<longrightarrow> retireQ (recovery s) \<noteq> [] \<or> debts (recovery s) \<noteq> [] \<longrightarrow>
       StateLabel s = ''impaired'')"
  using broker.obligations [OF assms(1) broker.reachable_inv [OF assms(1,3,2)]] .

theorem obligations_kept_witness:
  "debts (recovery debt_state) = [\<lparr>dSym = ''B'', dBuy = False, dLots = 3\<rparr>] \<and>
   script_id 0 \<in> set (retireQ (recovery debt_state)) \<and> StateLabel debt_state = ''impaired''"
  using obligations_kept [OF script_is_broker TrueI script_reachable(2), of "script_id 0"] debt_run
  by simp

text \<open>
  C6. Every order account stays within its bounds in every reachable state: what was reported and
  what was settled never exceed the placed lots, a live maker order has folded exactly what was
  reported, a settled maker order at least what was settled, and an order is on one of the two legs, on
  LegB as a maker only at hedge ratio one.
\<close>

theorem accounts_bounded:
  assumes "broker P issued winv Env" and "winv w0" and "reachable P Env w0 s"
    and "own s oid = Some a"
  shows "oid \<noteq> '''' \<and> 0 < Placed a \<and> 0 \<le> Seen a \<and> Seen a \<le> Placed a \<and>
     - 1 \<le> Final a \<and> Final a \<le> Placed a \<and>
     (Maker a \<longrightarrow> (if Final a < 0 then Folded a = Seen a else Final a \<le> Folded a)) \<and>
     (Sym a = LegA (cfg P) \<or> Sym a = LegB (cfg P) \<and> (Maker a \<longrightarrow> hedgeRatio P = 1))"
  using broker.inv_acct [OF assms(1) broker.reachable_inv [OF assms(1,3,2)] assms(4)]
    broker.inv_id [OF assms(1) broker.reachable_inv [OF assms(1,3,2)] assms(4)]
  by (auto simp: acct_ok_def)

theorem accounts_bounded_witness:
  "\<exists>a. own (script_run fill_run) (script_id 0) = Some a \<and> Seen a = 1 \<and> Folded a = Seen a \<and> Placed a = 2"
  using accounts_bounded [OF script_is_broker TrueI script_reachable(1), of fill_run "script_id 0"] fill_run
  by (auto simp: makerAcct_def)

text \<open>
  C7. The working clip is well formed in every reachable state: it has lots and a direction, its two
  legs are on opposite sides, and what rests on a leg is an own maker order of that leg's symbol and
  side; LegB rests only at hedge ratio one; the designated maker is one of the two legs.
\<close>

theorem clip_well_formed:
  assumes "broker P issued winv Env" and "winv w0" and "reachable P Env w0 s"
    and "clip s = Some c"
  shows "0 < target c \<and> dir c \<noteq> 0 \<and> isBid (legA c) = (dir c > 0) \<and> isBid (legB c) = (dir c < 0) \<and>
     leg_ok (own s) (LegA (cfg P)) (legA c) \<and> leg_ok (own s) (LegB (cfg P)) (legB c) \<and>
     (lo_id (legB c) \<noteq> '''' \<longrightarrow> hedgeRatio P = 1) \<and>
     makerID c \<in> {'''', lo_id (legA c), lo_id (legB c)}"
  using broker.inv_clip_ok [OF assms(1) broker.reachable_inv [OF assms(1,3,2)] assms(4)]
  by (simp add: clip_ok_def)

theorem clip_well_formed_witness:
  "\<exists>c. clip (script_run fill_run) = Some c \<and> target c = 2 \<and> makerID c = script_id 0 \<and>
     makerID c = lo_id (legA c) \<and> lo_id (legB c) = ''''"
  using clip_well_formed [OF script_is_broker TrueI script_reachable(1), of fill_run] fill_run
  by fastforce

text \<open>
  C8. Every placement sent is booked on the quota limiter exactly once: in every reachable state the
  number of placement requests equals the lots of budget spent. No law of the broker is needed.
\<close>

theorem spend_parity:
  assumes "reachable P Env w0 s"
  shows "placed (elog s) = booked (elog s)"
  using reaches_booked [OF assms] by (simp add: NewEngine_def)

theorem spend_parity_witness:
  "placed (elog (script_run fill_run)) = 2 \<and> booked (elog (script_run fill_run)) = 2"
  using spend_parity [OF script_reachable(1), of fill_run] fill_run by simp

text \<open>
  C9. Halting pulls what rests: with a clip in flight, \<open>Halt\<close> sends a cancel for each of its legs
  that is live and disposes of the clip.
\<close>

theorem halt_pulls_the_legs:
  assumes "clip s = Some c" and "\<not> Halted s"
  shows "clip (exec (Halt P) s) = None \<and>
     (live (lo_id (legA c)) s \<longrightarrow> ECancel (lo_id (legA c)) \<in> set (elog (exec (Halt P) s))) \<and>
     (live (lo_id (legB c)) s \<longrightarrow> ECancel (lo_id (legB c)) \<in> set (elog (exec (Halt P) s)))"
  by (rule exec_of_wp [OF halt_pulls_legs [OF assms]])

theorem halt_pulls_the_legs_witness:
  "ECancel (script_id 0) \<in> set (elog (exec (Halt script_P) (script_run fill_run)))"
proof -
  obtain c where c: "clip (script_run fill_run) = Some c" "lo_id (legA c) = script_id 0"
    using fill_run by blast
  moreover have "live (script_id 0) (script_run fill_run)"
    using fill_run by (simp add: live_def makerAcct_def)
  moreover have "\<not> Halted (script_run fill_run)" using fill_run by blast
  ultimately show ?thesis using halt_pulls_the_legs [OF c(1), of script_P] by simp
qed

subsection \<open>Execution modes\<close>

text \<open>
  LegB never rests at a hedge ratio above one: whatever the decision asks for, the clip's mode
  is then taker only or a LegA maker; and a clip's mode is always concrete.
\<close>

theorem mode_at_ratio:
  assumes "HedgeRatio (cfg P) > 1"
  shows "clipExecMode P i \<in> {ExecTaker, ExecSoloMaker} \<and> clipExecMode P i \<noteq> ExecDefault"
  using clipExecMode_ratio [OF assms, of i] clipExecMode_concrete [of P i] by blast

theorem mode_at_ratio_witness:
  "HedgeRatio script_cfg = 3 \<and>
   clipExecMode script_P (buy_two\<lparr>inExecMode := ExecDualPassive\<rparr>) \<in> {ExecTaker, ExecSoloMaker}"
  using mode_at_ratio [of script_P "buy_two\<lparr>inExecMode := ExecDualPassive\<rparr>"] by simp

end
