(* ===== verification/Wire.thy ===== *)
theory Wire
  imports BrokerErrors "HOL-Library.AList"
begin

text \<open>
  What the client and the simulator exchange: the protobuf messages of the trade API that both
  sides read, gRPC status codes, and the text form of numbers. Only the fields and the enumeration
  values the sources name are kept; every other value of an enumeration is an \<open>_OTHER\<close>.

  A \<open>decimal.Decimal\<close> message carries a number as text. It is modelled by what \<open>strconv.ParseFloat\<close>
  reads from that text: \<open>Some v\<close> for the number \<open>v\<close> and \<open>None\<close> for a text it rejects. A field of
  type \<open>*decimal.Decimal\<close> is a \<open>decimal option\<close>, \<open>None\<close> being the nil pointer. Finite floats are read
  as reals, and \<open>strconv.FormatFloat(v, 'f', -1, 64)\<close> is the text that parses back to \<open>v\<close>.
\<close>

type_synonym decimal = "real option"

definition dec :: "real \<Rightarrow> decimal option" where
  "dec v = Some (Some v)"

text \<open>\<open>GetValue\<close> of a nil message is the empty text, which does not parse.\<close>

definition parseDec :: "decimal option \<Rightarrow> real" where
  "parseDec d = (case d of Some (Some v) \<Rightarrow> v | _ \<Rightarrow> 0)"

lemma parseDec_dec [simp]: "parseDec (dec v) = v"
  by (simp add: parseDec_def dec_def)

text \<open>\<open>math.Trunc\<close> and \<open>math.Round\<close>: toward zero, and to the nearest with halves away from zero.\<close>

definition trunc :: "real \<Rightarrow> int" where
  "trunc x = (if x \<ge> 0 then \<lfloor>x\<rfloor> else \<lceil>x\<rceil>)"

definition go_round :: "real \<Rightarrow> int" where
  "go_round x = (if x \<ge> 0 then \<lfloor>x + 1 / 2\<rfloor> else \<lceil>x - 1 / 2\<rceil>)"

lemma go_round_of_int [simp]: "go_round (real_of_int k) = k"
proof -
  have "\<lfloor>real_of_int k + 1 / 2\<rfloor> = k" "\<lceil>real_of_int k - 1 / 2\<rceil> = k"
    by (simp_all add: floor_eq_iff ceiling_eq_iff)
  then show ?thesis by (simp add: go_round_def)
qed

subsection \<open>Enumerations\<close>

datatype Side = SIDE_BUY | SIDE_SELL | SIDE_OTHER nat

datatype OrderType = ORDER_TYPE_MARKET | ORDER_TYPE_LIMIT | ORDER_TYPE_OTHER nat

datatype TimeInForce =
    TIME_IN_FORCE_DAY | TIME_IN_FORCE_GOOD_TILL_CROSSING | TIME_IN_FORCE_OTHER nat

datatype OrderStatus =
    ORDER_STATUS_NEW | ORDER_STATUS_PARTIALLY_FILLED | ORDER_STATUS_PENDING_CANCEL
  | ORDER_STATUS_FILLED | ORDER_STATUS_EXECUTED | ORDER_STATUS_CANCELED | ORDER_STATUS_REJECTED
  | ORDER_STATUS_REJECTED_BY_EXCHANGE | ORDER_STATUS_DENIED_BY_BROKER | ORDER_STATUS_EXPIRED
  | ORDER_STATUS_FAILED | ORDER_STATUS_DONE_FOR_DAY | ORDER_STATUS_DISABLED
  | ORDER_STATUS_OTHER nat

datatype RowAction = ACTION_ADD | ACTION_UPDATE | ACTION_REMOVE | ACTION_OTHER nat

text \<open>The \<open>Side\<close> oneof of a book row.\<close>

datatype RowSide = NoSide | BuySize "decimal option" | SellSize "decimal option"

fun GetBuySize :: "RowSide \<Rightarrow> decimal option" where
  "GetBuySize (BuySize d) = d"
| "GetBuySize _ = None"

fun GetSellSize :: "RowSide \<Rightarrow> decimal option" where
  "GetSellSize (SellSize d) = d"
| "GetSellSize _ = None"

subsection \<open>Messages\<close>

record OrderMsg =
  omAccount :: string
  omSymbol :: string
  omQuantity :: "decimal option"
  omLimitPrice :: "decimal option"
  omSide :: Side
  omType :: OrderType
  omTif :: TimeInForce
  omClientId :: string

record OrderState =
  osOrderId :: string
  osExecId :: string
  osStatus :: OrderStatus
  osOrder :: OrderMsg
  osTransactAt :: time
  osWithdrawAt :: time
  osInitial :: "decimal option"
  osExecuted :: "decimal option"
  osRemaining :: "decimal option"

record AccountTrade =
  atId :: string
  atSymbol :: string
  atPrice :: "decimal option"
  atSize :: "decimal option"
  atSide :: Side
  atTime :: time
  atOrderId :: string
  atAccount :: string

record TapeTrade =
  ttId :: string
  ttTime :: time
  ttPrice :: "decimal option"
  ttSize :: "decimal option"
  ttSide :: Side

record BookRow =
  rowPrice :: "decimal option"
  rowAction :: RowAction
  rowSide :: RowSide
  rowAt :: time

text \<open>The account snapshot: \<open>GetAccountResponse\<close>, its positions, its portfolio oneof and its cash.\<close>

record AccountPosition =
  apSymbol :: string
  apQuantity :: "decimal option"
  apAverage :: "decimal option"
  apCurrent :: "decimal option"
  apUnrealized :: "decimal option"

datatype Portfolio =
    NoPortfolio
  | PortfolioForts "decimal option" "decimal option"
  | PortfolioMc "decimal option" "decimal option"
  | PortfolioMct

record Money =
  CurrencyCode :: string
  Units :: int
  Nanos :: int

record AccountResponse =
  arAccount :: string
  arEquity :: "decimal option"
  arUnrealized :: "decimal option"
  arPositions :: "AccountPosition list"
  arCash :: "Money list"
  arPortfolio :: Portfolio

text \<open>One row of the usage report.\<close>

record QuotaUsage =
  q_name :: string
  q_limit :: int
  q_remaining :: int
  q_reset :: time

subsection \<open>gRPC status codes\<close>

text \<open>
  \<open>status.Code\<close> of an error: \<open>OK\<close> for nil, the code of the status error found along the \<open>Unwrap\<close>
  chain, \<open>Unknown\<close> (2) where there is none. A leaf carries that code.
\<close>

fun status_of :: "go_error \<Rightarrow> nat" where
  "status_of (Leaf k m) = k"
| "status_of (Wrapped m e) = status_of e"
| "status_of (outcomeMarker e out) = status_of e"

definition code_Unknown :: nat where
  "code_Unknown = 2"

definition code_InvalidArgument :: nat where
  "code_InvalidArgument = 3"

definition code_DeadlineExceeded :: nat where
  "code_DeadlineExceeded = 4"

definition code_NotFound :: nat where
  "code_NotFound = 5"

definition code_AlreadyExists :: nat where
  "code_AlreadyExists = 6"

definition code_PermissionDenied :: nat where
  "code_PermissionDenied = 7"

definition code_ResourceExhausted :: nat where
  "code_ResourceExhausted = 8"

definition code_FailedPrecondition :: nat where
  "code_FailedPrecondition = 9"

definition code_OutOfRange :: nat where
  "code_OutOfRange = 11"

definition code_Unavailable :: nat where
  "code_Unavailable = 14"

definition code_Unauthenticated :: nat where
  "code_Unauthenticated = 16"

lemmas codes =
  code_Unknown_def
  code_InvalidArgument_def
  code_DeadlineExceeded_def
  code_NotFound_def
  code_AlreadyExists_def
  code_PermissionDenied_def
  code_ResourceExhausted_def
  code_FailedPrecondition_def
  code_OutOfRange_def
  code_Unavailable_def
  code_Unauthenticated_def

subsection \<open>Numbers as text\<close>

text \<open>
  Positional digits of a natural number, most significant first: \<open>itoa\<close> of the simulator with base
  10 and \<open>strconv.FormatInt\<close> and \<open>FormatUint\<close> with base 36 (digits 0-9 and a-z).
\<close>

definition digit :: "nat \<Rightarrow> char" where
  "digit d = char_of (if d < 10 then 48 + d else 87 + d)"

fun digits :: "nat \<Rightarrow> nat \<Rightarrow> string" where
  "digits b v = (if b < 2 \<or> v < b then [digit v] else digits b (v div b) @ [digit (v mod b)])"

declare digits.simps [simp del]

definition undigit :: "char \<Rightarrow> nat" where
  "undigit c = (let k = of_char c in if k < 87 then k - 48 else k - 87)"

definition number :: "nat \<Rightarrow> string \<Rightarrow> nat" where
  "number b cs = foldl (\<lambda>acc c. b * acc + undigit c) 0 cs"

lemma undigit_digit [simp]: "d < 36 \<Longrightarrow> undigit (digit d) = d"
  by (auto simp: undigit_def digit_def Let_def)

text \<open>Reading the digits back gives the number.\<close>

lemma number_digits [simp]:
  assumes "2 \<le> b" and "b \<le> 36"
  shows "number b (digits b v) = v"
proof (induction v rule: less_induct)
  case (less v)
  show ?case
  proof (cases "v < b")
    case True
    with assms show ?thesis by (subst digits.simps) (simp add: number_def)
  next
    case False
    with assms have "v div b < v" by (intro div_less_dividend) auto
    moreover have "v mod b < 36" using assms by (meson mod_less_divisor less_le_trans not_less zero_less_numeral)
    ultimately show ?thesis
      using False assms less [of "v div b"] undigit_digit [OF less_le_trans]
      by (subst digits.simps) (simp add: number_def)
  qed
qed

lemma digits_inj: "2 \<le> b \<Longrightarrow> b \<le> 36 \<Longrightarrow> digits b v = digits b w \<longleftrightarrow> v = w"
  by (metis number_digits)

lemma digits_nonempty [simp]: "digits b v \<noteq> []"
  by (subst digits.simps) simp

text \<open>A number below \<open>b ^ n\<close> has at most \<open>n\<close> digits, one at least \<open>b ^ (n - 1)\<close> at least \<open>n\<close>.\<close>

lemma digits_length_upper: "2 \<le> b \<Longrightarrow> v < b ^ n \<Longrightarrow> 0 < n \<Longrightarrow> length (digits b v) \<le> n"
proof (induction n arbitrary: v)
  case (Suc n)
  show ?case
  proof (cases "v < b")
    case False
    with Suc.prems have "v div b < b ^ n" "0 < n"
      by (simp_all add: less_mult_imp_div_less mult.commute, cases n) auto
    with Suc False show ?thesis by (subst digits.simps) simp
  qed (subst digits.simps, simp)
qed simp

lemma digits_length_lower: "2 \<le> b \<Longrightarrow> b ^ n \<le> v \<Longrightarrow> n < length (digits b v)"
proof (induction n arbitrary: v)
  case (Suc n)
  have "b \<le> b * b ^ n" using Suc.prems(1) by simp
  also have "\<dots> \<le> v" using Suc.prems(2) by simp
  finally have "b \<le> v" .
  moreover have "b ^ n \<le> v div b"
    using Suc.prems by (simp add: less_eq_div_iff_mult_less_eq mult.commute)
  ultimately show ?case using Suc by (subst digits.simps) simp
qed simp

lemma append_same_length:
  "length (xs :: 'a list) = length us \<Longrightarrow> xs @ ys = us @ vs \<longleftrightarrow> xs = us \<and> ys = vs"
  by simp

end
