(* ===== verification/SimBook.thy ===== *)
theory SimBook
  imports Wire
begin

text \<open>
  The simulator's public order book and tape of one symbol: \<open>brokersim/book.go\<close> and the market
  configuration of \<open>brokersim/sim.go\<close>. A \<open>map[float64]float64\<close> is an association list of prices and
  sizes, in the order in which \<open>range\<close> happens to visit it; the lemmas hold for every such list, and
  so for every iteration order. Functions that change a \<open>symbolState\<close> return it.
\<close>

type_synonym book = "(real \<times> real) list"
type_synonym Level = "real \<times> real"

text \<open>Reading a missing key of a Go map of floats gives 0.\<close>

definition size_at :: "book \<Rightarrow> real \<Rightarrow> real" where
  "size_at b p = (case map_of b p of Some v \<Rightarrow> v | None \<Rightarrow> 0)"

subsection \<open>Symbol state\<close>

record AutoMarketConfig =
  Enabled :: bool
  Mid :: real
  Spread :: real
  Step :: real
  Levels :: int
  LevelVol :: real
  Interval :: duration
  Walk :: real
  TradeProb :: real

record SymbolConfig =
  Symbol :: string
  MinStep :: real
  Decimals :: int
  LotSize :: real
  MarginPerLot :: real
  ExpirationDate :: string
  AutoMarket :: "AutoMarketConfig option"

text \<open>
  \<open>math/rand\<close>: the draws of a source are two unknown sequences, the numbers \<open>Float64\<close> yields in
  \<open>[0, 1)\<close> and the naturals \<open>Intn\<close> reduces, and the count of draws taken.
\<close>

record Rand =
  floats :: "nat \<Rightarrow> real"
  naturals :: "nat \<Rightarrow> nat"
  drawn :: nat

definition Float64 :: "Rand \<Rightarrow> real \<times> Rand" where
  "Float64 r = (floats r (drawn r), r\<lparr>drawn := drawn r + 1\<rparr>)"

definition Intn :: "nat \<Rightarrow> Rand \<Rightarrow> nat \<times> Rand" where
  "Intn n r = (naturals r (drawn r) mod n, r\<lparr>drawn := drawn r + 1\<rparr>)"

text \<open>
  \<open>autoLeaving\<close> is where the generator goroutine is, not a field of the struct: it has seen the market
  switched off and released the lock, and has not yet run its deferred \<open>autoRunning = false\<close>.
\<close>

record symbolState =
  st_cfg :: SymbolConfig
  bids :: book
  asks :: book
  last_price :: real
  tape :: "TapeTrade list"
  auto_cfg :: AutoMarketConfig
  autoMid :: real
  autoRunning :: bool
  autoLeaving :: bool
  rng :: Rand

definition noAuto :: AutoMarketConfig where
  "noAuto = \<lparr>Enabled = False, Mid = 0, Spread = 0, Step = 0, Levels = 0, LevelVol = 0, Interval = 0,
             Walk = 0, TradeProb = 0\<rparr>"

definition newSymbolState :: "Rand \<Rightarrow> SymbolConfig \<Rightarrow> symbolState" where
  "newSymbolState r c =
     (let au = (case AutoMarket c of None \<Rightarrow> noAuto | Some x \<Rightarrow> x)
      in \<lparr>st_cfg = c, bids = [], asks = [], last_price = 0, tape = [], auto_cfg = au,
          autoMid = (case AutoMarket c of None \<Rightarrow> 0 | Some x \<Rightarrow> Mid x), autoRunning = False, autoLeaving = False,
          rng = r\<rparr>)"

subsection \<open>Best prices and sorted levels\<close>

fun bestPrice_from :: "bool \<Rightarrow> book \<Rightarrow> real \<Rightarrow> bool \<Rightarrow> real \<times> bool" where
  "bestPrice_from highest [] best found = (best, found)"
| "bestPrice_from highest ((p, v) # ps) best found =
     (if v \<le> 0 then bestPrice_from highest ps best found
      else if \<not> found \<or> (highest \<and> p > best) \<or> (\<not> highest \<and> p < best)
      then bestPrice_from highest ps p True
      else bestPrice_from highest ps best found)"

definition bestPrice :: "book \<Rightarrow> bool \<Rightarrow> real \<times> bool" where
  "bestPrice b highest = bestPrice_from highest b 0 False"

definition bestBid :: "symbolState \<Rightarrow> real \<times> bool" where
  "bestBid st = bestPrice (bids st) True"

definition bestAsk :: "symbolState \<Rightarrow> real \<times> bool" where
  "bestAsk st = bestPrice (asks st) False"

definition sortedPrices :: "book \<Rightarrow> bool \<Rightarrow> real list" where
  "sortedPrices b descending =
     (let ps = sort (map fst (filter (\<lambda>(p, v). v > 0) b))
      in if descending then rev ps else ps)"

subsection \<open>Rows\<close>

definition bookRow :: "real \<Rightarrow> real \<Rightarrow> bool \<Rightarrow> RowAction \<Rightarrow> time \<Rightarrow> BookRow" where
  "bookRow price sz bid action now =
     \<lparr>rowPrice = dec price, rowAction = action,
      rowSide = (if bid then BuySize (dec sz) else SellSize (dec sz)), rowAt = now\<rparr>"

definition snapshotRows :: "symbolState \<Rightarrow> time \<Rightarrow> BookRow list" where
  "snapshotRows st now =
     map (\<lambda>p. bookRow p (size_at (bids st) p) True ACTION_ADD now) (sortedPrices (bids st) True) @
     map (\<lambda>p. bookRow p (size_at (asks st) p) False ACTION_ADD now) (sortedPrices (asks st) False)"

subsection \<open>Replacing the book\<close>

text \<open>The levels asked for: the last positive size given for a price counts.\<close>

fun wanted :: "Level list \<Rightarrow> book \<Rightarrow> book" where
  "wanted [] next = next"
| "wanted ((p, sz) # ls) next = wanted ls (if sz > 0 then AList.update p sz next else next)"

text \<open>The two loops of \<open>diffSide\<close>, over the old keys and over the wanted entries.\<close>

fun dropGone :: "book \<Rightarrow> bool \<Rightarrow> time \<Rightarrow> real list \<Rightarrow> book \<Rightarrow> book \<times> BookRow list" where
  "dropGone next bid now [] old = (old, [])"
| "dropGone next bid now (p # ps) old =
     (if map_of next p = None then
        (let (old', rows) = dropGone next bid now ps (AList.delete p old)
         in (old', bookRow p 0 bid ACTION_REMOVE now # rows))
      else dropGone next bid now ps old)"

fun addWanted :: "bool \<Rightarrow> time \<Rightarrow> book \<Rightarrow> book \<Rightarrow> book \<times> BookRow list" where
  "addWanted bid now [] old = (old, [])"
| "addWanted bid now ((p, sz) # ns) old =
     (if size_at old p \<noteq> sz then
        (let action = (if map_of old p = None then ACTION_ADD else ACTION_UPDATE);
             (old', rows) = addWanted bid now ns (AList.update p sz old)
         in (old', bookRow p sz bid action now # rows))
      else addWanted bid now ns old)"

definition diffSide :: "book \<Rightarrow> Level list \<Rightarrow> bool \<Rightarrow> time \<Rightarrow> book \<times> BookRow list" where
  "diffSide old levels bid now =
     (let next = wanted levels [];
          (old1, rows1) = dropGone next bid now (map fst old) old;
          (old2, rows2) = addWanted bid now next old1
      in (old2, rows1 @ rows2))"

definition setBook :: "symbolState \<Rightarrow> Level list \<Rightarrow> Level list \<Rightarrow> time \<Rightarrow> symbolState \<times> BookRow list" where
  "setBook st bs as now =
     (let (b', rows1) = diffSide (bids st) bs True now;
          (a', rows2) = diffSide (asks st) as False now
      in (st\<lparr>bids := b', asks := a'\<rparr>, rows1 @ rows2))"

subsection \<open>Taking liquidity\<close>

text \<open>
  The loop of \<open>consumeBounded\<close> over the sorted prices of the side a taker eats; the last price
  changes with every level taken.
\<close>

fun consumeLevels ::
  "bool \<Rightarrow> real \<Rightarrow> time \<Rightarrow> real list \<Rightarrow> real \<Rightarrow> book \<Rightarrow> real \<Rightarrow> book \<times> real \<times> Level list \<times> BookRow list" where
  "consumeLevels buy limit now [] remaining b lst = (b, lst, [], [])"
| "consumeLevels buy limit now (p # ps) remaining b lst =
     (if remaining \<le> 0 then (b, lst, [], [])
      else if limit > 0 \<and> ((buy \<and> p > limit) \<or> (\<not> buy \<and> p < limit)) then (b, lst, [], [])
      else
        let take = min (size_at b p) remaining;
            left = size_at b p - take;
            (b1, row) =
              (if left \<le> 0 then (AList.delete p b, bookRow p 0 (\<not> buy) ACTION_REMOVE now)
               else (AList.update p left b, bookRow p left (\<not> buy) ACTION_UPDATE now));
            (b2, lst2, fills, rows) = consumeLevels buy limit now ps (remaining - take) b1 p
        in (b2, lst2, (p, take) # fills, row # rows))"

definition consumeBounded ::
  "symbolState \<Rightarrow> bool \<Rightarrow> real \<Rightarrow> real \<Rightarrow> time \<Rightarrow> symbolState \<times> Level list \<times> BookRow list" where
  "consumeBounded st buy lots limit now =
     (let b = (if buy then asks st else bids st);
          (b', lst, fills, rows) =
            consumeLevels buy limit now (sortedPrices b (\<not> buy)) lots b (last_price st)
      in ((if buy then st\<lparr>asks := b', last_price := lst\<rparr> else st\<lparr>bids := b', last_price := lst\<rparr>),
          fills, rows))"

subsection \<open>A crossed book\<close>

definition crossRows :: "symbolState \<Rightarrow> time \<Rightarrow> symbolState \<times> BookRow list" where
  "crossRows st now =
     (let (best, ok) = bestAsk st;
          ask = (if ok then best else if last_price st = 0 then 100 else last_price st);
          step = (if MinStep (st_cfg st) = 0 then 1 else MinStep (st_cfg st));
          p = ask + step
      in (st\<lparr>bids := AList.update p 1 (bids st)\<rparr>, [bookRow p 1 True ACTION_ADD now]))"

subsection \<open>Tape and generated market\<close>

definition appendTape :: "symbolState \<Rightarrow> TapeTrade \<Rightarrow> symbolState" where
  "appendTape st t = st\<lparr>tape := tape st @ [t]\<rparr>"

definition publicTrade :: "string \<Rightarrow> real \<Rightarrow> real \<Rightarrow> Side \<Rightarrow> time \<Rightarrow> TapeTrade" where
  "publicTrade i price sz sd now =
     \<lparr>ttId = i, ttTime = now, ttPrice = dec price, ttSize = dec sz, ttSide = sd\<rparr>"

definition itoa :: "nat \<Rightarrow> string" where
  "itoa v = digits 10 v"

text \<open>\<open>int64\<close> of a float truncates toward zero.\<close>

definition quant :: "symbolState \<Rightarrow> real \<Rightarrow> real" where
  "quant st p =
     (let ms = MinStep (st_cfg st)
      in if ms \<le> 0 then p else real_of_int (trunc (p / ms + 1 / 2)) * ms)"

text \<open>
  One tick of the generated market. \<open>tid\<close> is the trade id the callback would mint; the last
  component says whether it was called.
\<close>

definition autoTick ::
  "symbolState \<Rightarrow> time \<Rightarrow> string \<Rightarrow> symbolState \<times> BookRow list \<times> TapeTrade list \<times> bool" where
  "autoTick st0 now tid =
     (let a = auto_cfg st0;
          st1 = (if Walk a > 0 then
                   (let (f, r) = Float64 (rng st0)
                    in st0\<lparr>autoMid := autoMid st0 + (f * 2 - 1) * Walk a, rng := r\<rparr>)
                 else st0);
          step = (if Step a \<le> 0 then 1 else Step a);
          levels = (if Levels a \<le> 0 then 5 else Levels a);
          vol = (if LevelVol a \<le> 0 then 100 else LevelVol a);
          half = (if Spread a / 2 \<le> 0 then step / 2 else Spread a / 2);
          bs = map (\<lambda>i. (quant st1 (autoMid st1 - half - real i * step), vol)) [0..<nat levels];
          as = map (\<lambda>i. (quant st1 (autoMid st1 + half + real i * step), vol)) [0..<nat levels];
          (st2, rows) = setBook st1 bs as now
      in if TradeProb a > 0 then
           (let (f, r1) = Float64 (rng st2)
            in if f < TradeProb a then
                 (let (g, r2) = Float64 r1;
                      sd = (if g < 1 / 2 then SIDE_SELL else SIDE_BUY);
                      price = (if g < 1 / 2 then fst (bs ! 0) else fst (as ! 0));
                      (k, r3) = Intn 10 r2;
                      tr = publicTrade tid price (real (1 + k)) sd now
                  in ((appendTape st2 tr)\<lparr>last_price := price, rng := r3\<rparr>, rows, [tr], True))
               else (st2\<lparr>rng := r1\<rparr>, rows, [], False))
         else (st2, rows, [], False))"

subsection \<open>Sides of the book\<close>

text \<open>A side holds every price once, with a positive size.\<close>

definition side_ok :: "book \<Rightarrow> bool" where
  "side_ok b \<longleftrightarrow> distinct (map fst b) \<and> (\<forall>(p, v) \<in> set b. v > 0)"

lemma side_ok_Nil [simp]: "side_ok []"
  by (simp add: side_ok_def)

lemma size_at_update [simp]: "size_at (AList.update p v b) q = (if q = p then v else size_at b q)"
  by (simp add: size_at_def update_conv')

lemma size_at_delete [simp]: "size_at (AList.delete p b) q = (if q = p then 0 else size_at b q)"
  by (simp add: size_at_def delete_conv')

lemma set_update_subset: "set (AList.update k v b) \<subseteq> insert (k, v) (set b)"
  by (induction b) auto

lemma distinct_map_fst_filter: "distinct (map fst b) \<Longrightarrow> distinct (map fst (filter f b))"
  by (induction b) auto

lemma side_ok_update [intro]: "side_ok b \<Longrightarrow> 0 < v \<Longrightarrow> side_ok (AList.update p v b)"
  using set_update_subset [of p v b] by (auto simp: side_ok_def distinct_update)

lemma side_ok_delete [intro]: "side_ok b \<Longrightarrow> side_ok (AList.delete p b)"
  by (auto simp: side_ok_def AList.delete_eq intro: distinct_map_fst_filter)

lemma side_ok_lookup: "side_ok b \<Longrightarrow> map_of b p = Some v \<Longrightarrow> 0 < v"
  by (auto simp: side_ok_def dest: map_of_SomeD)

lemma side_ok_size_nonneg: "side_ok b \<Longrightarrow> 0 \<le> size_at b p"
  using side_ok_lookup by (fastforce simp: size_at_def split: option.splits)

lemma side_ok_size_pos: "side_ok b \<Longrightarrow> 0 < size_at b p \<longleftrightarrow> p \<in> fst ` set b"
  using side_ok_lookup [of b p]
  by (cases "map_of b p") (auto simp: size_at_def map_of_eq_None_iff [THEN iffD2] map_of_eq_None_iff dest: map_of_SomeD intro: rev_image_eqI)

lemma side_ok_map_of: "side_ok b \<Longrightarrow> map_of b p = (if size_at b p = 0 then None else Some (size_at b p))"
  using side_ok_lookup [of b p] by (fastforce simp: size_at_def split: option.splits)

text \<open>Two sides of the same sizes are the same map.\<close>

lemma side_eqI: "side_ok b \<Longrightarrow> side_ok c \<Longrightarrow> size_at b = size_at c \<Longrightarrow> map_of b = map_of c"
  by (rule ext) (simp add: side_ok_map_of)

lemma side_keep_all: "side_ok b \<Longrightarrow> filter (\<lambda>(p, v). 0 < v) b = b"
  by (auto simp: side_ok_def intro!: filter_True)

lemma sortedPrices_set: "side_ok b \<Longrightarrow> set (sortedPrices b d) = {p. 0 < size_at b p}"
  by (auto simp: sortedPrices_def Let_def side_keep_all side_ok_size_pos)

lemma sortedPrices_distinct: "side_ok b \<Longrightarrow> distinct (sortedPrices b d)"
  by (simp add: sortedPrices_def Let_def side_keep_all side_ok_def)

lemma sortedPrices_sorted:
  "sorted_wrt (if d then (\<ge>) else (\<le>)) (sortedPrices b d)"
  by (simp add: sortedPrices_def Let_def sorted_wrt_rev)

subsection \<open>Best price\<close>

definition better :: "bool \<Rightarrow> real \<Rightarrow> real \<Rightarrow> bool" where
  "better h q r \<longleftrightarrow> (if h then r \<le> q else q \<le> r)"

lemma bestPrice_from_found:
  "bestPrice_from h b p True = (q, f) \<Longrightarrow>
     f \<and> better h q p \<and> (q = p \<or> (\<exists>v > 0. (q, v) \<in> set b)) \<and> (\<forall>(r, v) \<in> set b. 0 < v \<longrightarrow> better h q r)"
proof (induction b arbitrary: p)
  case (Cons x b)
  obtain r v where x: "x = (r, v)" by (cases x)
  show ?case
    using Cons.IH [of p] Cons.IH [of r] Cons.prems unfolding x
    by (cases "0 < v") (auto simp: better_def split: if_splits)
qed (simp add: better_def)

lemma bestPrice_from_start:
  "bestPrice_from h b z False = (q, f) \<Longrightarrow>
     (f \<longrightarrow> (\<exists>v > 0. (q, v) \<in> set b) \<and> (\<forall>(r, v) \<in> set b. 0 < v \<longrightarrow> better h q r)) \<and>
     (\<not> f \<longrightarrow> q = z \<and> (\<forall>(r, v) \<in> set b. v \<le> 0))"
proof (induction b)
  case (Cons x b)
  obtain r v where x: "x = (r, v)" by (cases x)
  show ?case
    using Cons bestPrice_from_found [of h b r q f] unfolding x
    by (cases "0 < v") (auto split: if_splits)
qed simp

text \<open>The best price is the first of the sorted prices, and there is none when no level is left.\<close>

lemma bestPrice_sorted:
  assumes ok: "side_ok b"
  shows "bestPrice b h = (case sortedPrices b h of [] \<Rightarrow> (0, False) | p # _ \<Rightarrow> (p, True))"
proof -
  obtain q f where best: "bestPrice b h = (q, f)" by (cases "bestPrice b h")
  have start: "bestPrice_from h b 0 False = (q, f)" using best by (simp add: bestPrice_def)
  have prices: "set (sortedPrices b h) = {p. \<exists>v > 0. (p, v) \<in> set b}"
    using ok by (force simp: sortedPrices_def Let_def)
  show ?thesis
  proof (cases "sortedPrices b h")
    case Nil
    with prices bestPrice_from_start [OF start] best show ?thesis by (cases f) auto
  next
    case (Cons p ps)
    then have "p \<in> set (sortedPrices b h)" by simp
    with prices obtain v where p: "0 < v" "(p, v) \<in> set b" by auto
    with bestPrice_from_start [OF start] have f: f by force
    with bestPrice_from_start [OF start] prices have "q \<in> set (sortedPrices b h)" by auto
    moreover have "better h q p" using bestPrice_from_start [OF start] f p by auto
    ultimately have "q = p"
      using sortedPrices_sorted [of h b] Cons by (auto simp: better_def split: if_splits)
    with f best Cons show ?thesis by simp
  qed
qed

subsection \<open>What \<open>setBook\<close> leaves\<close>

lemma wanted_ok: "side_ok nx \<Longrightarrow> side_ok (wanted ls nx)"
  by (induction ls nx rule: wanted.induct) (auto simp: side_ok_update)

lemma dropGone_ok: "side_ok old \<Longrightarrow> side_ok (fst (dropGone nx bid now ps old))"
  by (induction ps arbitrary: old) (auto simp: split_beta Let_def)

lemma dropGone_size:
  "size_at (fst (dropGone nx bid now ps old)) p =
     (if p \<in> set ps \<and> map_of nx p = None then 0 else size_at old p)"
  by (induction ps arbitrary: old) (auto simp: split_beta Let_def)

lemma addWanted_ok:
  "side_ok old \<Longrightarrow> \<forall>x \<in> set ns. 0 < snd x \<Longrightarrow> side_ok (fst (addWanted bid now ns old))"
  by (induction ns arbitrary: old) (auto simp: split_beta Let_def side_ok_update)

lemma addWanted_size:
  "distinct (map fst ns) \<Longrightarrow>
     size_at (fst (addWanted bid now ns old)) p =
       (case map_of ns p of Some v \<Rightarrow> v | None \<Rightarrow> size_at old p)"
proof (induction ns arbitrary: old)
  case (Cons x ns)
  obtain q v where x: "x = (q, v)" by (cases x)
  have "map_of ns q = None" using Cons.prems x by (simp add: map_of_eq_None_iff)
  with Cons.IH Cons.prems show ?case
    by (cases "map_of ns p"; cases "p = q") (auto simp: x split_beta Let_def)
qed simp

lemma side_ok_snd: "side_ok b \<longleftrightarrow> distinct (map fst b) \<and> (\<forall>x \<in> set b. 0 < snd x)"
  by (simp add: side_ok_def split_beta)

lemma diffSide_eq:
  "fst (diffSide old levels bid now) =
     fst (addWanted bid now (wanted levels []) (fst (dropGone (wanted levels []) bid now (map fst old) old)))"
  by (simp add: diffSide_def Let_def split_beta)

lemma wanted_distinct: "distinct (map fst (wanted ls []))" "\<forall>x \<in> set (wanted ls []). 0 < snd x"
  using wanted_ok [of "[]" ls] by (simp_all add: side_ok_snd)

lemma diffSide_ok: "side_ok old \<Longrightarrow> side_ok (fst (diffSide old levels bid now))"
  unfolding diffSide_eq by (intro addWanted_ok dropGone_ok wanted_distinct)

lemma diffSide_size:
  assumes "side_ok old"
  shows "size_at (fst (diffSide old levels bid now)) p = size_at (wanted levels []) p"
proof -
  have "size_at old p = 0" if "p \<notin> fst ` set old"
    using that side_ok_size_pos [OF assms, of p] side_ok_size_nonneg [OF assms, of p] by simp
  then show ?thesis
    unfolding diffSide_eq addWanted_size [OF wanted_distinct(1)] dropGone_size
    by (cases "map_of (wanted levels []) p") (simp_all add: size_at_def [of "wanted levels []"])
qed

definition book_ok :: "symbolState \<Rightarrow> bool" where
  "book_ok st \<longleftrightarrow> side_ok (bids st) \<and> side_ok (asks st)"

lemma setBook_eq:
  "fst (setBook st bs as now) =
     st\<lparr>bids := fst (diffSide (bids st) bs True now), asks := fst (diffSide (asks st) as False now)\<rparr>"
  "snd (setBook st bs as now) = snd (diffSide (bids st) bs True now) @ snd (diffSide (asks st) as False now)"
  by (simp_all add: setBook_def split_beta)

lemma setBook_ok: "book_ok st \<Longrightarrow> book_ok (fst (setBook st bs as now))"
  by (simp add: setBook_eq book_ok_def diffSide_ok)

lemma setBook_levels:
  "book_ok st \<Longrightarrow>
     map_of (bids (fst (setBook st bs as now))) = map_of (wanted bs []) \<and>
     map_of (asks (fst (setBook st bs as now))) = map_of (wanted as [])"
  by (auto simp: setBook_eq book_ok_def diffSide_size intro!: side_eqI diffSide_ok wanted_ok)

subsection \<open>What a taker gets\<close>

text \<open>The lots taken at a price and in all.\<close>

definition lots_at :: "Level list \<Rightarrow> real \<Rightarrow> real" where
  "lots_at fills p = sum_list (map snd (filter (\<lambda>(q, _). q = p) fills))"

definition lots_of :: "Level list \<Rightarrow> real" where
  "lots_of fills = sum_list (map snd fills)"

definition in_limit :: "bool \<Rightarrow> real \<Rightarrow> real \<Rightarrow> bool" where
  "in_limit buy limit p \<longleftrightarrow> \<not> (limit > 0 \<and> ((buy \<and> p > limit) \<or> (\<not> buy \<and> p < limit)))"

lemma lots_simps [simp]:
  "lots_at [] p = 0" "lots_of [] = 0" "lots_of (x # fs) = snd x + lots_of fs"
  "lots_at ((q, v) # fs) p = (if q = p then v + lots_at fs p else lots_at fs p)"
  by (simp_all add: lots_at_def lots_of_def)

lemma lots_at_nonneg: "\<forall>x \<in> set fs. 0 < snd x \<Longrightarrow> 0 \<le> lots_at fs p"
  by (induction fs) auto

lemma lots_at_absent: "\<forall>x \<in> set fs. fst x \<noteq> p \<Longrightarrow> lots_at fs p = 0"
  by (induction fs) auto

lemma consumeLevels_spec:
  assumes "consumeLevels buy limit now ps n b lst = (b', lst', fills, rows)"
    and "side_ok b" and "distinct ps" and "\<forall>p \<in> set ps. 0 < size_at b p"
  shows "side_ok b' \<and> (\<forall>p. size_at b p = size_at b' p + lots_at fills p) \<and>
    (\<forall>(p, v) \<in> set fills. p \<in> set ps \<and> 0 < v \<and> in_limit buy limit p) \<and>
    (0 \<le> n \<longrightarrow> 0 \<le> lots_of fills \<and> lots_of fills \<le> n)"
  using assms
proof (induction ps arbitrary: n b lst b' lst' fills rows)
  case (Cons p ps)
  show ?case
  proof (cases "n \<le> 0 \<or> \<not> in_limit buy limit p")
    case True
    then have "consumeLevels buy limit now (p # ps) n b lst = (b, lst, [], [])"
      by (auto simp: in_limit_def)
    with Cons.prems show ?thesis by (simp del: consumeLevels.simps)
  next
    case False
    define take where "take = min (size_at b p) n"
    define b1 where "b1 = (if size_at b p - take \<le> 0 then AList.delete p b
                           else AList.update p (size_at b p - take) b)"
    have take: "0 < take" "take \<le> n" "take \<le> size_at b p"
      using False Cons.prems(4) by (auto simp: take_def min_def)
    obtain fills' rows' where rest: "consumeLevels buy limit now ps (n - take) b1 p = (b', lst', fills', rows')"
      and fills: "fills = (p, take) # fills'"
      using Cons.prems(1) False
      by (auto simp: in_limit_def Let_def take_def b1_def split: prod.splits if_splits)
    have ok1: "side_ok b1" using Cons.prems(2) by (auto simp: b1_def)
    have size1: "size_at b1 q = (if q = p then size_at b p - take else size_at b q)" for q
      using take by (auto simp: b1_def)
    have pos1: "\<forall>q \<in> set ps. 0 < size_at b1 q" using Cons.prems(3,4) by (auto simp: size1)
    have IH: "side_ok b' \<and> (\<forall>q. size_at b1 q = size_at b' q + lots_at fills' q) \<and>
        (\<forall>(q, v) \<in> set fills'. q \<in> set ps \<and> 0 < v \<and> in_limit buy limit q) \<and>
        (0 \<le> n - take \<longrightarrow> 0 \<le> lots_of fills' \<and> lots_of fills' \<le> n - take)"
      by (rule Cons.IH [OF rest ok1 _ pos1]) (use Cons.prems(3) in simp)
    have "size_at b q = size_at b' q + lots_at fills q" for q
      using IH size1 [of q] by (auto simp: fills split: if_splits)
    with IH take False show ?thesis by (auto simp: fills)
  qed
qed auto

text \<open>A taker that goes short has emptied every level its limit allows.\<close>

lemma consumeLevels_exhausts:
  assumes "consumeLevels buy limit now ps n b lst = (b', lst', fills, rows)"
    and "sorted_wrt (if buy then (\<le>) else (\<ge>)) ps" and "distinct ps" and "\<forall>p \<in> set ps. 0 < size_at b p"
    and "side_ok b" and "lots_of fills < n" and "q \<in> set ps" and "in_limit buy limit q"
  shows "size_at b' q = 0"
  using assms
proof (induction ps arbitrary: n b lst b' lst' fills rows)
  case (Cons p ps)
  have p: "in_limit buy limit p"
    using Cons.prems(2,7,8) by (auto simp: in_limit_def split: if_splits)
  show ?case
  proof (cases "n \<le> 0")
    case True
    with Cons.prems show ?thesis by auto
  next
    case False
    define take where "take = min (size_at b p) n"
    define b1 where "b1 = (if size_at b p - take \<le> 0 then AList.delete p b
                           else AList.update p (size_at b p - take) b)"
    obtain fills' rows' where rest: "consumeLevels buy limit now ps (n - take) b1 p = (b', lst', fills', rows')"
      and fills: "fills = (p, take) # fills'"
      using Cons.prems(1) False p
      by (auto simp: in_limit_def Let_def take_def b1_def split: prod.splits if_splits)
    have size1: "size_at b1 r = (if r = p then size_at b p - take else size_at b r)" for r
      by (auto simp: b1_def take_def)
    have ok1: "side_ok b1" using Cons.prems(5) by (auto simp: b1_def)
    have pos1: "\<forall>r \<in> set ps. 0 < size_at b1 r" using Cons.prems(3,4) by (auto simp: size1)
    have short: "lots_of fills' < n - take" using Cons.prems(6) by (simp add: fills)
    have spec: "(\<forall>r. size_at b1 r = size_at b' r + lots_at fills' r) \<and>
        (\<forall>(r, v) \<in> set fills'. r \<in> set ps \<and> 0 < v \<and> in_limit buy limit r) \<and>
        (0 \<le> n - take \<longrightarrow> 0 \<le> lots_of fills')"
      using consumeLevels_spec [OF rest ok1 _ pos1] Cons.prems(3) by auto
    show ?thesis
    proof (cases "q = p")
      case True
      have "take = size_at b p" using short spec by (auto simp: take_def min_def split: if_splits)
      moreover have "lots_at fills' p = 0"
        using spec Cons.prems(3) by (intro lots_at_absent) auto
      ultimately show ?thesis using spec True size1 by (metis add.right_neutral cancel_comm_monoid_add_class.diff_cancel)
    next
      case False
      then show ?thesis
        by (intro Cons.IH [OF rest _ _ pos1 ok1 short]) (use Cons.prems in auto)
    qed
  qed
qed simp

lemma fills_in_order:
  "consumeLevels buy limit now ps n b lst = (b', lst', fills, rows) \<Longrightarrow>
     map fst fills = take (length fills) ps"
  by (induction ps arbitrary: n b lst b' lst' fills rows) (auto simp: Let_def split: prod.splits if_splits)

text \<open>The side a taker eats.\<close>

definition eaten :: "bool \<Rightarrow> symbolState \<Rightarrow> book" where
  "eaten buy st = (if buy then asks st else bids st)"

lemma consumeBounded_levels:
  assumes "consumeBounded st buy lots limit now = (st', fills, rows)"
  obtains b' lst where
    "consumeLevels buy limit now (sortedPrices (eaten buy st) (\<not> buy)) lots (eaten buy st) (last_price st) =
       (b', lst, fills, rows)"
    and "st' = (if buy then st\<lparr>asks := b', last_price := lst\<rparr> else st\<lparr>bids := b', last_price := lst\<rparr>)"
  using assms by (auto simp: consumeBounded_def eaten_def Let_def split: prod.splits)

lemma consumeBounded_ok:
  assumes ok: "book_ok st" and run: "consumeBounded st buy lots limit now = (st', fills, rows)"
  shows "book_ok st'" and "eaten (\<not> buy) st' = eaten (\<not> buy) st"
    and "size_at (eaten buy st) p = size_at (eaten buy st') p + lots_at fills p"
    and "\<forall>(p, v) \<in> set fills. 0 < v \<and> in_limit buy limit p"
    and "0 \<le> lots \<Longrightarrow> 0 \<le> lots_of fills \<and> lots_of fills \<le> lots"
    and "lots_of fills < lots \<Longrightarrow> in_limit buy limit p \<Longrightarrow> size_at (eaten buy st') p = 0"
    and "sorted_wrt (if buy then (\<le>) else (\<ge>)) (map fst fills)"
proof -
  obtain b' lst where
    loop: "consumeLevels buy limit now (sortedPrices (eaten buy st) (\<not> buy)) lots (eaten buy st) (last_price st) =
       (b', lst, fills, rows)"
    and st': "st' = (if buy then st\<lparr>asks := b', last_price := lst\<rparr> else st\<lparr>bids := b', last_price := lst\<rparr>)"
    using run by (rule consumeBounded_levels)
  have side: "side_ok (eaten buy st)" using ok by (simp add: eaten_def book_ok_def)
  have dist: "distinct (sortedPrices (eaten buy st) (\<not> buy))"
    and pos: "\<forall>p \<in> set (sortedPrices (eaten buy st) (\<not> buy)). 0 < size_at (eaten buy st) p"
    using sortedPrices_distinct [OF side] sortedPrices_set [OF side] by auto
  have b': "eaten buy st' = b'" by (simp add: st' eaten_def)
  note spec = consumeLevels_spec [OF loop side dist pos]
  show "book_ok st'" using ok spec by (auto simp: st' book_ok_def)
  show "eaten (\<not> buy) st' = eaten (\<not> buy) st" by (simp add: st' eaten_def)
  show eq: "size_at (eaten buy st) p = size_at (eaten buy st') p + lots_at fills p" for p
    using spec b' by blast
  show "\<forall>(p, v) \<in> set fills. 0 < v \<and> in_limit buy limit p" using spec by auto
  show "0 \<le> lots \<Longrightarrow> 0 \<le> lots_of fills \<and> lots_of fills \<le> lots" using spec by blast
  have sorted: "sorted_wrt (if buy then (\<le>) else (\<ge>)) (sortedPrices (eaten buy st) (\<not> buy))"
    using sortedPrices_sorted [of "\<not> buy" "eaten buy st"] by (cases buy) simp_all
  show "sorted_wrt (if buy then (\<le>) else (\<ge>)) (map fst fills)"
    using sorted fills_in_order [OF loop] by (metis sorted_wrt_take)
  show "size_at (eaten buy st') p = 0" if short: "lots_of fills < lots" and lim: "in_limit buy limit p"
  proof (cases "0 < size_at (eaten buy st) p")
    case True
    then have "p \<in> set (sortedPrices (eaten buy st) (\<not> buy))" by (simp add: sortedPrices_set [OF side])
    then show ?thesis
      using consumeLevels_exhausts [OF loop sorted dist pos side short _ lim] b' by simp
  next
    case False
    have "0 \<le> lots_at fills p" using spec by (intro lots_at_nonneg) auto
    moreover have "0 \<le> size_at b' p" using spec side_ok_size_nonneg by blast
    ultimately show ?thesis using False eq b' by simp
  qed
qed

subsection \<open>Property\<close>

text \<open>
  C22. A taker eats the book best price first, never past its limit and never more than its lots; each
  level loses exactly what was taken there, the other side is untouched, and if it goes short then no
  level its limit allows is left.
\<close>

theorem taker_eats_best_first:
  assumes "book_ok st" and "0 \<le> lots" and "consumeBounded st buy lots limit now = (st', fills, rows)"
  shows "book_ok st' \<and> eaten (\<not> buy) st' = eaten (\<not> buy) st \<and>
    (\<forall>p. size_at (eaten buy st) p = size_at (eaten buy st') p + lots_at fills p) \<and>
    (\<forall>(p, v) \<in> set fills. 0 < v \<and> in_limit buy limit p) \<and>
    sorted_wrt (if buy then (\<le>) else (\<ge>)) (map fst fills) \<and>
    lots_of fills \<le> lots \<and>
    (lots_of fills = lots \<or> (\<forall>p. in_limit buy limit p \<longrightarrow> size_at (eaten buy st') p = 0))"
  using consumeBounded_ok [OF assms(1,3)] assms(2) by (meson order_le_less)

theorem taker_eats_best_first_witness:
  "\<exists>st' fills rows.
     consumeBounded ((newSymbolState \<lparr>floats = (\<lambda>_. 0), naturals = (\<lambda>_. 0), drawn = 0\<rparr>
       \<lparr>Symbol = ''A'', MinStep = 1, Decimals = 0, LotSize = 1, MarginPerLot = 0,
          ExpirationDate = '''', AutoMarket = None\<rparr>)\<lparr>asks := [(102, 4), (101, 2)]\<rparr>)
       True 3 0 0 = (st', fills, rows) \<and> fills = [(101, 2), (102, 1)] \<and> lots_of fills \<le> 3"
proof -
  let ?st = "(newSymbolState \<lparr>floats = (\<lambda>_. 0), naturals = (\<lambda>_. 0), drawn = 0\<rparr>
       \<lparr>Symbol = ''A'', MinStep = 1, Decimals = 0, LotSize = 1, MarginPerLot = 0,
          ExpirationDate = '''', AutoMarket = None\<rparr>)\<lparr>asks := [(102, 4), (101, 2)]\<rparr>"
  have ok: "book_ok ?st" by (simp add: newSymbolState_def book_ok_def side_ok_def Let_def)
  obtain st' fills rows where run: "consumeBounded ?st True 3 0 0 = (st', fills, rows)"
    by (cases "consumeBounded ?st True 3 0 0")
  then have "fills = [(101, 2), (102, 1)]"
    by (auto simp: consumeBounded_def newSymbolState_def sortedPrices_def Let_def size_at_def)
  with taker_eats_best_first [OF ok _ run] run show ?thesis by auto
qed

end
