(* ===== verification/SimFaults.thy ===== *)
theory SimFaults
  imports Wire
begin

text \<open>
  Fault injection of the simulator: \<open>brokersim/faults.go\<close>. A rule matches a method, fires a bounded
  number of times or until it is removed, and yields a directive for one call. Each operation is one
  atomic step, as the table's mutex makes it. The uniform draws of the table's random source are the
  argument \<open>draws\<close>, one per rule with a probability strictly between 0 and 1 that is met.
\<close>

record Fault =
  f_ID :: int
  f_Method :: string
  f_Action :: string
  f_Code :: nat
  f_Message :: string
  f_Delay :: duration
  f_Count :: int
  f_Probability :: real

record faultTable =
  nextID :: int
  rules :: "Fault list"
  draws :: "nat \<Rightarrow> real"
  used_draws :: nat

datatype mangleID = mangleNone | mangleBlank | mangleReuse

record directive =
  d_err :: "go_error option"
  dropAfterApply :: bool
  d_delay :: duration
  d_silence :: bool
  d_dup :: bool
  d_mangle :: mangleID

definition noDirective :: directive where
  "noDirective = \<lparr>d_err = None, dropAfterApply = False, d_delay = 0, d_silence = False, d_dup = False,
     d_mangle = mangleNone\<rparr>"

definition validActions :: "string list" where
  "validActions =
     [''error'', ''drop_after_apply'', ''delay'', ''kill_stream'', ''silence'', ''dup_events'',
      ''blank_order_id'', ''reuse_order_id'']"

definition addFault :: "Fault \<Rightarrow> faultTable \<Rightarrow> (go_error + Fault) \<times> faultTable" where
  "addFault f ft =
     (if f_Action f \<notin> set validActions then (Inl (Leaf code_Unknown ''unknown fault action''), ft)
      else if f_Method f = '''' then (Inl (Leaf code_Unknown ''fault method is required''), ft)
      else
        let f1 = (if f_Count f = 0 then
                    f\<lparr>f_Count := (if f_Action f = ''silence'' \<or> f_Action f = ''dup_events'' then - 1 else 1)\<rparr>
                  else f);
            f2 = (if f_Code f1 = 0 then
                    f1\<lparr>f_Code := (if f_Action f1 = ''error'' then code_InvalidArgument else code_Unavailable)\<rparr>
                  else f1);
            f3 = (if f_Message f2 = '''' then f2\<lparr>f_Message := ''brokersim injected fault: '' @ f_Action f2\<rparr> else f2);
            f4 = f3\<lparr>f_ID := nextID ft + 1\<rparr>
        in (Inr f4, ft\<lparr>nextID := nextID ft + 1, rules := rules ft @ [f4]\<rparr>))"

fun removeRule :: "int \<Rightarrow> Fault list \<Rightarrow> nat \<times> Fault list" where
  "removeRule i [] = (0, [])"
| "removeRule i (r # rs) =
     (if f_ID r = i then (1, rs) else (let (n, rs') = removeRule i rs in (n, r # rs')))"

definition removeFault :: "int \<Rightarrow> faultTable \<Rightarrow> nat \<times> faultTable" where
  "removeFault i ft =
     (if i < 0 then (length (rules ft), ft\<lparr>rules := []\<rparr>)
      else (let (n, rs) = removeRule i (rules ft) in (n, ft\<lparr>rules := rs\<rparr>)))"

definition listFaults :: "faultTable \<Rightarrow> Fault list" where
  "listFaults ft = rules ft"

subsection \<open>Evaluating the rules\<close>

definition matches_method :: "string \<Rightarrow> Fault \<Rightarrow> bool" where
  "matches_method m r \<longleftrightarrow> f_Method r = ''*'' \<or> f_Method r = m"

text \<open>\<open>skipped\<close>: the draw decides against a rule with a proper probability; it uses up a draw.\<close>

definition skipped :: "Fault \<Rightarrow> (nat \<Rightarrow> real) \<Rightarrow> nat \<Rightarrow> bool \<times> nat" where
  "skipped r ds k =
     (if f_Probability r > 0 \<and> f_Probability r < 1 then (ds k \<ge> f_Probability r, k + 1) else (False, k))"

text \<open>The switch of \<open>gate\<close> on the action of a firing rule.\<close>

definition gateAction :: "Fault \<Rightarrow> directive \<Rightarrow> directive" where
  "gateAction r d =
     (let e = Some (Leaf (f_Code r) (f_Message r)); a = f_Action r
      in if a = ''error'' \<or> a = ''kill_stream'' then (if d_err d = None then d\<lparr>d_err := e\<rparr> else d)
         else if a = ''drop_after_apply'' then
           (if d_err d = None then d\<lparr>d_err := e, dropAfterApply := True\<rparr> else d)
         else if a = ''delay'' then d\<lparr>d_delay := d_delay d + f_Delay r\<rparr>
         else if a = ''silence'' then d\<lparr>d_silence := True\<rparr>
         else if a = ''dup_events'' then d\<lparr>d_dup := True\<rparr>
         else if a = ''blank_order_id'' then
           (if d_mangle d = mangleNone then d\<lparr>d_mangle := mangleBlank\<rparr> else d)
         else if a = ''reuse_order_id'' then
           (if d_mangle d = mangleNone then d\<lparr>d_mangle := mangleReuse\<rparr> else d)
         else d)"

text \<open>The loop of \<open>gate\<close>: the kept rules, the directive and the draws used.\<close>

fun gateLoop ::
  "string \<Rightarrow> (nat \<Rightarrow> real) \<Rightarrow> Fault list \<Rightarrow> directive \<Rightarrow> nat \<Rightarrow> Fault list \<times> directive \<times> nat" where
  "gateLoop m ds [] d k = ([], d, k)"
| "gateLoop m ds (r # rs) d k =
     (if \<not> matches_method m r then
        (let (kept, d', k') = gateLoop m ds rs d k in (r # kept, d', k'))
      else
        let (skip_it, k1) = skipped r ds k
        in if skip_it then (let (kept, d', k') = gateLoop m ds rs d k1 in (r # kept, d', k'))
           else if f_Count r = 0 then gateLoop m ds rs d k1
           else
             let r1 = (if f_Count r > 0 then r\<lparr>f_Count := f_Count r - 1\<rparr> else r);
                 (kept, d', k') = gateLoop m ds rs (gateAction r d) k1
             in (if f_Count r1 \<noteq> 0 then r1 # kept else kept, d', k'))"

definition gate :: "string \<Rightarrow> faultTable \<Rightarrow> directive \<times> faultTable" where
  "gate m ft =
     (let (kept, d, k) = gateLoop m (draws ft) (rules ft) noDirective (used_draws ft)
      in (d, ft\<lparr>rules := kept, used_draws := k\<rparr>))"

text \<open>\<open>peek\<close> uses nothing up.\<close>

fun peekLoop :: "string \<Rightarrow> Fault list \<Rightarrow> directive \<Rightarrow> directive" where
  "peekLoop m [] d = d"
| "peekLoop m (r # rs) d =
     (if \<not> matches_method m r \<or> f_Count r = 0 then peekLoop m rs d
      else peekLoop m rs
        (if f_Action r = ''silence'' then d\<lparr>d_silence := True\<rparr>
         else if f_Action r = ''dup_events'' then d\<lparr>d_dup := True\<rparr> else d))"

definition peek :: "string \<Rightarrow> faultTable \<Rightarrow> directive" where
  "peek m ft = peekLoop m (rules ft) noDirective"

text \<open>\<open>gateKill\<close> spends only the first firing \<open>kill_stream\<close> rule.\<close>

fun gateKillLoop ::
  "string \<Rightarrow> (nat \<Rightarrow> real) \<Rightarrow> Fault list \<Rightarrow> nat \<Rightarrow> Fault list \<times> go_error option \<times> nat" where
  "gateKillLoop m ds [] k = ([], None, k)"
| "gateKillLoop m ds (r # rs) k =
     (if \<not> matches_method m r \<or> f_Action r \<noteq> ''kill_stream'' \<or> f_Count r = 0 then
        (let (rs', e, k') = gateKillLoop m ds rs k in (r # rs', e, k'))
      else
        let (skip_it, k1) = skipped r ds k
        in if skip_it then (let (rs', e, k') = gateKillLoop m ds rs k1 in (r # rs', e, k'))
           else
             let r1 = (if f_Count r > 0 then r\<lparr>f_Count := f_Count r - 1\<rparr> else r)
             in (if f_Count r1 = 0 then rs else r1 # rs, Some (Leaf (f_Code r) (f_Message r)), k1))"

definition gateKill :: "string \<Rightarrow> faultTable \<Rightarrow> go_error option \<times> faultTable" where
  "gateKill m ft =
     (let (rs, e, k) = gateKillLoop m (draws ft) (rules ft) (used_draws ft)
      in (e, ft\<lparr>rules := rs, used_draws := k\<rparr>))"

subsection \<open>Entry of the handlers\<close>

text \<open>
  \<open>gateReadOnly\<close> and \<open>unaryGate\<close> also sleep for the delay; the delay is returned. The function
  \<open>after\<close> that \<open>unaryGate\<close> returns is the error it yields, nil for a normal answer.
\<close>

definition gateReadOnly :: "string \<Rightarrow> faultTable \<Rightarrow> (go_error option \<times> duration) \<times> faultTable" where
  "gateReadOnly m ft = (let (d, ft') = gate m ft in ((d_err d, d_delay d), ft'))"

datatype unary_gate =
    Abort go_error
  | Proceed "go_error option" mangleID

definition unaryGate :: "string \<Rightarrow> faultTable \<Rightarrow> (unary_gate \<times> duration) \<times> faultTable" where
  "unaryGate m ft =
     (let (d, ft') = gate m ft
      in ((case d_err d of
             Some e \<Rightarrow> if dropAfterApply d then Proceed (Some e) (d_mangle d) else Abort e
           | None \<Rightarrow> Proceed None (d_mangle d),
           d_delay d), ft'))"

end
