(* ===== verification/SimState.thy ===== *)
theory SimState
  imports SimBook SimFaults
begin

text \<open>
  The simulator's state and its bookkeeping: \<open>brokersim/sim.go\<close>, \<open>auth.go\<close>, \<open>accounts.go\<close> and the
  broadcasts of \<open>marketdata.go\<close>. Every operation runs under the simulator's mutex and is one step on
  the record \<open>Sim\<close>; the clock reads the same instant throughout one step. The simulator keeps
  pointers to orders in three places; here \<open>sim_orders\<close> holds the orders by id and the accounts hold
  ids. A Go map of subscribers is the list of them in the order \<open>range\<close> visits.
\<close>

datatype 'a outcome = Ok 'a | Err go_error | Panic

subsection \<open>Configuration\<close>

record AccountConfig =
  ac_secret :: string
  ac_id :: string
  InitialCash :: real
  PortfolioKind :: string

record Config =
  Accounts :: "AccountConfig list"
  Symbols :: "SymbolConfig list"
  TokenTTL :: duration
  ExecLatency :: duration
  CancelAsync :: bool
  HeartbeatInterval :: duration
  SessionType :: string
  PlaceQuotaLimit :: int
  PlaceQuotaWindow :: duration
  OrdersListIncludesTerminal :: bool
  TapeReplayDepth :: int
  AutoCreateSymbols :: "bool option"

text \<open>\<open>Duration.or\<close>\<close>

definition dur_or :: "duration \<Rightarrow> duration \<Rightarrow> duration" where
  "dur_or d def = (if d = 0 then def else d)"

definition tokenTTL :: "Config \<Rightarrow> duration" where
  "tokenTTL c = dur_or (TokenTTL c) (15 * 60 * second)"

definition execLatency :: "Config \<Rightarrow> duration" where
  "execLatency c = dur_or (ExecLatency c) (20 * millisecond)"

definition heartbeatInterval :: "Config \<Rightarrow> duration" where
  "heartbeatInterval c = dur_or (HeartbeatInterval c) (10 * second)"

definition cfgSessionType :: "Config \<Rightarrow> string" where
  "cfgSessionType c = (if SessionType c = '''' then ''CORE_TRADING'' else SessionType c)"

definition placeQuotaLimit :: "Config \<Rightarrow> int" where
  "placeQuotaLimit c = (if PlaceQuotaLimit c = 0 then 200 else PlaceQuotaLimit c)"

definition placeQuotaWindow :: "Config \<Rightarrow> duration" where
  "placeQuotaWindow c = dur_or (PlaceQuotaWindow c) (60 * second)"

definition ordersListIncludesTerminal :: "Config \<Rightarrow> bool" where
  "ordersListIncludesTerminal c = OrdersListIncludesTerminal c"

definition tapeReplayDepth :: "Config \<Rightarrow> int" where
  "tapeReplayDepth c = (if TapeReplayDepth c = 0 then 50 else TapeReplayDepth c)"

definition autoCreateSymbols :: "Config \<Rightarrow> bool" where
  "autoCreateSymbols c = (case AutoCreateSymbols c of None \<Rightarrow> True | Some b \<Rightarrow> b)"

subsection \<open>Accounts, orders, tokens\<close>

record position =
  pqty :: real
  pavg :: real

record account =
  a_id :: string
  a_secret :: string
  portfolioKind :: string
  cash :: real
  positions :: "string \<rightharpoonup> position"
  a_orders :: "string list"
  a_trades :: "AccountTrade list"
  clientIDs :: "string \<rightharpoonup> string"

record simOrder =
  o_id :: string
  execID :: string
  o_account :: string
  o_symbol :: string
  o_side :: Side
  o_typ :: OrderType
  o_tif :: TimeInForce
  clientOrderID :: string
  limitPrice :: real
  o_qty :: real
  executed :: real
  o_status :: OrderStatus
  placedAt :: time
  updatedAt :: time
  withdrawAt :: time

fun status_terminal :: "OrderStatus \<Rightarrow> bool" where
  "status_terminal ORDER_STATUS_FILLED = True"
| "status_terminal ORDER_STATUS_CANCELED = True"
| "status_terminal ORDER_STATUS_REJECTED = True"
| "status_terminal ORDER_STATUS_REJECTED_BY_EXCHANGE = True"
| "status_terminal ORDER_STATUS_DENIED_BY_BROKER = True"
| "status_terminal ORDER_STATUS_EXPIRED = True"
| "status_terminal ORDER_STATUS_FAILED = True"
| "status_terminal ORDER_STATUS_DONE_FOR_DAY = True"
| "status_terminal _ = False"

fun status_active :: "OrderStatus \<Rightarrow> bool" where
  "status_active ORDER_STATUS_NEW = True"
| "status_active ORDER_STATUS_PARTIALLY_FILLED = True"
| "status_active ORDER_STATUS_PENDING_CANCEL = True"
| "status_active _ = False"

definition terminal :: "simOrder \<Rightarrow> bool" where
  "terminal o' = status_terminal (o_status o')"

definition active :: "simOrder \<Rightarrow> bool" where
  "active o' = status_active (o_status o')"

definition orderState :: "simOrder \<Rightarrow> OrderState" where
  "orderState o' =
     \<lparr>osOrderId = o_id o', osExecId = execID o', osStatus = o_status o',
      osOrder = \<lparr>omAccount = o_account o', omSymbol = o_symbol o', omQuantity = dec (o_qty o'),
                 omLimitPrice = (if o_typ o' = ORDER_TYPE_LIMIT then dec (limitPrice o') else None),
                 omSide = o_side o', omType = o_typ o', omTif = o_tif o', omClientId = clientOrderID o'\<rparr>,
      osTransactAt = placedAt o', osWithdrawAt = withdrawAt o',
      osInitial = dec (o_qty o'), osExecuted = dec (executed o'),
      osRemaining = dec (o_qty o' - executed o')\<rparr>"

record token =
  t_account :: string
  createdAt :: time
  expiresAt :: time

record simTokenClaims =
  c_acc :: string
  c_seq :: nat
  c_iat :: int
  c_exp :: int

text \<open>
  \<open>encode\<close> is base64 of the JSON payload, \<open>decode\<close> base64 and JSON decoding (\<open>None\<close> where one of the
  two fails).
\<close>

record codec =
  encode :: "simTokenClaims \<Rightarrow> string"
  decode :: "string \<Rightarrow> simTokenClaims option"

subsection \<open>The simulator\<close>

text \<open>A subscriber: what it filters on (account or symbol), its channel and its token's deadline.\<close>

record 'a eventSub =
  es_key :: string
  es_queue :: "'a list"
  es_exp :: time

record Sim =
  s_cfg :: Config
  clock :: time
  accounts :: "string \<rightharpoonup> account"
  secrets :: "string \<rightharpoonup> string"
  tokens :: "(string \<times> token) list"
  tokenSeq :: nat
  revokeBefore :: int
  symbols :: "string \<rightharpoonup> symbolState"
  sim_orders :: "string \<rightharpoonup> simOrder"
  seq :: nat
  faults :: faultTable
  orderSubs :: "OrderState eventSub list"
  tradeSubs :: "AccountTrade eventSub list"
  accountSubs :: "unit eventSub list"
  bookSubs :: "(string \<times> BookRow list) eventSub list"
  tapeSubs :: "TapeTrade eventSub list"
  quotaUsed :: int
  quotaStart :: time
  placeCount :: int
  cancelCount :: int
  sessionType :: string
  execPending :: "string list"
  cancelPending :: "string list"
  newRand :: Rand

definition subBuffer :: nat where
  "subBuffer = 4096"

definition newAccount :: "AccountConfig \<Rightarrow> account" where
  "newAccount ac =
     \<lparr>a_id = ac_id ac, a_secret = ac_secret ac,
      portfolioKind = (if PortfolioKind ac = '''' then ''forts'' else PortfolioKind ac),
      cash = InitialCash ac, positions = Map.empty, a_orders = [], a_trades = [], clientIDs = Map.empty\<rparr>"

definition defaultAccount :: AccountConfig where
  "defaultAccount = \<lparr>ac_secret = ''sim-secret'', ac_id = ''SIM-1'', InitialCash = 1000000, PortfolioKind = ''''\<rparr>"

text \<open>\<open>NewSim\<close> at an instant; later entries of a configuration overwrite earlier ones of the same key.\<close>

text \<open>\<open>NewSim\<close> starts the generator of every symbol whose market is enabled.\<close>

definition startedSymbol :: "Rand \<Rightarrow> SymbolConfig \<Rightarrow> symbolState" where
  "startedSymbol r sc =
     (let st = newSymbolState r sc in st\<lparr>autoRunning := Enabled (auto_cfg st)\<rparr>)"

definition NewSim :: "Config \<Rightarrow> time \<Rightarrow> Rand \<Rightarrow> Sim" where
  "NewSim cfg now r =
     (let acs = (if Accounts cfg = [] then [defaultAccount] else Accounts cfg)
      in \<lparr>s_cfg = cfg, clock = now,
          accounts = foldl (\<lambda>m ac. m(ac_id ac \<mapsto> newAccount ac)) Map.empty acs,
          secrets = foldl (\<lambda>m ac. m(ac_secret ac \<mapsto> ac_id ac)) Map.empty acs,
          tokens = [], tokenSeq = 0, revokeBefore = 0,
          symbols = foldl (\<lambda>m sc. m(Symbol sc \<mapsto> startedSymbol r sc)) Map.empty (Symbols cfg),
          sim_orders = Map.empty, seq = 0,
          faults = \<lparr>nextID = 0, rules = [], draws = (\<lambda>_. 0), used_draws = 0\<rparr>,
          orderSubs = [], tradeSubs = [], accountSubs = [], bookSubs = [], tapeSubs = [],
          quotaUsed = 0, quotaStart = now, placeCount = 0, cancelCount = 0,
          sessionType = cfgSessionType cfg, execPending = [], cancelPending = [], newRand = r\<rparr>)"

definition countPlace :: "Sim \<Rightarrow> Sim" where
  "countPlace s = s\<lparr>placeCount := placeCount s + 1\<rparr>"

definition countCancel :: "Sim \<Rightarrow> Sim" where
  "countCancel s = s\<lparr>cancelCount := cancelCount s + 1\<rparr>"

text \<open>\<open>nextSeq\<close> counts in 64 bits; a run that wraps it would need more than \<open>10 ^ 19\<close> ids.\<close>

definition nextSeq :: "Sim \<Rightarrow> nat \<times> Sim" where
  "nextSeq s = (seq s + 1, s\<lparr>seq := seq s + 1\<rparr>)"

definition symbolLocked :: "string \<Rightarrow> Sim \<Rightarrow> symbolState option \<times> Sim" where
  "symbolLocked sy s =
     (case symbols s sy of
        Some st \<Rightarrow> (Some st, s)
      | None \<Rightarrow>
          if autoCreateSymbols (s_cfg s) then
            (let st = newSymbolState (newRand s)
                        \<lparr>Symbol = sy, MinStep = 0, Decimals = 0, LotSize = 0, MarginPerLot = 0,
                         ExpirationDate = '''', AutoMarket = None\<rparr>
             in (Some st, s\<lparr>symbols := (symbols s)(sy \<mapsto> st)\<rparr>))
          else (None, s))"

definition putSymbol :: "string \<Rightarrow> symbolState \<Rightarrow> Sim \<Rightarrow> Sim" where
  "putSymbol sy st s = s\<lparr>symbols := (symbols s)(sy \<mapsto> st)\<rparr>"

definition putOrder :: "simOrder \<Rightarrow> Sim \<Rightarrow> Sim" where
  "putOrder o' s = s\<lparr>sim_orders := (sim_orders s)(o_id o' \<mapsto> o')\<rparr>"

definition putAccount :: "account \<Rightarrow> Sim \<Rightarrow> Sim" where
  "putAccount a s = s\<lparr>accounts := (accounts s)(a_id a \<mapsto> a)\<rparr>"

subsection \<open>Broadcasts\<close>

text \<open>A non-blocking send on a channel of capacity \<open>cap\<close>: a full channel loses the event.\<close>

definition offer :: "nat \<Rightarrow> 'a \<Rightarrow> 'a list \<Rightarrow> 'a list" where
  "offer cap x q = (if length q < cap then q @ [x] else q)"

definition sendAll :: "nat \<Rightarrow> string \<Rightarrow> 'a \<Rightarrow> 'a eventSub list \<Rightarrow> 'a eventSub list" where
  "sendAll cap k x subs =
     map (\<lambda>sub. if es_key sub \<noteq> k then sub else sub\<lparr>es_queue := offer cap x (es_queue sub)\<rparr>) subs"

definition emitOrderLocked :: "simOrder \<Rightarrow> Sim \<Rightarrow> Sim" where
  "emitOrderLocked o' s = s\<lparr>orderSubs := sendAll subBuffer (o_account o') (orderState o') (orderSubs s)\<rparr>"

definition emitTradeLocked :: "AccountTrade \<Rightarrow> Sim \<Rightarrow> Sim" where
  "emitTradeLocked t s = s\<lparr>tradeSubs := sendAll subBuffer (atAccount t) t (tradeSubs s)\<rparr>"

definition emitAccountLocked :: "string \<Rightarrow> Sim \<Rightarrow> Sim" where
  "emitAccountLocked acc s = s\<lparr>accountSubs := sendAll 1 acc () (accountSubs s)\<rparr>"

definition broadcastBookLocked :: "string \<Rightarrow> BookRow list \<Rightarrow> Sim \<Rightarrow> Sim" where
  "broadcastBookLocked sy rows s =
     (if rows = [] then s else s\<lparr>bookSubs := sendAll subBuffer sy (sy, rows) (bookSubs s)\<rparr>)"

definition broadcastTapeLocked :: "string \<Rightarrow> TapeTrade \<Rightarrow> Sim \<Rightarrow> Sim" where
  "broadcastTapeLocked sy tr s = s\<lparr>tapeSubs := sendAll subBuffer sy tr (tapeSubs s)\<rparr>"

subsection \<open>Tokens\<close>

definition simTokenPrefix :: string where
  "simTokenPrefix = ''eyJhbGciOiJTSU0ifQ.''"

definition simTokenSuffix :: string where
  "simTokenSuffix = ''.sim''"

text \<open>Slicing \<open>raw[i:j]\<close> panics where \<open>j < i\<close>.\<close>

definition slice :: "string \<Rightarrow> nat \<Rightarrow> int \<Rightarrow> string outcome" where
  "slice raw i j = (if j < int i \<or> j > int (length raw) then Panic else Ok (drop i (take (nat j) raw)))"

definition hasPrefix :: "string \<Rightarrow> string \<Rightarrow> bool" where
  "hasPrefix raw p = (take (length p) raw = p)"

definition hasSuffix :: "string \<Rightarrow> string \<Rightarrow> bool" where
  "hasSuffix raw p = (length p \<le> length raw \<and> drop (length raw - length p) raw = p)"

definition parseToken :: "codec \<Rightarrow> string \<Rightarrow> simTokenClaims option outcome" where
  "parseToken K raw =
     (if \<not> hasPrefix raw simTokenPrefix \<or> \<not> hasSuffix raw simTokenSuffix then Ok None
      else (case slice raw (length simTokenPrefix) (int (length raw) - int (length simTokenSuffix)) of
              Ok payload \<Rightarrow>
                (case decode K payload of
                   None \<Rightarrow> Ok None
                 | Some c \<Rightarrow> if c_acc c = '''' \<or> c_exp c = 0 then Ok None else Ok (Some c))
            | Err e \<Rightarrow> Err e
            | Panic \<Rightarrow> Panic))"

text \<open>\<open>Auth\<close>: the token text, or the injected or real error.\<close>

definition Auth :: "codec \<Rightarrow> string \<Rightarrow> Sim \<Rightarrow> string outcome \<times> Sim" where
  "Auth K secret s0 =
     (let ((e, _), ft) = gateReadOnly ''Auth'' (faults s0); s = s0\<lparr>faults := ft\<rparr>
      in case e of
           Some err \<Rightarrow> (Err err, s)
         | None \<Rightarrow>
             (case secrets s secret of
                None \<Rightarrow> (Err (Leaf code_Unauthenticated ''invalid secret''), s)
              | Some acc \<Rightarrow>
                  (let sq = tokenSeq s + 1;
                       t = \<lparr>t_account = acc, createdAt = clock s, expiresAt = clock s + tokenTTL (s_cfg s)\<rparr>;
                       payload = encode K \<lparr>c_acc = acc, c_seq = sq, c_iat = UnixNano (clock s),
                                           c_exp = Unix (expiresAt t)\<rparr>;
                       value = simTokenPrefix @ payload @ simTokenSuffix
                   in (Ok value, s\<lparr>tokenSeq := sq, tokens := AList.update value t (tokens s)\<rparr>))))"

text \<open>The \<open>authorization\<close> values of the request's metadata.\<close>

definition bearerToken :: "string list \<Rightarrow> string" where
  "bearerToken vals =
     (case vals of [] \<Rightarrow> ''''
      | v # _ \<Rightarrow> if hasPrefix v ''Bearer '' then drop (length ''Bearer '') v else v)"

definition checkAuth :: "codec \<Rightarrow> string list \<Rightarrow> Sim \<Rightarrow> (string \<times> time) outcome" where
  "checkAuth K ctx s =
     (let raw = bearerToken ctx
      in if raw = '''' then Err (Leaf code_Unauthenticated ''missing authorization token'')
         else (case parseToken K raw of
                 Panic \<Rightarrow> Panic
               | Err e \<Rightarrow> Err e
               | Ok None \<Rightarrow> Err (Leaf code_Unauthenticated ''invalid token'')
               | Ok (Some c) \<Rightarrow>
                   (let deadline = (case map_of (tokens s) raw of
                                 Some t \<Rightarrow> expiresAt t | None \<Rightarrow> unixEpoch + c_exp c * second)
                    in if c_iat c \<le> revokeBefore s then Err (Leaf code_Unauthenticated ''token revoked'')
                       else if clock s > deadline then Err (Leaf code_Unauthenticated ''token expired'')
                       else Ok (c_acc c, deadline))))"

definition checkAccount :: "codec \<Rightarrow> string list \<Rightarrow> string \<Rightarrow> Sim \<Rightarrow> (account \<times> time) outcome" where
  "checkAccount K ctx accountID s =
     (case checkAuth K ctx s of
        Panic \<Rightarrow> Panic
      | Err e \<Rightarrow> Err e
      | Ok (tokenAcc, deadline) \<Rightarrow>
          (let acc = (if accountID = '''' then tokenAcc else accountID)
           in if acc \<noteq> tokenAcc then Err (Leaf code_PermissionDenied ''account is not available to this token'')
              else (case accounts s acc of
                      None \<Rightarrow> Err (Leaf code_NotFound ''account not found'')
                    | Some a \<Rightarrow> Ok (a, deadline))))"

definition killSubs :: "time \<Rightarrow> 'a eventSub list \<Rightarrow> 'a eventSub list" where
  "killSubs past subs = map (\<lambda>sub. sub\<lparr>es_exp := past\<rparr>) subs"

definition ExpireTokens :: "Sim \<Rightarrow> nat \<times> Sim" where
  "ExpireTokens s =
     (let past = clock s - second
      in (length (filter (\<lambda>(v, t). expiresAt t > past) (tokens s)),
          s\<lparr>revokeBefore := UnixNano (clock s),
            tokens := map (\<lambda>(v, t). (v, if expiresAt t > past then t\<lparr>expiresAt := past\<rparr> else t)) (tokens s),
            orderSubs := killSubs past (orderSubs s), tradeSubs := killSubs past (tradeSubs s),
            accountSubs := killSubs past (accountSubs s), bookSubs := killSubs past (bookSubs s),
            tapeSubs := killSubs past (tapeSubs s)\<rparr>))"

text \<open>The deadline of a stream, in nanoseconds: \<open>tokenExpiry.expired\<close>.\<close>

definition sub_expired :: "time \<Rightarrow> 'a eventSub \<Rightarrow> bool" where
  "sub_expired now sub \<longleftrightarrow> now > es_exp sub"

definition TokenDetails :: "codec \<Rightarrow> string \<Rightarrow> Sim \<Rightarrow> (time \<times> time \<times> string) outcome \<times> Sim" where
  "TokenDetails K raw s0 =
     (let ((e, _), ft) = gateReadOnly ''TokenDetails'' (faults s0); s = s0\<lparr>faults := ft\<rparr>
      in case e of
           Some err \<Rightarrow> (Err err, s)
         | None \<Rightarrow>
             (case map_of (tokens s) raw of
                Some t \<Rightarrow> (Ok (createdAt t, expiresAt t, t_account t), s)
              | None \<Rightarrow>
                  (case parseToken K raw of
                     Ok (Some c) \<Rightarrow> (Ok (unixEpoch + c_iat c, unixEpoch + c_exp c * second, c_acc c), s)
                   | Ok None \<Rightarrow> (Err (Leaf code_Unauthenticated ''unknown token''), s)
                   | Err err \<Rightarrow> (Err err, s)
                   | Panic \<Rightarrow> (Panic, s))))"

definition authSkipped :: "string \<Rightarrow> bool" where
  "authSkipped fullMethod = hasPrefix fullMethod ''/grpc.tradeapi.v1.auth.AuthService/''"

definition unaryAuthInterceptor ::
  "codec \<Rightarrow> string list \<Rightarrow> string \<Rightarrow> (Sim \<Rightarrow> 'a outcome \<times> Sim) \<Rightarrow> Sim \<Rightarrow> 'a outcome \<times> Sim" where
  "unaryAuthInterceptor K ctx fullMethod handler s =
     (if authSkipped fullMethod then handler s
      else (case checkAuth K ctx s of
              Ok _ \<Rightarrow> handler s
            | Err e \<Rightarrow> (Err e, s)
            | Panic \<Rightarrow> (Panic, s)))"

text \<open>The same for streams, checked once when the stream is set up.\<close>

definition streamAuthInterceptor ::
  "codec \<Rightarrow> string list \<Rightarrow> string \<Rightarrow> (Sim \<Rightarrow> 'a outcome \<times> Sim) \<Rightarrow> Sim \<Rightarrow> 'a outcome \<times> Sim" where
  "streamAuthInterceptor K ctx fullMethod handler s =
     (if authSkipped fullMethod then handler s
      else (case checkAuth K ctx s of
              Ok _ \<Rightarrow> handler s
            | Err e \<Rightarrow> (Err e, s)
            | Panic \<Rightarrow> (Panic, s)))"

subsection \<open>Quota\<close>

definition consumePlaceQuotaLocked :: "Sim \<Rightarrow> go_error option \<times> Sim" where
  "consumePlaceQuotaLocked s0 =
     (let s = (if time_sub (clock s0) (quotaStart s0) \<ge> placeQuotaWindow (s_cfg s0)
               then s0\<lparr>quotaStart := clock s0, quotaUsed := 0\<rparr> else s0)
      in if quotaUsed s \<ge> placeQuotaLimit (s_cfg s)
         then (Some (Leaf code_ResourceExhausted ''placeOrder quota exhausted''), s)
         else (None, s\<lparr>quotaUsed := quotaUsed s + 1\<rparr>))"

end
