(* ===== verification/SimOrders.thy ===== *)
theory SimOrders
  imports SimState
begin

text \<open>
  The orders service of the simulator and its matching: \<open>brokersim/orders.go\<close> and the matching of
  \<open>marketdata.go\<close>; the streams it serves are in \<open>SimControl\<close> and \<open>SimStreams\<close>. The goroutines
  that \<open>scheduleExec\<close> and an asynchronous cancel start are entries of \<open>execPending\<close> and
  \<open>cancelPending\<close>; \<open>runExec\<close> and \<open>runCancel\<close> are what each does once its timer fires, in any order.
\<close>

subsection \<open>Fills\<close>

definition absr :: "real \<Rightarrow> real" where
  "absr v = (if v < 0 then - v else v)"

definition signed_lots :: "Side \<Rightarrow> real \<Rightarrow> real" where
  "signed_lots sd lots = (if sd = SIDE_SELL then - lots else lots)"

text \<open>The position and the cash after a fill.\<close>

definition fillPosition :: "Side \<Rightarrow> real \<Rightarrow> real \<Rightarrow> position \<times> real \<Rightarrow> position \<times> real" where
  "fillPosition sd lots price pc =
     (let (pos, csh) = pc; sg = signed_lots sd lots
      in if pqty pos = 0 \<or> (pqty pos > 0) = (sg > 0) then
           (let total = absr (pqty pos) + lots
            in (\<lparr>pqty = pqty pos + sg, pavg = (pavg pos * absr (pqty pos) + price * lots) / total\<rparr>, csh))
         else
           (let closeLots = (if lots > absr (pqty pos) then absr (pqty pos) else lots);
                dir = (if pqty pos < 0 then - 1 else 1);
                csh' = csh + (price - pavg pos) * closeLots * dir;
                q = pqty pos + sg
            in (\<lparr>pqty = q, pavg = (if q = 0 then 0 else if (q > 0) \<noteq> (dir > 0) then price else pavg pos)\<rparr>, csh')))"

definition getPosition :: "account \<Rightarrow> string \<Rightarrow> position" where
  "getPosition a sy = (case positions a sy of Some p \<Rightarrow> p | None \<Rightarrow> \<lparr>pqty = 0, pavg = 0\<rparr>)"

definition applyFillToAccountLocked :: "account \<Rightarrow> string \<Rightarrow> Side \<Rightarrow> real \<Rightarrow> real \<Rightarrow> account" where
  "applyFillToAccountLocked a sy sd lots price =
     (let (pos, csh) = fillPosition sd lots price (getPosition a sy, cash a)
      in a\<lparr>positions := (positions a)(sy \<mapsto> pos), cash := csh\<rparr>)"

definition accountTrade :: "nat \<Rightarrow> simOrder \<Rightarrow> real \<Rightarrow> real \<Rightarrow> time \<Rightarrow> AccountTrade" where
  "accountTrade n o' lots price now =
     \<lparr>atId = ''AT'' @ itoa n, atSymbol = o_symbol o', atPrice = dec price, atSize = dec lots,
      atSide = o_side o', atTime = now, atOrderId = o_id o', atAccount = o_account o'\<rparr>"

text \<open>
  The account half of a fill, shared with \<open>InjectFill\<close>: position, cash and the trade of account \<open>a\<close>.
  The code dereferences the account of an order, which exists for every order.
\<close>

definition bookTrade :: "simOrder \<Rightarrow> real \<Rightarrow> real \<Rightarrow> time \<Rightarrow> Sim \<Rightarrow> AccountTrade \<times> Sim" where
  "bookTrade o' lots price now s0 =
     (let a = applyFillToAccountLocked (the (accounts s0 (o_account o'))) (o_symbol o') (o_side o') lots price;
          (n, s) = nextSeq s0;
          trade = accountTrade n o' lots price now
      in (trade, putAccount (a\<lparr>a_trades := a_trades a @ [trade]\<rparr>) s))"

definition fillOrderLocked :: "string \<Rightarrow> real \<Rightarrow> real \<Rightarrow> time \<Rightarrow> Sim \<Rightarrow> Sim" where
  "fillOrderLocked oid lots0 price now s0 =
     (case sim_orders s0 oid of
        None \<Rightarrow> s0
      | Some o0 \<Rightarrow>
          if lots0 \<le> 0 \<or> \<not> active o0 then s0
          else
            let rest = o_qty o0 - executed o0;
                lots = (if lots0 > rest then rest else lots0);
                (n, s1) = nextSeq s0;
                done' = executed o0 + lots;
                o1 = o0\<lparr>executed := done', updatedAt := now, execID := ''E'' @ itoa n,
                        o_status := (if done' \<ge> o_qty o0 then ORDER_STATUS_FILLED
                                     else ORDER_STATUS_PARTIALLY_FILLED)\<rparr>;
                s2 = putOrder o1 s1;
                (trade, s3) = bookTrade o1 lots price now s2;
                s4 = (case symbols s3 (o_symbol o1) of
                        Some st \<Rightarrow> putSymbol (o_symbol o1) (st\<lparr>last_price := price\<rparr>) s3 | None \<Rightarrow> s3)
            in emitAccountLocked (o_account o1) (emitTradeLocked trade (emitOrderLocked o1 s4)))"

subsection \<open>Matching\<close>

text \<open>The public prints and fills of a taker, one per level eaten.\<close>

fun takerFills :: "string \<Rightarrow> string \<Rightarrow> Side \<Rightarrow> time \<Rightarrow> Level list \<Rightarrow> Sim \<Rightarrow> Sim" where
  "takerFills oid sy sd now [] s = s"
| "takerFills oid sy sd now ((p, sz) # fs) s =
     (let (n, s1) = nextSeq s;
          tr = publicTrade (''T'' @ itoa n) p sz sd now;
          s2 = (case symbols s1 sy of
                  Some st \<Rightarrow> putSymbol sy (appendTape st tr) s1 | None \<Rightarrow> s1);
          s3 = broadcastTapeLocked sy tr s2
      in takerFills oid sy sd now fs (fillOrderLocked oid sz p now s3))"

text \<open>What an exchange or broker withdrawal leaves of an order.\<close>

definition withdrawn :: "OrderStatus \<Rightarrow> time \<Rightarrow> simOrder \<Rightarrow> simOrder" where
  "withdrawn st now o' = o'\<lparr>o_status := st, withdrawAt := now, updatedAt := now\<rparr>"

definition withdraw :: "OrderStatus \<Rightarrow> time \<Rightarrow> simOrder \<Rightarrow> Sim \<Rightarrow> Sim" where
  "withdraw st now o' s =
     (let o1 = withdrawn st now o' in emitOrderLocked o1 (putOrder o1 s))"

definition takerExecLocked :: "simOrder \<Rightarrow> symbolState \<Rightarrow> real \<Rightarrow> time \<Rightarrow> Sim \<Rightarrow> Sim" where
  "takerExecLocked o0 st limit now s0 =
     (let buy = (o_side o0 = SIDE_BUY);
          (st1, fills, rows) = consumeBounded st buy (o_qty o0 - executed o0) limit now;
          s1 = broadcastBookLocked (o_symbol o0) rows (putSymbol (o_symbol o0) st1 s0);
          s2 = takerFills (o_id o0) (o_symbol o0) (o_side o0) now fills s1
      in case sim_orders s2 (o_id o0) of
           None \<Rightarrow> s2
         | Some o1 \<Rightarrow>
             if o_typ o1 = ORDER_TYPE_MARKET \<and> active o1 then
               withdraw (if executed o1 = 0 then ORDER_STATUS_REJECTED_BY_EXCHANGE else ORDER_STATUS_CANCELED)
                 now o1 s2
             else s2)"

definition execOrderLocked :: "simOrder \<Rightarrow> Sim \<Rightarrow> Sim" where
  "execOrderLocked o' s =
     (if \<not> active o' then s
      else case symbols s (o_symbol o') of
        None \<Rightarrow> s
      | Some st \<Rightarrow>
          let now = clock s; buy = (o_side o' = SIDE_BUY)
          in if o_typ o' = ORDER_TYPE_LIMIT then
               let crossing =
                     (if buy then snd (bestAsk st) \<and> limitPrice o' \<ge> fst (bestAsk st)
                      else snd (bestBid st) \<and> limitPrice o' \<le> fst (bestBid st))
               in if o_tif o' = TIME_IN_FORCE_GOOD_TILL_CROSSING then
                    (if crossing then withdraw ORDER_STATUS_REJECTED_BY_EXCHANGE now o' s else s)
                  else if crossing then takerExecLocked o' st (limitPrice o') now s
                  else s
             else takerExecLocked o' st 0 now s)"

text \<open>
  \<open>ordersByTimeLocked\<close>: the accounts in the order \<open>accs\<close> in which the map is visited, then the
  insertion sort by placement time, which is stable as \<open>sort_key\<close> is.
\<close>

definition activeOf :: "string \<Rightarrow> Sim \<Rightarrow> account \<Rightarrow> simOrder list" where
  "activeOf sy s a =
     filter (\<lambda>o'. o_symbol o' = sy \<and> active o') (map (\<lambda>oid. the (sim_orders s oid)) (a_orders a))"

definition ordersByTimeLocked :: "string list \<Rightarrow> string \<Rightarrow> Sim \<Rightarrow> simOrder list" where
  "ordersByTimeLocked accs sy s =
     sort_key placedAt
       (concat (map (\<lambda>acc. case accounts s acc of Some a \<Rightarrow> activeOf sy s a | None \<Rightarrow> []) accs))"

text \<open>The loop of \<open>matchPublicPrintLocked\<close>; an order is read again when its turn comes.\<close>

fun matchLoop :: "real \<Rightarrow> time \<Rightarrow> string list \<Rightarrow> real \<Rightarrow> Sim \<Rightarrow> Sim" where
  "matchLoop price now [] sz s = s"
| "matchLoop price now (oid # oids) sz s =
     (if sz \<le> 0 then s
      else case sim_orders s oid of
        None \<Rightarrow> matchLoop price now oids sz s
      | Some o' \<Rightarrow>
          if \<not> active o' \<or> o_typ o' \<noteq> ORDER_TYPE_LIMIT then matchLoop price now oids sz s
          else if (o_side o' = SIDE_BUY \<and> limitPrice o' \<ge> price) \<or>
                  (o_side o' \<noteq> SIDE_BUY \<and> limitPrice o' \<le> price) then
            (let rest = o_qty o' - executed o';
                 lots = (if rest > sz then sz else rest)
             in matchLoop price now oids (sz - lots) (fillOrderLocked oid lots (limitPrice o') now s))
          else matchLoop price now oids sz s)"

definition matchPublicPrintLocked :: "string list \<Rightarrow> string \<Rightarrow> TapeTrade \<Rightarrow> Sim \<Rightarrow> Sim" where
  "matchPublicPrintLocked accs sy tr s =
     (let price = parseDec (ttPrice tr); sz = parseDec (ttSize tr)
      in if price \<le> 0 \<or> sz \<le> 0 then s
         else matchLoop price (clock s) (map o_id (ordersByTimeLocked accs sy s)) sz s)"

subsection \<open>PlaceOrder\<close>

definition maxClientOrderID :: nat where
  "maxClientOrderID = 20"

definition rpc_error :: "nat \<Rightarrow> string \<Rightarrow> go_error" where
  "rpc_error k m = Leaf k m"

text \<open>The checks on a request before the lock is taken: its lots and its limit price.\<close>

definition validateOrder :: "OrderMsg \<Rightarrow> go_error + real \<times> real" where
  "validateOrder req =
     (let qty = parseDec (omQuantity req)
      in if qty \<le> 0 then Inl (rpc_error code_InvalidArgument ''quantity must be positive'')
         else if omSide req \<noteq> SIDE_BUY \<and> omSide req \<noteq> SIDE_SELL then
           Inl (rpc_error code_InvalidArgument ''side must be BUY or SELL'')
         else if length (omClientId req) > maxClientOrderID then
           Inl (rpc_error code_InvalidArgument ''client_order_id too long'')
         else (case omType req of
             ORDER_TYPE_LIMIT \<Rightarrow>
               (let lp = parseDec (omLimitPrice req)
                in if lp \<le> 0 then Inl (rpc_error code_InvalidArgument ''limit order requires positive limit_price'')
                   else Inr (qty, lp))
           | ORDER_TYPE_MARKET \<Rightarrow> Inr (qty, 0)
           | ORDER_TYPE_OTHER k \<Rightarrow> Inl (rpc_error code_InvalidArgument ''order type is not supported by brokersim'')))"

definition newOrder :: "account \<Rightarrow> OrderMsg \<Rightarrow> real \<Rightarrow> real \<Rightarrow> Sim \<Rightarrow> simOrder \<times> Sim" where
  "newOrder acc req qty lp s0 =
     (let (n1, s1) = nextSeq s0;
          (n2, s2) = nextSeq s1;
          o' = \<lparr>o_id = itoa (100000000 + n1), execID = ''E'' @ itoa n2, o_account = a_id acc,
                o_symbol = omSymbol req, o_side = omSide req, o_typ = omType req, o_tif = omTif req,
                clientOrderID = omClientId req, limitPrice = lp, o_qty = qty, executed = 0,
                o_status = ORDER_STATUS_NEW, placedAt = clock s0, updatedAt = clock s0, withdrawAt = 0\<rparr>
      in if omClientId req = '''' then
           (let (n3, s3) = nextSeq s2 in (o'\<lparr>clientOrderID := ''b'' @ itoa n3\<rparr>, s3))
         else (o', s2))"

text \<open>The order is entered; the id of the answer may be mangled by a fault, the order's never is.\<close>

definition enterOrder :: "account \<Rightarrow> mangleID \<Rightarrow> simOrder \<Rightarrow> Sim \<Rightarrow> OrderState \<times> Sim" where
  "enterOrder acc mangle o' s =
     (let respOrderID = (case mangle of
            mangleNone \<Rightarrow> o_id o'
          | mangleBlank \<Rightarrow> ''''
          | mangleReuse \<Rightarrow> (if a_orders acc = [] then o_id o' else last (a_orders acc)));
          acc1 = acc\<lparr>a_orders := a_orders acc @ [o_id o'],
                     clientIDs := (clientIDs acc)(clientOrderID o' \<mapsto> o_id o')\<rparr>;
          s1 = emitOrderLocked o' (putAccount acc1 (putOrder o' s))
      in ((orderState o')\<lparr>osOrderId := respOrderID\<rparr>, s1))"

definition scheduleExec :: "string \<Rightarrow> Sim \<Rightarrow> Sim" where
  "scheduleExec oid s = s\<lparr>execPending := execPending s @ [oid]\<rparr>"

text \<open>What \<open>PlaceOrder\<close> does under the lock once the gate and the token let it pass.\<close>

definition placeLocked :: "account \<Rightarrow> OrderMsg \<Rightarrow> real \<Rightarrow> real \<Rightarrow> mangleID \<Rightarrow> Sim \<Rightarrow> OrderState outcome \<times> Sim" where
  "placeLocked acc req qty lp mangle s =
     (case symbolLocked (omSymbol req) s of
        (None, s1) \<Rightarrow> (Err (rpc_error code_NotFound ''unknown symbol''), s1)
      | (Some _, s1) \<Rightarrow>
          if omClientId req \<noteq> '''' \<and> clientIDs acc (omClientId req) \<noteq> None then
            (Err (rpc_error code_AlreadyExists ''client_order_id already used today''), s1)
          else
            (case consumePlaceQuotaLocked s1 of
               (Some e, s2) \<Rightarrow> (Err e, s2)
             | (None, s2) \<Rightarrow>
                 (let (o', s3) = newOrder acc req qty lp s2;
                      (resp, s4) = enterOrder acc mangle o' s3
                  in (Ok resp, scheduleExec (o_id o') s4))))"

definition PlaceOrder :: "codec \<Rightarrow> string list \<Rightarrow> OrderMsg \<Rightarrow> Sim \<Rightarrow> OrderState outcome \<times> Sim" where
  "PlaceOrder K ctx req s0 =
     (let s1 = countPlace s0;
          ((g, _), ft) = unaryGate ''PlaceOrder'' (faults s1);
          s2 = s1\<lparr>faults := ft\<rparr>
      in case g of
           Abort e \<Rightarrow> (Err e, s2)
         | Proceed after mangle \<Rightarrow>
             (case checkAccount K ctx (omAccount req) s2 of
                Panic \<Rightarrow> (Panic, s2)
              | Err e \<Rightarrow> (Err e, s2)
              | Ok (acc, _) \<Rightarrow>
                  (case validateOrder req of
                     Inl e \<Rightarrow> (Err e, s2)
                   | Inr (qty, lp) \<Rightarrow>
                       (case placeLocked acc req qty lp mangle s2 of
                          (Ok resp, s3) \<Rightarrow> (case after of Some e \<Rightarrow> (Err e, s3) | None \<Rightarrow> (Ok resp, s3))
                        | (r, s3) \<Rightarrow> (r, s3)))))"

text \<open>The goroutine of \<open>scheduleExec\<close> for the \<open>i\<close>-th pending order.\<close>

definition drop_nth :: "nat \<Rightarrow> 'a list \<Rightarrow> 'a list" where
  "drop_nth i xs = take i xs @ drop (Suc i) xs"

definition runExec :: "nat \<Rightarrow> Sim \<Rightarrow> Sim" where
  "runExec i s0 =
     (if i < length (execPending s0) then
        (let s = s0\<lparr>execPending := drop_nth i (execPending s0)\<rparr>
         in case sim_orders s (execPending s0 ! i) of
              Some o' \<Rightarrow> execOrderLocked o' s
            | None \<Rightarrow> s)
      else s0)"

subsection \<open>CancelOrder and the queries\<close>

definition CancelOrder :: "codec \<Rightarrow> string list \<Rightarrow> string \<Rightarrow> string \<Rightarrow> Sim \<Rightarrow> OrderState outcome \<times> Sim" where
  "CancelOrder K ctx accountID orderID s0 =
     (let s1 = countCancel s0;
          ((g, _), ft) = unaryGate ''CancelOrder'' (faults s1);
          s2 = s1\<lparr>faults := ft\<rparr>
      in case g of
           Abort e \<Rightarrow> (Err e, s2)
         | Proceed after mangle \<Rightarrow>
             (case checkAccount K ctx accountID s2 of
                Panic \<Rightarrow> (Panic, s2)
              | Err e \<Rightarrow> (Err e, s2)
              | Ok _ \<Rightarrow>
                  (case sim_orders s2 orderID of
                     None \<Rightarrow> (Err (rpc_error code_NotFound ''order not found''), s2)
                   | Some o' \<Rightarrow>
                       if o_account o' \<noteq> accountID then (Err (rpc_error code_NotFound ''order not found''), s2)
                       else if terminal o' then
                         (Err (rpc_error code_FailedPrecondition ''order is already terminal''), s2)
                       else
                         let now = clock s2;
                             (o1, s3) =
                               (if CancelAsync (s_cfg s2) then
                                  (let o1 = o'\<lparr>o_status := ORDER_STATUS_PENDING_CANCEL, updatedAt := now\<rparr>
                                   in (o1, (emitOrderLocked o1 (putOrder o1 s2))
                                             \<lparr>cancelPending := cancelPending s2 @ [orderID]\<rparr>))
                                else (withdrawn ORDER_STATUS_CANCELED now o',
                                      withdraw ORDER_STATUS_CANCELED now o' s2))
                         in (case after of
                               Some e \<Rightarrow> (Err e, s3)
                             | None \<Rightarrow> (Ok (orderState o1), s3)))))"

definition runCancel :: "nat \<Rightarrow> Sim \<Rightarrow> Sim" where
  "runCancel i s0 =
     (if i < length (cancelPending s0) then
        (let s = s0\<lparr>cancelPending := drop_nth i (cancelPending s0)\<rparr>
         in case sim_orders s (cancelPending s0 ! i) of
              Some o' \<Rightarrow> if active o' then withdraw ORDER_STATUS_CANCELED (clock s) o' s else s
            | None \<Rightarrow> s)
      else s0)"

definition GetOrder :: "codec \<Rightarrow> string list \<Rightarrow> string \<Rightarrow> string \<Rightarrow> Sim \<Rightarrow> OrderState outcome \<times> Sim" where
  "GetOrder K ctx accountID orderID s0 =
     (let ((e, _), ft) = gateReadOnly ''GetOrder'' (faults s0); s = s0\<lparr>faults := ft\<rparr>
      in case e of
           Some err \<Rightarrow> (Err err, s)
         | None \<Rightarrow>
             (case checkAccount K ctx accountID s of
                Panic \<Rightarrow> (Panic, s)
              | Err err \<Rightarrow> (Err err, s)
              | Ok _ \<Rightarrow>
                  (case sim_orders s orderID of
                     None \<Rightarrow> (Err (rpc_error code_NotFound ''order not found''), s)
                   | Some o' \<Rightarrow>
                       if o_account o' \<noteq> accountID then (Err (rpc_error code_NotFound ''order not found''), s)
                       else (Ok (orderState o'), s))))"

definition GetOrders :: "codec \<Rightarrow> string list \<Rightarrow> string \<Rightarrow> Sim \<Rightarrow> OrderState list outcome \<times> Sim" where
  "GetOrders K ctx accountID s0 =
     (let ((e, _), ft) = gateReadOnly ''GetOrders'' (faults s0); s = s0\<lparr>faults := ft\<rparr>
      in case e of
           Some err \<Rightarrow> (Err err, s)
         | None \<Rightarrow>
             (case checkAccount K ctx accountID s of
                Panic \<Rightarrow> (Panic, s)
              | Err err \<Rightarrow> (Err err, s)
              | Ok (acc, _) \<Rightarrow>
                  (Ok (map orderState
                        (filter (\<lambda>o'. ordersListIncludesTerminal (s_cfg s) \<or> \<not> terminal o')
                          (map (\<lambda>oid. the (sim_orders s oid)) (a_orders acc)))), s)))"

end
