(* ===== verification/SimControl.thy ===== *)
theory SimControl
  imports SimOrders
begin

text \<open>
  The control plane of the simulator, its account snapshots, the quota report, the generated market
  and the event streams: \<open>brokersim/control.go\<close>, \<open>accounts.go\<close>, \<open>assets.go\<close>, \<open>marketdata.go\<close>. The HTTP
  handlers of \<open>control.go\<close> that call these operations are in \<open>SimHttp\<close>, the loops that serve streams in \<open>SimStreams\<close>.
\<close>

subsection \<open>Market control\<close>

definition SetBook :: "string \<Rightarrow> Level list \<Rightarrow> Level list \<Rightarrow> Sim \<Rightarrow> go_error option \<times> Sim" where
  "SetBook sy bs as s0 =
     (case symbolLocked sy s0 of
        (None, s) \<Rightarrow> (Some (Leaf code_Unknown ''unknown symbol''), s)
      | (Some st, s) \<Rightarrow>
          (let (st', rows) = setBook st bs as (clock s)
           in (None, broadcastBookLocked sy rows (putSymbol sy st' s))))"

definition CrossBook :: "string \<Rightarrow> Sim \<Rightarrow> go_error option \<times> Sim" where
  "CrossBook sy s0 =
     (case symbolLocked sy s0 of
        (None, s) \<Rightarrow> (Some (Leaf code_Unknown ''unknown symbol''), s)
      | (Some st, s) \<Rightarrow>
          (let (st', rows) = crossRows st (clock s)
           in (None, broadcastBookLocked sy rows (putSymbol sy st' s))))"

definition PublicTrade :: "string list \<Rightarrow> string \<Rightarrow> real \<Rightarrow> real \<Rightarrow> bool \<Rightarrow> Sim \<Rightarrow> go_error option \<times> Sim" where
  "PublicTrade accs sy price sz buy s0 =
     (case symbolLocked sy s0 of
        (None, s) \<Rightarrow> (Some (Leaf code_Unknown ''unknown symbol''), s)
      | (Some st, s) \<Rightarrow>
          (let (n, s1) = nextSeq s;
               tr = publicTrade (''T'' @ itoa n) price sz (if buy then SIDE_BUY else SIDE_SELL) (clock s);
               s2 = putSymbol sy ((appendTape st tr)\<lparr>last_price := price\<rparr>) s1
           in (None, matchPublicPrintLocked accs sy tr (broadcastTapeLocked sy tr s2))))"

subsection \<open>Order control\<close>

text \<open>The price of a forced fill: the given one, else the limit, else the last price of the symbol.\<close>

definition forcedPrice :: "real \<Rightarrow> simOrder \<Rightarrow> Sim \<Rightarrow> real" where
  "forcedPrice price o' s =
     (if price \<le> 0 then
        (if limitPrice o' \<le> 0 then
           (case symbols s (o_symbol o') of Some st \<Rightarrow> last_price st | None \<Rightarrow> limitPrice o')
         else limitPrice o')
      else price)"

definition FillOrder :: "string \<Rightarrow> real \<Rightarrow> real \<Rightarrow> Sim \<Rightarrow> go_error option \<times> Sim" where
  "FillOrder oid lots0 price0 s =
     (case sim_orders s oid of
        None \<Rightarrow> (Some (Leaf code_Unknown ''order not found''), s)
      | Some o' \<Rightarrow>
          if \<not> active o' then (Some (Leaf code_Unknown ''order is not active''), s)
          else
            let lots = (if lots0 \<le> 0 then o_qty o' - executed o' else lots0);
                price = forcedPrice price0 o' s
            in if price \<le> 0 then (Some (Leaf code_Unknown ''no price for order''), s)
               else
                 let s1 = (case symbols s (o_symbol o') of
                             Some st \<Rightarrow>
                               (let (n, s') = nextSeq s;
                                    tr = publicTrade (''T'' @ itoa n) price lots (o_side o') (clock s)
                                in broadcastTapeLocked (o_symbol o') tr
                                     (putSymbol (o_symbol o') (appendTape st tr) s'))
                           | None \<Rightarrow> s)
                 in (None, fillOrderLocked oid lots price (clock s) s1))"

definition InjectFill :: "string \<Rightarrow> real \<Rightarrow> real \<Rightarrow> Sim \<Rightarrow> go_error option \<times> Sim" where
  "InjectFill oid lots price s =
     (case sim_orders s oid of
        None \<Rightarrow> (Some (Leaf code_Unknown ''order not found''), s)
      | Some o' \<Rightarrow>
          if lots \<le> 0 then (Some (Leaf code_Unknown ''lots must be positive''), s)
          else
            let (trade, s1) = bookTrade o' lots price (clock s) s
            in (None, emitAccountLocked (o_account o') (emitTradeLocked trade s1)))"

definition killStatuses :: "string \<rightharpoonup> OrderStatus" where
  "killStatuses = map_of
     [(''canceled'', ORDER_STATUS_CANCELED),
      (''rejected'', ORDER_STATUS_REJECTED),
      (''rejected_by_exchange'', ORDER_STATUS_REJECTED_BY_EXCHANGE),
      (''denied_by_broker'', ORDER_STATUS_DENIED_BY_BROKER),
      (''expired'', ORDER_STATUS_EXPIRED),
      (''failed'', ORDER_STATUS_FAILED),
      (''done_for_day'', ORDER_STATUS_DONE_FOR_DAY)]"

definition KillOrder :: "string \<Rightarrow> string \<Rightarrow> Sim \<Rightarrow> go_error option \<times> Sim" where
  "KillOrder oid how s =
     (case killStatuses how of
        None \<Rightarrow> (Some (Leaf code_Unknown ''unknown kill status''), s)
      | Some st \<Rightarrow>
          (case sim_orders s oid of
             None \<Rightarrow> (Some (Leaf code_Unknown ''order not found''), s)
           | Some o' \<Rightarrow>
               if \<not> active o' then (Some (Leaf code_Unknown ''order is not active''), s)
               else (None, withdraw st (clock s) o' s)))"

definition SetPosition :: "string \<Rightarrow> string \<Rightarrow> real \<Rightarrow> real \<Rightarrow> Sim \<Rightarrow> go_error option \<times> Sim" where
  "SetPosition accountID sy qty avg s0 =
     (case accounts s0 accountID of
        None \<Rightarrow> (Some (Leaf code_Unknown ''unknown account''), s0)
      | Some a \<Rightarrow>
          (case symbolLocked sy s0 of
             (None, s) \<Rightarrow> (Some (Leaf code_Unknown ''unknown symbol''), s)
           | (Some _, s) \<Rightarrow>
               (let a' = (if qty = 0 then a\<lparr>positions := (positions a)(sy := None)\<rparr>
                          else a\<lparr>positions := (positions a)(sy \<mapsto> \<lparr>pqty = qty, pavg = avg\<rparr>)\<rparr>)
                in (None, emitAccountLocked accountID (s\<lparr>accounts := (accounts s)(accountID \<mapsto> a')\<rparr>)))))"

definition SetSession :: "string \<Rightarrow> Sim \<Rightarrow> Sim" where
  "SetSession ty s = s\<lparr>sessionType := ty\<rparr>"

definition SetQuotaRemaining :: "int \<Rightarrow> Sim \<Rightarrow> Sim" where
  "SetQuotaRemaining remaining s =
     (let used = placeQuotaLimit (s_cfg s) - remaining
      in s\<lparr>quotaUsed := (if used < 0 then 0 else used), quotaStart := clock s\<rparr>)"

definition AddFault :: "Fault \<Rightarrow> Sim \<Rightarrow> (go_error + Fault) \<times> Sim" where
  "AddFault f s = (let (r, ft) = addFault f (faults s) in (r, s\<lparr>faults := ft\<rparr>))"

definition RemoveFault :: "int \<Rightarrow> Sim \<Rightarrow> nat \<times> Sim" where
  "RemoveFault i s = (let (n, ft) = removeFault i (faults s) in (n, s\<lparr>faults := ft\<rparr>))"

subsection \<open>The generated market\<close>

text \<open>\<open>startAutoMarket\<close>: whether a generator goroutine is started.\<close>

definition startAutoMarket :: "string \<Rightarrow> Sim \<Rightarrow> bool \<times> Sim" where
  "startAutoMarket sy s =
     (case symbols s sy of
        None \<Rightarrow> (False, s)
      | Some st \<Rightarrow>
          if \<not> Enabled (auto_cfg st) \<or> autoRunning st then (False, s)
          else (True, putSymbol sy (st\<lparr>autoRunning := True\<rparr>) s))"

text \<open>
  One tick of the generator. When the market was switched off it releases the lock and leaves its loop; the
  deferred function takes the lock again to clear \<open>autoRunning\<close>, and other operations may come in between.
\<close>

fun printAll :: "string list \<Rightarrow> string \<Rightarrow> TapeTrade list \<Rightarrow> Sim \<Rightarrow> Sim" where
  "printAll accs sy [] s = s"
| "printAll accs sy (tr # trs) s =
     printAll accs sy trs (matchPublicPrintLocked accs sy tr (broadcastTapeLocked sy tr s))"

definition autoMarketTick :: "string list \<Rightarrow> string \<Rightarrow> Sim \<Rightarrow> Sim" where
  "autoMarketTick accs sy s =
     (case symbols s sy of
        None \<Rightarrow> s
      | Some st \<Rightarrow>
          if \<not> autoRunning st \<or> autoLeaving st then s
          else if \<not> Enabled (auto_cfg st) then putSymbol sy (st\<lparr>autoLeaving := True\<rparr>) s
          else
            let (n, s1) = nextSeq s;
                (st', rows, prints, used) = autoTick st (clock s) (''T'' @ itoa n);
                s2 = putSymbol sy st' (if used then s1 else s)
            in printAll accs sy prints (broadcastBookLocked sy rows s2))"

definition autoMarketExit :: "string \<Rightarrow> Sim \<Rightarrow> Sim" where
  "autoMarketExit sy s =
     (case symbols s sy of
        None \<Rightarrow> s
      | Some st \<Rightarrow>
          if autoLeaving st then putSymbol sy (st\<lparr>autoRunning := False, autoLeaving := False\<rparr>) s
          else s)"

definition ConfigureAutoMarket :: "string \<Rightarrow> AutoMarketConfig \<Rightarrow> Sim \<Rightarrow> go_error option \<times> bool \<times> Sim" where
  "ConfigureAutoMarket sy cfg0 s0 =
     (case symbolLocked sy s0 of
        (None, s) \<Rightarrow> (Some (Leaf code_Unknown ''unknown symbol''), False, s)
      | (Some st, s) \<Rightarrow>
          (let cfg = (if Mid cfg0 = 0 then cfg0\<lparr>Mid := autoMid st\<rparr> else cfg0);
               s1 = putSymbol sy (st\<lparr>auto_cfg := cfg, autoMid := Mid cfg\<rparr>) s;
               (started, s2) = (if Enabled cfg then startAutoMarket sy s1 else (False, s1))
           in (None, started, s2)))"

text \<open>
  Switching the market on in that gap is lost: the call succeeds without starting a generator, since the
  leaving one still counts as running; once that has left, the market is enabled and nothing ticks.
\<close>

theorem reenable_lost:
  assumes "symbols s sy = Some st" and "autoRunning st" and "\<not> autoLeaving st" and "\<not> Enabled (auto_cfg st)"
    and "Enabled cfg"
  shows "let s1 = autoMarketTick accs sy s;
             (e, started, s2) = ConfigureAutoMarket sy cfg s1;
             s3 = autoMarketExit sy s2
         in e = None \<and> \<not> started \<and> autoMarketTick accs' sy s3 = s3 \<and>
            (\<exists>st'. symbols s3 sy = Some st' \<and> Enabled (auto_cfg st') \<and> \<not> autoRunning st')"
  using assms
  by (simp add: autoMarketTick_def ConfigureAutoMarket_def startAutoMarket_def autoMarketExit_def symbolLocked_def
      putSymbol_def Let_def)

text \<open>After the exit, or before the tick, it is not: a generator is started, or the running one goes on.\<close>

theorem reenable_started:
  assumes "symbols s sy = Some st" and "\<not> autoLeaving st" and "Enabled cfg"
  shows "\<exists>st'. symbols (snd (snd (ConfigureAutoMarket sy cfg s))) sy = Some st' \<and>
    Enabled (auto_cfg st') \<and> autoRunning st' \<and> \<not> autoLeaving st'"
  using assms by (simp add: ConfigureAutoMarket_def startAutoMarket_def symbolLocked_def putSymbol_def Let_def)

subsection \<open>Account snapshots\<close>

text \<open>The positions of an account with a non-zero size, in the order \<open>syms\<close> in which the map is visited.\<close>

definition lastOf :: "Sim \<Rightarrow> string \<Rightarrow> position \<Rightarrow> real" where
  "lastOf s sy p =
     (case symbols s sy of
        Some st \<Rightarrow> if last_price st > 0 then last_price st else pavg p
      | None \<Rightarrow> pavg p)"

definition unrealizedOf :: "Sim \<Rightarrow> string \<Rightarrow> position \<Rightarrow> real" where
  "unrealizedOf s sy p = (lastOf s sy p - pavg p) * pqty p"

definition reservedOf :: "Sim \<Rightarrow> string \<Rightarrow> position \<Rightarrow> real" where
  "reservedOf s sy p =
     (case symbols s sy of Some st \<Rightarrow> absr (pqty p) * MarginPerLot (st_cfg st) | None \<Rightarrow> 0)"

definition openPositions :: "string list \<Rightarrow> account \<Rightarrow> (string \<times> position) list" where
  "openPositions syms a =
     filter (\<lambda>(sy, p). pqty p \<noteq> 0)
       (concat (map (\<lambda>sy. case positions a sy of Some p \<Rightarrow> [(sy, p)] | None \<Rightarrow> []) syms))"

definition accountSnapshotLocked :: "string list \<Rightarrow> account \<Rightarrow> Sim \<Rightarrow> AccountResponse" where
  "accountSnapshotLocked syms a s =
     (let ps = openPositions syms a;
          unrealized = sum_list (map (\<lambda>(sy, p). unrealizedOf s sy p) ps);
          reserved = sum_list (map (\<lambda>(sy, p). reservedOf s sy p) ps);
          money = \<lparr>CurrencyCode = ''RUB'', Units = trunc (cash a),
                   Nanos = go_round ((cash a - real_of_int (trunc (cash a))) * 1000000000)\<rparr>
      in \<lparr>arAccount = a_id a, arEquity = dec (cash a + unrealized), arUnrealized = dec unrealized,
          arPositions = map (\<lambda>(sy, p). \<lparr>apSymbol = sy, apQuantity = dec (pqty p), apAverage = dec (pavg p),
                                        apCurrent = dec (lastOf s sy p),
                                        apUnrealized = dec (unrealizedOf s sy p)\<rparr>) ps,
          arCash = (if portfolioKind a = ''none'' then [] else [money]),
          arPortfolio =
            (if portfolioKind a = ''forts'' then PortfolioForts (dec (cash a - reserved)) (dec reserved)
             else if portfolioKind a = ''mc'' then PortfolioMc (dec (cash a - reserved)) (dec reserved)
             else NoPortfolio)\<rparr>)"

definition GetAccount :: "codec \<Rightarrow> string list \<Rightarrow> string list \<Rightarrow> string \<Rightarrow> Sim \<Rightarrow> AccountResponse outcome \<times> Sim" where
  "GetAccount K ctx syms accountID s0 =
     (let ((e, _), ft) = gateReadOnly ''GetAccount'' (faults s0); s = s0\<lparr>faults := ft\<rparr>
      in case e of
           Some err \<Rightarrow> (Err err, s)
         | None \<Rightarrow>
             (case checkAccount K ctx accountID s of
                Panic \<Rightarrow> (Panic, s)
              | Err err \<Rightarrow> (Err err, s)
              | Ok (acc, _) \<Rightarrow> (Ok (accountSnapshotLocked syms acc s), s)))"

subsection \<open>Schedule and quota report\<close>

text \<open>The one session of a \<open>Schedule\<close> answer: its type and the twelve hours around now.\<close>

definition Schedule :: "codec \<Rightarrow> string list \<Rightarrow> Sim \<Rightarrow> (string \<times> time \<times> time) outcome \<times> Sim" where
  "Schedule K ctx s0 =
     (let ((e, _), ft) = gateReadOnly ''Schedule'' (faults s0); s = s0\<lparr>faults := ft\<rparr>
      in case e of
           Some err \<Rightarrow> (Err err, s)
         | None \<Rightarrow>
             (case checkAuth K ctx s of
                Panic \<Rightarrow> (Panic, s)
              | Err err \<Rightarrow> (Err err, s)
              | Ok _ \<Rightarrow> (Ok (sessionType s, clock s - 12 * 3600 * second, clock s + 12 * 3600 * second), s)))"

definition GetUsageMetrics :: "codec \<Rightarrow> string list \<Rightarrow> Sim \<Rightarrow> QuotaUsage list outcome \<times> Sim" where
  "GetUsageMetrics K ctx s0 =
     (let ((e, _), ft) = gateReadOnly ''GetUsageMetrics'' (faults s0); s = s0\<lparr>faults := ft\<rparr>
      in case e of
           Some err \<Rightarrow> (Err err, s)
         | None \<Rightarrow>
             (case checkAuth K ctx s of
                Panic \<Rightarrow> (Panic, s)
              | Err err \<Rightarrow> (Err err, s)
              | Ok _ \<Rightarrow>
                  (let s1 = (if time_sub (clock s) (quotaStart s) \<ge> placeQuotaWindow (s_cfg s)
                             then s\<lparr>quotaStart := clock s, quotaUsed := 0\<rparr> else s);
                       limit = placeQuotaLimit (s_cfg s1);
                       remaining = limit - quotaUsed s1
                   in (Ok [\<lparr>q_name = ''OrdersService.placeOrder'', q_limit = limit,
                            q_remaining = (if remaining < 0 then 0 else remaining),
                            q_reset = quotaStart s1 + placeQuotaWindow (s_cfg s1)\<rparr>], s1))))"

subsection \<open>Streams\<close>

text \<open>
  \<open>streamSend\<close>: the messages that reach the client (none while silenced, two while duplicated) or the
  error that ends the stream.
\<close>

definition streamSend :: "string \<Rightarrow> 'a \<Rightarrow> faultTable \<Rightarrow> (go_error option \<times> 'a list) \<times> faultTable" where
  "streamSend m msg ft =
     (case gateKill m ft of
        (Some e, ft') \<Rightarrow> ((Some e, []), ft')
      | (None, ft') \<Rightarrow>
          (let d = peek m ft'
           in ((None, if d_silence d then [] else if d_dup d then [msg, msg] else [msg]), ft')))"

text \<open>The event and the token-check branch of \<open>runEventStream\<close>.\<close>

definition streamEvent ::
  "string \<Rightarrow> 'a eventSub \<Rightarrow> faultTable \<Rightarrow> (go_error option \<times> 'a list) \<times> 'a eventSub \<times> faultTable" where
  "streamEvent m sub ft =
     (case es_queue sub of
        [] \<Rightarrow> ((None, []), sub, ft)
      | ev # q \<Rightarrow> (let (r, ft') = streamSend m ev ft in (r, sub\<lparr>es_queue := q\<rparr>, ft')))"

definition streamCheck :: "string \<Rightarrow> time \<Rightarrow> 'a eventSub \<Rightarrow> faultTable \<Rightarrow> go_error option \<times> faultTable" where
  "streamCheck m now sub ft =
     (if sub_expired now sub then (Some (Leaf code_Unauthenticated ''token expired''), ft)
      else gateKill m ft)"

text \<open>
  Subscribing: the first message, none where there is nothing to replay, and the registered
  subscriber. A refused subscription registers nothing.
\<close>

definition SubscribeOrders ::
  "codec \<Rightarrow> string list \<Rightarrow> string \<Rightarrow> Sim \<Rightarrow> OrderState list outcome \<times> Sim" where
  "SubscribeOrders K ctx accountID s0 =
     (let ((e, _), ft) = gateReadOnly ''SubscribeOrders'' (faults s0); s = s0\<lparr>faults := ft\<rparr>
      in case e of
           Some err \<Rightarrow> (Err err, s)
         | None \<Rightarrow>
             (case checkAccount K ctx accountID s of
                Panic \<Rightarrow> (Panic, s)
              | Err err \<Rightarrow> (Err err, s)
              | Ok (acc, deadline) \<Rightarrow>
                  (Ok (map orderState (filter active (map (\<lambda>oid. the (sim_orders s oid)) (a_orders acc)))),
                   s\<lparr>orderSubs := orderSubs s @ [\<lparr>es_key = a_id acc, es_queue = [], es_exp = deadline\<rparr>]\<rparr>)))"

definition SubscribeTrades ::
  "codec \<Rightarrow> string list \<Rightarrow> string \<Rightarrow> Sim \<Rightarrow> AccountTrade list outcome \<times> Sim" where
  "SubscribeTrades K ctx accountID s0 =
     (let ((e, _), ft) = gateReadOnly ''SubscribeTrades'' (faults s0); s = s0\<lparr>faults := ft\<rparr>
      in case e of
           Some err \<Rightarrow> (Err err, s)
         | None \<Rightarrow>
             (case checkAccount K ctx accountID s of
                Panic \<Rightarrow> (Panic, s)
              | Err err \<Rightarrow> (Err err, s)
              | Ok (acc, deadline) \<Rightarrow>
                  (Ok (a_trades acc),
                   s\<lparr>tradeSubs := tradeSubs s @ [\<lparr>es_key = a_id acc, es_queue = [], es_exp = deadline\<rparr>]\<rparr>)))"

definition SubscribeAccount ::
  "codec \<Rightarrow> string list \<Rightarrow> string list \<Rightarrow> string \<Rightarrow> Sim \<Rightarrow> AccountResponse outcome \<times> Sim" where
  "SubscribeAccount K ctx syms accountID s0 =
     (let ((e, _), ft) = gateReadOnly ''SubscribeAccount'' (faults s0); s = s0\<lparr>faults := ft\<rparr>
      in case e of
           Some err \<Rightarrow> (Err err, s)
         | None \<Rightarrow>
             (case checkAccount K ctx accountID s of
                Panic \<Rightarrow> (Panic, s)
              | Err err \<Rightarrow> (Err err, s)
              | Ok (acc, deadline) \<Rightarrow>
                  (Ok (accountSnapshotLocked syms acc s),
                   s\<lparr>accountSubs := accountSubs s @ [\<lparr>es_key = a_id acc, es_queue = [], es_exp = deadline\<rparr>]\<rparr>)))"

definition SubscribeOrderBook ::
  "codec \<Rightarrow> string list \<Rightarrow> string \<Rightarrow> Sim \<Rightarrow> (string \<times> BookRow list) outcome \<times> Sim" where
  "SubscribeOrderBook K ctx sy s0 =
     (let ((e, _), ft) = gateReadOnly ''SubscribeOrderBook'' (faults s0); s = s0\<lparr>faults := ft\<rparr>
      in case e of
           Some err \<Rightarrow> (Err err, s)
         | None \<Rightarrow>
             (case checkAuth K ctx s of
                Panic \<Rightarrow> (Panic, s)
              | Err err \<Rightarrow> (Err err, s)
              | Ok (_, deadline) \<Rightarrow>
                  (case symbolLocked sy s of
                     (None, s1) \<Rightarrow> (Err (rpc_error code_NotFound ''unknown symbol''), s1)
                   | (Some st, s1) \<Rightarrow>
                       (Ok (sy, snapshotRows st (clock s1)),
                        s1\<lparr>bookSubs := bookSubs s1 @ [\<lparr>es_key = sy, es_queue = [], es_exp = deadline\<rparr>]\<rparr>))))"

definition SubscribeLatestTrades ::
  "codec \<Rightarrow> string list \<Rightarrow> string \<Rightarrow> Sim \<Rightarrow> TapeTrade list outcome \<times> Sim" where
  "SubscribeLatestTrades K ctx sy s0 =
     (let ((e, _), ft) = gateReadOnly ''SubscribeLatestTrades'' (faults s0); s = s0\<lparr>faults := ft\<rparr>
      in case e of
           Some err \<Rightarrow> (Err err, s)
         | None \<Rightarrow>
             (case checkAuth K ctx s of
                Panic \<Rightarrow> (Panic, s)
              | Err err \<Rightarrow> (Err err, s)
              | Ok (_, deadline) \<Rightarrow>
                  (case symbolLocked sy s of
                     (None, s1) \<Rightarrow> (Err (rpc_error code_NotFound ''unknown symbol''), s1)
                   | (Some st, s1) \<Rightarrow>
                       (let start = int (length (tape st)) - tapeReplayDepth (s_cfg s1)
                        in if start > int (length (tape st)) then (Panic, s1)
                           else (Ok (drop (nat (if start < 0 then 0 else start)) (tape st)),
                            s1\<lparr>tapeSubs := tapeSubs s1 @ [\<lparr>es_key = sy, es_queue = [], es_exp = deadline\<rparr>]\<rparr>)))))"

end
