(* ===== verification/SimMoves.thy ===== *)
theory SimMoves
  imports SimControl "HOL-Library.Sublist"
begin

text \<open>
  What can happen to the simulator, one atomic operation at a time, and the moves of which every
  operation is made: an order is entered, filled or withdrawn, a cancel is announced, a trade is
  injected, a position is set. The locales state what an invariant has to survive; the lemmas inside
  show that it then survives every operation.
\<close>

datatype sim_op =
    OpAuth string
  | OpPlace "string list" OrderMsg
  | OpCancel "string list" string string
  | OpGetOrder "string list" string string
  | OpGetOrders "string list" string
  | OpGetAccount "string list" "string list" string
  | OpUsage "string list"
  | OpSchedule "string list"
  | OpDetails string
  | OpSubOrders "string list" string
  | OpSubTrades "string list" string
  | OpSubAccount "string list" "string list" string
  | OpSubBook "string list" string
  | OpSubTape "string list" string
  | OpExec nat
  | OpCancelDone nat
  | OpSetBook string "Level list" "Level list"
  | OpCrossBook string
  | OpPrint "string list" string real real bool
  | OpForceFill string real real
  | OpInject string real real
  | OpKill string string
  | OpSetPosition string string real real
  | OpSession string
  | OpQuota int
  | OpAddFault Fault
  | OpRemoveFault int
  | OpExpire
  | OpTickMarket "string list" string
  | OpExitMarket string
  | OpConfigure string AutoMarketConfig
  | OpElapse duration

fun sim_step :: "codec \<Rightarrow> sim_op \<Rightarrow> Sim \<Rightarrow> Sim" where
  "sim_step K (OpAuth secret) s = snd (Auth K secret s)"
| "sim_step K (OpPlace ctx req) s = snd (PlaceOrder K ctx req s)"
| "sim_step K (OpCancel ctx acc oid) s = snd (CancelOrder K ctx acc oid s)"
| "sim_step K (OpGetOrder ctx acc oid) s = snd (GetOrder K ctx acc oid s)"
| "sim_step K (OpGetOrders ctx acc) s = snd (GetOrders K ctx acc s)"
| "sim_step K (OpGetAccount ctx syms acc) s = snd (GetAccount K ctx syms acc s)"
| "sim_step K (OpUsage ctx) s = snd (GetUsageMetrics K ctx s)"
| "sim_step K (OpSchedule ctx) s = snd (Schedule K ctx s)"
| "sim_step K (OpDetails raw) s = snd (TokenDetails K raw s)"
| "sim_step K (OpSubOrders ctx acc) s = snd (SubscribeOrders K ctx acc s)"
| "sim_step K (OpSubTrades ctx acc) s = snd (SubscribeTrades K ctx acc s)"
| "sim_step K (OpSubAccount ctx syms acc) s = snd (SubscribeAccount K ctx syms acc s)"
| "sim_step K (OpSubBook ctx sy) s = snd (SubscribeOrderBook K ctx sy s)"
| "sim_step K (OpSubTape ctx sy) s = snd (SubscribeLatestTrades K ctx sy s)"
| "sim_step K (OpExec i) s = runExec i s"
| "sim_step K (OpCancelDone i) s = runCancel i s"
| "sim_step K (OpSetBook sy bs as) s = snd (SetBook sy bs as s)"
| "sim_step K (OpCrossBook sy) s = snd (CrossBook sy s)"
| "sim_step K (OpPrint accs sy price sz buy) s = snd (PublicTrade accs sy price sz buy s)"
| "sim_step K (OpForceFill oid lots price) s = snd (FillOrder oid lots price s)"
| "sim_step K (OpInject oid lots price) s = snd (InjectFill oid lots price s)"
| "sim_step K (OpKill oid how) s = snd (KillOrder oid how s)"
| "sim_step K (OpSetPosition acc sy qty avg) s = snd (SetPosition acc sy qty avg s)"
| "sim_step K (OpSession ty) s = SetSession ty s"
| "sim_step K (OpQuota n) s = SetQuotaRemaining n s"
| "sim_step K (OpAddFault f) s = snd (AddFault f s)"
| "sim_step K (OpRemoveFault i) s = snd (RemoveFault i s)"
| "sim_step K OpExpire s = snd (ExpireTokens s)"
| "sim_step K (OpTickMarket accs sy) s = autoMarketTick accs sy s"
| "sim_step K (OpExitMarket sy) s = autoMarketExit sy s"
| "sim_step K (OpConfigure sy cfg) s = snd (snd (ConfigureAutoMarket sy cfg s))"
| "sim_step K (OpElapse d) s = (if 0 \<le> d then s\<lparr>clock := clock s + d\<rparr> else s)"

definition sim_run :: "codec \<Rightarrow> sim_op list \<Rightarrow> Sim \<Rightarrow> Sim" where
  "sim_run K ops s = fold (sim_step K) ops s"

lemma sim_run_Cons: "sim_run K (op # ops) s = sim_run K ops (sim_step K op s)"
  by (simp add: sim_run_def)

fun injects :: "sim_op \<Rightarrow> bool" where
  "injects (OpInject oid lots price) = True"
| "injects _ = False"

fun sets_position :: "sim_op \<Rightarrow> bool" where
  "sets_position (OpSetPosition acc sy qty avg) = True"
| "sets_position _ = False"

fun places :: "sim_op \<Rightarrow> bool" where
  "places (OpPlace ctx req) = True"
| "places _ = False"

subsection \<open>Frames\<close>

text \<open>\<open>still s s'\<close>: the orders and accounts are untouched, at most ids were used up.\<close>

definition still :: "Sim \<Rightarrow> Sim \<Rightarrow> bool" where
  "still s s' \<longleftrightarrow> accounts s' = accounts s \<and> sim_orders s' = sim_orders s \<and> seq s \<le> seq s'"

lemma still_refl [simp, intro]: "still s s"
  by (simp add: still_def)

lemma still_trans [trans]: "still s t \<Longrightarrow> still t u \<Longrightarrow> still s u"
  by (simp add: still_def)

text \<open>
  \<open>calm s s'\<close>: besides, the subscriptions to own trades are as they were, those of new subscribers added;
  \<open>subViews\<close> shows of each its account and what waits in its channel.
\<close>

definition subViews :: "Sim \<Rightarrow> (string \<times> AccountTrade list) list" where
  "subViews s = map (\<lambda>sub. (es_key sub, es_queue sub)) (tradeSubs s)"

definition calm :: "Sim \<Rightarrow> Sim \<Rightarrow> bool" where
  "calm s s' \<longleftrightarrow> still s s' \<and> prefix (subViews s) (subViews s')"

lemma calm_still: "calm s s' \<Longrightarrow> still s s'"
  by (simp add: calm_def)

lemma calm_refl [simp, intro]: "calm s s"
  by (simp add: calm_def)

lemma calm_trans [trans]: "calm s t \<Longrightarrow> calm t u \<Longrightarrow> calm s u"
  by (auto simp: calm_def intro: still_trans prefix_order.trans)

lemma calmI: "still s s' \<Longrightarrow> subViews s' = subViews s \<Longrightarrow> calm s s'"
  by (simp add: calm_def)

lemmas calm_defs = calm_def still_def subViews_def

named_theorems sim_ops \<open>operations whose frames follow from their definitions\<close>

lemmas [sim_ops] = emitOrderLocked_def emitTradeLocked_def emitAccountLocked_def broadcastBookLocked_def
  broadcastTapeLocked_def putSymbol_def nextSeq_def countPlace_def countCancel_def scheduleExec_def

lemma emits_calm [simp]:
  "calm s (emitOrderLocked o' s)" "calm s (emitAccountLocked k s)"
  "calm s (broadcastBookLocked sy rows s)" "calm s (broadcastTapeLocked sy tr s)"
  "calm s (putSymbol sy st s)" "calm s (snd (nextSeq s))" "calm s (scheduleExec oid s)"
  "calm s (countPlace s)" "calm s (countCancel s)"
  by (simp_all add: calm_defs sim_ops)

lemma emits_still [simp]: "still s (emitTradeLocked t s)"
  by (simp add: still_def sim_ops)

lemmas [simp] = emits_calm [THEN calm_still]

lemma symbolLocked_calm: "calm s (snd (symbolLocked sy s))"
  by (auto simp: symbolLocked_def calm_defs Let_def split: option.splits)

lemmas symbolLocked_still = symbolLocked_calm [THEN calm_still]

lemma quota_calm: "calm s (snd (consumePlaceQuotaLocked s))"
  by (auto simp: consumePlaceQuotaLocked_def calm_defs Let_def)

lemmas quota_still = quota_calm [THEN calm_still]

lemma emits_subs [simp]:
  "tradeSubs (emitOrderLocked o' s) = tradeSubs s" "tradeSubs (emitAccountLocked k s) = tradeSubs s"
  "tradeSubs (broadcastBookLocked sy rows s) = tradeSubs s" "tradeSubs (broadcastTapeLocked sy tr s) = tradeSubs s"
  "tradeSubs (putSymbol sy st s) = tradeSubs s" "tradeSubs (putOrder o' s) = tradeSubs s"
  "tradeSubs (putAccount a s) = tradeSubs s" "tradeSubs (scheduleExec oid s) = tradeSubs s"
  "tradeSubs (snd (nextSeq s)) = tradeSubs s"
  by (simp_all add: sim_ops putOrder_def putAccount_def)

lemma emits_core [simp]:
  "accounts (emitOrderLocked o' s) = accounts s" "sim_orders (emitOrderLocked o' s) = sim_orders s"
  "accounts (emitTradeLocked t s) = accounts s" "sim_orders (emitTradeLocked t s) = sim_orders s"
  "accounts (emitAccountLocked k s) = accounts s" "sim_orders (emitAccountLocked k s) = sim_orders s"
  "accounts (broadcastBookLocked sy rows s) = accounts s" "sim_orders (broadcastBookLocked sy rows s) = sim_orders s"
  "accounts (broadcastTapeLocked sy tr s) = accounts s" "sim_orders (broadcastTapeLocked sy tr s) = sim_orders s"
  "accounts (putSymbol sy st s) = accounts s" "sim_orders (putSymbol sy st s) = sim_orders s"
  "accounts (putOrder o' s) = accounts s" "sim_orders (putOrder o' s) = (sim_orders s)(o_id o' \<mapsto> o')"
  "accounts (putAccount a s) = (accounts s)(a_id a \<mapsto> a)" "sim_orders (putAccount a s) = sim_orders s"
  "accounts (scheduleExec oid s) = accounts s" "sim_orders (scheduleExec oid s) = sim_orders s"
  "seq (emitOrderLocked o' s) = seq s" "seq (emitTradeLocked t s) = seq s" "seq (emitAccountLocked k s) = seq s"
  "seq (broadcastBookLocked sy rows s) = seq s" "seq (broadcastTapeLocked sy tr s) = seq s"
  "seq (putSymbol sy st s) = seq s" "seq (putOrder o' s) = seq s" "seq (putAccount a s) = seq s"
  "seq (scheduleExec oid s) = seq s"
  by (simp_all add: sim_ops putOrder_def putAccount_def)

lemma nextSeq_simps [simp]:
  "fst (nextSeq s) = seq s + 1" "accounts (snd (nextSeq s)) = accounts s"
  "sim_orders (snd (nextSeq s)) = sim_orders s" "seq (snd (nextSeq s)) = seq s + 1"
  "symbols (snd (nextSeq s)) = symbols s" "clock (snd (nextSeq s)) = clock s"
  by (simp_all add: nextSeq_def)

subsection \<open>Moves\<close>

text \<open>
  The order entered by an accepted placement: the account is known, the request is valid, a client id
  that was given is not in use.
\<close>

definition entered :: "account \<Rightarrow> OrderMsg \<Rightarrow> real \<Rightarrow> real \<Rightarrow> mangleID \<Rightarrow> Sim \<Rightarrow> Sim" where
  "entered acc req qty lp mangle s =
     snd (enterOrder acc mangle (fst (newOrder acc req qty lp s)) (snd (newOrder acc req qty lp s)))"

definition announced :: "time \<Rightarrow> simOrder \<Rightarrow> simOrder" where
  "announced now o' = o'\<lparr>o_status := ORDER_STATUS_PENDING_CANCEL, updatedAt := now\<rparr>"

text \<open>A status an order is withdrawn with: terminal, and not by filling it.\<close>

definition withdrawal :: "OrderStatus \<Rightarrow> bool" where
  "withdrawal st \<longleftrightarrow> status_terminal st \<and> st \<noteq> ORDER_STATUS_FILLED"

text \<open>The operations that neither touch an order nor an account.\<close>

lemma queries_calm [simp]:
  "calm s (snd (Auth K secret s))" "calm s (snd (GetOrder K ctx acc oid s))"
  "calm s (snd (GetOrders K ctx acc s))" "calm s (snd (GetAccount K ctx syms acc s))"
  "calm s (snd (GetUsageMetrics K ctx s))" "calm s (snd (Schedule K ctx s))"
  "calm s (snd (TokenDetails K raw s))" "calm s (snd (SubscribeOrders K ctx acc s))"
  "calm s (snd (SubscribeTrades K ctx acc s))" "calm s (snd (SubscribeAccount K ctx syms acc s))"
  by (auto simp: Auth_def GetOrder_def GetOrders_def GetAccount_def GetUsageMetrics_def Schedule_def
      TokenDetails_def SubscribeOrders_def SubscribeTrades_def SubscribeAccount_def Let_def calm_defs
      split: prod.splits option.splits outcome.splits)

lemma symbolLocked_core:
  "symbolLocked sy s = (r, s') \<Longrightarrow> accounts s' = accounts s \<and> sim_orders s' = sim_orders s \<and> seq s' = seq s \<and>
     tradeSubs s' = tradeSubs s"
  by (auto simp: symbolLocked_def Let_def split: option.splits if_splits)

lemma subscriptions_calm [simp]:
  "calm s (snd (SubscribeOrderBook K ctx sy s))" "calm s (snd (SubscribeLatestTrades K ctx sy s))"
  by (auto simp: SubscribeOrderBook_def SubscribeLatestTrades_def Let_def calm_defs
      dest!: symbolLocked_core split: prod.splits option.splits outcome.splits)

lemma control_calm [simp]:
  "calm s (snd (SetBook sy bs as s))" "calm s (snd (CrossBook sy s))" "calm s (SetSession ty s)"
  "calm s (SetQuotaRemaining n s)" "calm s (snd (AddFault f s))" "calm s (snd (RemoveFault i s))"
  "calm s (snd (ExpireTokens s))" "calm s (snd (snd (ConfigureAutoMarket sy cfg s)))"
  "calm s (s\<lparr>clock := t\<rparr>)" "calm s (autoMarketExit sy s)" "calm s (s\<lparr>faults := ft\<rparr>)"
  "calm s (s\<lparr>execPending := q\<rparr>)" "calm s (s\<lparr>cancelPending := q\<rparr>)"
  by (auto simp: SetBook_def CrossBook_def SetSession_def SetQuotaRemaining_def AddFault_def RemoveFault_def
      ExpireTokens_def killSubs_def comp_def ConfigureAutoMarket_def startAutoMarket_def autoMarketExit_def Let_def calm_defs
      dest!: symbolLocked_core split: prod.splits option.splits if_splits)

lemma checkAccount_known:
  "checkAccount K ctx k s = Ok (acc, t) \<Longrightarrow> \<exists>k. accounts s k = Some acc"
  by (auto simp: checkAccount_def Let_def split: outcome.splits prod.splits if_splits option.splits)

lemma placeLocked_cases:
  "placeLocked acc req qty lp mangle s = (r, s') \<Longrightarrow>
     (\<not> (\<exists>resp. r = Ok resp) \<and> calm s s') \<or>
     (\<exists>s2. calm s s2 \<and> (omClientId req = '''' \<or> clientIDs acc (omClientId req) = None) \<and>
        calm (entered acc req qty lp mangle s2) s')"
  using symbolLocked_calm [of s "omSymbol req"] quota_calm [of "snd (symbolLocked (omSymbol req) s)"]
  by (auto simp: placeLocked_def entered_def Let_def split_beta split: option.splits prod.splits if_splits
      intro: calm_trans)

lemmas control_still = control_calm [THEN calm_still]

text \<open>
  What an invariant survives where no order is entered: the moves of all operations but placements and
  the forced bookings.
\<close>

locale sim_moves_quiet =
  fixes I :: "Sim \<Rightarrow> bool"
  assumes calm: "I s \<Longrightarrow> calm s s' \<Longrightarrow> I s'"
    and fill: "I s \<Longrightarrow> I (fillOrderLocked oid lots price now s)"
    and withdraws: "I s \<Longrightarrow> sim_orders s oid = Some o' \<Longrightarrow> active o' \<Longrightarrow> withdrawal st \<Longrightarrow> I (withdraw st now o' s)"
    and announce: "I s \<Longrightarrow> sim_orders s oid = Some o' \<Longrightarrow> \<not> terminal o' \<Longrightarrow> I (putOrder (announced now o') s)"
    and cancels: "I s \<Longrightarrow> sim_orders s oid = Some o' \<Longrightarrow> \<not> terminal o' \<Longrightarrow> I (withdraw ORDER_STATUS_CANCELED now o' s)"
begin

lemma takerFills: "I s \<Longrightarrow> I (takerFills oid sy sd now fs s)"
proof (induction fs arbitrary: s)
  case (Cons f fs)
  obtain p sz where f: "f = (p, sz)" by (cases f)
  define tr where "tr = publicTrade (''T'' @ itoa (fst (nextSeq s))) p sz sd now"
  define s3 where "s3 = broadcastTapeLocked sy tr
    (case symbols (snd (nextSeq s)) sy of
       Some st \<Rightarrow> putSymbol sy (appendTape st tr) (snd (nextSeq s)) | None \<Rightarrow> snd (nextSeq s))"
  have step: "takerFills oid sy sd now (f # fs) s = takerFills oid sy sd now fs (fillOrderLocked oid sz p now s3)"
    by (simp only: f s3_def tr_def takerFills.simps Let_def split_beta)
  have "calm s s3" by (simp add: s3_def calm_defs split: option.splits)
  then have "I (fillOrderLocked oid sz p now s3)" by (rule fill [OF calm [OF Cons.prems]])
  then show ?case unfolding step by (rule Cons.IH)
qed simp

lemma takerExec:
  assumes "I s"
  shows "I (takerExecLocked o' st limit now s)"
proof -
  obtain st1 fills rows where
    eat: "consumeBounded st (o_side o' = SIDE_BUY) (o_qty o' - executed o') limit now = (st1, fills, rows)"
    by (cases "consumeBounded st (o_side o' = SIDE_BUY) (o_qty o' - executed o') limit now")
  have "I (broadcastBookLocked (o_symbol o') rows (putSymbol (o_symbol o') st1 s))"
    by (rule calm [OF assms]) (simp add: calm_defs)
  then have I2: "I (takerFills (o_id o') (o_symbol o') (o_side o') now fills
      (broadcastBookLocked (o_symbol o') rows (putSymbol (o_symbol o') st1 s)))" (is "I ?s2")
    by (rule takerFills)
  then show ?thesis
    using withdraws [OF I2, of "o_id o'"]
    by (auto simp: takerExecLocked_def eat withdrawal_def Let_def split: option.splits)
qed

lemma execOrder:
  assumes "I s" and "sim_orders s oid = Some o'"
  shows "I (execOrderLocked o' s)"
  using assms withdraws [OF assms] takerExec
  by (auto simp: execOrderLocked_def Let_def withdrawal_def split: option.splits)

lemma matchLoop: "I s \<Longrightarrow> I (matchLoop price now oids sz s)"
  by (induction price now oids sz s rule: matchLoop.induct)
    (auto simp: Let_def fill split: option.splits)

lemma matchPublicPrint: "I s \<Longrightarrow> I (matchPublicPrintLocked accs sy tr s)"
  by (simp add: matchPublicPrintLocked_def Let_def matchLoop)

lemma printAll: "I s \<Longrightarrow> I (printAll accs sy trs s)"
proof (induction trs arbitrary: s)
  case (Cons tr trs)
  then show ?case
    by (simp add: matchPublicPrint calm [OF Cons.prems])
qed simp

lemma tickMarket:
  assumes "I s"
  shows "I (autoMarketTick accs sy s)"
proof (cases "symbols s sy")
  case (Some st)
  obtain st' rows prints used where tick:
      "autoTick st (clock s) (''T'' @ itoa (seq s + 1)) = (st', rows, prints, used)"
    by (cases "autoTick st (clock s) (''T'' @ itoa (seq s + 1))")
  define s2 where "s2 = broadcastBookLocked sy rows (putSymbol sy st' (if used then snd (nextSeq s) else s))"
  have "calm s s2" by (simp add: s2_def calm_defs)
  then have "I (printAll accs sy prints s2)" by (rule printAll [OF calm [OF assms]])
  moreover have "calm s (putSymbol sy (st\<lparr>autoLeaving := True\<rparr>) s)" by simp
  ultimately show ?thesis
    using Some tick calm [OF assms]
    by (auto simp: autoMarketTick_def Let_def split_beta s2_def assms)
qed (simp add: autoMarketTick_def assms)

lemma cancel:
  assumes "I s"
  shows "I (snd (CancelOrder K ctx acc oid s))"
proof -
  define s2 where "s2 = (countCancel s)\<lparr>faults := snd (unaryGate ''CancelOrder'' (faults (countCancel s)))\<rparr>"
  have I2: "I s2" by (rule calm [OF assms]) (simp add: s2_def calm_defs countCancel_def)
  have async: "I ((emitOrderLocked (announced (clock s2) o') (putOrder (announced (clock s2) o') s2))
                    \<lparr>cancelPending := q\<rparr>)"
    if "sim_orders s2 oid = Some o'" "\<not> terminal o'" for o' q
    by (rule calm [OF announce [OF I2 that]]) (simp add: calm_defs)
  show ?thesis
    unfolding CancelOrder_def Let_def
    using I2 async cancels [OF I2]
    by (auto simp: split_beta s2_def [symmetric] announced_def
        split: unary_gate.splits outcome.splits option.splits)
qed

lemma execs: "I s \<Longrightarrow> I (runExec i s)"
  using execOrder [of "s\<lparr>execPending := drop_nth i (execPending s)\<rparr>"] calm [of s]
  by (auto simp: runExec_def Let_def split: option.splits)

lemma cancel_done: "I s \<Longrightarrow> I (runCancel i s)"
  using withdraws [of "s\<lparr>cancelPending := drop_nth i (cancelPending s)\<rparr>"] calm [of s]
  by (auto simp: runCancel_def Let_def withdrawal_def split: option.splits)

lemma killStatuses_withdrawal: "killStatuses how = Some st \<Longrightarrow> withdrawal st"
  by (auto simp: killStatuses_def withdrawal_def split: if_splits)

lemma kill: "I s \<Longrightarrow> I (snd (KillOrder oid how s))"
  by (auto simp: KillOrder_def intro: withdraws killStatuses_withdrawal split: option.splits)

lemma publicPrint:
  assumes "I s"
  shows "I (snd (PublicTrade accs sy price sz buy s))"
proof (cases "symbolLocked sy s")
  case (Pair r s1)
  have core: "calm s s1" using symbolLocked_calm [of s sy] Pair by simp
  show ?thesis
  proof (cases r)
    case (Some st)
    have "I s'" if "calm s1 s'" for s' by (rule calm [OF assms calm_trans [OF core that]])
    then show ?thesis
      using Pair Some by (auto simp: PublicTrade_def Let_def split_beta calm_defs intro!: matchPublicPrint)
  qed (use Pair calm [OF assms core] in \<open>simp add: PublicTrade_def\<close>)
qed

lemma forceFill:
  assumes "I s"
  shows "I (snd (FillOrder oid lots price s))"
proof -
  have "I s'" if "calm s s'" for s' by (rule calm [OF assms that])
  then show ?thesis
    using assms
    by (auto simp: FillOrder_def Let_def split_beta calm_defs split: option.splits intro!: fill)
qed

theorem step_kept_quiet:
  assumes "I s" and "\<not> injects op" and "\<not> sets_position op" and "\<not> places op"
  shows "I (sim_step K op s)"
proof (cases op)
  case (OpInject oid lots price)
  with assms(2) show ?thesis by simp
next
  case (OpSetPosition acc sy qty avg)
  with assms(3) show ?thesis by simp
next
  case (OpPlace ctx req)
  with assms(4) show ?thesis by simp
next
  case (OpElapse d)
  with assms(1) calm [OF assms(1) control_calm(9)] show ?thesis by (cases "0 \<le> d") simp_all
qed (simp_all only: sim_step.simps,
    (rule cancel [OF assms(1)] execs [OF assms(1)] cancel_done [OF assms(1)]
       kill [OF assms(1)] publicPrint [OF assms(1)] forceFill [OF assms(1)] tickMarket [OF assms(1)]
     | rule calm [OF assms(1)], rule queries_calm subscriptions_calm control_calm)+)

end

text \<open>With placements.\<close>

locale sim_moves = sim_moves_quiet +
  assumes enter: "I s \<Longrightarrow> accounts s k = Some acc \<Longrightarrow> validateOrder req = Inr (qty, lp) \<Longrightarrow>
      omClientId req = '''' \<or> clientIDs acc (omClientId req) = None \<Longrightarrow> I (entered acc req qty lp mangle s)"
begin

lemma place:
  assumes "I s"
  shows "I (snd (PlaceOrder K ctx req s))"
proof -
  define s2 where "s2 = (countPlace s)\<lparr>faults := snd (unaryGate ''PlaceOrder'' (faults (countPlace s)))\<rparr>"
  have I2: "I s2" by (rule calm [OF assms]) (simp add: s2_def calm_defs countPlace_def)
  have locked: "I (snd (placeLocked acc req qty lp mangle s2))"
    if known: "checkAccount K ctx (omAccount req) s2 = Ok (acc, t)" and valid: "validateOrder req = Inr (qty, lp)"
    for acc t qty lp mangle
  proof -
    obtain r s3 where run: "placeLocked acc req qty lp mangle s2 = (r, s3)"
      by (cases "placeLocked acc req qty lp mangle s2")
    obtain k where k: "accounts s2 k = Some acc" using checkAccount_known [OF known] by blast
    consider "calm s2 s3"
      | s' where "calm s2 s'" "omClientId req = '''' \<or> clientIDs acc (omClientId req) = None"
        "calm (entered acc req qty lp mangle s') s3"
      using placeLocked_cases [OF run] by blast
    then have "I s3"
    proof cases
      case (2 s')
      note s' = 2
      have "accounts s' k = Some acc" using s'(1) k by (simp add: calm_defs)
      from enter [OF calm [OF I2 s'(1)] this valid s'(2)] show ?thesis by (rule calm) (rule s'(3))
    qed (rule calm [OF I2])
    then show ?thesis by (simp add: run)
  qed
  show ?thesis
    unfolding PlaceOrder_def Let_def
    using I2 locked
    by (auto simp: split_beta s2_def [symmetric] split: unary_gate.splits outcome.splits sum.splits prod.splits option.splits)
qed

theorem step_kept:
  "I s \<Longrightarrow> \<not> injects op \<Longrightarrow> \<not> sets_position op \<Longrightarrow> I (sim_step K op s)"
  using step_kept_quiet [of s op] place by (cases op) simp_all

theorem run_kept:
  "I s \<Longrightarrow> \<forall>op \<in> set ops. \<not> injects op \<and> \<not> sets_position op \<Longrightarrow> I (sim_run K ops s)"
proof (induction ops arbitrary: s)
  case (Cons op ops)
  have "I (sim_step K op s)" by (rule step_kept) (use Cons.prems in simp_all)
  with Cons show ?case by (simp add: sim_run_Cons)
qed (simp add: sim_run_def)

end

text \<open>With the control plane's forced positions, and with its injected trades.\<close>

locale sim_moves_forced = sim_moves +
  assumes force: "I s \<Longrightarrow> I (snd (SetPosition k sy qty avg s))"
begin

theorem step_kept_forced: "I s \<Longrightarrow> \<not> injects op \<Longrightarrow> I (sim_step K op s)"
  using step_kept [of s op] force by (cases op) simp_all

theorem run_kept_forced:
  "I s \<Longrightarrow> \<forall>op \<in> set ops. \<not> injects op \<Longrightarrow> I (sim_run K ops s)"
proof (induction ops arbitrary: s)
  case (Cons op ops)
  have "I (sim_step K op s)" by (rule step_kept_forced) (use Cons.prems in simp_all)
  with Cons show ?case by (simp add: sim_run_Cons)
qed (simp add: sim_run_def)

end

locale sim_moves_inject = sim_moves +
  assumes inject: "I s \<Longrightarrow> sim_orders s oid = Some o' \<Longrightarrow> 0 < lots \<Longrightarrow>
      I (case bookTrade o' lots price now s of (t, s') \<Rightarrow> emitTradeLocked t s')"
begin

lemma injected:
  assumes "I s"
  shows "I (snd (InjectFill oid lots price s))"
proof (cases "sim_orders s oid")
  case (Some o')
  show ?thesis
  proof (cases "lots \<le> 0")
    case False
    have "I (case bookTrade o' lots price (clock s) s of (t, s') \<Rightarrow> emitTradeLocked t s')"
      using inject [OF assms Some] False by simp
    then have "I (emitAccountLocked k (case bookTrade o' lots price (clock s) s of (t, s') \<Rightarrow> emitTradeLocked t s'))" for k
      by (rule calm) simp
    then show ?thesis using Some False by (simp add: InjectFill_def Let_def split_beta)
  qed (use assms Some in \<open>simp add: InjectFill_def\<close>)
qed (use assms in \<open>simp add: InjectFill_def\<close>)

theorem step_kept_inject: "I s \<Longrightarrow> \<not> sets_position op \<Longrightarrow> I (sim_step K op s)"
  using step_kept [of s op] injected by (cases op) simp_all

theorem run_kept_inject:
  "I s \<Longrightarrow> \<forall>op \<in> set ops. \<not> sets_position op \<Longrightarrow> I (sim_run K ops s)"
proof (induction ops arbitrary: s)
  case (Cons op ops)
  have "I (sim_step K op s)" by (rule step_kept_inject) (use Cons.prems in simp_all)
  with Cons show ?case by (simp add: sim_run_Cons)
qed (simp add: sim_run_def)

end

locale sim_moves_all = sim_moves_inject +
  assumes set_position: "I s \<Longrightarrow> I (snd (SetPosition k sy qty avg s))"
begin

theorem step_kept_all: "I s \<Longrightarrow> I (sim_step K op s)"
  using step_kept_inject [of s op] set_position by (cases op) simp_all

theorem run_kept_all: "I s \<Longrightarrow> I (sim_run K ops s)"
  by (induction ops arbitrary: s) (simp_all add: sim_run_def step_kept_all)

end

end
