(* ===== verification/SimInvariant.thy ===== *)
theory SimInvariant
  imports SimMoves
begin

text \<open>
  Invariants of the simulator over every sequence of operations: its orders, accounts and client ids are
  consistent, an order's executed lots are the lots of its trades, and an account's position and cash
  are what its trades say. Each is an interpretation of the locales of moves.
\<close>

subsection \<open>Well-formed state\<close>

definition order_id :: "nat \<Rightarrow> string" where
  "order_id n = itoa (100000000 + n)"

lemma order_id_inj [simp]: "order_id m = order_id n \<longleftrightarrow> m = n"
  by (simp add: order_id_def itoa_def digits_inj)

lemma order_id_nonempty [simp]: "order_id n \<noteq> ''''"
  by (simp add: order_id_def itoa_def)

definition order_ok :: "Sim \<Rightarrow> string \<Rightarrow> simOrder \<Rightarrow> bool" where
  "order_ok s oid o' \<longleftrightarrow>
     o_id o' = oid \<and> (\<exists>n. 0 < n \<and> n \<le> seq s \<and> oid = order_id n) \<and>
     o_side o' \<in> {SIDE_BUY, SIDE_SELL} \<and> accounts s (o_account o') \<noteq> None \<and>
     0 < o_qty o' \<and> 0 \<le> executed o' \<and> executed o' \<le> o_qty o' \<and>
     (active o' \<or> terminal o') \<and> (active o' \<longrightarrow> executed o' < o_qty o') \<and>
     (o_status o' = ORDER_STATUS_FILLED \<longrightarrow> executed o' = o_qty o')"

lemma order_ok_mono:
  assumes "order_ok s oid o'" and "dom (accounts s) \<subseteq> dom (accounts s')" and "seq s \<le> seq s'"
  shows "order_ok s' oid o'"
proof -
  obtain n where "0 < n" "n \<le> seq s" "oid = order_id n" using assms(1) by (auto simp: order_ok_def)
  then have "0 < n \<and> n \<le> seq s' \<and> oid = order_id n" using assms(3) by simp
  then have "\<exists>n. 0 < n \<and> n \<le> seq s' \<and> oid = order_id n" by (rule exI)
  moreover have "accounts s' (o_account o') \<noteq> None" using assms(1,2) by (auto simp: order_ok_def)
  ultimately show ?thesis using assms(1) by (simp add: order_ok_def)
qed

text \<open>A client id that is not of the broker's own making, the letter b and a number.\<close>

definition client_made :: "string \<Rightarrow> bool" where
  "client_made c \<longleftrightarrow> c \<noteq> '''' \<and> (\<forall>n. c \<noteq> ''b'' @ itoa n)"

definition owns :: "Sim \<Rightarrow> string \<Rightarrow> string \<Rightarrow> string \<Rightarrow> bool" where
  "owns s k oid c \<longleftrightarrow> (\<exists>o'. sim_orders s oid = Some o' \<and> o_account o' = k \<and> clientOrderID o' = c)"

text \<open>
  Client ids lead to orders that carry them; the id of every order is filed, and a client-made id leads to
  the only order that carries it.
\<close>

definition clients_ok :: "Sim \<Rightarrow> string \<Rightarrow> (string \<rightharpoonup> string) \<Rightarrow> bool" where
  "clients_ok s k ids \<longleftrightarrow>
     (\<forall>c oid. ids c = Some oid \<longrightarrow> owns s k oid c) \<and>
     (\<forall>c oid. owns s k oid c \<longrightarrow> ids c \<noteq> None) \<and>
     (\<forall>c oid. owns s k oid c \<longrightarrow> client_made c \<longrightarrow> ids c = Some oid)"

definition account_ok :: "Sim \<Rightarrow> string \<Rightarrow> account \<Rightarrow> bool" where
  "account_ok s k a \<longleftrightarrow>
     a_id a = k \<and> distinct (a_orders a) \<and> finite (dom (positions a)) \<and>
     (\<forall>oid. oid \<in> set (a_orders a) \<longleftrightarrow> (\<exists>c. owns s k oid c)) \<and>
     clients_ok s k (clientIDs a) \<and>
     (\<forall>t \<in> set (a_trades a). \<exists>c. owns s k (atOrderId t) c)"

lemma clients_okD: "clients_ok s k ids \<Longrightarrow> ids c = Some oid \<Longrightarrow> owns s k oid c"
  unfolding clients_ok_def by blast

lemma clients_ok_made: "clients_ok s k ids \<Longrightarrow> owns s k oid c \<Longrightarrow> client_made c \<Longrightarrow> ids c = Some oid"
  unfolding clients_ok_def by blast

lemma clients_ok_filed: "clients_ok s k ids \<Longrightarrow> owns s k oid c \<Longrightarrow> ids c \<noteq> None"
  unfolding clients_ok_def by blast

lemma account_ok_cong_at:
  assumes "account_ok s k a" and "owns s' k = owns s k"
  shows "account_ok s' k a"
  using assms(1) unfolding account_ok_def clients_ok_def assms(2) .

lemma account_ok_cong:
  assumes "account_ok s k a" and "owns s' = owns s"
  shows "account_ok s' k a"
  using assms(1) unfolding account_ok_def clients_ok_def assms(2) .

lemma owns_cong: "sim_orders s' = sim_orders s \<Longrightarrow> owns s' = owns s"
  by (simp add: owns_def fun_eq_iff)

definition sim_wf :: "Sim \<Rightarrow> bool" where
  "sim_wf s \<longleftrightarrow>
     (\<forall>oid o'. sim_orders s oid = Some o' \<longrightarrow> order_ok s oid o') \<and>
     (\<forall>k a. accounts s k = Some a \<longrightarrow> account_ok s k a)"

lemma wf_order: "sim_wf s \<Longrightarrow> sim_orders s oid = Some o' \<Longrightarrow> order_ok s oid o'"
  by (simp add: sim_wf_def)

lemma wf_account: "sim_wf s \<Longrightarrow> accounts s k = Some a \<Longrightarrow> account_ok s k a"
  by (simp add: sim_wf_def)

lemma wf_account_of:
  assumes "sim_wf s" and "sim_orders s oid = Some o'"
  obtains a where "accounts s (o_account o') = Some a" and "account_ok s (o_account o') a"
  using wf_order [OF assms] wf_account [OF assms(1)] by (auto simp: order_ok_def)

lemma wf_still:
  assumes "sim_wf s" and "still s s'"
  shows "sim_wf s'"
  using assms order_ok_mono [of s _ _ s'] account_ok_cong [of s _ _ s'] owns_cong [of s' s]
  by (auto simp: sim_wf_def still_def)

subsection \<open>Rewriting an order in place\<close>

definition same_key :: "simOrder \<Rightarrow> simOrder \<Rightarrow> bool" where
  "same_key a b \<longleftrightarrow>
     o_id a = o_id b \<and> o_account a = o_account b \<and> clientOrderID a = clientOrderID b \<and>
     o_symbol a = o_symbol b \<and> o_side a = o_side b \<and> o_qty a = o_qty b"

lemma wf_putOrder:
  assumes wf: "sim_wf s" and old: "sim_orders s oid = Some o0" and key: "same_key o0 o1"
    and ok: "order_ok s oid o1"
  shows "sim_wf (putOrder o1 s)"
proof -
  have id: "o_id o1 = oid" using ok by (simp add: order_ok_def)
  have orders: "order_ok (putOrder o1 s) i o'" if "sim_orders (putOrder o1 s) i = Some o'" for i o'
    using that order_ok_mono [OF wf_order [OF wf], of i o' "putOrder o1 s"]
      order_ok_mono [OF ok, of "putOrder o1 s"] by (auto simp: id split: if_splits)
  have "owns (putOrder o1 s) = owns s"
    using old key by (auto simp: owns_def id same_key_def fun_eq_iff)
  with wf_account [OF wf] have "account_ok (putOrder o1 s) k a" if "accounts s k = Some a" for k a
    using that by (auto intro: account_ok_cong)
  with orders show ?thesis by (auto simp: sim_wf_def)
qed

lemma status_exclusive: "status_active st \<Longrightarrow> \<not> status_terminal st"
  by (cases st) auto

lemma wf_withdraw:
  assumes "sim_wf s" and "sim_orders s oid = Some o'" and "withdrawal st"
  shows "sim_wf (withdraw st now o' s)"
proof -
  have "sim_wf (putOrder (withdrawn st now o') s)"
    by (rule wf_putOrder [OF assms(1,2)])
      (use wf_order [OF assms(1,2)] assms(3) status_exclusive [of st] in
        \<open>auto simp: same_key_def withdrawn_def order_ok_def withdrawal_def active_def terminal_def\<close>)
  then show ?thesis by (rule wf_still) (simp add: withdraw_def Let_def)
qed

lemma wf_announce:
  assumes "sim_wf s" and "sim_orders s oid = Some o'" and "\<not> terminal o'"
  shows "sim_wf (putOrder (announced now o') s)"
  by (rule wf_putOrder [OF assms(1,2)])
    (use wf_order [OF assms(1,2)] assms(3) in
      \<open>auto simp: same_key_def announced_def order_ok_def active_def terminal_def\<close>)

subsection \<open>Booking a trade\<close>

text \<open>The account and the trade that a fill leaves.\<close>

lemma bookTrade_core:
  assumes "accounts s (o_account o') = Some a" and "a_id a = o_account o'"
  shows "snd (bookTrade o' lots price now s) =
    putAccount ((applyFillToAccountLocked a (o_symbol o') (o_side o') lots price)
        \<lparr>a_trades := a_trades a @ [accountTrade (seq s + 1) o' lots price now]\<rparr>) (snd (nextSeq s))"
  using assms by (simp add: bookTrade_def Let_def split_beta applyFillToAccountLocked_def)

lemma applyFill_simps [simp]:
  "a_id (applyFillToAccountLocked a sy sd lots price) = a_id a"
  "a_orders (applyFillToAccountLocked a sy sd lots price) = a_orders a"
  "a_trades (applyFillToAccountLocked a sy sd lots price) = a_trades a"
  "clientIDs (applyFillToAccountLocked a sy sd lots price) = clientIDs a"
  "dom (positions (applyFillToAccountLocked a sy sd lots price)) = insert sy (dom (positions a))"
  by (simp_all add: applyFillToAccountLocked_def split_beta)

lemma accountTrade_simps [simp]:
  "atOrderId (accountTrade n o' lots price now) = o_id o'"
  "atSize (accountTrade n o' lots price now) = dec lots"
  "atPrice (accountTrade n o' lots price now) = dec price"
  "atSide (accountTrade n o' lots price now) = o_side o'"
  "atSymbol (accountTrade n o' lots price now) = o_symbol o'"
  "atAccount (accountTrade n o' lots price now) = o_account o'"
  by (simp_all add: accountTrade_def)

lemma wf_bookTrade:
  assumes wf: "sim_wf s" and known: "sim_orders s oid = Some o'"
  shows "sim_wf (snd (bookTrade o' lots price now s))"
proof -
  obtain a where a: "accounts s (o_account o') = Some a" "account_ok s (o_account o') a"
    using wf_account_of [OF assms] .
  have id: "a_id a = o_account o'" using a(2) by (simp add: account_ok_def)
  have oid: "o_id o' = oid" using wf_order [OF assms] by (simp add: order_ok_def)
  let ?s = "snd (bookTrade o' lots price now s)"
  have orders: "order_ok ?s i p" if "sim_orders s i = Some p" for i p
    by (rule order_ok_mono [OF wf_order [OF wf that]]) (auto simp: bookTrade_core [OF a(1) id])
  have owns: "owns ?s = owns s" by (rule owns_cong) (simp add: bookTrade_core [OF a(1) id])
  have "owns s (o_account o') oid (clientOrderID o')" using known by (simp add: owns_def)
  then have booked: "account_ok s (o_account o') ((applyFillToAccountLocked a (o_symbol o') (o_side o') lots price)
        \<lparr>a_trades := a_trades a @ [accountTrade (seq s + 1) o' lots price now]\<rparr>)"
    using a(2) by (auto simp: account_ok_def oid)
  have "account_ok ?s k b" if "accounts ?s k = Some b" for k b
  proof (cases "k = o_account o'")
    case True
    with that booked account_ok_cong [OF _ owns] show ?thesis
      by (simp add: bookTrade_core [OF a(1) id] id)
  next
    case False
    with that have "accounts s k = Some b" by (simp add: bookTrade_core [OF a(1) id] id)
    then show ?thesis by (rule account_ok_cong [OF wf_account [OF wf] owns])
  qed
  with orders show ?thesis
    by (auto simp: sim_wf_def bookTrade_core [OF a(1) id])
qed

subsection \<open>Fills\<close>

text \<open>The lots a fill books, the order after it, and the state once both are stored.\<close>

definition fill_lots :: "simOrder \<Rightarrow> real \<Rightarrow> real" where
  "fill_lots o' lots = (if lots > o_qty o' - executed o' then o_qty o' - executed o' else lots)"

definition filled :: "nat \<Rightarrow> real \<Rightarrow> time \<Rightarrow> simOrder \<Rightarrow> simOrder" where
  "filled n lots now o' =
     o'\<lparr>executed := executed o' + lots, updatedAt := now, execID := ''E'' @ itoa n,
        o_status := (if executed o' + lots \<ge> o_qty o' then ORDER_STATUS_FILLED
                     else ORDER_STATUS_PARTIALLY_FILLED)\<rparr>"

definition fill_core :: "simOrder \<Rightarrow> real \<Rightarrow> real \<Rightarrow> time \<Rightarrow> Sim \<Rightarrow> Sim" where
  "fill_core o' lots price now s =
     (let o1 = filled (seq s + 1) (fill_lots o' lots) now o'
      in snd (bookTrade o1 (fill_lots o' lots) price now (putOrder o1 (snd (nextSeq s)))))"

lemma fill_still:
  assumes "sim_orders s oid = Some o'" and "active o'" and "0 < lots"
  shows "still (fill_core o' lots price now s) (fillOrderLocked oid lots price now s)"
  using assms
  by (auto simp: fillOrderLocked_def fill_core_def fill_lots_def filled_def Let_def split_beta still_def
      split: option.splits)

lemma fill_none:
  "\<not> (\<exists>o'. sim_orders s oid = Some o' \<and> active o' \<and> 0 < lots) \<Longrightarrow> fillOrderLocked oid lots price now s = s"
  by (auto simp: fillOrderLocked_def split: option.splits)

text \<open>So an invariant survives fills when it survives \<open>fill_core\<close>.\<close>

lemma fill_kept:
  assumes "I s" and "\<And>s s'. I s \<Longrightarrow> still s s' \<Longrightarrow> I s'"
    and "\<And>o'. sim_orders s oid = Some o' \<Longrightarrow> active o' \<Longrightarrow> 0 < lots \<Longrightarrow> I (fill_core o' lots price now s)"
  shows "I (fillOrderLocked oid lots price now s)"
proof (cases "\<exists>o'. sim_orders s oid = Some o' \<and> active o' \<and> 0 < lots")
  case True
  then obtain o' where o': "sim_orders s oid = Some o'" "active o'" "0 < lots" by blast
  show ?thesis by (rule assms(2) [OF assms(3) [OF o'] fill_still [OF o']])
qed (simp add: fill_none assms(1))

lemma fill_lots_bounds:
  assumes "order_ok s oid o'" and "active o'" and "0 < lots"
  shows "0 < fill_lots o' lots" and "executed o' + fill_lots o' lots \<le> o_qty o'"
  using assms by (auto simp: fill_lots_def order_ok_def)

lemma filled_simps [simp]:
  "o_id (filled n lots now o') = o_id o'" "o_account (filled n lots now o') = o_account o'"
  "o_symbol (filled n lots now o') = o_symbol o'" "o_side (filled n lots now o') = o_side o'"
  "o_qty (filled n lots now o') = o_qty o'" "executed (filled n lots now o') = executed o' + lots"
  "clientOrderID (filled n lots now o') = clientOrderID o'"
  by (simp_all add: filled_def)

lemma wf_filled:
  assumes wf: "sim_wf s" and o': "sim_orders s oid = Some o'" "active o'" "0 < lots"
  shows "sim_wf (putOrder (filled (seq s + 1) (fill_lots o' lots) now o') (snd (nextSeq s)))"
proof (rule wf_putOrder [OF wf_still [OF wf]])
  have ok: "order_ok s oid o'" by (rule wf_order [OF wf o'(1)])
  from fill_lots_bounds [OF ok o'(2,3)] ok
  have "order_ok s oid (filled (seq s + 1) (fill_lots o' lots) now o')"
    by (auto simp: order_ok_def filled_def active_def terminal_def)
  then show "order_ok (snd (nextSeq s)) oid (filled (seq s + 1) (fill_lots o' lots) now o')"
    by (rule order_ok_mono) simp_all
qed (use o' in \<open>auto simp: same_key_def\<close>)

lemma wf_fill_core:
  assumes "sim_wf s" and "sim_orders s oid = Some o'" and "active o'" and "0 < lots"
  shows "sim_wf (fill_core o' lots price now s)"
  unfolding fill_core_def Let_def
  by (rule wf_bookTrade [OF wf_filled [OF assms], where oid = oid])
    (use wf_order [OF assms(1,2)] in \<open>simp add: order_ok_def\<close>)

subsection \<open>Entering an order\<close>

lemma validateOrder_ok:
  "validateOrder req = Inr (qty, lp) \<Longrightarrow> 0 < qty \<and> omSide req \<in> {SIDE_BUY, SIDE_SELL} \<and>
     length (omClientId req) \<le> maxClientOrderID"
  by (auto simp: validateOrder_def Let_def split: if_splits OrderType.splits)

definition new_cid :: "OrderMsg \<Rightarrow> nat \<Rightarrow> string" where
  "new_cid req n = (if omClientId req = '''' then ''b'' @ itoa (n + 3) else omClientId req)"

lemma newOrder_simps [simp]:
  "o_id (fst (newOrder acc req qty lp s)) = order_id (seq s + 1)"
  "o_account (fst (newOrder acc req qty lp s)) = a_id acc"
  "o_symbol (fst (newOrder acc req qty lp s)) = omSymbol req"
  "o_side (fst (newOrder acc req qty lp s)) = omSide req"
  "o_typ (fst (newOrder acc req qty lp s)) = omType req"
  "o_qty (fst (newOrder acc req qty lp s)) = qty"
  "executed (fst (newOrder acc req qty lp s)) = 0"
  "o_status (fst (newOrder acc req qty lp s)) = ORDER_STATUS_NEW"
  "clientOrderID (fst (newOrder acc req qty lp s)) = new_cid req (seq s)"
  "accounts (snd (newOrder acc req qty lp s)) = accounts s"
  "sim_orders (snd (newOrder acc req qty lp s)) = sim_orders s"
  by (simp_all add: newOrder_def Let_def split_beta order_id_def new_cid_def numeral_3_eq_3)

lemma newOrder_seq: "seq s < seq (snd (newOrder acc req qty lp s))"
  by (simp add: newOrder_def Let_def split_beta)

lemma entered_core:
  "accounts (entered acc req qty lp mangle s) = (accounts s)(a_id acc \<mapsto>
     acc\<lparr>a_orders := a_orders acc @ [order_id (seq s + 1)],
         clientIDs := (clientIDs acc)(new_cid req (seq s) \<mapsto> order_id (seq s + 1))\<rparr>)"
  "sim_orders (entered acc req qty lp mangle s) =
     (sim_orders s)(order_id (seq s + 1) \<mapsto> fst (newOrder acc req qty lp s))"
  "seq s < seq (entered acc req qty lp mangle s)"
  by (simp_all add: entered_def enterOrder_def Let_def newOrder_seq)

lemma fresh_order_id: "sim_wf s \<Longrightarrow> sim_orders s (order_id (seq s + 1)) = None"
  using wf_order [of s "order_id (seq s + 1)"] by (cases "sim_orders s (order_id (seq s + 1))") (auto simp: order_ok_def)

lemma fresh_owns: "sim_wf s \<Longrightarrow> \<not> owns s k (order_id (seq s + 1)) c"
  using fresh_order_id [of s] by (simp add: owns_def)

lemma owns_entered:
  assumes "sim_wf s"
  shows "owns (entered acc req qty lp mangle s) k oid c \<longleftrightarrow>
    (if oid = order_id (seq s + 1) then k = a_id acc \<and> c = new_cid req (seq s) else owns s k oid c)"
  by (cases "oid = order_id (seq s + 1)") (auto simp: owns_def entered_core)

lemma clients_ok_entered:
  assumes wf: "sim_wf s" and ids: "clients_ok s k ids" and k: "k = a_id acc"
    and free: "omClientId req = '''' \<or> ids (omClientId req) = None"
  shows "clients_ok (entered acc req qty lp mangle s) k (ids(new_cid req (seq s) \<mapsto> order_id (seq s + 1)))"
proof -
  let ?new = "order_id (seq s + 1)" and ?c = "new_cid req (seq s)"
  have forth: "owns (entered acc req qty lp mangle s) k oid c" if "(ids(?c \<mapsto> ?new)) c = Some oid" for c oid
  proof (cases "c = ?c")
    case False
    then have "owns s k oid c" using that clients_okD [OF ids] by simp
    moreover from this have "oid \<noteq> ?new" using fresh_owns [OF wf] by metis
    ultimately show ?thesis by (simp add: owns_entered [OF wf])
  qed (use that in \<open>simp add: owns_entered [OF wf] k\<close>)
  have conv: "(ids(?c \<mapsto> ?new)) c = Some oid"
    if own: "owns (entered acc req qty lp mangle s) k oid c" and made: "client_made c" for c oid
  proof (cases "oid = ?new")
    case False
    then have "ids c = Some oid" using own clients_ok_made [OF ids _ made] by (simp add: owns_entered [OF wf])
    moreover have "c \<noteq> ?c"
    proof
      assume c: "c = ?c"
      have "omClientId req \<noteq> ''''" using made by (auto simp: c new_cid_def client_made_def)
      with free c \<open>ids c = Some oid\<close> show False by (simp add: new_cid_def)
    qed
    ultimately show ?thesis by simp
  qed (use own in \<open>simp add: owns_entered [OF wf]\<close>)
  have filed: "(ids(?c \<mapsto> ?new)) c \<noteq> None" if own: "owns (entered acc req qty lp mangle s) k oid c" for c oid
    using own clients_ok_filed [OF ids, of oid c] by (auto simp: owns_entered [OF wf] split: if_splits)
  show ?thesis unfolding clients_ok_def using forth conv filed by blast
qed

lemma wf_entered:
  assumes wf: "sim_wf s" and acc: "accounts s k = Some acc" and valid: "validateOrder req = Inr (qty, lp)"
    and free: "omClientId req = '''' \<or> clientIDs acc (omClientId req) = None"
  shows "sim_wf (entered acc req qty lp mangle s)"
proof -
  let ?s = "entered acc req qty lp mangle s"
  have ok: "account_ok s k acc" by (rule wf_account [OF wf acc])
  then have k: "k = a_id acc" by (simp add: account_ok_def)
  have dom: "dom (accounts s) \<subseteq> dom (accounts ?s)" and seq: "seq s \<le> seq ?s"
    using entered_core(3) [of s acc req qty lp mangle] by (auto simp: entered_core(1))
  have orders: "order_ok ?s oid o'" if "sim_orders ?s oid = Some o'" for oid o'
  proof (cases "oid = order_id (seq s + 1)")
    case True
    have "0 < seq s + 1 \<and> seq s + 1 \<le> seq ?s \<and> oid = order_id (seq s + 1)"
      using entered_core(3) [of s acc req qty lp mangle] True by simp
    then have "\<exists>n. 0 < n \<and> n \<le> seq ?s \<and> oid = order_id n" by (rule exI)
    with True that validateOrder_ok [OF valid] show ?thesis
      by (auto simp: order_ok_def entered_core active_def)
  next
    case False
    with that have "sim_orders s oid = Some o'" by (simp add: entered_core)
    then show ?thesis by (rule order_ok_mono [OF wf_order [OF wf] dom seq])
  qed
  have new: "order_id (seq s + 1) \<notin> set (a_orders acc)"
    using ok fresh_order_id [OF wf] by (auto simp: account_ok_def owns_def)
  have keep: "\<exists>c. owns ?s k' oid c" if "\<exists>c. owns s k' oid c" for k' oid
    using that fresh_owns [OF wf] unfolding owns_entered [OF wf] by metis
  have "account_ok ?s k' b" if b: "accounts ?s k' = Some b" for k' b
  proof (cases "k' = k")
    case True
    have ids: "clients_ok s k (clientIDs acc)" using ok by (simp add: account_ok_def)
    from True b have "b = acc\<lparr>a_orders := a_orders acc @ [order_id (seq s + 1)],
         clientIDs := (clientIDs acc)(new_cid req (seq s) \<mapsto> order_id (seq s + 1))\<rparr>"
      by (simp add: entered_core k)
    then show ?thesis
      using ok new keep clients_ok_entered [OF wf ids k free] True
      by (auto simp: account_ok_def owns_entered [OF wf] k)
  next
    case False
    with b have "accounts s k' = Some b" by (simp add: entered_core k)
    then have b_ok: "account_ok s k' b" by (rule wf_account [OF wf])
    have "owns ?s k' = owns s k'"
      using False fresh_owns [OF wf] by (auto simp: owns_entered [OF wf] k fun_eq_iff)
    with b_ok show ?thesis by (rule account_ok_cong_at)
  qed
  with orders show ?thesis by (simp add: sim_wf_def)
qed

lemma wf_set_position:
  assumes wf: "sim_wf s"
  shows "sim_wf (snd (SetPosition k sy qty avg s))"
proof (cases "accounts s k")
  case (Some a)
  obtain r s1 where sym: "symbolLocked sy s = (r, s1)" by (cases "symbolLocked sy s")
  have core: "accounts s1 = accounts s" "sim_orders s1 = sim_orders s" "seq s1 = seq s"
    using symbolLocked_core [OF sym] by simp_all
  define b where "b = (if qty = 0 then a\<lparr>positions := (positions a)(sy := None)\<rparr>
                       else a\<lparr>positions := (positions a)(sy \<mapsto> \<lparr>pqty = qty, pavg = avg\<rparr>)\<rparr>)"
  define s2 where "s2 = s1\<lparr>accounts := (accounts s1)(k \<mapsto> b)\<rparr>"
  have owns: "owns s2 = owns s" by (rule owns_cong) (simp add: s2_def core)
  have "account_ok s k b"
    using wf_account [OF wf Some] by (simp add: account_ok_def b_def)
  then have "account_ok s2 k' c" if "accounts s2 k' = Some c" for k' c
    using that wf_account [OF wf, of k' c] account_ok_cong [OF _ owns]
    by (auto simp: s2_def core split: if_splits)
  moreover have "order_ok s2 oid o'" if "sim_orders s2 oid = Some o'" for oid o'
    by (rule order_ok_mono [of s]) (use that wf_order [OF wf, of oid o'] in \<open>auto simp: s2_def core\<close>)
  ultimately have "sim_wf s2" by (simp add: sim_wf_def)
  then have "sim_wf (emitAccountLocked k s2)" by (rule wf_still) simp
  moreover have "sim_wf s1" by (rule wf_still [OF wf]) (simp add: still_def core)
  ultimately show ?thesis
    using Some by (cases r) (simp_all add: SetPosition_def sym s2_def b_def Let_def)
qed (simp add: SetPosition_def wf)

lemma wf_injected:
  "sim_wf s \<Longrightarrow> sim_orders s oid = Some o' \<Longrightarrow>
     sim_wf (case bookTrade o' lots price now s of (t, s') \<Rightarrow> emitTradeLocked t s')"
  by (auto simp: split_beta intro: wf_still [OF wf_bookTrade emits_still])

interpretation sim_moves_all sim_wf
proof
  show "sim_wf s \<Longrightarrow> sim_wf (fillOrderLocked oid lots price now s)" for s oid lots price now
    by (rule fill_kept [where I = sim_wf]) (auto intro: wf_still wf_fill_core)
qed (auto dest: calm_still intro: wf_still wf_withdraw wf_announce wf_entered wf_injected wf_set_position simp: withdrawal_def)

subsection \<open>A new simulator\<close>

lemma fold_accounts:
  "foldl (\<lambda>m ac. m(ac_id ac \<mapsto> newAccount ac)) m acs k = Some a \<Longrightarrow>
     (\<exists>ac. a = newAccount ac \<and> ac_id ac = k) \<or> m k = Some a"
  by (induction acs arbitrary: m) (fastforce split: if_splits)+

lemma NewSim_accounts:
  "accounts (NewSim cfg now r) k = Some a \<Longrightarrow> \<exists>ac. a = newAccount ac \<and> ac_id ac = k"
  by (auto simp: NewSim_def Let_def dest!: fold_accounts split: if_splits)

lemma NewSim_orders [simp]: "sim_orders (NewSim cfg now r) = Map.empty"
  by (simp add: NewSim_def Let_def)

lemma wf_NewSim: "sim_wf (NewSim cfg now r)"
  by (auto simp: sim_wf_def account_ok_def clients_ok_def owns_def newAccount_def dest!: NewSim_accounts)

subsection \<open>What a fill does to an order and its account\<close>

lemma fill_core_eq:
  assumes "accounts s (o_account o') = Some a" and "a_id a = o_account o'"
  shows "accounts (fill_core o' lots price now s) = (accounts s)(o_account o' \<mapsto>
      (applyFillToAccountLocked a (o_symbol o') (o_side o') (fill_lots o' lots) price)
        \<lparr>a_trades := a_trades a @ [accountTrade (seq s + 2) (filled (seq s + 1) (fill_lots o' lots) now o')
           (fill_lots o' lots) price now]\<rparr>)"
    and "sim_orders (fill_core o' lots price now s) =
      (sim_orders s)(o_id o' \<mapsto> filled (seq s + 1) (fill_lots o' lots) now o')"
proof -
  let ?o1 = "filled (seq s + 1) (fill_lots o' lots) now o'"
  let ?s1 = "putOrder ?o1 (snd (nextSeq s))"
  have a: "accounts ?s1 (o_account ?o1) = Some a" "a_id a = o_account ?o1" using assms by simp_all
  show "accounts (fill_core o' lots price now s) = (accounts s)(o_account o' \<mapsto>
      (applyFillToAccountLocked a (o_symbol o') (o_side o') (fill_lots o' lots) price)
        \<lparr>a_trades := a_trades a @ [accountTrade (seq s + 2) ?o1 (fill_lots o' lots) price now]\<rparr>)"
    and "sim_orders (fill_core o' lots price now s) = (sim_orders s)(o_id o' \<mapsto> ?o1)"
    unfolding fill_core_def Let_def bookTrade_core [OF a] using assms(2) by simp_all
qed

subsection \<open>Executed lots are the lots of the trades\<close>

definition order_lots :: "string \<Rightarrow> AccountTrade list \<Rightarrow> real" where
  "order_lots oid ts = sum_list (map (\<lambda>t. parseDec (atSize t)) (filter (\<lambda>t. atOrderId t = oid) ts))"

lemma order_lots_simps [simp]:
  "order_lots oid [] = 0"
  "order_lots oid (ts @ [t]) = order_lots oid ts + (if atOrderId t = oid then parseDec (atSize t) else 0)"
  by (simp_all add: order_lots_def)

definition tally :: "Sim \<Rightarrow> bool" where
  "tally s \<longleftrightarrow>
     (\<forall>oid o' a. sim_orders s oid = Some o' \<longrightarrow> accounts s (o_account o') = Some a \<longrightarrow>
        executed o' = order_lots oid (a_trades a))"

lemma tally_still: "tally s \<Longrightarrow> still s s' \<Longrightarrow> tally s'"
  by (simp add: tally_def still_def)

lemma tally_putOrder:
  assumes "tally s" and "sim_orders s oid = Some o0" and "o_id o1 = oid" and "o_account o1 = o_account o0"
    and "executed o1 = executed o0"
  shows "tally (putOrder o1 s)"
  using assms by (auto simp: tally_def)

lemma tally_fill_core:
  assumes wf: "sim_wf s" and tally: "tally s" and o': "sim_orders s oid = Some o'"
  shows "tally (fill_core o' lots price now s)"
proof -
  obtain a where a: "accounts s (o_account o') = Some a" "account_ok s (o_account o') a"
    using wf_account_of [OF wf o'] .
  have id: "a_id a = o_account o'" and oid: "o_id o' = oid"
    using a(2) wf_order [OF wf o'] by (simp_all add: account_ok_def order_ok_def)
  show ?thesis
    unfolding tally_def fill_core_eq [OF a(1) id]
    using tally a o' by (auto simp: tally_def oid)
qed

lemma tally_entered:
  assumes wf: "sim_wf s" and tally: "tally s" and acc: "accounts s k = Some acc"
  shows "tally (entered acc req qty lp mangle s)"
proof -
  have ok: "account_ok s k acc" by (rule wf_account [OF wf acc])
  then have k: "k = a_id acc" by (simp add: account_ok_def)
  have "atOrderId t \<noteq> order_id (seq s + 1)" if "t \<in> set (a_trades acc)" for t
    using ok that fresh_owns [OF wf] unfolding account_ok_def by metis
  then have "order_lots (order_id (seq s + 1)) (a_trades acc) = 0"
    by (simp add: order_lots_def filter_False)
  with tally acc show ?thesis
    unfolding tally_def entered_core by (auto simp: k)
qed

text \<open>A forced position leaves the orders and the trades.\<close>

lemma SetPosition_trades:
  "sim_orders (snd (SetPosition k sy qty avg s)) = sim_orders s"
  "accounts (snd (SetPosition k sy qty avg s)) k' = Some a' \<Longrightarrow>
     \<exists>a. accounts s k' = Some a \<and> a_trades a' = a_trades a"
  by (auto simp: SetPosition_def Let_def dest!: symbolLocked_core split: option.splits prod.splits if_splits)

lemma tally_set_position:
  assumes "tally s"
  shows "tally (snd (SetPosition k sy qty avg s))"
  unfolding tally_def SetPosition_trades(1)
  using assms by (fastforce simp: tally_def dest: SetPosition_trades(2))

interpretation tally: sim_moves_forced "\<lambda>s. sim_wf s \<and> tally s"
proof
  show "sim_wf (fillOrderLocked oid lots price now s) \<and> tally (fillOrderLocked oid lots price now s)"
    if "sim_wf s \<and> tally s" for s oid lots price now
    by (rule fill_kept [where I = "\<lambda>s. sim_wf s \<and> tally s", OF that])
      (use that in \<open>auto intro: wf_still wf_fill_core tally_still tally_fill_core\<close>)
  show "sim_wf (withdraw st now o' s) \<and> tally (withdraw st now o' s)"
    if "sim_wf s \<and> tally s" "sim_orders s oid = Some o'" "withdrawal st" for s oid o' st now
    using that wf_order [of s oid o'] wf_withdraw [of s oid o' st now]
      tally_putOrder [of s oid o' "withdrawn st now o'"]
    by (auto simp: withdraw_def Let_def withdrawn_def order_ok_def elim!: tally_still)
  then show "sim_wf (withdraw ORDER_STATUS_CANCELED now o' s) \<and> tally (withdraw ORDER_STATUS_CANCELED now o' s)"
    if "sim_wf s \<and> tally s" "sim_orders s oid = Some o'" for s oid o' now
    using that by (simp add: withdrawal_def)
  show "sim_wf (putOrder (announced now o') s) \<and> tally (putOrder (announced now o') s)"
    if "sim_wf s \<and> tally s" "sim_orders s oid = Some o'" "\<not> terminal o'" for s oid o' now
    using that wf_order [of s oid o'] wf_announce [of s oid o' now]
    by (auto simp: announced_def order_ok_def intro!: tally_putOrder)
qed (auto dest: calm_still intro: wf_still tally_still wf_entered tally_entered wf_set_position tally_set_position)

subsection \<open>Positions and cash are what the trades say\<close>

definition trade_lots :: "AccountTrade \<Rightarrow> real" where
  "trade_lots t = signed_lots (atSide t) (parseDec (atSize t))"

definition net_lots :: "string \<Rightarrow> AccountTrade list \<Rightarrow> real" where
  "net_lots sy ts = sum_list (map trade_lots (filter (\<lambda>t. atSymbol t = sy) ts))"

definition outlay :: "AccountTrade list \<Rightarrow> real" where
  "outlay ts = sum_list (map (\<lambda>t. trade_lots t * parseDec (atPrice t)) ts)"

lemma trades_simps [simp]:
  "net_lots sy [] = 0" "outlay [] = 0"
  "net_lots sy (ts @ [t]) = net_lots sy ts + (if atSymbol t = sy then trade_lots t else 0)"
  "outlay (ts @ [t]) = outlay ts + trade_lots t * parseDec (atPrice t)"
  by (simp_all add: net_lots_def outlay_def)

text \<open>The value at which the open positions of an account are carried.\<close>

definition carried :: "account \<Rightarrow> real" where
  "carried a = (\<Sum>sy \<in> dom (positions a). pqty (getPosition a sy) * pavg (getPosition a sy))"

text \<open>
  A fill changes the position by its signed lots and the cash by what keeps cash less carried value,
  plus what was paid for the lots, unchanged.
\<close>

lemma fillPosition_value:
  assumes "0 < lots" and "fillPosition sd lots price (p, c) = (p', c')"
  shows "pqty p' = pqty p + signed_lots sd lots \<and>
    c' - pqty p' * pavg p' = c - pqty p * pavg p - signed_lots sd lots * price"
proof -
  define sg where "sg = signed_lots sd lots"
  have sg: "sg = lots \<or> sg = - lots" by (simp add: sg_def signed_lots_def)
  show ?thesis
  proof (cases "pqty p = 0 \<or> (pqty p > 0) = (sg > 0)")
    case True
    have total: "absr (pqty p) + lots > 0" using assms(1) by (simp add: absr_def)
    have p': "p' = \<lparr>pqty = pqty p + sg, pavg = (pavg p * absr (pqty p) + price * lots) / (absr (pqty p) + lots)\<rparr>"
      and c': "c' = c"
      using assms(2) True by (simp_all add: fillPosition_def Let_def sg_def)
    define d :: real where "d = (if sg > 0 then 1 else - 1)"
    have d: "pqty p = absr (pqty p) * d" "sg = lots * d"
      using True sg assms(1) by (auto simp: absr_def d_def)
    then have sum: "pqty p + sg = d * (absr (pqty p) + lots)" by (simp add: algebra_simps)
    have "(pqty p + sg) * ((pavg p * absr (pqty p) + price * lots) / (absr (pqty p) + lots)) =
        d * (pavg p * absr (pqty p) + price * lots)"
      unfolding sum using total by simp
    also have "\<dots> = pavg p * (absr (pqty p) * d) + price * (lots * d)" by (simp add: algebra_simps)
    finally have "(pqty p + sg) * ((pavg p * absr (pqty p) + price * lots) / (absr (pqty p) + lots)) =
        pavg p * pqty p + price * sg"
      using d by simp
    then show ?thesis by (simp add: p' c' sg_def algebra_simps)
  next
    case False
    define n where "n = (if lots > absr (pqty p) then absr (pqty p) else lots)"
    define dir :: real where "dir = (if pqty p < 0 then - 1 else 1)"
    define q where "q = pqty p + sg"
    have p': "p' = \<lparr>pqty = q, pavg = (if q = 0 then 0 else if (q > 0) \<noteq> (dir > 0) then price else pavg p)\<rparr>"
      and c': "c' = c + (price - pavg p) * n * dir"
      using assms(2) False by (auto simp: fillPosition_def Let_def sg_def [symmetric] n_def dir_def q_def)
    have dir: "pqty p = absr (pqty p) * dir" "sg = - lots * dir" "dir * dir = 1" "0 < absr (pqty p)"
      using False sg assms(1) by (auto simp: absr_def dir_def)
    show ?thesis
    proof (cases "lots < absr (pqty p)")
      case True
      then have "(q > 0) = (dir > 0)" "q \<noteq> 0" "n = lots"
        using dir assms(1) by (auto simp: q_def dir_def n_def absr_def split: if_splits)
      with dir show ?thesis
        by (simp add: p' c' sg_def [symmetric] q_def algebra_simps)
    next
      case False
      then have n: "n = absr (pqty p)" by (auto simp: n_def)
      have "q = 0 \<or> (q > 0) \<noteq> (dir > 0)"
        using dir False assms(1) by (auto simp: q_def dir_def absr_def split: if_splits)
      then have "q * pavg p' = q * price" by (auto simp: p')
      also have "\<dots> = pqty p * price + sg * price" by (simp add: q_def distrib_right)
      finally have worth: "q * pavg p' = pqty p * price + sg * price" .
      have "(price - pavg p) * (absr (pqty p) * dir) = price * pqty p - pavg p * pqty p"
        using dir(1) by (simp add: left_diff_distrib)
      then have "c' = c + (price * pqty p - pavg p * pqty p)" by (simp add: c' n mult.assoc)
      moreover have "pqty p' = q" by (simp add: p')
      ultimately show ?thesis using worth by (simp add: sg_def [symmetric] q_def mult.commute)
    qed
  qed
qed

lemma getPosition_fill:
  "getPosition (applyFillToAccountLocked a sy sd lots price) sy' =
     (if sy' = sy then fst (fillPosition sd lots price (getPosition a sy, cash a)) else getPosition a sy')"
  by (simp add: applyFillToAccountLocked_def getPosition_def split_beta)

lemma cash_fill:
  "cash (applyFillToAccountLocked a sy sd lots price) = snd (fillPosition sd lots price (getPosition a sy, cash a))"
  by (simp add: applyFillToAccountLocked_def split_beta)

lemma getPosition_none: "sy \<notin> dom (positions a) \<Longrightarrow> pqty (getPosition a sy) = 0"
  by (auto simp: getPosition_def domIff)

lemma fill_carried:
  assumes "0 < lots" and fin: "finite (dom (positions a))"
  shows "cash (applyFillToAccountLocked a sy sd lots price) - carried (applyFillToAccountLocked a sy sd lots price) =
    cash a - carried a - signed_lots sd lots * price"
proof -
  let ?b = "applyFillToAccountLocked a sy sd lots price"
  let ?v = "\<lambda>x y. pqty (getPosition x y) * pavg (getPosition x y)"
  obtain p' c' where run: "fillPosition sd lots price (getPosition a sy, cash a) = (p', c')"
    by (cases "fillPosition sd lots price (getPosition a sy, cash a)")
  let ?rest = "\<Sum>y \<in> dom (positions a) - {sy}. ?v a y"
  have "carried ?b = ?v ?b sy + (\<Sum>y \<in> insert sy (dom (positions a)) - {sy}. ?v ?b y)"
    unfolding carried_def applyFill_simps(5) by (rule sum.remove) (use fin in simp_all)
  also have "(\<Sum>y \<in> insert sy (dom (positions a)) - {sy}. ?v ?b y) = ?rest"
    by (rule sum.cong) (auto simp: getPosition_fill)
  finally have after: "carried ?b = pqty p' * pavg p' + ?rest" by (simp add: getPosition_fill run)
  have before: "carried a = ?v a sy + ?rest"
  proof (cases "sy \<in> dom (positions a)")
    case True
    then show ?thesis unfolding carried_def by (rule sum.remove [OF fin])
  next
    case False
    then have "?v a sy = 0" by (simp add: getPosition_none)
    with False show ?thesis unfolding carried_def by simp
  qed
  have "c' - pqty p' * pavg p' = cash a - ?v a sy - signed_lots sd lots * price"
    using fillPosition_value [OF assms(1) run] by blast
  then show ?thesis unfolding after before cash_fill by (simp add: run)
qed

definition ledger :: "(string \<Rightarrow> real) \<Rightarrow> Sim \<Rightarrow> bool" where
  "ledger start s \<longleftrightarrow>
     (\<forall>k a. accounts s k = Some a \<longrightarrow>
        (\<forall>sy. pqty (getPosition a sy) = net_lots sy (a_trades a)) \<and>
        cash a - carried a + outlay (a_trades a) = start k)"

lemma ledger_still: "ledger start s \<Longrightarrow> still s s' \<Longrightarrow> ledger start s'"
  by (simp add: ledger_def still_def)

lemma ledger_putOrder: "ledger start s \<Longrightarrow> ledger start (putOrder o' s)"
  by (simp add: ledger_def)

lemma ledger_bookTrade:
  assumes wf: "sim_wf s" and led: "ledger start s" and a: "accounts s (o_account o') = Some a" and lots: "0 < lots"
  shows "ledger start (snd (bookTrade o' lots price now s))"
proof -
  have ok: "account_ok s (o_account o') a" by (rule wf_account [OF wf a])
  then have id: "a_id a = o_account o'" and fin: "finite (dom (positions a))" by (simp_all add: account_ok_def)
  define b where "b = applyFillToAccountLocked a (o_symbol o') (o_side o') lots price"
  define c where "c = b\<lparr>a_trades := a_trades a @ [accountTrade (seq s + 1) o' lots price now]\<rparr>"
  have core: "accounts (snd (bookTrade o' lots price now s)) = (accounts s)(o_account o' \<mapsto> c)"
    by (simp add: bookTrade_core [OF a id] b_def c_def id del: One_nat_def add_Suc_right)
  have same: "getPosition c = getPosition b" "carried c = carried b" "cash c = cash b"
    by (simp_all add: c_def getPosition_def carried_def fun_eq_iff)
  have old: "pqty (getPosition a sy) = net_lots sy (a_trades a)" "cash a - carried a + outlay (a_trades a) = start (o_account o')" for sy
    using led a by (auto simp: ledger_def)
  have "pqty (getPosition c sy) = net_lots sy (a_trades c)" for sy
  proof -
    obtain p' c' where run: "fillPosition (o_side o') lots price (getPosition a (o_symbol o'), cash a) = (p', c')"
      by (cases "fillPosition (o_side o') lots price (getPosition a (o_symbol o'), cash a)")
    have "pqty p' = pqty (getPosition a (o_symbol o')) + signed_lots (o_side o') lots"
      using fillPosition_value [OF lots run] by blast
    then show ?thesis
      unfolding same(1) b_def getPosition_fill run by (simp add: c_def old trade_lots_def)
  qed
  moreover have "cash c - carried c + outlay (a_trades c) = start (o_account o')"
    using fill_carried [OF lots fin, of "o_symbol o'" "o_side o'" price] old(2)
    unfolding same by (simp add: b_def [symmetric]) (simp add: c_def trade_lots_def)
  ultimately show ?thesis using led by (auto simp: ledger_def core)
qed

lemma ledger_fill_core:
  assumes wf: "sim_wf s" and led: "ledger start s" and o': "sim_orders s oid = Some o'" "active o'" "0 < lots"
  shows "ledger start (fill_core o' lots price now s)"
proof -
  obtain a where a: "accounts s (o_account o') = Some a" using wf_account_of [OF wf o'(1)] .
  have "ledger start (putOrder (filled (seq s + 1) (fill_lots o' lots) now o') (snd (nextSeq s)))"
    by (intro ledger_putOrder ledger_still [OF led]) simp
  then show ?thesis
    unfolding fill_core_def Let_def
    by (rule ledger_bookTrade [OF wf_filled [OF wf o']])
      (use a fill_lots_bounds(1) [OF wf_order [OF wf o'(1)] o'(2,3)] in simp_all)
qed

lemma ledger_entered:
  assumes "sim_wf s" and "ledger start s" and "accounts s k = Some acc"
  shows "ledger start (entered acc req qty lp mangle s)"
proof -
  have "k = a_id acc" using wf_account [OF assms(1,3)] by (simp add: account_ok_def)
  moreover have "getPosition (acc\<lparr>a_orders := x, clientIDs := y\<rparr>) = getPosition acc"
    "carried (acc\<lparr>a_orders := x, clientIDs := y\<rparr>) = carried acc" for x y
    by (simp_all add: getPosition_def carried_def fun_eq_iff)
  ultimately show ?thesis using assms(2,3) by (auto simp: ledger_def entered_core)
qed

interpretation ledger: sim_moves_inject "\<lambda>s. sim_wf s \<and> ledger start s" for start
proof
  show "sim_wf (fillOrderLocked oid lots price now s) \<and> ledger start (fillOrderLocked oid lots price now s)"
    if "sim_wf s \<and> ledger start s" for s oid lots price now
    by (rule fill_kept [where I = "\<lambda>s. sim_wf s \<and> ledger start s", OF that])
      (use that in \<open>auto intro: wf_still wf_fill_core ledger_still ledger_fill_core\<close>)
  show "sim_wf (withdraw st now o' s) \<and> ledger start (withdraw st now o' s)"
    if "sim_wf s \<and> ledger start s" "sim_orders s oid = Some o'" "withdrawal st" for s oid o' st now
    using that wf_withdraw [of s oid o' st now] ledger_putOrder [of start s "withdrawn st now o'"]
    by (auto simp: withdraw_def Let_def elim!: ledger_still)
  then show "sim_wf (withdraw ORDER_STATUS_CANCELED now o' s) \<and> ledger start (withdraw ORDER_STATUS_CANCELED now o' s)"
    if "sim_wf s \<and> ledger start s" "sim_orders s oid = Some o'" for s oid o' now
    using that by (simp add: withdrawal_def)
  show "sim_wf (case bookTrade o' lots price now s of (t, s') \<Rightarrow> emitTradeLocked t s') \<and>
      ledger start (case bookTrade o' lots price now s of (t, s') \<Rightarrow> emitTradeLocked t s')"
    if "sim_wf s \<and> ledger start s" "sim_orders s oid = Some o'" "0 < lots" for s oid o' lots price now
  proof -
    have "ledger start (snd (bookTrade o' lots price now s))"
      using that wf_account_of [of s oid o'] ledger_bookTrade by metis
    then show ?thesis
      using wf_injected that(1,2) by (auto simp: split_beta intro: ledger_still [OF _ emits_still])
  qed
qed (auto dest: calm_still intro: wf_still ledger_still wf_entered ledger_entered wf_announce ledger_putOrder)

lemma ledger_NewSim:
  "ledger (\<lambda>k. case accounts (NewSim cfg now r) k of Some a \<Rightarrow> cash a | None \<Rightarrow> 0) (NewSim cfg now r)"
  by (auto simp: ledger_def newAccount_def getPosition_def carried_def dest!: NewSim_accounts)

subsection \<open>A terminal order is frozen\<close>

definition frozen :: "string \<Rightarrow> simOrder \<Rightarrow> Sim \<Rightarrow> bool" where
  "frozen oid o' s \<longleftrightarrow> sim_orders s oid = Some o' \<and> terminal o'"

lemma frozen_not_active: "terminal o' \<Longrightarrow> \<not> active o'"
  using status_exclusive by (auto simp: terminal_def active_def)

lemma frozen_still: "frozen oid o' s \<Longrightarrow> still s s' \<Longrightarrow> frozen oid o' s'"
  by (simp add: frozen_def still_def)

lemma frozen_putOrder: "frozen oid o' s \<Longrightarrow> o_id o1 \<noteq> oid \<Longrightarrow> frozen oid o' (putOrder o1 s)"
  by (simp add: frozen_def)

lemma frozen_other:
  "sim_wf s \<Longrightarrow> frozen oid o' s \<Longrightarrow> sim_orders s i = Some o1 \<Longrightarrow> \<not> terminal o1 \<Longrightarrow> o_id o1 \<noteq> oid"
  using wf_order [of s i o1] by (auto simp: frozen_def order_ok_def)

lemma frozen_bookTrade: "frozen oid o' s \<Longrightarrow> frozen oid o' (snd (bookTrade o1 lots price now s))"
  by (simp add: frozen_def bookTrade_def Let_def split_beta)

lemma frozen_set_position: "frozen oid o' s \<Longrightarrow> frozen oid o' (snd (SetPosition k sy qty avg s))"
  by (auto simp: SetPosition_def frozen_def Let_def dest!: symbolLocked_core split: option.splits prod.splits)

lemma frozen_injected:
  "frozen oid o' s \<Longrightarrow> frozen oid o' (case bookTrade o1 lots price now s of (t, s') \<Rightarrow> emitTradeLocked t s')"
  using frozen_bookTrade frozen_still [OF _ emits_still] by (simp add: split_beta)

interpretation frozen: sim_moves_all "\<lambda>s. sim_wf s \<and> frozen oid0 o0 s" for oid0 o0
proof
  show "sim_wf (fillOrderLocked oid lots price now s) \<and> frozen oid0 o0 (fillOrderLocked oid lots price now s)"
    if inv: "sim_wf s \<and> frozen oid0 o0 s" for s oid lots price now
  proof (rule fill_kept [where I = "\<lambda>s. sim_wf s \<and> frozen oid0 o0 s", OF inv])
    fix o' assume o': "sim_orders s oid = Some o'" "active o'" "0 < lots"
    have other: "o_id o' \<noteq> oid0"
      using frozen_other [of s oid0 o0 oid o'] inv o'(1,2) frozen_not_active by blast
    have "frozen oid0 o0 (fill_core o' lots price now s)"
      unfolding fill_core_def Let_def
      by (rule frozen_bookTrade [OF frozen_putOrder [OF frozen_still [where s = s]]]) (use inv other in simp_all)
    then show "sim_wf (fill_core o' lots price now s) \<and> frozen oid0 o0 (fill_core o' lots price now s)"
      using wf_fill_core [OF _ o'] inv by simp
  qed (auto intro: wf_still frozen_still)
  have leaves: "sim_wf (withdraw st now o' s) \<and> frozen oid0 o0 (withdraw st now o' s)"
    if "sim_wf s \<and> frozen oid0 o0 s" "sim_orders s oid = Some o'" "\<not> terminal o'" "withdrawal st" for s oid o' st now
    using that wf_withdraw [of s oid o' st now] frozen_other [of s oid0 o0 oid o']
      frozen_putOrder [of oid0 o0 s "withdrawn st now o'"]
    by (auto simp: withdraw_def Let_def withdrawn_def elim!: frozen_still)
  then show "sim_wf (withdraw st now o' s) \<and> frozen oid0 o0 (withdraw st now o' s)"
    if "sim_wf s \<and> frozen oid0 o0 s" "sim_orders s oid = Some o'" "active o'" "withdrawal st" for s oid o' st now
    using that frozen_not_active by blast
  show "sim_wf (withdraw ORDER_STATUS_CANCELED now o' s) \<and> frozen oid0 o0 (withdraw ORDER_STATUS_CANCELED now o' s)"
    if "sim_wf s \<and> frozen oid0 o0 s" "sim_orders s oid = Some o'" "\<not> terminal o'" for s oid o' now
    using leaves that by (simp add: withdrawal_def)
  show "sim_wf (entered acc req qty lp mangle s) \<and> frozen oid0 o0 (entered acc req qty lp mangle s)"
    if "sim_wf s \<and> frozen oid0 o0 s" "accounts s k = Some acc" "validateOrder req = Inr (qty, lp)"
      "omClientId req = '''' \<or> clientIDs acc (omClientId req) = None" for s k acc req qty lp mangle
    using that wf_entered [of s k acc req qty lp mangle] fresh_order_id [of s]
    by (auto simp: frozen_def entered_core)
  show "sim_wf (putOrder (announced now o') s) \<and> frozen oid0 o0 (putOrder (announced now o') s)"
    if "sim_wf s \<and> frozen oid0 o0 s" "sim_orders s oid = Some o'" "\<not> terminal o'" for s oid o' now
    using that wf_announce [of s oid o' now] frozen_other [of s oid0 o0 oid o']
    by (auto simp: announced_def intro!: frozen_putOrder)
qed (auto dest: calm_still intro: wf_still frozen_still wf_injected frozen_injected wf_set_position frozen_set_position)

end
