(* ===== verification/SimTheorems.thy ===== *)
theory SimTheorems
  imports SimInvariant
begin

text \<open>
  Properties of the simulator over all sequences of operations, and a concrete run on which each
  applies: one account, one market order of two lots that eats a level of the book.
\<close>

subsection \<open>A concrete run\<close>

definition sample_codec :: codec where
  "sample_codec = \<lparr>encode = (\<lambda>c. ''p''),
     decode = (\<lambda>p. Some \<lparr>c_acc = ''SIM-1'', c_seq = 1, c_iat = 1, c_exp = 1000\<rparr>)\<rparr>"

definition sample_ctx :: "string list" where
  "sample_ctx = [simTokenPrefix @ ''p'' @ simTokenSuffix]"

definition sample_config :: Config where
  "sample_config = \<lparr>Accounts = [], Symbols = [], TokenTTL = 0, ExecLatency = 0, CancelAsync = False,
     HeartbeatInterval = 0, SessionType = '''', PlaceQuotaLimit = 0, PlaceQuotaWindow = 0,
     OrdersListIncludesTerminal = False, TapeReplayDepth = 0, AutoCreateSymbols = None\<rparr>"

definition sample_rand :: Rand where
  "sample_rand = \<lparr>floats = (\<lambda>_. 0), naturals = (\<lambda>_. 0), drawn = 0\<rparr>"

abbreviation sample_start :: time where
  "sample_start \<equiv> unixEpoch + 5"

definition sample_sim :: Sim where
  "sample_sim = NewSim sample_config sample_start sample_rand"

definition sample_req :: OrderMsg where
  "sample_req = \<lparr>omAccount = ''SIM-1'', omSymbol = ''A'', omQuantity = dec 2, omLimitPrice = None,
     omSide = SIDE_BUY, omType = ORDER_TYPE_MARKET, omTif = TIME_IN_FORCE_DAY, omClientId = ''q1''\<rparr>"

lemmas sample_defs = sample_codec_def sample_ctx_def sample_config_def sample_rand_def sample_sim_def
  sample_req_def

lemma sample_account [simp]:
  "clock s = sample_start \<Longrightarrow> tokens s = [] \<Longrightarrow> revokeBefore s = 0 \<Longrightarrow> accounts s ''SIM-1'' = Some a \<Longrightarrow>
     checkAccount sample_codec sample_ctx ''SIM-1'' s = Ok (a, unixEpoch + 1000 * second)"
  by (simp add: sample_codec_def sample_ctx_def checkAccount_def checkAuth_def bearerToken_def parseToken_def
      hasPrefix_def hasSuffix_def simTokenPrefix_def simTokenSuffix_def slice_def)

definition acc0 :: account where
  "acc0 = newAccount defaultAccount"

lemma acc0_simps [simp]:
  "a_id acc0 = ''SIM-1''" "a_orders acc0 = []" "a_trades acc0 = []" "clientIDs acc0 = Map.empty"
  "positions acc0 = Map.empty" "cash acc0 = 1000000"
  by (simp_all add: acc0_def newAccount_def defaultAccount_def)

lemma sample_sim_eq:
  "sample_sim = \<lparr>s_cfg = sample_config, clock = sample_start, accounts = [''SIM-1'' \<mapsto> acc0],
     secrets = [''sim-secret'' \<mapsto> ''SIM-1''], tokens = [], tokenSeq = 0, revokeBefore = 0,
     symbols = Map.empty, sim_orders = Map.empty, seq = 0,
     faults = \<lparr>nextID = 0, rules = [], draws = (\<lambda>_. 0), used_draws = 0\<rparr>,
     orderSubs = [], tradeSubs = [], accountSubs = [], bookSubs = [], tapeSubs = [],
     quotaUsed = 0, quotaStart = sample_start, placeCount = 0, cancelCount = 0, sessionType = ''CORE_TRADING'',
     execPending = [], cancelPending = [], newRand = sample_rand\<rparr>"
  by (simp add: sample_sim_def NewSim_def acc0_def defaultAccount_def sample_config_def cfgSessionType_def)

lemma sample_cfg [simp]:
  "autoCreateSymbols sample_config" "placeQuotaLimit sample_config = 200" "\<not> CancelAsync sample_config"
  "placeQuotaWindow sample_config = 60 * second"
  by (simp_all add: sample_config_def autoCreateSymbols_def placeQuotaLimit_def placeQuotaWindow_def dur_or_def)

definition sample_ops :: "sim_op list" where
  "sample_ops = [OpPlace sample_ctx sample_req, OpSetBook ''A'' [] [(101, 5)], OpExec 0]"

definition sample_placed :: Sim where
  "sample_placed = sim_run sample_codec [OpPlace sample_ctx sample_req] sample_sim"

definition sample_done :: Sim where
  "sample_done = sim_run sample_codec sample_ops sample_sim"

definition sample_order :: simOrder where
  "sample_order = \<lparr>o_id = order_id 1, execID = ''E'' @ itoa 2, o_account = ''SIM-1'', o_symbol = ''A'',
     o_side = SIDE_BUY, o_typ = ORDER_TYPE_MARKET, o_tif = TIME_IN_FORCE_DAY, clientOrderID = ''q1'',
     limitPrice = 0, o_qty = 2, executed = 0, o_status = ORDER_STATUS_NEW, placedAt = sample_start, updatedAt = sample_start,
     withdrawAt = 0\<rparr>"

lemmas run_defs = PlaceOrder_def unaryGate_def gate_def noDirective_def placeLocked_def symbolLocked_def
  consumePlaceQuotaLocked_def newOrder_def enterOrder_def nextSeq_def putOrder_def putAccount_def
  emitOrderLocked_def sendAll_def scheduleExec_def countPlace_def validateOrder_def maxClientOrderID_def

lemma sample_place:
  "sim_orders sample_placed = [order_id 1 \<mapsto> sample_order]"
  "execPending sample_placed = [order_id 1]"
  "accounts sample_placed = [''SIM-1'' \<mapsto> acc0\<lparr>a_orders := [order_id 1], clientIDs := [''q1'' \<mapsto> order_id 1]\<rparr>]"
  "symbols sample_placed ''A'' \<noteq> None" "clock sample_placed = sample_start"
  by (simp_all add: sample_placed_def sim_run_def run_defs sample_sim_eq sample_req_def sample_order_def
      order_id_def Let_def numeral_2_eq_2)

lemmas exec_defs = SetBook_def setBook_def diffSide_def broadcastBookLocked_def putSymbol_def runExec_def
  drop_nth_def execOrderLocked_def takerExecLocked_def consumeBounded_def sortedPrices_def size_at_def
  fillOrderLocked_def bookTrade_def applyFillToAccountLocked_def fillPosition_def getPosition_def
  absr_def signed_lots_def accountTrade_def emitTradeLocked_def emitAccountLocked_def broadcastTapeLocked_def
  appendTape_def publicTrade_def newSymbolState_def active_def bookRow_def

lemma sample_fill:
  "\<exists>o'. sim_orders sample_done (order_id 1) = Some o' \<and> executed o' = 2 \<and> o_status o' = ORDER_STATUS_FILLED \<and>
     o_account o' = ''SIM-1'' \<and> clientOrderID o' = ''q1'' \<and> o_qty o' = 2"
  "\<exists>a. accounts sample_done ''SIM-1'' = Some a \<and> pqty (getPosition a ''A'') = 2 \<and> pavg (getPosition a ''A'') = 101 \<and>
     cash a = 1000000 \<and> length (a_trades a) = 1"
  by (simp_all add: sample_done_def sample_ops_def sim_run_def run_defs exec_defs sample_sim_eq sample_req_def
      order_id_def Let_def)

subsection \<open>Properties\<close>

lemma run_wf: "sim_wf (sim_run K ops (NewSim cfg now r))"
  by (rule run_kept_all [OF wf_NewSim])

lemma sample_run: "sample_done = sim_run sample_codec sample_ops (NewSim sample_config sample_start sample_rand)"
  by (simp add: sample_done_def sample_sim_def)

text \<open>
  C23. Whatever sequence of requests, timers, faults and control-plane operations, every order is filed
  under its own id, belongs to a known account that lists it exactly once, and has executed no less than
  nothing and no more than its size. While it is active it has executed less than its size, when its status
  is filled all of it (one canceled or killed may have executed any part); and it is either active or terminal.
\<close>

theorem sim_orders_sound:
  assumes "sim_orders (sim_run K ops (NewSim cfg now r)) oid = Some o'"
  shows "o_id o' = oid \<and> 0 \<le> executed o' \<and> executed o' \<le> o_qty o' \<and>
    (active o' \<longrightarrow> executed o' < o_qty o') \<and> (o_status o' = ORDER_STATUS_FILLED \<longrightarrow> executed o' = o_qty o') \<and>
    active o' = (\<not> terminal o') \<and>
    (\<exists>a. accounts (sim_run K ops (NewSim cfg now r)) (o_account o') = Some a \<and>
         count_list (a_orders a) oid = 1)"
proof -
  let ?s = "sim_run K ops (NewSim cfg now r)"
  have ok: "order_ok ?s oid o'" by (rule wf_order [OF run_wf assms])
  obtain a where a: "accounts ?s (o_account o') = Some a" "account_ok ?s (o_account o') a"
    using wf_account_of [OF run_wf assms] .
  have "owns ?s (o_account o') oid (clientOrderID o')" using assms by (simp add: owns_def)
  with a(2) have "oid \<in> set (a_orders a)" "distinct (a_orders a)" by (auto simp: account_ok_def)
  then have "count_list (a_orders a) oid = 1" by (simp add: count_list_eq_length_filter distinct_length_filter)
  with a(1) ok frozen_not_active show ?thesis by (auto simp: order_ok_def)
qed

theorem sim_orders_sound_witness:
  "\<exists>o'. sim_orders (sim_run sample_codec sample_ops (NewSim sample_config sample_start sample_rand)) (order_id 1) = Some o' \<and>
     executed o' = 2 \<and> executed o' \<le> o_qty o' \<and> active o' = (\<not> terminal o')"
  using sample_fill(1) sim_orders_sound [of sample_codec sample_ops sample_config sample_start sample_rand "order_id 1"]
  unfolding sample_run by blast

text \<open>
  C24. Two orders of one account never share a client order id, unless it is one the simulator may have made up
  itself (the letter b and a number); those can clash, see \<open>auto_id_clash\<close>.
\<close>

theorem client_id_unique:
  assumes "sim_orders (sim_run K ops (NewSim cfg now r)) i = Some p"
    and "sim_orders (sim_run K ops (NewSim cfg now r)) j = Some q"
    and "o_account p = o_account q" and "clientOrderID p = clientOrderID q" and "client_made (clientOrderID p)"
  shows "i = j"
proof -
  let ?s = "sim_run K ops (NewSim cfg now r)"
  obtain a where "account_ok ?s (o_account p) a" using wf_account_of [OF run_wf assms(1)] .
  then have ids: "clients_ok ?s (o_account p) (clientIDs a)" by (simp add: account_ok_def)
  have "owns ?s (o_account p) i (clientOrderID p)" "owns ?s (o_account p) j (clientOrderID p)"
    unfolding owns_def using assms(1-4) by metis+
  from clients_ok_made [OF ids this(1) assms(5)] clients_ok_made [OF ids this(2) assms(5)]
  show ?thesis by simp
qed

theorem client_id_unique_witness:
  "\<exists>o'. sim_orders (sim_run sample_codec sample_ops (NewSim sample_config sample_start sample_rand)) (order_id 1) = Some o' \<and>
     client_made (clientOrderID o') \<and>
     (\<forall>j p. sim_orders (sim_run sample_codec sample_ops (NewSim sample_config sample_start sample_rand)) j = Some p \<longrightarrow>
        o_account p = ''SIM-1'' \<longrightarrow> clientOrderID p = ''q1'' \<longrightarrow> order_id 1 = j)"
proof -
  obtain o' where o': "sim_orders sample_done (order_id 1) = Some o'" "o_account o' = ''SIM-1''" "clientOrderID o' = ''q1''"
    using sample_fill(1) by blast
  have made: "client_made (clientOrderID o')" by (simp add: o' client_made_def)
  have "order_id 1 = j"
    if "sim_orders (sim_run sample_codec sample_ops (NewSim sample_config sample_start sample_rand)) j = Some p"
      "o_account p = ''SIM-1''" "clientOrderID p = ''q1''" for j p
    by (rule client_id_unique [OF o'(1) [unfolded sample_run] that(1)]) (use that(2,3) o'(2,3) made in simp_all)
  then show ?thesis using o'(1) [unfolded sample_run] made by blast
qed

text \<open>
  The exception is real: an order placed under the id b5, and then one without an id, for which the simulator
  makes up b5 as well. Both are live and the account's map leads to the second only.
\<close>

definition clash_req :: "string \<Rightarrow> OrderMsg" where
  "clash_req cid = sample_req\<lparr>omType := ORDER_TYPE_LIMIT, omLimitPrice := dec 99, omClientId := cid\<rparr>"

lemma itoa_5: "itoa (Suc (Suc (Suc (Suc (Suc 0))))) = ''5''"
  by code_simp

theorem auto_id_clash:
  "\<exists>s p q a. s = sim_run sample_codec [OpPlace sample_ctx (clash_req ''b5''), OpPlace sample_ctx (clash_req '''')] sample_sim \<and>
     sim_orders s (order_id 1) = Some p \<and> sim_orders s (order_id 3) = Some q \<and>
     o_account p = o_account q \<and> clientOrderID p = ''b5'' \<and> clientOrderID q = ''b5'' \<and> active p \<and> active q \<and>
     accounts s ''SIM-1'' = Some a \<and> clientIDs a ''b5'' = Some (order_id 3)"
  by (simp add: sim_run_def run_defs sample_sim_eq sample_req_def clash_req_def order_id_def active_def itoa_5 Let_def)

text \<open>
  C25. A terminal order never changes again: no fill, cancel, kill or timer that comes later, in any
  order, touches its status, its executed lots or any other field.
\<close>

theorem terminal_order_frozen:
  assumes "sim_orders (sim_run K ops1 (NewSim cfg now r)) oid = Some o'" and "terminal o'"
  shows "sim_orders (sim_run K ops2 (sim_run K ops1 (NewSim cfg now r))) oid = Some o'"
  using frozen.run_kept_all [of "sim_run K ops1 (NewSim cfg now r)" oid o' K ops2] run_wf assms
  by (simp add: frozen_def)

theorem terminal_order_frozen_witness:
  "\<exists>o'. sim_orders (sim_run sample_codec [OpForceFill (order_id 1) 1 100, OpKill (order_id 1) ''canceled'']
      (sim_run sample_codec sample_ops (NewSim sample_config sample_start sample_rand))) (order_id 1) = Some o' \<and>
     o_status o' = ORDER_STATUS_FILLED"
proof -
  obtain o' where o': "sim_orders sample_done (order_id 1) = Some o'" "o_status o' = ORDER_STATUS_FILLED"
    using sample_fill(1) by blast
  have "terminal o'" by (simp add: terminal_def o'(2))
  from terminal_order_frozen [OF o'(1) [unfolded sample_run] this] o'(2) show ?thesis by blast
qed

text \<open>
  C26. Every fill is one trade: as long as the control plane injects no foreign trade, whatever else it does,
  the executed lots of an order are exactly the lots of the trades booked for it on its account.
\<close>

theorem executed_is_traded:
  assumes "\<forall>op \<in> set ops. \<not> injects op"
    and "sim_orders (sim_run K ops (NewSim cfg now r)) oid = Some o'"
  shows "\<exists>a. accounts (sim_run K ops (NewSim cfg now r)) (o_account o') = Some a \<and>
    executed o' = order_lots oid (a_trades a)"
proof -
  have "tally (NewSim cfg now r)" by (simp add: tally_def)
  then have "tally (sim_run K ops (NewSim cfg now r))"
    using tally.run_kept_forced [OF _ assms(1), of "NewSim cfg now r" K] wf_NewSim by blast
  then show ?thesis using wf_account_of [OF run_wf assms(2)] assms(2) by (metis tally_def)
qed

theorem executed_is_traded_witness:
  "\<exists>a. accounts (sim_run sample_codec sample_ops (NewSim sample_config sample_start sample_rand)) ''SIM-1'' = Some a \<and>
     order_lots (order_id 1) (a_trades a) = 2"
proof -
  obtain o' where o': "sim_orders sample_done (order_id 1) = Some o'" "o_account o' = ''SIM-1''" "executed o' = 2"
    using sample_fill(1) by blast
  have "\<forall>op \<in> set sample_ops. \<not> injects op" by (simp add: sample_ops_def)
  from executed_is_traded [OF this o'(1) [unfolded sample_run]] o'(2,3) show ?thesis by auto
qed

text \<open>
  C27. The account is what its trades say: as long as no position is forced, the position in a symbol is
  the signed sum of the trades in it, and the cash less the value at which the positions are carried is
  the starting cash less what was paid for all trades, so every lot of profit and loss is booked once.
\<close>

theorem account_is_its_trades:
  assumes "\<forall>op \<in> set ops. \<not> sets_position op"
    and "accounts (sim_run K ops (NewSim cfg now r)) k = Some a"
  shows "pqty (getPosition a sy) = net_lots sy (a_trades a) \<and>
    cash a - carried a =
      (case accounts (NewSim cfg now r) k of Some b \<Rightarrow> cash b | None \<Rightarrow> 0) - outlay (a_trades a)"
proof -
  let ?start = "\<lambda>k. case accounts (NewSim cfg now r) k of Some a \<Rightarrow> cash a | None \<Rightarrow> 0"
  have "ledger ?start (sim_run K ops (NewSim cfg now r))"
    using ledger.run_kept_inject [OF _ assms(1), where K = K and s = "NewSim cfg now r" and start = ?start]
      wf_NewSim ledger_NewSim by blast
  then have "pqty (getPosition a sy) = net_lots sy (a_trades a)" "cash a - carried a + outlay (a_trades a) = ?start k"
    using assms(2) by (auto simp: ledger_def)
  then show ?thesis by simp
qed

theorem account_is_its_trades_witness:
  "\<exists>a. accounts (sim_run sample_codec sample_ops (NewSim sample_config sample_start sample_rand)) ''SIM-1'' = Some a \<and>
     net_lots ''A'' (a_trades a) = 2"
proof -
  obtain a where a: "accounts sample_done ''SIM-1'' = Some a" "pqty (getPosition a ''A'') = 2"
    using sample_fill(2) by blast
  have "\<forall>op \<in> set sample_ops. \<not> sets_position op" by (simp add: sample_ops_def)
  from account_is_its_trades [OF this a(1) [unfolded sample_run], of "''A''"] a show ?thesis
    unfolding sample_run by auto
qed

end
