(* ===== verification/SimProtocol.thy ===== *)
theory SimProtocol
  imports SimTheorems
begin

text \<open>
  What a client of the simulator can rely on: placing under a used client id enters nothing, a dropped
  answer does not undo the placement, a fault fires as often as it was told to, and which tokens pass.
\<close>

subsection \<open>Placement\<close>

lemma placeLocked_dup:
  assumes "omClientId req \<noteq> ''''" and "clientIDs acc (omClientId req) \<noteq> None"
  shows "sim_orders (snd (placeLocked acc req qty lp mangle s)) = sim_orders s"
    and "fst (placeLocked acc req qty lp mangle s) \<noteq> Ok resp"
  using assms symbolLocked_still [of s "omSymbol req"]
  by (auto simp: placeLocked_def still_def split: prod.splits option.splits)

lemma checkAccount_cong:
  assumes "tokens s' = tokens s" and "revokeBefore s' = revokeBefore s" and "clock s' = clock s"
    and "accounts s' = accounts s"
  shows "checkAccount K ctx k s' = checkAccount K ctx k s"
  unfolding checkAccount_def checkAuth_def assms ..

lemma checkAccount_own:
  "checkAccount K ctx k s = Ok (acc, t) \<Longrightarrow> k \<noteq> '''' \<Longrightarrow> sim_wf s \<Longrightarrow> a_id acc = k"
  using wf_account [of s k acc]
  by (auto simp: checkAccount_def account_ok_def Let_def split: outcome.splits prod.splits if_splits option.splits)

text \<open>
  C28. Retrying under the same client id is idempotent: in every reachable state, once an order carries the
  non-empty client id of a request, and the account that the request and its token resolve to, if they resolve
  to one, is that order's, the placement is not accepted and enters no order.
\<close>

theorem place_idempotent:
  assumes "sim_orders (sim_run K ops (NewSim cfg now r)) oid = Some o'"
    and "clientOrderID o' = omClientId req" and "omClientId req \<noteq> ''''"
    and "\<forall>acc t. checkAccount K ctx (omAccount req) (sim_run K ops (NewSim cfg now r)) = Ok (acc, t) \<longrightarrow>
           a_id acc = o_account o'"
  shows "sim_orders (snd (PlaceOrder K ctx req (sim_run K ops (NewSim cfg now r)))) =
           sim_orders (sim_run K ops (NewSim cfg now r)) \<and>
         (\<forall>resp. fst (PlaceOrder K ctx req (sim_run K ops (NewSim cfg now r))) \<noteq> Ok resp)"
proof -
  let ?s = "sim_run K ops (NewSim cfg now r)"
  define s2 where "s2 = (countPlace ?s)\<lparr>faults := snd (unaryGate ''PlaceOrder'' (faults (countPlace ?s)))\<rparr>"
  have core: "sim_orders s2 = sim_orders ?s" "checkAccount K ctx k s2 = checkAccount K ctx k ?s" for k
    by (simp add: s2_def countPlace_def) (rule checkAccount_cong; simp add: s2_def countPlace_def)
  have used: "clientIDs acc (omClientId req) \<noteq> None" if known: "checkAccount K ctx (omAccount req) ?s = Ok (acc, t)" for acc t
  proof -
    obtain k where k: "accounts ?s k = Some acc" using checkAccount_known [OF known] by blast
    then have acc: "account_ok ?s k acc" by (rule wf_account [OF run_wf])
    then have "k = o_account o'" using assms(4) known by (auto simp: account_ok_def)
    then have "owns ?s k oid (omClientId req)" using assms(1,2) by (auto simp: owns_def)
    moreover have "clients_ok ?s k (clientIDs acc)" using acc by (simp add: account_ok_def)
    ultimately show ?thesis using clients_ok_filed by blast
  qed
  have dup: "sim_orders (snd (placeLocked acc req qty lp mangle s2)) = sim_orders ?s \<and>
      (\<forall>resp. fst (placeLocked acc req qty lp mangle s2) \<noteq> Ok resp)"
    if "checkAccount K ctx (omAccount req) s2 = Ok (acc, t)" for acc t qty lp mangle
    using placeLocked_dup [OF assms(3), of acc] used that core by simp
  show ?thesis
    unfolding PlaceOrder_def Let_def
    using dup core(1)
    by (auto simp: split_beta s2_def [symmetric]
        split: unary_gate.splits outcome.splits sum.splits prod.splits option.splits)
qed

theorem place_idempotent_witness:
  "sim_orders (snd (PlaceOrder sample_codec sample_ctx sample_req
       (sim_run sample_codec sample_ops (NewSim sample_config sample_start sample_rand)))) =
     sim_orders (sim_run sample_codec sample_ops (NewSim sample_config sample_start sample_rand))"
proof -
  obtain o' where o': "sim_orders sample_done (order_id 1) = Some o'" "o_account o' = ''SIM-1''" "clientOrderID o' = ''q1''"
    using sample_fill(1) by blast
  show ?thesis
    using place_idempotent [OF o'(1) [unfolded sample_run], of sample_req sample_ctx] o'(2,3)
      checkAccount_own [OF _ _ run_wf]
    by (simp add: sample_req_def)
qed

subsection \<open>Lost answers\<close>

text \<open>None of the steps of a placement reads or writes the faults.\<close>

definition keeps_faults :: "(Sim \<Rightarrow> 'a \<times> Sim) \<Rightarrow> bool" where
  "keeps_faults f \<longleftrightarrow> (\<forall>s ft. f (s\<lparr>faults := ft\<rparr>) = (fst (f s), (snd (f s))\<lparr>faults := ft\<rparr>))"

lemma symbolLocked_faults: "keeps_faults (symbolLocked sy)"
  by (auto simp: keeps_faults_def symbolLocked_def Let_def split: option.splits)

lemma quota_faults: "keeps_faults consumePlaceQuotaLocked"
  by (auto simp: keeps_faults_def consumePlaceQuotaLocked_def Let_def)

lemma newOrder_faults: "keeps_faults (newOrder acc req qty lp)"
  by (auto simp: keeps_faults_def newOrder_def nextSeq_def Let_def)

lemma enterOrder_faults: "keeps_faults (enterOrder acc m o')"
  by (auto simp: keeps_faults_def enterOrder_def putOrder_def putAccount_def emitOrderLocked_def Let_def)

lemma placeLocked_faults:
  "placeLocked acc req qty lp m (s\<lparr>faults := ft\<rparr>) =
     (fst (placeLocked acc req qty lp m s), (snd (placeLocked acc req qty lp m s))\<lparr>faults := ft\<rparr>)"
  using symbolLocked_faults [of "omSymbol req"] quota_faults newOrder_faults [of acc req qty lp]
    enterOrder_faults [of acc m]
  by (auto simp: placeLocked_def keeps_faults_def scheduleExec_def Let_def split_beta split: prod.splits option.splits)

lemma checkAccount_faults: "checkAccount K ctx k (s\<lparr>faults := ft\<rparr>) = checkAccount K ctx k s"
  by (rule checkAccount_cong) simp_all

lemma countPlace_faults: "faults (countPlace s) = faults s" "countPlace (s\<lparr>faults := ft\<rparr>) = (countPlace s)\<lparr>faults := ft\<rparr>"
  by (simp_all add: countPlace_def)

definition drops_answer :: "Fault \<Rightarrow> bool" where
  "drops_answer f \<longleftrightarrow> f_Method f = ''PlaceOrder'' \<and> f_Action f = ''drop_after_apply'' \<and> f_Probability f = 0 \<and> 0 < f_Count f"

lemma unaryGate_drop:
  assumes "rules ft = [f]" and "drops_answer f"
  shows "fst (unaryGate ''PlaceOrder'' ft) = (Proceed (Some (Leaf (f_Code f) (f_Message f))) mangleNone, 0)"
  using assms
  by (simp add: unaryGate_def gate_def drops_answer_def matches_method_def skipped_def gateAction_def
      noDirective_def Let_def split_beta)

lemma unaryGate_free: "rules ft = [] \<Longrightarrow> fst (unaryGate m ft) = (Proceed None mangleNone, 0)"
  by (simp add: unaryGate_def gate_def noDirective_def Let_def)

text \<open>
  C29. A lost answer is not a lost order: where a \<open>drop_after_apply\<close> fault takes the answer of a placement
  that would have been accepted, the client sees the fault's error, and the simulator has the very
  orders and accounts it would have had with the answer delivered.
\<close>

theorem dropped_answer_applies:
  assumes "rules (faults s) = [f]" and "drops_answer f"
    and "PlaceOrder K ctx req (s\<lparr>faults := (faults s)\<lparr>rules := []\<rparr>\<rparr>) = (Ok resp, s')"
  shows "fst (PlaceOrder K ctx req s) = Err (Leaf (f_Code f) (f_Message f)) \<and>
    sim_orders (snd (PlaceOrder K ctx req s)) = sim_orders s' \<and>
    accounts (snd (PlaceOrder K ctx req s)) = accounts s'"
proof -
  define ft where "ft = (faults s)\<lparr>rules := []\<rparr>"
  have free: "fst (unaryGate ''PlaceOrder'' ft) = (Proceed None mangleNone, 0)"
    by (rule unaryGate_free) (simp add: ft_def)
  obtain acc t qty lp where passed: "checkAccount K ctx (omAccount req) (countPlace s) = Ok (acc, t)"
      "validateOrder req = Inr (qty, lp)"
    and placed: "fst (placeLocked acc req qty lp mangleNone (countPlace s)) = Ok resp"
      "sim_orders s' = sim_orders (snd (placeLocked acc req qty lp mangleNone (countPlace s)))"
      "accounts s' = accounts (snd (placeLocked acc req qty lp mangleNone (countPlace s)))"
    using assms(3) [folded ft_def] free
    by (auto simp: PlaceOrder_def Let_def split_beta countPlace_faults checkAccount_faults placeLocked_faults
        split: outcome.splits sum.splits prod.splits)
  show ?thesis
    using passed placed unaryGate_drop [OF assms(1,2)]
    by (simp add: PlaceOrder_def Let_def split_beta countPlace_faults checkAccount_faults placeLocked_faults)
qed

definition drop_one :: Fault where
  "drop_one = \<lparr>f_ID = 1, f_Method = ''PlaceOrder'', f_Action = ''drop_after_apply'', f_Code = 14,
     f_Message = ''lost'', f_Delay = 0, f_Count = 1, f_Probability = 0\<rparr>"

theorem dropped_answer_applies_witness:
  "(let s = sample_sim\<lparr>faults := (faults sample_sim)\<lparr>rules := [drop_one]\<rparr>\<rparr>
    in fst (PlaceOrder sample_codec sample_ctx sample_req s) = Err (Leaf 14 ''lost'') \<and>
       sim_orders (snd (PlaceOrder sample_codec sample_ctx sample_req s)) (order_id 1) = Some sample_order)"
proof -
  let ?s = "sample_sim\<lparr>faults := (faults sample_sim)\<lparr>rules := [drop_one]\<rparr>\<rparr>"
  have drop: "drops_answer drop_one" and one: "rules (faults ?s) = [drop_one]"
    by (simp_all add: drops_answer_def drop_one_def)
  have base: "?s\<lparr>faults := (faults ?s)\<lparr>rules := []\<rparr>\<rparr> = sample_sim" by (simp add: sample_sim_eq)
  have "\<exists>resp. fst (PlaceOrder sample_codec sample_ctx sample_req sample_sim) = Ok resp"
    by (simp add: run_defs sample_sim_eq sample_req_def Let_def)
  then obtain resp s' where run: "PlaceOrder sample_codec sample_ctx sample_req sample_sim = (Ok resp, s')"
    by (cases "PlaceOrder sample_codec sample_ctx sample_req sample_sim") auto
  have "sim_orders s' (order_id 1) = Some sample_order"
    using sample_place(1) run by (simp add: sample_placed_def sim_run_def)
  with dropped_answer_applies [OF one drop, unfolded base, OF run] show ?thesis
    by (simp add: Let_def drop_one_def)
qed

subsection \<open>Faults\<close>

text \<open>Calls of one method in a row, and what the gate says to each.\<close>

fun gates :: "nat \<Rightarrow> string \<Rightarrow> faultTable \<Rightarrow> directive list \<times> faultTable" where
  "gates 0 m ft = ([], ft)"
| "gates (Suc n) m ft =
     (let (d, ft1) = gate m ft; (ds, ft2) = gates n m ft1 in (d # ds, ft2))"

lemma gates_empty: "rules ft = [] \<Longrightarrow> map d_err (fst (gates n m ft)) = replicate n None"
  by (induction n arbitrary: ft) (auto simp: gate_def noDirective_def Let_def split_beta)

lemma gates_error:
  assumes "f_Method f = m" and "f_Action f = ''error''" and "f_Probability f = 0"
  shows "rules ft = [f\<lparr>f_Count := int (Suc n)\<rparr>] \<Longrightarrow>
    map d_err (fst (gates (Suc n + j) m ft)) =
      replicate (Suc n) (Some (Leaf (f_Code f) (f_Message f))) @ replicate j None"
proof (induction n arbitrary: ft)
  case 0
  then have "d_err (fst (gate m ft)) = Some (Leaf (f_Code f) (f_Message f))" "rules (snd (gate m ft)) = []"
    using assms by (simp_all add: gate_def matches_method_def skipped_def gateAction_def noDirective_def Let_def split_beta)
  with gates_empty [of "snd (gate m ft)" j m] show ?case by (simp add: Let_def split_beta)
next
  case (Suc n)
  then have "d_err (fst (gate m ft)) = Some (Leaf (f_Code f) (f_Message f))"
    "rules (snd (gate m ft)) = [f\<lparr>f_Count := int (Suc n)\<rparr>]"
    using assms by (simp_all add: gate_def matches_method_def skipped_def gateAction_def noDirective_def Let_def split_beta)
  with Suc.IH [of "snd (gate m ft)"] show ?case by (simp add: Let_def split_beta)
qed

text \<open>
  C30. An injected error fires exactly as often as it was told to: after adding an \<open>error\<close> rule with a
  positive count and no probability to an empty table, the first so many calls of its method fail with
  its code and message, a missing code being \<open>InvalidArgument\<close>, and every later call passes.
\<close>

theorem fault_fires_count:
  assumes "rules ft = []" and "f_Action f = ''error''" and "f_Method f \<noteq> ''''" and "f_Probability f = 0"
    and "f_Count f = int (Suc n)" and "f_Message f \<noteq> ''''"
  shows "map d_err (fst (gates (Suc n + j) (f_Method f) (snd (addFault f ft)))) =
    replicate (Suc n) (Some (Leaf (if f_Code f = 0 then code_InvalidArgument else f_Code f) (f_Message f))) @
    replicate j None"
proof -
  define g where "g = f\<lparr>f_Code := (if f_Code f = 0 then code_InvalidArgument else f_Code f), f_ID := nextID ft + 1\<rparr>"
  have "rules (snd (addFault f ft)) = [g\<lparr>f_Count := int (Suc n)\<rparr>]"
    using assms by (simp add: addFault_def validActions_def g_def Let_def)
  with gates_error [of g "f_Method f" "snd (addFault f ft)" n j] assms show ?thesis
    by (simp add: g_def)
qed

theorem fault_fires_count_witness:
  "map d_err (fst (gates 3 ''GetOrders'' (snd (addFault
      \<lparr>f_ID = 0, f_Method = ''GetOrders'', f_Action = ''error'', f_Code = 0, f_Message = ''no'', f_Delay = 0,
       f_Count = 2, f_Probability = 0\<rparr> \<lparr>nextID = 0, rules = [], draws = (\<lambda>_. 0), used_draws = 0\<rparr>)))) =
   [Some (Leaf 3 ''no''), Some (Leaf 3 ''no''), None]"
  using fault_fires_count [of "\<lparr>nextID = 0, rules = [], draws = (\<lambda>_. 0), used_draws = 0\<rparr>"
      "\<lparr>f_ID = 0, f_Method = ''GetOrders'', f_Action = ''error'', f_Code = 0, f_Message = ''no'', f_Delay = 0,
       f_Count = 2, f_Probability = 0\<rparr>" 1 1]
  by (simp add: code_InvalidArgument_def numeral_3_eq_3)

end
