(* ===== verification/GrpcClient.thy ===== *)
theory GrpcClient
  imports BrokerErrors
begin

text \<open>
  The connection wrapper \<open>grpcclient/grpcclient.go\<close>: its readiness and closing, with its three kinds of
  goroutines (the monitor, callers of \<open>GetConn\<close>, callers of \<open>Close\<close>) interleaved at every access to shared
  state. A critical section of the mutex is one step. Channels are numbered; \<open>shut\<close> holds those closed so
  far. What \<open>grpc.ClientConn\<close> reports as its state is arbitrary.
\<close>

subsection \<open>The client\<close>

datatype connectivity = Idle | Connecting | Ready | TransientFailure | Shutdown

record Grpc =
  isReady :: bool
  isClosed :: bool
  readyCh :: nat
  closedCh_shut :: bool
  nextCh :: nat
  shut :: "nat set"

text \<open>\<open>setReady\<close>; closing a closed channel panics, which is \<open>None\<close>.\<close>

definition setReady :: "bool \<Rightarrow> Grpc \<Rightarrow> Grpc option" where
  "setReady r c =
     (if r \<and> isClosed c then Some c
      else
        (let wasReady = isReady c
         in if r \<and> \<not> wasReady then
              (if readyCh c \<in> shut c then None
               else Some (c\<lparr>isReady := True, shut := insert (readyCh c) (shut c)\<rparr>))
            else if \<not> r \<and> wasReady then
              Some (c\<lparr>isReady := False, readyCh := nextCh c, nextCh := nextCh c + 1\<rparr>)
            else Some c))"

text \<open>
  \<open>waitForState\<close> over what it reads: in each round the connection's state, and whether
  \<open>WaitForStateChange\<close> saw a change before the context ended. \<open>None\<close>: still waiting.
\<close>

fun waitForState :: "connectivity \<Rightarrow> (connectivity \<times> bool) list \<Rightarrow> go_error \<Rightarrow> go_error \<Rightarrow> (go_error option) option" where
  "waitForState target [] closedErr ctxErr = None"
| "waitForState target ((st, changed) # rounds) closedErr ctxErr =
     (if st = target then Some None
      else if st = Shutdown then Some (Some closedErr)
      else if \<not> changed then Some (Some ctxErr)
      else waitForState target rounds closedErr ctxErr)"

definition unreadyClient :: Grpc where
  "unreadyClient =
     \<lparr>isReady = False, isClosed = False, readyCh = 0, closedCh_shut = False, nextCh = 1, shut = {}\<rparr>"

text \<open>\<open>newClient\<close>: the errors of \<open>grpc.NewClient\<close>, of the wait for readiness and of closing after it.\<close>

definition newClient :: "go_error option \<Rightarrow> go_error option \<Rightarrow> go_error option \<Rightarrow> go_error + Grpc option" where
  "newClient dialErr waitErr closeErr =
     (case dialErr of
        Some e \<Rightarrow> Inl e
      | None \<Rightarrow>
          (case waitErr of
             Some e \<Rightarrow> Inl (case closeErr of Some e' \<Rightarrow> e' | None \<Rightarrow> e)
           | None \<Rightarrow> Inr (setReady True unreadyClient)))"

subsection \<open>Goroutines\<close>

datatype conn_result = GotConn | ErrClosed | CtxErr

datatype get_pc = LoadClosed | LoadReady | TakeCh | Select nat | Woken | Returned conn_result

text \<open>What a caller of \<open>GetConn\<close> may do next; its context may end at any time.\<close>

fun GetConn :: "Grpc \<Rightarrow> get_pc \<Rightarrow> get_pc list" where
  "GetConn c LoadClosed = [if isClosed c then Returned ErrClosed else LoadReady]"
| "GetConn c LoadReady = [if isReady c then Returned GotConn else TakeCh]"
| "GetConn c TakeCh = [Select (readyCh c)]"
| "GetConn c (Select ch) =
     (if ch \<in> shut c then [Woken] else []) @ (if closedCh_shut c then [Returned ErrClosed] else []) @ [Returned CtxErr]"
| "GetConn c Woken = [if isClosed c then Returned ErrClosed else Returned GotConn]"
| "GetConn c (Returned r) = []"

datatype close_pc = StoreClosed | CloseOnce | Unready | CloseConn | Closed

text \<open>A step of \<open>Close\<close>; \<open>closeOnce\<close> closes the channel the first time only.\<close>

fun Close :: "close_pc \<Rightarrow> Grpc \<Rightarrow> (close_pc \<times> Grpc) option" where
  "Close StoreClosed c = Some (CloseOnce, c\<lparr>isClosed := True\<rparr>)"
| "Close CloseOnce c = Some (Unready, c\<lparr>closedCh_shut := True\<rparr>)"
| "Close Unready c = map_option (Pair CloseConn) (setReady False c)"
| "Close CloseConn c = Some (Closed, c)"
| "Close Closed c = Some (Closed, c)"

datatype mon_pc = Check | GetState | Act connectivity | Wait | Stopped

text \<open>A step of the monitor; \<open>st\<close> is what the connection's \<open>GetState\<close> returns.\<close>

fun monitorStep :: "connectivity \<Rightarrow> mon_pc \<Rightarrow> Grpc \<Rightarrow> (mon_pc \<times> Grpc) option" where
  "monitorStep st Check c = Some (if isClosed c then Stopped else GetState, c)"
| "monitorStep st GetState c = Some (Act st, c)"
| "monitorStep st (Act Ready) c = map_option (Pair Wait) (setReady True c)"
| "monitorStep st (Act Shutdown) c = map_option (Pair Stopped) (setReady False c)"
| "monitorStep st (Act other) c = map_option (Pair Wait) (setReady False c)"
| "monitorStep st Wait c = Some (Check, c)"
| "monitorStep st Stopped c = Some (Stopped, c)"

subsection \<open>The system\<close>

record Sys =
  client :: Grpc
  calls :: "nat \<rightharpoonup> get_pc"
  closes :: "nat \<rightharpoonup> close_pc"
  mon :: mon_pc

text \<open>One step of one goroutine; a panic of any of them has no successor and is spoken of by \<open>panics\<close>.\<close>

inductive sys_step :: "Sys \<Rightarrow> Sys \<Rightarrow> bool" where
  call: "calls s i = None \<Longrightarrow> sys_step s (s\<lparr>calls := (calls s)(i \<mapsto> LoadClosed)\<rparr>)"
| get: "calls s i = Some pc \<Longrightarrow> pc' \<in> set (GetConn (client s) pc) \<Longrightarrow>
    sys_step s (s\<lparr>calls := (calls s)(i \<mapsto> pc')\<rparr>)"
| stop: "closes s j = None \<Longrightarrow> sys_step s (s\<lparr>closes := (closes s)(j \<mapsto> StoreClosed)\<rparr>)"
| close: "closes s j = Some pc \<Longrightarrow> Close pc (client s) = Some (pc', c') \<Longrightarrow>
    sys_step s (s\<lparr>closes := (closes s)(j \<mapsto> pc'), client := c'\<rparr>)"
| monitor: "monitorStep st (mon s) (client s) = Some (pc', c') \<Longrightarrow>
    sys_step s (s\<lparr>mon := pc', client := c'\<rparr>)"

definition panics :: "Sys \<Rightarrow> bool" where
  "panics s \<longleftrightarrow>
     (\<exists>j pc. closes s j = Some pc \<and> Close pc (client s) = None) \<or>
     (\<exists>st. monitorStep st (mon s) (client s) = None)"

inductive reachable_sys :: "Sys \<Rightarrow> bool" where
  start: "newClient None None closeErr = Inr (Some c) \<Longrightarrow>
    reachable_sys \<lparr>client = c, calls = Map.empty, closes = Map.empty, mon = Check\<rparr>"
| step: "reachable_sys s \<Longrightarrow> sys_step s s' \<Longrightarrow> reachable_sys s'"

inductive_cases sys_stepE: "sys_step s s'"

subsection \<open>The invariant\<close>

text \<open>The current channel is closed just when the client is ready; closed channels are numbered below \<open>nextCh\<close>.\<close>

definition client_ok :: "Grpc \<Rightarrow> bool" where
  "client_ok c \<longleftrightarrow>
     (isReady c \<longleftrightarrow> readyCh c \<in> shut c) \<and> readyCh c < nextCh c \<and> shut c \<subseteq> {..<nextCh c} \<and>
     (closedCh_shut c \<longrightarrow> isClosed c)"

text \<open>
  \<open>later c c'\<close>: what never goes back. Closed stays closed, a closed channel stays so, the current channel is
  replaced only once it is closed, and a closed client that is not ready never becomes ready.
\<close>

definition later :: "Grpc \<Rightarrow> Grpc \<Rightarrow> bool" where
  "later c c' \<longleftrightarrow>
     (isClosed c \<longrightarrow> isClosed c') \<and> (closedCh_shut c \<longrightarrow> closedCh_shut c') \<and> shut c \<subseteq> shut c' \<and>
     (readyCh c' = readyCh c \<or> readyCh c \<in> shut c') \<and> (isClosed c \<and> \<not> isReady c \<longrightarrow> \<not> isReady c')"

lemma setReady_ok:
  assumes "client_ok c"
  shows "\<exists>c'. setReady r c = Some c' \<and> client_ok c' \<and> later c c' \<and> isClosed c' = isClosed c \<and> (\<not> r \<longrightarrow> \<not> isReady c')"
  using assms by (auto simp: setReady_def client_ok_def later_def Let_def)

lemma later_refl [simp]: "later c c"
  by (simp add: later_def)

lemma Close_ok:
  assumes "client_ok c" and "pc = CloseOnce \<longrightarrow> isClosed c"
  shows "\<exists>pc' c'. Close pc c = Some (pc', c') \<and> client_ok c' \<and> later c c' \<and>
    (pc' = CloseOnce \<longrightarrow> pc = StoreClosed \<and> isClosed c') \<and> (pc = Unready \<longrightarrow> \<not> isReady c') \<and>
    (pc \<noteq> Unready \<longrightarrow> isReady c' = isReady c)"
  using assms setReady_ok [of c False]
  by (cases pc) (auto simp: client_ok_def later_def)

lemma monitorStep_ok:
  assumes "client_ok c"
  shows "\<exists>pc' c'. monitorStep st pc c = Some (pc', c') \<and> client_ok c' \<and> later c c'"
proof (cases pc)
  case (Act x)
  then show ?thesis using assms setReady_ok [of c True] setReady_ok [of c False] by (cases x) auto
qed (use assms in simp_all)

definition sys_ok :: "Sys \<Rightarrow> bool" where
  "sys_ok s \<longleftrightarrow>
     client_ok (client s) \<and>
     (\<forall>i ch. calls s i = Some (Select ch) \<longrightarrow> ch \<in> shut (client s) \<or> ch = readyCh (client s)) \<and>
     (\<forall>j pc. closes s j = Some pc \<longrightarrow>
        (pc \<noteq> StoreClosed \<longrightarrow> isClosed (client s)) \<and>
        (pc \<in> {Unready, CloseConn, Closed} \<longrightarrow> closedCh_shut (client s)) \<and>
        (pc \<in> {CloseConn, Closed} \<longrightarrow> \<not> isReady (client s)))"

lemma sys_okD:
  assumes "sys_ok s"
  shows "client_ok (client s)"
    and "calls s i = Some (Select ch) \<Longrightarrow> ch \<in> shut (client s) \<or> ch = readyCh (client s)"
    and "closes s j = Some pc \<Longrightarrow> pc \<noteq> StoreClosed \<Longrightarrow> isClosed (client s)"
    and "closes s j = Some pc \<Longrightarrow> pc \<in> {Unready, CloseConn, Closed} \<Longrightarrow> closedCh_shut (client s)"
    and "closes s j = Some pc \<Longrightarrow> pc \<in> {CloseConn, Closed} \<Longrightarrow> \<not> isReady (client s)"
  using assms unfolding sys_ok_def by blast+

text \<open>What the goroutines rely on is kept by a client that moves on.\<close>

lemma sys_ok_later:
  assumes "sys_ok s" and "client_ok c'" and "later (client s) c'"
  shows "sys_ok (s\<lparr>client := c'\<rparr>)"
  unfolding sys_ok_def
proof (intro conjI allI impI)
  fix i ch
  assume "calls (s\<lparr>client := c'\<rparr>) i = Some (Select ch)"
  then show "ch \<in> shut (client (s\<lparr>client := c'\<rparr>)) \<or> ch = readyCh (client (s\<lparr>client := c'\<rparr>))"
    using sys_okD(2) [OF assms(1), of i ch] assms(3) by (auto simp: later_def)
next
  fix j pc
  assume "closes (s\<lparr>client := c'\<rparr>) j = Some pc"
  then have pc: "pc \<noteq> StoreClosed \<longrightarrow> isClosed (client s)"
      "pc \<in> {Unready, CloseConn, Closed} \<longrightarrow> closedCh_shut (client s)"
      "pc \<in> {CloseConn, Closed} \<longrightarrow> \<not> isReady (client s)"
    using sys_okD(3-5) [OF assms(1)] by simp_all
  show "isClosed (client (s\<lparr>client := c'\<rparr>))" if "pc \<noteq> StoreClosed"
    using pc(1) that assms(3) by (simp add: later_def)
  show "closedCh_shut (client (s\<lparr>client := c'\<rparr>))" if "pc \<in> {Unready, CloseConn, Closed}"
    using pc(2) that assms(3) by (auto simp: later_def)
  show "\<not> isReady (client (s\<lparr>client := c'\<rparr>))" if "pc \<in> {CloseConn, Closed}"
    using pc(1,3) that assms(3) by (auto simp: later_def)
qed (use assms(2) in simp)

lemma sys_ok_start:
  assumes "newClient None None closeErr = Inr (Some c)"
  shows "sys_ok \<lparr>client = c, calls = Map.empty, closes = Map.empty, mon = Check\<rparr>"
  using assms by (auto simp: sys_ok_def newClient_def setReady_def unreadyClient_def client_ok_def)

lemma sys_ok_step:
  assumes "sys_step s s'" and "sys_ok s"
  shows "sys_ok s'"
  using assms(1)
proof cases
  case (get i pc pc')
  then show ?thesis using assms(2) by (cases pc) (auto simp: sys_ok_def split: if_splits)
next
  case (close j pc pc' c')
  have ok: "client_ok (client s)" and at: "closes s j = Some pc" using assms(2) close by (simp_all add: sys_ok_def)
  have once: "pc = CloseOnce \<longrightarrow> isClosed (client s)" using sys_okD(3) [OF assms(2) at] by simp
  have c': "client_ok c'" "later (client s) c'" using Close_ok [OF ok once] close(3) by auto
  have "sys_ok (s\<lparr>client := c'\<rparr>)" by (rule sys_ok_later [OF assms(2) c'])
  moreover have "(pc' \<noteq> StoreClosed \<longrightarrow> isClosed c') \<and> (pc' \<in> {Unready, CloseConn, Closed} \<longrightarrow> closedCh_shut c') \<and>
      (pc' \<in> {CloseConn, Closed} \<longrightarrow> \<not> isReady c')"
    using close(3) sys_okD(3-5) [OF assms(2) at] setReady_ok [OF ok, of False]
    by (cases pc) (auto simp: later_def)
  ultimately show ?thesis unfolding close(1) by (auto simp: sys_ok_def)
next
  case (monitor st pc' c')
  have "client_ok (client s)" using assms(2) by (simp add: sys_ok_def)
  with monitorStep_ok [OF this, of st "mon s"] monitor(2) have "client_ok c'" "later (client s) c'" by auto
  from sys_ok_later [OF assms(2) this] show ?thesis unfolding monitor(1) by (simp add: sys_ok_def)
qed (use assms(2) in \<open>auto simp: sys_ok_def\<close>)

lemma reachable_ok: "reachable_sys s \<Longrightarrow> sys_ok s"
  by (induction rule: reachable_sys.induct) (blast intro: sys_ok_start sys_ok_step)+

subsection \<open>Properties\<close>

text \<open>The client as \<open>newClient\<close> hands it out.\<close>

lemma first_call:
  "reachable_sys \<lparr>client = \<lparr>isReady = True, isClosed = False, readyCh = 0, closedCh_shut = False, nextCh = 1, shut = {0}\<rparr>,
     calls = Map.empty, closes = Map.empty, mon = Check\<rparr>"
  by (rule reachable_sys.start [where closeErr = None]) (simp add: newClient_def setReady_def unreadyClient_def Let_def)

text \<open>A run: \<open>Close\<close> has marked the client closed and not yet withdrawn readiness when a call comes.\<close>

definition closing :: Sys where
  "closing = \<lparr>client = \<lparr>isReady = True, isClosed = True, readyCh = 0, closedCh_shut = False, nextCh = 1, shut = {0}\<rparr>,
     calls = Map.empty, closes = [0 \<mapsto> CloseOnce], mon = Check\<rparr>"

lemma closing_reachable: "reachable_sys closing"
proof -
  let ?c = "\<lparr>isReady = True, isClosed = False, readyCh = 0, closedCh_shut = False, nextCh = 1, shut = {0}\<rparr>"
  let ?s = "\<lparr>client = ?c, calls = Map.empty, closes = Map.empty, mon = Check\<rparr>"
  have "sys_step ?s (?s\<lparr>closes := [0 \<mapsto> StoreClosed]\<rparr>)" using sys_step.stop [of ?s 0] by simp
  moreover have "sys_step (?s\<lparr>closes := [0 \<mapsto> StoreClosed]\<rparr>) closing"
    using sys_step.close [of "?s\<lparr>closes := [0 \<mapsto> StoreClosed]\<rparr>" 0 StoreClosed CloseOnce "?c\<lparr>isClosed := True\<rparr>"]
    by (simp add: closing_def)
  ultimately show ?thesis using reachable_sys.step [OF first_call] reachable_sys.step by blast
qed

text \<open>
  C37. However the monitor, the callers and the closers interleave: no goroutine ever panics on a channel that is
  closed already; the ready flag is set exactly while the current ready channel is closed, and the channel of
  \<open>Close\<close> is closed only in a client marked closed; a caller waiting while the client is ready, or after a \<open>Close\<close> has closed its channel, has a
  wake-up waiting for it, so none is lost; and once a \<open>Close\<close> has withdrawn readiness nothing brings it back.
\<close>

theorem grpc_client_sound:
  assumes "reachable_sys s"
  shows "\<not> panics s \<and>
    (isReady (client s) \<longleftrightarrow> readyCh (client s) \<in> shut (client s)) \<and>
    (closedCh_shut (client s) \<longrightarrow> isClosed (client s)) \<and>
    (\<forall>i ch. calls s i = Some (Select ch) \<longrightarrow> isReady (client s) \<longrightarrow> Woken \<in> set (GetConn (client s) (Select ch))) \<and>
    (\<forall>j pc i ch. closes s j = Some pc \<longrightarrow> pc \<in> {Unready, CloseConn, Closed} \<longrightarrow> calls s i = Some (Select ch) \<longrightarrow>
       Returned ErrClosed \<in> set (GetConn (client s) (Select ch))) \<and>
    (\<forall>j pc. closes s j = Some pc \<longrightarrow> pc \<in> {CloseConn, Closed} \<longrightarrow> \<not> isReady (client s))"
proof -
  have ok: "sys_ok s" by (rule reachable_ok [OF assms])
  then have c: "client_ok (client s)" by (simp add: sys_ok_def)
  have "Close pc (client s) \<noteq> None" if "closes s j = Some pc" for j pc
    using Close_ok [OF c, of pc] sys_okD(3) [OF ok that] by force
  moreover have "monitorStep st (mon s) (client s) \<noteq> None" for st
    using monitorStep_ok [OF c, of st "mon s"] by auto
  ultimately have "\<not> panics s" unfolding panics_def by blast
  moreover have "Woken \<in> set (GetConn (client s) (Select ch))" if "calls s i = Some (Select ch)" "isReady (client s)" for i ch
    using sys_okD(2) [OF ok that(1)] that(2) c by (auto simp: client_ok_def)
  moreover have "Returned ErrClosed \<in> set (GetConn (client s) (Select ch))"
    if "closes s j = Some pc" "pc \<in> {Unready, CloseConn, Closed}" for j pc ch
    using sys_okD(4) [OF ok that] by simp
  moreover have "isReady (client s) \<longleftrightarrow> readyCh (client s) \<in> shut (client s)" "closedCh_shut (client s) \<longrightarrow> isClosed (client s)"
    using c by (simp_all add: client_ok_def)
  ultimately show ?thesis using sys_okD(5) [OF ok] by blast
qed

theorem grpc_client_sound_witness:
  "\<not> panics closing \<and> isReady (client closing) \<and> readyCh (client closing) \<in> shut (client closing) \<and> isClosed (client closing)"
  using grpc_client_sound [OF closing_reachable] by (simp add: closing_def)

text \<open>
  C38. A closed client hands out no connection: a call of \<open>GetConn\<close> that starts after some \<open>Close\<close> has marked the
  client closed gets \<open>ErrClosed\<close> or nothing, whatever else goes on.
\<close>

theorem closed_client_refuses:
  assumes "reachable_sys s" and "isClosed (client s)" and "calls s i = None" and "sys_step\<^sup>*\<^sup>* s s'"
  shows "calls s' i \<in> {None, Some LoadClosed, Some (Returned ErrClosed)}"
proof -
  have "sys_ok s' \<and> isClosed (client s') \<and> calls s' i \<in> {None, Some LoadClosed, Some (Returned ErrClosed)}"
    using assms(4)
  proof induction
    case base
    then show ?case using assms(2,3) reachable_ok [OF assms(1)] by simp
  next
    case (step t u)
    then have t: "sys_ok t" "isClosed (client t)" "calls t i \<in> {None, Some LoadClosed, Some (Returned ErrClosed)}"
      by simp_all
    have ok: "sys_ok u" by (rule sys_ok_step [OF step(2) t(1)])
    show ?case
      using step(2)
    proof cases
      case (close j pc pc' c')
      have "client_ok (client t)" "pc = CloseOnce \<longrightarrow> isClosed (client t)" using t sys_okD(1) by simp_all
      from Close_ok [OF this] close(3) have "later (client t) c'" by auto
      then show ?thesis using ok t close(1) by (simp add: later_def)
    next
      case (monitor st pc' c')
      have "client_ok (client t)" using t by (simp add: sys_ok_def)
      from monitorStep_ok [OF this, of st "mon t"] monitor(2) have "later (client t) c'" by auto
      then show ?thesis using ok t monitor(1) by (simp add: later_def)
    qed (use ok t in \<open>auto split: if_splits\<close>)
  qed
  then show ?thesis by blast
qed

theorem closed_client_refuses_witness:
  "\<exists>s'. sys_step\<^sup>*\<^sup>* closing s' \<and> calls s' 7 = Some (Returned ErrClosed) \<and>
     calls s' 7 \<in> {None, Some LoadClosed, Some (Returned ErrClosed)}"
proof -
  let ?s1 = "closing\<lparr>calls := [7 \<mapsto> LoadClosed]\<rparr>"
  let ?s2 = "closing\<lparr>calls := [7 \<mapsto> Returned ErrClosed]\<rparr>"
  have "sys_step closing ?s1" using sys_step.call [of closing 7] by (simp add: closing_def)
  moreover have "sys_step ?s1 ?s2"
    using sys_step.get [of ?s1 7 LoadClosed "Returned ErrClosed"] by (simp add: closing_def)
  ultimately have run: "sys_step\<^sup>*\<^sup>* closing ?s2" by simp
  from closed_client_refuses [OF closing_reachable _ _ run, of 7] run show ?thesis
    by (intro exI [of _ ?s2]) (simp add: closing_def)
qed

end
