(* ===== verification/ClientAuth.thy ===== *)
theory ClientAuth
  imports BrokerErrors "HOL-Library.Word"
begin

text \<open>
  The client's connections and its token: \<open>trade/finam/auth.go\<close>. Connections are numbered in the order they
  are dialled; \<open>down\<close> lists those closed. The answers of the authentication service, of a dial and of the
  clock are arguments. The doubling backoff is on 64-bit words; in \<open>refreshDelay\<close> the subtraction wraps as
  the code's \<open>int64\<close> does.
\<close>

subsection \<open>Delays\<close>

definition authTimeout :: duration where
  "authTimeout = 30 * second"

definition authRetryDelay :: duration where
  "authRetryDelay = second"

definition unaryRPCTimeout :: duration where
  "unaryRPCTimeout = 10 * second"

definition refreshMargin :: duration where
  "refreshMargin = 180 * second"

definition fallbackReauthInterval :: duration where
  "fallbackReauthInterval = 300 * second"

definition minRefreshDelay :: duration where
  "minRefreshDelay = 30 * second"

definition authStuckReconnect :: duration where
  "authStuckReconnect = 180 * second"

definition dialRetryBase :: "64 word" where
  "dialRetryBase = 1000000000"

definition dialRetryMax :: "64 word" where
  "dialRetryMax = 30000000000"

text \<open>The loop of \<open>dialBackoff\<close>: \<open>n\<close> doublings, given up once \<open>max\<close> is reached.\<close>

primrec doubled :: "nat \<Rightarrow> 64 word \<Rightarrow> 64 word \<Rightarrow> 64 word" where
  "doubled 0 max' d = d"
| "doubled (Suc n) max' d = (if sint max' \<le> sint d then d else doubled n max' (d * 2))"

definition dialBackoff :: "nat \<Rightarrow> 64 word \<Rightarrow> 64 word \<Rightarrow> 64 word" where
  "dialBackoff attempt base max' =
     (let d = doubled (attempt - 1) max' base in if sint max' < sint d then max' else d)"

definition wrap64 :: "int \<Rightarrow> int" where
  "wrap64 x = (x + 2 ^ 63) mod 2 ^ 64 - 2 ^ 63"

definition refreshDelay :: "time \<Rightarrow> time \<Rightarrow> duration" where
  "refreshDelay expiresAt now =
     (let d = wrap64 (time_sub expiresAt now - refreshMargin)
      in if d < minRefreshDelay then minRefreshDelay else d)"

text \<open>\<open>TokenDetails\<close> may fail or leave the expiry out.\<close>

definition nextRefreshDelay :: "go_error + time option \<Rightarrow> time \<Rightarrow> duration" where
  "nextRefreshDelay details now =
     (case details of
        Inl e \<Rightarrow> fallbackReauthInterval
      | Inr None \<Rightarrow> fallbackReauthInterval
      | Inr (Some expiresAt) \<Rightarrow> refreshDelay expiresAt now)"

subsection \<open>Dialling\<close>

datatype endpoint = Insecure string | TLS string

definition defaultAPIAddr :: string where
  "defaultAPIAddr = ''api.finam.ru:443''"

text \<open>The endpoint \<open>dialBroker\<close> picks, from the environment variable.\<close>

definition dialBroker :: "string \<Rightarrow> endpoint" where
  "dialBroker addr = (if addr \<noteq> '''' then Insecure addr else TLS defaultAPIAddr)"

text \<open>
  \<open>newClientRetry\<close>: \<open>dial n\<close> is the outcome of attempt \<open>n\<close>, \<open>cancelled n\<close> says that the context ends during
  the wait after it. The second result lists the delays waited; a loop that never ends has no value.
\<close>

partial_function (option) retryLoop ::
  "(nat \<Rightarrow> go_error + 'c) \<Rightarrow> (nat \<Rightarrow> bool) \<Rightarrow> go_error \<Rightarrow> 64 word \<Rightarrow> 64 word \<Rightarrow> nat \<Rightarrow> 64 word list \<Rightarrow>
   ((go_error + 'c) \<times> 64 word list) option" where
  "retryLoop dial cancelled ctxErr base max' attempt waited =
     (case dial attempt of
        Inr client \<Rightarrow> Some (Inr client, waited)
      | Inl err \<Rightarrow>
          (let delay = dialBackoff attempt base max'
           in if cancelled attempt then Some (Inl (Wrapped ''connecting to the broker'' ctxErr), waited)
              else retryLoop dial cancelled ctxErr base max' (attempt + 1) (waited @ [delay])))"

definition newClientRetry ::
  "(nat \<Rightarrow> go_error + 'c) \<Rightarrow> (nat \<Rightarrow> bool) \<Rightarrow> go_error \<Rightarrow> 64 word \<Rightarrow> 64 word \<Rightarrow>
   ((go_error + 'c) \<times> 64 word list) option" where
  "newClientRetry dial cancelled ctxErr base max' = retryLoop dial cancelled ctxErr base max' 1 []"

definition NewClientRetry ::
  "(nat \<Rightarrow> go_error + 'c) \<Rightarrow> (nat \<Rightarrow> bool) \<Rightarrow> go_error \<Rightarrow> ((go_error + 'c) \<times> 64 word list) option" where
  "NewClientRetry dial cancelled ctxErr = newClientRetry dial cancelled ctxErr dialRetryBase dialRetryMax"

subsection \<open>The client\<close>

record AuthClient =
  grpcClient :: nat
  streamClient :: nat
  jwt :: string
  readySignalled :: bool
  shutFlag :: bool
  stopShut :: bool
  reconnects :: int
  authStuckOverrideNs :: duration
  made :: nat
  down :: "nat list"

definition GetJWT :: "AuthClient \<Rightarrow> string" where
  "GetJWT c = jwt c"

text \<open>
  The connections calls and streams go out on; \<open>get i t\<close> is what \<open>GetConn\<close> of the wrapper numbered \<open>i\<close> returns by the
  deadline \<open>t\<close>. \<open>dial\<close> bounds the deadline of its caller's context and adds the token.
\<close>

definition auth_GetConn :: "(nat \<Rightarrow> time \<Rightarrow> go_error + nat) \<Rightarrow> time \<Rightarrow> AuthClient \<Rightarrow> go_error + nat" where
  "auth_GetConn get t c = get (grpcClient c) t"

definition GetStreamConn :: "(nat \<Rightarrow> time \<Rightarrow> go_error + nat) \<Rightarrow> time \<Rightarrow> AuthClient \<Rightarrow> go_error + nat" where
  "GetStreamConn get t c = get (streamClient c) t"

definition auth_dial ::
  "(nat \<Rightarrow> time \<Rightarrow> go_error + nat) \<Rightarrow> time option \<Rightarrow> time \<Rightarrow> AuthClient \<Rightarrow> go_error + nat \<times> time \<times> string" where
  "auth_dial get deadline now c =
     (let t = (case deadline of None \<Rightarrow> now + unaryRPCTimeout | Some d \<Rightarrow> min d (now + unaryRPCTimeout))
      in case auth_GetConn get t c of
           Inl e \<Rightarrow> Inl e
         | Inr conn \<Rightarrow> Inr (conn, t, GetJWT c))"

text \<open>\<open>Close\<close> in its steps: the marks, the streaming connection, reading the trading one, closing what was read.\<close>

definition closeMark :: "AuthClient \<Rightarrow> AuthClient" where
  "closeMark c = c\<lparr>shutFlag := True, stopShut := True\<rparr>"

definition closeConn :: "nat \<Rightarrow> AuthClient \<Rightarrow> AuthClient" where
  "closeConn i c = c\<lparr>down := down c @ [i]\<rparr>"

definition finam_Close :: "AuthClient \<Rightarrow> AuthClient" where
  "finam_Close c0 =
     (let c = closeMark c0; c = closeConn (streamClient c) c; gc = grpcClient c in closeConn gc c)"

text \<open>
  \<open>NewClient\<close>: the errors of the two dials and whether the first token came in time. The second result lists
  the connections that were opened and closed again on the way out.
\<close>

definition NewClient :: "go_error option \<Rightarrow> go_error option \<Rightarrow> string option \<Rightarrow> (go_error + AuthClient) \<times> nat list" where
  "NewClient tradeErr streamErr firstToken =
     (case tradeErr of
        Some e \<Rightarrow> (Inl e, [])
      | None \<Rightarrow>
          (case streamErr of
             Some e \<Rightarrow> (Inl (Wrapped ''dialing streaming connection'' e), [0])
           | None \<Rightarrow>
               (let client = \<lparr>grpcClient = 0, streamClient = 1, jwt = '''', readySignalled = False, shutFlag = False,
                      stopShut = False, reconnects = 0, authStuckOverrideNs = 0, made = 2, down = []\<rparr>
                in case firstToken of
                     Some token \<Rightarrow> (Inr (client\<lparr>jwt := token, readySignalled := True\<rparr>), [])
                   | None \<Rightarrow> (Inl (Leaf 2 ''timeout waiting for authentication''), down (finam_Close client)))))"

definition authStuckThreshold :: "AuthClient \<Rightarrow> duration" where
  "authStuckThreshold c = (if authStuckOverrideNs c > 0 then authStuckOverrideNs c else authStuckReconnect)"

definition SetAuthStuckReconnect :: "duration \<Rightarrow> AuthClient \<Rightarrow> AuthClient" where
  "SetAuthStuckReconnect d c = c\<lparr>authStuckOverrideNs := d\<rparr>"

definition ReconnectCount :: "AuthClient \<Rightarrow> int" where
  "ReconnectCount c = reconnects c"

text \<open>\<open>reconnectTrading\<close>: \<open>dialErr\<close> is the error of the replacement's dial.\<close>

definition reconnectTrading :: "go_error option \<Rightarrow> AuthClient \<Rightarrow> AuthClient" where
  "reconnectTrading dialErr c =
     (case dialErr of
        Some e \<Rightarrow> c
      | None \<Rightarrow>
          (let newConn = made c; old = grpcClient c
           in closeConn old (c\<lparr>made := newConn + 1, grpcClient := newConn, reconnects := reconnects c + 1\<rparr>)))"

definition handleAuthFailure :: "go_error option \<Rightarrow> time \<Rightarrow> time \<Rightarrow> AuthClient \<Rightarrow> time \<times> AuthClient" where
  "handleAuthFailure dialErr failingSince now c =
     (if failingSince = 0 then (now, c)
      else if time_sub now failingSince \<ge> authStuckThreshold c then (now, reconnectTrading dialErr c)
      else (failingSince, c))"

text \<open>
  One pass of \<open>monitor\<close> up to its sleep, over what it meets; the result is the delay slept, \<open>failingSince\<close> and
  the client.
\<close>

record AuthPass =
  connErr :: "go_error option"
  authAns :: "go_error + string"
  details :: "go_error + time option"
  failNow :: time
  refreshNow :: time
  redialErr :: "go_error option"

definition authPass :: "AuthPass \<Rightarrow> time \<Rightarrow> AuthClient \<Rightarrow> duration \<times> time \<times> AuthClient" where
  "authPass a failingSince c =
     (case connErr a of
        Some e \<Rightarrow> (authRetryDelay, handleAuthFailure (redialErr a) failingSince (failNow a) c)
      | None \<Rightarrow>
          (case authAns a of
             Inl e \<Rightarrow> (authRetryDelay, handleAuthFailure (redialErr a) failingSince (failNow a) c)
           | Inr token \<Rightarrow>
               (nextRefreshDelay (details a) (refreshNow a), 0, c\<lparr>jwt := token, readySignalled := True\<rparr>)))"

text \<open>The loop of \<open>monitor\<close> over the passes made until the client is closed.\<close>

fun authMonitor :: "AuthPass list \<Rightarrow> time \<Rightarrow> AuthClient \<Rightarrow> time \<times> AuthClient" where
  "authMonitor [] failingSince c = (failingSince, c)"
| "authMonitor (a # as) failingSince c =
     (if shutFlag c then (failingSince, c)
      else (case authPass a failingSince c of (delay, since, c') \<Rightarrow> authMonitor as since c'))"

subsection \<open>The backoff\<close>

lemma sint_double:
  fixes d :: "64 word"
  assumes "0 \<le> sint d" and "sint d < 2 ^ 62"
  shows "sint (d * 2) = 2 * sint d"
  using assms by (simp add: sint_word_ariths signed_take_bit_int_eq_self)

lemma doubled_min:
  assumes "sint max' \<le> 2 ^ 62"
  shows "0 < sint d \<Longrightarrow>
    min (sint (doubled n max' d)) (sint max') = min (sint d * 2 ^ n) (sint max') \<and> 0 < sint (doubled n max' d)"
proof (induction n arbitrary: d)
  case (Suc n)
  show ?case
  proof (cases "sint max' \<le> sint d")
    case True
    have "sint d * 1 \<le> sint d * 2 ^ Suc n"
      using Suc.prems one_le_power [of "2 :: int" "Suc n"] by (intro mult_left_mono) simp_all
    then have "sint max' \<le> sint d * 2 ^ Suc n" using True by simp
    then show ?thesis using True Suc.prems by (simp add: min_absorb2 del: power_Suc)
  next
    case False
    then have "sint (d * 2) = 2 * sint d" using assms Suc.prems by (intro sint_double) simp_all
    then show ?thesis using Suc.IH [of "d * 2"] Suc.prems False by (simp add: mult.assoc mult.left_commute)
  qed
qed simp

lemma dialBackoff_exact:
  assumes "0 < sint base" and "sint max' \<le> 2 ^ 62"
  shows "sint (dialBackoff n base max') = min (sint base * 2 ^ (n - 1)) (sint max')"
  using doubled_min [OF assms(2,1), of "n - 1"] by (simp add: dialBackoff_def Let_def min_def split: if_splits)

subsection \<open>The retry loop\<close>

definition stops :: "(nat \<Rightarrow> go_error + 'c) \<Rightarrow> (nat \<Rightarrow> bool) \<Rightarrow> nat \<Rightarrow> bool" where
  "stops dial cancelled n \<longleftrightarrow> (\<exists>c. dial n = Inr c) \<or> cancelled n"

definition outcome_at :: "(nat \<Rightarrow> go_error + 'c) \<Rightarrow> go_error \<Rightarrow> nat \<Rightarrow> go_error + 'c" where
  "outcome_at dial ctxErr n =
     (case dial n of Inr c \<Rightarrow> Inr c | Inl e \<Rightarrow> Inl (Wrapped ''connecting to the broker'' ctxErr))"

lemma retryLoop_stop:
  "stops dial cancelled n \<Longrightarrow> retryLoop dial cancelled ctxErr b m n w = Some (outcome_at dial ctxErr n, w)"
  by (subst retryLoop.simps) (auto simp: stops_def outcome_at_def Let_def split: sum.splits)

lemma retryLoop_go:
  "\<not> stops dial cancelled n \<Longrightarrow>
     retryLoop dial cancelled ctxErr b m n w = retryLoop dial cancelled ctxErr b m (Suc n) (w @ [dialBackoff n b m])"
  by (subst retryLoop.simps) (auto simp: stops_def Let_def split: sum.splits)

lemma retryLoop_returns:
  "\<forall>i. n \<le> i \<and> i < n + k \<longrightarrow> \<not> stops dial cancelled i \<Longrightarrow> stops dial cancelled (n + k) \<Longrightarrow>
     retryLoop dial cancelled ctxErr b m n w =
       Some (outcome_at dial ctxErr (n + k), w @ map (\<lambda>i. dialBackoff i b m) [n..<n + k])"
proof (induction k arbitrary: n w)
  case (Suc k)
  then have "\<not> stops dial cancelled n" by simp
  with Suc.IH [of "Suc n" "w @ [dialBackoff n b m]"] Suc.prems show ?case
    by (simp add: retryLoop_go upt_conv_Cons del: upt_Suc)
qed (simp add: retryLoop_stop)

text \<open>A loop that has a value has met a stop.\<close>

lemma retryLoop_value:
  assumes "retryLoop dial cancelled ctxErr b m n w = Some r"
  shows "\<exists>i\<ge>n. stops dial cancelled i"
proof (rule retryLoop.raw_induct [OF _ assms])
  fix loop dial cancelled ctxErr b m n w and r :: "(go_error + 'a) \<times> 64 word list"
  assume IH: "\<And>dial cancelled ctxErr b m n w r. loop dial cancelled ctxErr b m n w = Some r \<Longrightarrow> \<exists>i\<ge>n. stops dial cancelled i"
    and run: "(case dial n of
        Inr client \<Rightarrow> Some (Inr client, w)
      | Inl err \<Rightarrow>
          (let delay = dialBackoff n b m
           in if cancelled n then Some (Inl (Wrapped ''connecting to the broker'' ctxErr), w)
              else loop dial cancelled ctxErr b m (n + 1) (w @ [delay]))) = Some r"
  show "\<exists>i\<ge>n. stops dial cancelled i"
  proof (cases "stops dial cancelled n")
    case False
    then have "loop dial cancelled ctxErr b m (n + 1) (w @ [dialBackoff n b m]) = Some r"
      using run by (auto simp: stops_def Let_def split: sum.splits)
    from IH [OF this] obtain i where "n + 1 \<le> i" "stops dial cancelled i" by blast
    then show ?thesis by (intro exI [of _ i]) simp
  qed blast
qed

text \<open>
  C39. \<open>newClientRetry\<close> returns just when some dial succeeds or the context ends, and then with the first of these:
  that client, or the context's error. Between the attempts it has waited the base delay, doubled each time and
  never more than the cap; no doubling overflows, however long the outage.
\<close>

theorem newClientRetry_outcome:
  assumes "0 < sint base" and "sint max' \<le> 2 ^ 62"
  shows "(newClientRetry dial cancelled ctxErr base max' = None \<longleftrightarrow> (\<forall>n\<ge>1. \<not> stops dial cancelled n)) \<and>
    (\<forall>n\<ge>1. stops dial cancelled n \<longrightarrow> (\<forall>i. 1 \<le> i \<and> i < n \<longrightarrow> \<not> stops dial cancelled i) \<longrightarrow>
       (\<exists>waited. newClientRetry dial cancelled ctxErr base max' = Some (outcome_at dial ctxErr n, waited) \<and>
          map sint waited = map (\<lambda>i. min (sint base * 2 ^ (i - 1)) (sint max')) [1..<n]))"
proof -
  have first: "\<exists>waited. newClientRetry dial cancelled ctxErr base max' = Some (outcome_at dial ctxErr n, waited) \<and>
      map sint waited = map (\<lambda>i. min (sint base * 2 ^ (i - 1)) (sint max')) [1..<n]"
    if "1 \<le> n" "stops dial cancelled n" "\<forall>i. 1 \<le> i \<and> i < n \<longrightarrow> \<not> stops dial cancelled i" for n
  proof -
    obtain k where k: "n = Suc k" using \<open>1 \<le> n\<close> by (cases n) simp_all
    have "newClientRetry dial cancelled ctxErr base max' =
        Some (outcome_at dial ctxErr n, map (\<lambda>i. dialBackoff i base max') [1..<n])"
      using retryLoop_returns [of 1 k dial cancelled ctxErr base max' "[]"] that(2,3)
      unfolding newClientRetry_def k by simp
    then show ?thesis by (simp add: dialBackoff_exact [OF assms] comp_def)
  qed
  have "newClientRetry dial cancelled ctxErr base max' \<noteq> None" if n: "1 \<le> n" "stops dial cancelled n" for n
  proof -
    define k where "k = (LEAST k. 1 \<le> k \<and> stops dial cancelled k)"
    have "1 \<le> k \<and> stops dial cancelled k" 
      unfolding k_def by (rule LeastI [of "\<lambda>k. 1 \<le> k \<and> stops dial cancelled k" n]) (use n in simp)
    moreover have "\<forall>i. 1 \<le> i \<and> i < k \<longrightarrow> \<not> stops dial cancelled i" unfolding k_def using not_less_Least by blast
    ultimately obtain waited where
        "newClientRetry dial cancelled ctxErr base max' = Some (outcome_at dial ctxErr k, waited)"
      using first [of k] by blast
    then show ?thesis by simp
  qed
  moreover have "\<exists>n\<ge>1. stops dial cancelled n" if "newClientRetry dial cancelled ctxErr base max' = Some r" for r
    using retryLoop_value that by (simp add: newClientRetry_def)
  ultimately have "newClientRetry dial cancelled ctxErr base max' = None \<longleftrightarrow> (\<forall>n\<ge>1. \<not> stops dial cancelled n)"
    by (cases "newClientRetry dial cancelled ctxErr base max'") blast+
  with first show ?thesis by blast
qed

text \<open>A broker that answers at the third attempt.\<close>

definition slow_dial :: "nat \<Rightarrow> go_error + string" where
  "slow_dial n = (if n < 3 then Inl (Leaf 14 ''down'') else Inr ''client'')"

theorem newClientRetry_outcome_witness:
  "\<exists>waited. newClientRetry slow_dial (\<lambda>_. False) (Leaf 1 ''ctx'') dialRetryBase dialRetryMax = Some (Inr ''client'', waited) \<and>
     map sint waited = [1 * second, 2 * second]"
proof -
  have bounds: "0 < sint dialRetryBase" "sint dialRetryMax \<le> 2 ^ 62"
    by (simp_all add: dialRetryBase_def dialRetryMax_def)
  have stop: "stops slow_dial (\<lambda>_. False) 3" "\<forall>i. 1 \<le> i \<and> i < 3 \<longrightarrow> \<not> stops slow_dial (\<lambda>_. False) i"
    by (auto simp: stops_def slow_dial_def)
  from newClientRetry_outcome [OF bounds, of slow_dial "\<lambda>_. False" "Leaf 1 ''ctx''"] stop
  obtain waited where "newClientRetry slow_dial (\<lambda>_. False) (Leaf 1 ''ctx'') dialRetryBase dialRetryMax =
        Some (outcome_at slow_dial (Leaf 1 ''ctx'') 3, waited)"
      "map sint waited = map (\<lambda>i. min (sint dialRetryBase * 2 ^ (i - 1)) (sint dialRetryMax)) [1..<3]"
    by force
  then show ?thesis by (simp add: outcome_at_def slow_dial_def dialRetryBase_def dialRetryMax_def upt_conv_Cons)
qed

subsection \<open>The token's renewal\<close>

text \<open>
  A token is renewed \<open>refreshMargin\<close> before it expires, or after \<open>minRefreshDelay\<close> where that is later, so the
  loop never spins; the expiry must lie within 292 years of the clock.
\<close>

theorem refreshDelay_exact:
  assumes "min_duration + refreshMargin \<le> expiresAt - now" and "expiresAt - now \<le> max_duration"
  shows "refreshDelay expiresAt now = max minRefreshDelay (expiresAt - refreshMargin - now)"
  using assms
  by (simp add: refreshDelay_def wrap64_def time_sub_def min_duration_def max_duration_def refreshMargin_def Let_def
      max_def)

text \<open>An expiry at the zero time saturates \<open>Sub\<close>, and the margin then wraps: the delay is some 292 years.\<close>

theorem refreshDelay_wraps: "2 ^ 63 < now \<Longrightarrow> refreshDelay 0 now = 2 ^ 63 - refreshMargin"
  by (simp add: refreshDelay_def wrap64_def time_sub_def min_duration_def max_duration_def refreshMargin_def
      minRefreshDelay_def Let_def)

subsection \<open>Connections\<close>

text \<open>Of all connections ever dialled, exactly the two in use are open.\<close>

definition two_open :: "AuthClient \<Rightarrow> bool" where
  "two_open c \<longleftrightarrow>
     grpcClient c \<noteq> streamClient c \<and> grpcClient c < made c \<and> streamClient c < made c \<and> distinct (down c) \<and>
     set (down c) = {..<made c} - {grpcClient c, streamClient c}"

lemma NewClient_connections:
  "NewClient e1 e2 tok = (Inr c, closed') \<Longrightarrow> two_open c \<and> closed' = []"
  "NewClient e1 e2 tok = (Inl e, closed') \<Longrightarrow>
     closed' = (if e1 \<noteq> None then [] else if e2 \<noteq> None then [0] else [1, 0])"
  by (auto simp: NewClient_def two_open_def finam_Close_def closeMark_def closeConn_def Let_def lessThan_def
      split: option.splits)

lemma two_open_reconnect:
  assumes "two_open c"
  shows "two_open (reconnectTrading e c)"
proof (cases e)
  case None
  have g: "grpcClient c \<noteq> streamClient c" "grpcClient c < made c" "streamClient c < made c" "distinct (down c)"
    and d: "set (down c) = {..<made c} - {grpcClient c, streamClient c}"
    using assms unfolding two_open_def by blast+
  have "set (down c @ [grpcClient c]) = {..<made c + 1} - {made c, streamClient c}"
    unfolding set_append d using g(1-3) by auto
  moreover have "distinct (down c @ [grpcClient c])" using g(4) by (simp add: d)
  ultimately show ?thesis
    using g(3) by (simp add: None reconnectTrading_def closeConn_def two_open_def Let_def)
qed (simp add: reconnectTrading_def assms)

lemma two_open_token [simp]: "two_open (c\<lparr>jwt := t, readySignalled := r\<rparr>) = two_open c"
  by (simp add: two_open_def)

lemma two_open_failure: "two_open c \<Longrightarrow> two_open (snd (handleAuthFailure e since now c))"
  by (simp add: handleAuthFailure_def two_open_reconnect)

lemma two_open_pass: "two_open c \<Longrightarrow> two_open (snd (snd (authPass a since c)))"
  by (simp add: authPass_def two_open_failure split: option.split sum.split)

theorem monitor_two_open: "two_open c \<Longrightarrow> two_open (snd (authMonitor as since c))"
proof (induction as arbitrary: since c)
  case (Cons a as)
  then show ?case using two_open_pass [OF Cons.prems, of a since] by (cases "authPass a since c") simp
qed simp

text \<open>
  So a call never goes out on a connection that a reconnect has closed, nor on the one of the streams, and never
  without a deadline.
\<close>

lemma dial_sound:
  assumes "two_open c" and "\<And>i t j. get i t = Inr j \<Longrightarrow> j = i" and "auth_dial get deadline now c = Inr (conn, t, token)"
  shows "conn \<notin> set (down c) \<and> GetStreamConn get t' c \<noteq> Inr conn \<and> t \<le> now + unaryRPCTimeout \<and> token = jwt c \<and>
    (\<forall>d. deadline = Some d \<longrightarrow> t \<le> d)"
proof -
  have dial: "get (grpcClient c) t = Inr conn" "token = jwt c" "t \<le> now + unaryRPCTimeout"
    "\<forall>d. deadline = Some d \<longrightarrow> t \<le> d"
    using assms(3) by (auto simp: auth_dial_def auth_GetConn_def GetJWT_def Let_def split: sum.splits option.splits)
  then have conn: "conn = grpcClient c" by (blast intro: assms(2))
  moreover have "GetStreamConn get t' c \<noteq> Inr conn"
    using assms(2) [of "streamClient c" t' conn] assms(1) by (auto simp: GetStreamConn_def two_open_def conn)
  ultimately show ?thesis using dial assms(1) by (simp add: two_open_def)
qed

text \<open>
  Failures force a replacement only at the threshold's pace: while every pass fails, so many replacements take at
  least so many thresholds.
\<close>

definition failing :: "AuthPass \<Rightarrow> bool" where
  "failing a \<longleftrightarrow> connErr a \<noteq> None \<or> (\<exists>e. authAns a = Inl e)"

lemma authPass_failing:
  "failing a \<Longrightarrow> authPass a since c = (authRetryDelay, handleAuthFailure (redialErr a) since (failNow a) c)"
  by (auto simp: failing_def authPass_def split: option.split sum.split)

lemma handleAuthFailure_pace:
  assumes "handleAuthFailure e since now c = (since', c')" and "since \<noteq> 0" and "since \<le> now"
  shows "authStuckOverrideNs c' = authStuckOverrideNs c \<and> (since' = since \<or> since' = now) \<and>
    (reconnects c' - reconnects c) * authStuckThreshold c \<le> since' - since"
proof -
  have "0 < authStuckThreshold c" by (simp add: authStuckThreshold_def authStuckReconnect_def)
  moreover have "time_sub now since \<le> now - since" using assms(3) by (simp add: time_sub_le_diff)
  ultimately show ?thesis
    using assms
    by (auto simp: handleAuthFailure_def reconnectTrading_def closeConn_def Let_def split: if_splits option.splits)
qed

fun clocked :: "time \<Rightarrow> AuthPass list \<Rightarrow> bool" where
  "clocked t [] = True"
| "clocked t (a # as) \<longleftrightarrow> t \<le> failNow a \<and> clocked (failNow a) as"

lemma clocked_mono: "clocked t as \<Longrightarrow> t' \<le> t \<Longrightarrow> clocked t' as"
  by (cases as) auto

theorem reconnects_paced:
  "\<forall>a\<in>set as. failing a \<Longrightarrow> 0 < since \<Longrightarrow> clocked since as \<Longrightarrow> authMonitor as since c = (since', c') \<Longrightarrow>
     (reconnects c' - reconnects c) * authStuckThreshold c \<le> since' - since"
proof (induction as arbitrary: since c)
  case (Cons a as)
  show ?case
  proof (cases "shutFlag c")
    case False
    obtain s1 c1 where pass: "handleAuthFailure (redialErr a) since (failNow a) c = (s1, c1)"
      by (cases "handleAuthFailure (redialErr a) since (failNow a) c")
    have pace: "authStuckOverrideNs c1 = authStuckOverrideNs c" "s1 = since \<or> s1 = failNow a"
      "(reconnects c1 - reconnects c) * authStuckThreshold c \<le> s1 - since"
      using handleAuthFailure_pace [OF pass] Cons.prems by simp_all
    have "authMonitor as s1 c1 = (since', c')"
      using Cons.prems(4) False authPass_failing [of a since c] Cons.prems(1) pass by simp
    moreover have "0 < s1" "clocked s1 as" using pace(2) Cons.prems clocked_mono by auto
    ultimately have "(reconnects c' - reconnects c1) * authStuckThreshold c1 \<le> since' - s1"
      using Cons.IH Cons.prems(1) by simp
    moreover have "authStuckThreshold c1 = authStuckThreshold c" using pace(1) by (simp add: authStuckThreshold_def)
    ultimately show ?thesis using pace(3) by (simp add: left_diff_distrib)
  qed (use Cons.prems in simp)
qed simp

text \<open>A failure at the threshold asks for a replacement at once.\<close>

lemma stuck_reconnects:
  assumes "0 < since" and "authStuckThreshold c \<le> time_sub now since"
  shows "handleAuthFailure None since now c = (now, reconnectTrading None c) \<and>
    reconnects (reconnectTrading None c) = reconnects c + 1"
  using assms by (simp add: handleAuthFailure_def reconnectTrading_def closeConn_def Let_def)

text \<open>
  \<open>Close\<close> reads the trading connection under the lock and closes what it read. A replacement that swaps in
  between is closed by nobody: \<open>Close\<close> has read the old one, and the monitor stops at its next check.
\<close>

theorem close_races_reconnect:
  assumes "two_open c"
  shows "let c1 = closeConn (streamClient c) (closeMark c); old = grpcClient c1;
             c2 = closeConn old (reconnectTrading None c1)
         in shutFlag c2 \<and> grpcClient c2 < made c2 \<and> grpcClient c2 \<notin> set (down c2) \<and>
            authMonitor as since c2 = (since, c2)"
  using assms
  by (cases as) (auto simp: two_open_def reconnectTrading_def closeConn_def closeMark_def Let_def)

end
