(* ===== verification/ClientBook.thy ===== *)
theory ClientBook
  imports SimBook
begin

text \<open>
  The client's side of the order book stream: \<open>trade/finam/orderbook.go\<close>. The client folds the
  broker's rows into two maps, sorts them, refuses a crossed book and hands a snapshot to the
  strategy through a channel that keeps the newest. The connection and the reconnect loop are I/O;
  \<open>onResponse\<close> is what \<open>streamBook\<close> does with one response.
\<close>

subsection \<open>Folding rows\<close>

text \<open>\<open>apply\<close>, the closure of \<open>applyRow\<close>, on one side.\<close>

definition applySide :: "RowAction \<Rightarrow> real \<Rightarrow> decimal \<Rightarrow> book \<Rightarrow> book" where
  "applySide action price sizeValue b =
     (case action of
        ACTION_REMOVE \<Rightarrow> AList.delete price b
      | ACTION_OTHER k \<Rightarrow> b
      | _ \<Rightarrow> (case sizeValue of
                None \<Rightarrow> b
              | Some volume \<Rightarrow> if volume \<le> 0 then AList.delete price b else AList.update price volume b))"

definition applyRow :: "BookRow \<Rightarrow> book \<times> book \<Rightarrow> book \<times> book" where
  "applyRow row books =
     (case rowPrice row of
        None \<Rightarrow> books
      | Some None \<Rightarrow> books
      | Some (Some price) \<Rightarrow>
          (let (bidBook, askBook) = books;
               bidBook' = (case GetBuySize (rowSide row) of
                             None \<Rightarrow> bidBook | Some d \<Rightarrow> applySide (rowAction row) price d bidBook);
               askBook' = (case GetSellSize (rowSide row) of
                             None \<Rightarrow> askBook | Some d \<Rightarrow> applySide (rowAction row) price d askBook)
           in (bidBook', askBook')))"

definition applyRows :: "BookRow list \<Rightarrow> book \<times> book \<Rightarrow> book \<times> book" where
  "applyRows rows books = fold applyRow rows books"

subsection \<open>Snapshots\<close>

text \<open>
  A \<open>PriceLevel\<close> is a price and a volume. \<open>sort.Slice\<close> compares prices only and is not stable, but the
  keys of a map are distinct, so the order is determined.
\<close>

type_synonym PriceLevel = "real \<times> real"

definition sortedLevels :: "book \<Rightarrow> bool \<Rightarrow> PriceLevel list" where
  "sortedLevels b descending =
     (let levels = sort_key fst (filter (\<lambda>(p, v). v > 0) b)
      in if descending then rev levels else levels)"

definition crossed :: "PriceLevel list \<Rightarrow> PriceLevel list \<Rightarrow> bool" where
  "crossed bs as \<longleftrightarrow> length bs > 0 \<and> length as > 0 \<and> fst (bs ! 0) > fst (as ! 0)"

text \<open>
  The state of one \<open>streamBook\<close> subscription and what it does with one \<open>StreamOrderBook\<close>: a snapshot
  for the strategy, nothing while the book is crossed, or an error that forces a resubscription.
\<close>

record BookStream =
  askBook :: book
  bidBook :: book
  crossedCount :: nat

definition maxCrossedResync :: nat where
  "maxCrossedResync = 50"

datatype BookOut = Snap string "PriceLevel list" "PriceLevel list" | Withheld | Resync

definition onOrderBook :: "string \<times> BookRow list \<Rightarrow> BookStream \<Rightarrow> BookOut \<times> BookStream" where
  "onOrderBook ob s =
     (let (sy, rows) = ob;
          (bb, ab) = applyRows rows (bidBook s, askBook s);
          s1 = s\<lparr>bidBook := bb, askBook := ab\<rparr>;
          bs = sortedLevels bb True;
          as = sortedLevels ab False
      in if crossed bs as then
           (let n = crossedCount s + 1
            in (if n \<ge> maxCrossedResync then Resync else Withheld, s1\<lparr>crossedCount := n\<rparr>))
         else (Snap sy bs as, s1\<lparr>crossedCount := 0\<rparr>))"

text \<open>A response carries several books; a resync returns at once and leaves the rest unread.\<close>

fun onResponse :: "(string \<times> BookRow list) list \<Rightarrow> BookStream \<Rightarrow> BookOut list \<times> BookStream" where
  "onResponse [] s = ([], s)"
| "onResponse (ob # obs) s =
     (let (out, s1) = onOrderBook ob s
      in if out = Resync then ([out], s1)
         else (let (outs, s2) = onResponse obs s1 in (out # outs, s2)))"

definition newStream :: BookStream where
  "newStream = \<lparr>askBook = [], bidBook = [], crossedCount = 0\<rparr>"

text \<open>The responses of one subscription, up to the resync that ends it.\<close>

fun onResponses ::
  "(string \<times> BookRow list) list list \<Rightarrow> BookStream \<Rightarrow> BookOut list \<times> BookStream" where
  "onResponses [] s = ([], s)"
| "onResponses (r # rs) s =
     (let (outs, s1) = onResponse r s
      in if Resync \<in> set outs then (outs, s1)
         else (let (outs', s2) = onResponses rs s1 in (outs @ outs', s2)))"

subsection \<open>Execution price\<close>

fun executionLoop :: "real \<Rightarrow> PriceLevel list \<Rightarrow> real \<Rightarrow> real \<Rightarrow> real \<times> real" where
  "executionLoop targetVol [] accumulated price = (accumulated, price)"
| "executionLoop targetVol ((p, v) # ls) accumulated price =
     (let remaining = targetVol - accumulated
      in if remaining \<le> 0 then (accumulated, price)
         else (let take = (if v > remaining then remaining else v)
               in executionLoop targetVol ls (accumulated + take) (price + p * take)))"

definition calculateExecutionPrice :: "PriceLevel list \<Rightarrow> int \<Rightarrow> real \<times> bool" where
  "calculateExecutionPrice levels targetVolume =
     (if levels = [] \<or> targetVolume \<le> 0 then (0, False)
      else (let (accumulated, price) = executionLoop (real_of_int targetVolume) levels 0 0
            in if accumulated > 0 then (price / accumulated, True) else (0, False)))"

subsection \<open>Keeping the newest\<close>

text \<open>
  \<open>sendKeepNewest\<close> on a channel that holds at most \<open>cap\<close> items while its consumer does not run. With
  a capacity of 0 the loop spins until a consumer arrives, which is \<open>None\<close>.
\<close>

fun sendKeepNewest :: "nat \<Rightarrow> 'a list \<Rightarrow> 'a \<Rightarrow> bool \<Rightarrow> ('a list \<times> bool) option" where
  "sendKeepNewest cap [] v dropped = (if cap = 0 then None else Some ([v], dropped))"
| "sendKeepNewest cap (x # ch) v dropped =
     (if length (x # ch) < cap then Some ((x # ch) @ [v], dropped)
      else sendKeepNewest cap ch v True)"

record dropWarner =
  dw_dropped :: int
  dw_total :: int
  lastWarn :: time

definition dropWarnInterval :: duration where
  "dropWarnInterval = 5 * second"

text \<open>\<open>note\<close>: whether a warning is printed, and the state after it.\<close>

definition note_drop :: "time \<Rightarrow> dropWarner \<Rightarrow> bool \<times> dropWarner" where
  "note_drop now w =
     (let w1 = w\<lparr>dw_dropped := dw_dropped w + 1, dw_total := dw_total w + 1\<rparr>
      in if lastWarn w1 = 0 \<or> time_sub now (lastWarn w1) \<ge> dropWarnInterval
         then (True, w1\<lparr>dw_dropped := 0, lastWarn := now\<rparr>) else (False, w1))"

record FullOrderBookData =
  fbTimestamp :: time
  fbSymbol :: string
  fbBids :: "PriceLevel list"
  fbAsks :: "PriceLevel list"
  fbDrops :: int

record OrderBookData =
  obTimestamp :: time
  obSymbol :: string
  obBestBid :: real
  obBestAsk :: real

text \<open>The snapshot callbacks of the two subscriptions, on the queue and the drop counter.\<close>

definition onFullSnapshot ::
  "nat \<Rightarrow> time \<Rightarrow> string \<Rightarrow> PriceLevel list \<Rightarrow> PriceLevel list \<Rightarrow>
     FullOrderBookData list \<times> dropWarner \<Rightarrow> (FullOrderBookData list \<times> dropWarner) option" where
  "onFullSnapshot cap now sy bs as qw =
     (let (q, w) = qw
      in if length bs = 0 \<or> length as = 0 then Some (q, w)
         else (let d = \<lparr>fbTimestamp = now, fbSymbol = sy, fbBids = bs, fbAsks = as, fbDrops = dw_total w\<rparr>
               in case sendKeepNewest cap q d False of
                    None \<Rightarrow> None
                  | Some (q', dropped) \<Rightarrow> Some (q', if dropped then snd (note_drop now w) else w)))"

definition onBestSnapshot ::
  "nat \<Rightarrow> int \<Rightarrow> time \<Rightarrow> string \<Rightarrow> PriceLevel list \<Rightarrow> PriceLevel list \<Rightarrow>
     OrderBookData list \<times> dropWarner \<Rightarrow> (OrderBookData list \<times> dropWarner) option" where
  "onBestSnapshot cap vol now sy bs as qw =
     (let (q, w) = qw;
          (bestAsk, hasAsk) = calculateExecutionPrice as vol;
          (bestBid, hasBid) = calculateExecutionPrice bs vol
      in if \<not> hasBid \<or> \<not> hasAsk then Some (q, w)
         else (let d = \<lparr>obTimestamp = now, obSymbol = sy, obBestBid = bestBid, obBestAsk = bestAsk\<rparr>
               in case sendKeepNewest cap q d False of
                    None \<Rightarrow> None
                  | Some (q', dropped) \<Rightarrow> Some (q', if dropped then snd (note_drop now w) else w)))"

subsection \<open>The client holds the simulator's book\<close>

definition same_book :: "book \<times> book \<Rightarrow> symbolState \<Rightarrow> bool" where
  "same_book books st \<longleftrightarrow> map_of (fst books) = map_of (bids st) \<and> map_of (snd books) = map_of (asks st)"

definition on_side :: "bool \<Rightarrow> (book \<Rightarrow> book) \<Rightarrow> book \<times> book \<Rightarrow> book \<times> book" where
  "on_side bid f bk = (if bid then (f (fst bk), snd bk) else (fst bk, f (snd bk)))"

text \<open>\<open>rows\<close> turn the map \<open>m\<close> of one side into \<open>m'\<close> and leave the other side alone.\<close>

definition moves :: "bool \<Rightarrow> BookRow list \<Rightarrow> (real \<rightharpoonup> real) \<Rightarrow> (real \<rightharpoonup> real) \<Rightarrow> bool" where
  "moves bid rows m m' \<longleftrightarrow>
     (\<exists>g. applyRows rows = on_side bid g \<and> (\<forall>b. map_of b = m \<longrightarrow> map_of (g b) = m'))"

lemma applyRows_simps [simp]:
  "applyRows [] = id" "applyRows (r # rs) = applyRows rs \<circ> applyRow r"
  by (simp_all add: applyRows_def fun_eq_iff)

lemma applyRows_append: "applyRows (rs @ qs) = applyRows qs \<circ> applyRows rs"
  by (simp add: applyRows_def fun_eq_iff)

lemma applyRow_remove: "applyRow (bookRow p v bid ACTION_REMOVE now) = on_side bid (AList.delete p)"
  by (auto simp: fun_eq_iff applyRow_def bookRow_def applySide_def on_side_def dec_def)

lemma applyRow_put:
  "0 < v \<Longrightarrow> a = ACTION_ADD \<or> a = ACTION_UPDATE \<Longrightarrow>
     applyRow (bookRow p v bid a now) = on_side bid (AList.update p v)"
  by (auto simp: fun_eq_iff applyRow_def bookRow_def applySide_def on_side_def dec_def)

lemma on_side_comp: "on_side bid f \<circ> on_side bid g = on_side bid (f \<circ> g)"
  by (auto simp: on_side_def fun_eq_iff)

lemma moves_Nil [simp]: "moves bid [] m m"
  unfolding moves_def by (rule exI [of _ id]) (auto simp: on_side_def fun_eq_iff)

lemma moves_append: "moves bid rs m m' \<Longrightarrow> moves bid qs m' m'' \<Longrightarrow> moves bid (rs @ qs) m m''"
  unfolding moves_def applyRows_append by (metis (no_types, opaque_lifting) comp_apply on_side_comp)

lemma moves_one:
  "applyRow r = on_side bid g \<Longrightarrow> (\<And>b. map_of b = m \<Longrightarrow> map_of (g b) = m') \<Longrightarrow> moves bid [r] m m'"
  by (auto simp: moves_def)

lemma moves_remove: "moves bid [bookRow p v bid ACTION_REMOVE now] m (m(p := None))"
  by (rule moves_one [OF applyRow_remove]) (simp add: delete_conv')

lemma moves_put:
  "0 < v \<Longrightarrow> a = ACTION_ADD \<or> a = ACTION_UPDATE \<Longrightarrow> moves bid [bookRow p v bid a now] m (m(p \<mapsto> v))"
  by (rule moves_one [OF applyRow_put]) (auto simp: update_conv')

lemma moves_Cons: "moves bid [r] m m' \<Longrightarrow> moves bid rs m' m'' \<Longrightarrow> moves bid (r # rs) m m''"
  using moves_append [of bid "[r]"] by simp

lemma dropGone_moves:
  "moves bid (snd (dropGone nx bid now ps old)) (map_of old) (map_of (fst (dropGone nx bid now ps old)))"
proof (induction ps arbitrary: old)
  case (Cons p ps)
  show ?case
    using moves_Cons [OF moves_remove Cons [of "AList.delete p old", unfolded delete_conv']] Cons [of old]
    by (simp add: split_beta Let_def)
qed simp

lemma addWanted_moves:
  "\<forall>x \<in> set ns. 0 < snd x \<Longrightarrow>
     moves bid (snd (addWanted bid now ns old)) (map_of old) (map_of (fst (addWanted bid now ns old)))"
proof (induction ns arbitrary: old)
  case (Cons x ns)
  obtain p v where x: "x = (p, v)" by (cases x)
  define a where "a = (if map_of old p = None then ACTION_ADD else ACTION_UPDATE)"
  have one: "moves bid [bookRow p v bid a now] (map_of old) (map_of (AList.update p v old))"
    unfolding update_conv' using Cons.prems by (intro moves_put) (auto simp: x a_def)
  have rest: "moves bid (snd (addWanted bid now ns b)) (map_of b) (map_of (fst (addWanted bid now ns b)))" for b
    by (rule Cons.IH) (use Cons.prems in simp)
  show ?case
    using moves_Cons [OF one rest] rest [of old] by (simp add: x split_beta Let_def a_def)
qed simp

lemma diffSide_moves:
  "moves bid (snd (diffSide old levels bid now)) (map_of old) (map_of (fst (diffSide old levels bid now)))"
  using moves_append [OF dropGone_moves addWanted_moves [OF wanted_distinct(2)]]
  by (simp add: diffSide_def Let_def split_beta)

lemma consumeLevels_moves:
  "consumeLevels buy limit now ps n b lst = (b', lst', fills, rows) \<Longrightarrow>
     moves (\<not> buy) rows (map_of b) (map_of b')"
proof (induction ps arbitrary: n b lst b' lst' fills rows)
  case (Cons p ps)
  show ?case
  proof (cases "n \<le> 0 \<or> \<not> in_limit buy limit p")
    case True
    then have "consumeLevels buy limit now (p # ps) n b lst = (b, lst, [], [])"
      by (auto simp: in_limit_def)
    with Cons.prems show ?thesis by (simp del: consumeLevels.simps)
  next
    case False
    define k where "k = min (size_at b p) n"
    define left where "left = size_at b p - k"
    define b1 where "b1 = (if left \<le> 0 then AList.delete p b else AList.update p left b)"
    define r where "r = (if left \<le> 0 then bookRow p 0 (\<not> buy) ACTION_REMOVE now
                         else bookRow p left (\<not> buy) ACTION_UPDATE now)"
    obtain fills' rows' where rest: "consumeLevels buy limit now ps (n - k) b1 p = (b', lst', fills', rows')"
      and rows: "rows = r # rows'"
      using Cons.prems False
      by (auto simp: in_limit_def Let_def k_def left_def b1_def r_def split: prod.splits if_splits)
    have "moves (\<not> buy) [r] (map_of b) (map_of b1)"
      using moves_remove [of "\<not> buy" p 0 now "map_of b"]
        moves_put [of left ACTION_UPDATE "\<not> buy" p now "map_of b"]
      by (simp add: r_def b1_def delete_conv' update_conv')
    then show ?thesis unfolding rows by (rule moves_Cons) (rule Cons.IH [OF rest])
  qed
qed simp

text \<open>The snapshot rows turn an empty side into the simulator's.\<close>

lemma snapshot_moves:
  assumes "side_ok b"
  shows "distinct ps \<Longrightarrow> \<forall>p \<in> set ps. 0 < size_at b p \<Longrightarrow>
     moves bid (map (\<lambda>p. bookRow p (size_at b p) bid ACTION_ADD now) ps) m
       (\<lambda>p. if p \<in> set ps then Some (size_at b p) else m p)"
proof (induction ps arbitrary: m)
  case (Cons p ps)
  have "moves bid [bookRow p (size_at b p) bid ACTION_ADD now] m (m(p \<mapsto> size_at b p))"
    using Cons.prems by (intro moves_put) auto
  from moves_Cons [OF this Cons.IH] Cons.prems show ?case
    by (fastforce simp: fun_eq_iff elim!: back_subst [of "moves bid _ m"])
qed simp

lemma same_book_moves:
  "same_book bk st \<Longrightarrow>
     moves True rs (map_of (bids st)) (map_of (bids st')) \<Longrightarrow>
     moves False qs (map_of (asks st)) (map_of (asks st')) \<Longrightarrow>
     same_book (applyRows (rs @ qs) bk) st'"
  by (auto simp: same_book_def moves_def applyRows_append on_side_def)

text \<open>What can happen to a simulated book, and the rows it broadcasts for it.\<close>

datatype book_op =
    OpSet "Level list" "Level list"
  | OpTake bool real real
  | OpCross
  | OpTick string

fun book_step :: "time \<Rightarrow> book_op \<Rightarrow> symbolState \<Rightarrow> symbolState \<times> BookRow list" where
  "book_step now (OpSet bs as) st = setBook st bs as now"
| "book_step now (OpTake buy lots limit) st =
     (case consumeBounded st buy lots limit now of (st', fills, rows) \<Rightarrow> (st', rows))"
| "book_step now OpCross st = crossRows st now"
| "book_step now (OpTick tid) st = (case autoTick st now tid of (st', rows, prints, used) \<Rightarrow> (st', rows))"

fun book_run :: "(time \<times> book_op) list \<Rightarrow> symbolState \<Rightarrow> symbolState \<times> BookRow list" where
  "book_run [] st = (st, [])"
| "book_run ((now, op) # ops) st =
     (let (st1, rows1) = book_step now op st;
          (st2, rows2) = book_run ops st1
      in (st2, rows1 @ rows2))"

lemma setBook_moves:
  "same_book bk st \<Longrightarrow> same_book (applyRows (snd (setBook st bs as now)) bk) (fst (setBook st bs as now))"
  unfolding setBook_eq
  by (rule same_book_moves) (simp, use diffSide_moves in simp_all)

lemma autoTick_setBook:
  "\<exists>bs as st0. bids st0 = bids st \<and> asks st0 = asks st \<and>
     bids (fst (autoTick st now tid)) = bids (fst (setBook st0 bs as now)) \<and>
     asks (fst (autoTick st now tid)) = asks (fst (setBook st0 bs as now)) \<and>
     fst (snd (autoTick st now tid)) = snd (setBook st0 bs as now)"
proof -
  define st1 where
    "st1 = (if Walk (auto_cfg st) > 0 then
              (let (f, r) = Float64 (rng st)
               in st\<lparr>autoMid := autoMid st + (f * 2 - 1) * Walk (auto_cfg st), rng := r\<rparr>) else st)"
  have "bids st1 = bids st \<and> asks st1 = asks st" by (simp add: st1_def split_beta)
  then show ?thesis
    unfolding autoTick_def Let_def st1_def [unfolded Let_def, symmetric]
    by (intro exI [of _ st1] exI conjI) (auto simp: split_beta Let_def appendTape_def)
qed

lemma crossRows_ok: "book_ok st \<Longrightarrow> book_ok (fst (crossRows st now))"
  by (simp add: crossRows_def split_beta Let_def book_ok_def side_ok_update)

lemma autoTick_ok: "book_ok st \<Longrightarrow> book_ok (fst (autoTick st now tid))"
  using autoTick_setBook [of st now tid] setBook_ok by (fastforce simp: book_ok_def)

lemma book_step_ok:
  assumes "book_ok st"
  shows "book_ok (fst (book_step now op st))"
proof (cases op)
  case (OpTake buy lots limit)
  with assms consumeBounded_ok(1) [of st buy lots limit now] show ?thesis
    by (cases "consumeBounded st buy lots limit now") auto
qed (use assms in \<open>auto simp: setBook_ok crossRows_ok autoTick_ok split_beta\<close>)

lemma book_step_moves:
  assumes "book_ok st" and same: "same_book bk st"
  shows "same_book (applyRows (snd (book_step now op st)) bk) (fst (book_step now op st))"
proof (cases op)
  case (OpTake buy lots limit)
  obtain st' fills rows where run: "consumeBounded st buy lots limit now = (st', fills, rows)"
    by (cases "consumeBounded st buy lots limit now")
  obtain b' lst where
    loop: "consumeLevels buy limit now (sortedPrices (eaten buy st) (\<not> buy)) lots (eaten buy st) (last_price st) =
       (b', lst, fills, rows)"
    and st': "st' = (if buy then st\<lparr>asks := b', last_price := lst\<rparr> else st\<lparr>bids := b', last_price := lst\<rparr>)"
    using run by (rule consumeBounded_levels)
  show ?thesis
    using consumeLevels_moves [OF loop] same_book_moves [OF same, of "[]" st' rows]
      same_book_moves [OF same, of rows st' "[]"] OpTake run
    by (cases buy) (simp_all add: st' eaten_def)
next
  case OpCross
  define p where "p = (case crossRows st now of (st', rows) \<Rightarrow>
     (let ask = (if snd (bestAsk st) then fst (bestAsk st) else if last_price st = 0 then 100 else last_price st)
      in ask + (if MinStep (st_cfg st) = 0 then 1 else MinStep (st_cfg st))))"
  have run: "crossRows st now = (st\<lparr>bids := AList.update p 1 (bids st)\<rparr>, [bookRow p 1 True ACTION_ADD now])"
    by (simp add: crossRows_def p_def split_beta Let_def)
  have "moves True [bookRow p 1 True ACTION_ADD now] (map_of (bids st)) (map_of (AList.update p 1 (bids st)))"
    unfolding update_conv' by (rule moves_put) simp_all
  with same_book_moves [OF same, of _ "st\<lparr>bids := AList.update p 1 (bids st)\<rparr>" "[]"] OpCross run
  show ?thesis by fastforce
next
  case (OpTick tid)
  obtain bs as st0 where eq: "bids st0 = bids st" "asks st0 = asks st"
    "bids (fst (autoTick st now tid)) = bids (fst (setBook st0 bs as now))"
    "asks (fst (autoTick st now tid)) = asks (fst (setBook st0 bs as now))"
    "fst (snd (autoTick st now tid)) = snd (setBook st0 bs as now)"
    using autoTick_setBook [of st now tid] by blast
  have "same_book (applyRows (snd (setBook st0 bs as now)) bk) (fst (setBook st0 bs as now))"
    by (rule setBook_moves) (use same eq in \<open>simp add: same_book_def\<close>)
  with eq OpTick show ?thesis by (simp add: split_beta same_book_def)
qed (use same setBook_moves in simp)

lemma book_run_moves:
  "book_ok st \<Longrightarrow> same_book bk st \<Longrightarrow>
     same_book (applyRows (snd (book_run ops st)) bk) (fst (book_run ops st))"
proof (induction ops st arbitrary: bk rule: book_run.induct)
  case (2 now op ops st)
  obtain st1 rows1 where one: "book_step now op st = (st1, rows1)" by (cases "book_step now op st")
  have "book_ok st1" using book_step_ok [of st now op] 2(2) one by simp
  moreover have "same_book (applyRows rows1 bk) st1" using book_step_moves [of st bk now op] 2(2,3) one by simp
  ultimately show ?case
    using 2(1) [of "(st1, rows1)" st1 rows1] one by (simp add: split_beta applyRows_append)
qed simp

lemma snapshot_same:
  assumes "book_ok st"
  shows "same_book (applyRows (snapshotRows st now) ([], [])) st"
proof -
  have side: "moves bid (map (\<lambda>p. bookRow p (size_at b p) bid ACTION_ADD now) (sortedPrices b d)) Map.empty (map_of b)"
    if "side_ok b" for bid b d
  proof -
    have "moves bid (map (\<lambda>p. bookRow p (size_at b p) bid ACTION_ADD now) (sortedPrices b d)) Map.empty
            (\<lambda>p. if p \<in> set (sortedPrices b d) then Some (size_at b p) else None)"
      using snapshot_moves [OF that sortedPrices_distinct [OF that], of d bid now Map.empty] sortedPrices_set [OF that, of d]
      by auto
    moreover have "(\<lambda>p. if p \<in> set (sortedPrices b d) then Some (size_at b p) else None) = map_of b"
      using side_ok_size_nonneg [OF that]
      by (auto simp: fun_eq_iff sortedPrices_set [OF that] side_ok_map_of [OF that] less_le)
    ultimately show ?thesis by simp
  qed
  have "same_book ([], []) (st\<lparr>bids := [], asks := []\<rparr>)" by (simp add: same_book_def)
  then show ?thesis
    unfolding snapshotRows_def
    by (rule same_book_moves) (use assms side [of "bids st" True True] side [of "asks st" False False]
      in \<open>auto simp: book_ok_def\<close>)
qed

subsection \<open>Snapshots given out\<close>

lemma sortedLevels_sorted:
  "sorted_wrt (if d then (\<lambda>x y. fst x \<ge> fst y) else (\<lambda>x y. fst x \<le> fst y)) (sortedLevels b d)"
proof -
  have "sorted_wrt (\<lambda>x y. fst x \<le> fst y) (sort_key fst (filter (\<lambda>(p, v). v > 0) b))"
    using sorted_sort_key [of fst "filter (\<lambda>(p, v). v > 0) b"] by (simp add: sorted_map)
  then show ?thesis by (simp add: sortedLevels_def Let_def sorted_wrt_rev)
qed

lemma sortedLevels_set: "set (sortedLevels b d) = {x \<in> set b. 0 < snd x}"
  by (auto simp: sortedLevels_def Let_def)

definition snap_ok :: "BookOut \<Rightarrow> bool" where
  "snap_ok out = (case out of
     Snap sy bs as \<Rightarrow>
       \<not> crossed bs as \<and> sorted_wrt (\<lambda>x y. fst x \<ge> fst y) bs \<and> sorted_wrt (\<lambda>x y. fst x \<le> fst y) as \<and>
       (\<forall>x \<in> set bs \<union> set as. 0 < snd x)
   | _ \<Rightarrow> True)"

lemma onOrderBook_snap: "snap_ok (fst (onOrderBook ob s))"
  using sortedLevels_sorted [of True] sortedLevels_sorted [of False]
  by (auto simp: onOrderBook_def snap_ok_def Let_def split_beta sortedLevels_set)

lemma onResponse_snap: "out \<in> set (fst (onResponse obs b)) \<Longrightarrow> snap_ok out"
proof (induction obs arbitrary: b)
  case (Cons ob obs)
  obtain x b' where one: "onOrderBook ob b = (x, b')" by (cases "onOrderBook ob b")
  have "snap_ok x" using onOrderBook_snap [of ob b] by (simp add: one)
  with Cons one show ?case by (auto simp: split_beta Let_def split: if_splits)
qed simp

text \<open>
  What a subscription has to answer, said without the counter: the books after each of the messages
  (bids first), the number of crossed books in a row that end a history, and the answer to a message
  given that number and the book.
\<close>

fun booksAfter :: "(string \<times> BookRow list) list \<Rightarrow> book \<times> book \<Rightarrow> (book \<times> book) list" where
  "booksAfter [] bk = []"
| "booksAfter (ob # obs) bk = (let bk' = applyRows (snd ob) bk in bk' # booksAfter obs bk')"

definition crossedBook :: "book \<times> book \<Rightarrow> bool" where
  "crossedBook bk = crossed (sortedLevels (fst bk) True) (sortedLevels (snd bk) False)"

definition streak :: "bool list \<Rightarrow> nat" where
  "streak h = length (takeWhile id (rev h))"

definition bookAnswer :: "string \<Rightarrow> book \<times> book \<Rightarrow> nat \<Rightarrow> BookOut" where
  "bookAnswer sy bk n =
     (if n = 0 then Snap sy (sortedLevels (fst bk) True) (sortedLevels (snd bk) False)
      else if n < 50 then Withheld else Resync)"

lemma streak_simps [simp]:
  "streak [] = 0" "streak (h @ [True]) = Suc (streak h)" "streak (h @ [False]) = 0"
  by (simp_all add: streak_def)

lemma streak_snoc: "streak (h @ [c]) = (if c then Suc (streak h) else 0)"
  by simp

lemma booksAfter_length [simp]: "length (booksAfter obs bk) = length obs"
  by (induction obs arbitrary: bk) (simp_all add: Let_def)

lemma onOrderBook_answer:
  fixes s :: BookStream and ob :: "string \<times> BookRow list"
  defines "bk \<equiv> applyRows (snd ob) (bidBook s, askBook s)"
  assumes "crossedCount s = streak h"
  shows "fst (onOrderBook ob s) = bookAnswer (fst ob) bk (streak (h @ [crossedBook bk]))"
    and "crossedCount (snd (onOrderBook ob s)) = streak (h @ [crossedBook bk])"
    and "(bidBook (snd (onOrderBook ob s)), askBook (snd (onOrderBook ob s))) = bk"
  using assms(2)
  by (auto simp: bk_def onOrderBook_def Let_def split_beta crossedBook_def bookAnswer_def maxCrossedResync_def)

lemma bookAnswer_resync: "bookAnswer sy bk n = Resync \<longleftrightarrow> 50 \<le> n"
  by (simp add: bookAnswer_def)

lemma onResponse_answers:
  assumes "onResponse obs s = (outs, s')" and "crossedCount s = streak h"
    and "fs = map crossedBook (booksAfter obs (bidBook s, askBook s))"
  shows "length outs \<le> length obs \<and> crossedCount s' = streak (h @ take (length outs) fs) \<and>
    (\<forall>i < length outs. outs ! i = bookAnswer (fst (obs ! i)) (booksAfter obs (bidBook s, askBook s) ! i)
        (streak (h @ take (Suc i) fs))) \<and>
    Resync \<notin> set (butlast outs) \<and> (length outs = length obs \<or> outs \<noteq> [] \<and> last outs = Resync)"
  using assms
proof (induction obs arbitrary: s outs s' h fs)
  case (Cons ob obs)
  define bk where "bk = applyRows (snd ob) (bidBook s, askBook s)"
  obtain out s1 where one: "onOrderBook ob s = (out, s1)" by (cases "onOrderBook ob s")
  note answer = onOrderBook_answer [OF Cons.prems(2), of ob, folded bk_def, unfolded one fst_conv snd_conv]
  define fs1 where "fs1 = map crossedBook (booksAfter obs (bidBook s1, askBook s1))"
  have fs: "fs = crossedBook bk # fs1" and bks: "booksAfter (ob # obs) (bidBook s, askBook s) = bk # booksAfter obs bk"
    using Cons.prems(3) answer(3) by (simp_all add: fs1_def bk_def Let_def)
  show ?case
  proof (cases "out = Resync")
    case True
    then have "outs = [out]" "s' = s1" using Cons.prems(1) one by auto
    with True answer show ?thesis unfolding bks by (simp add: fs)
  next
    case False
    obtain outs' where rest: "onResponse obs s1 = (outs', s')" and outs: "outs = out # outs'"
      using Cons.prems(1) one False by (auto split: prod.splits)
    note IH = Cons.IH [OF rest answer(2) fs1_def]
    have "outs ! i = bookAnswer (fst ((ob # obs) ! i)) ((bk # booksAfter obs bk) ! i)
        (streak (h @ take (Suc i) fs))" if "i < length outs" for i
      using IH answer that by (cases i) (auto simp: outs fs)
    then show ?thesis using IH False unfolding bks by (auto simp: outs fs)
  qed
qed simp

lemma onResponse_append:
  "onResponse (xs @ ys) s =
     (let (outs, s1) = onResponse xs s
      in if Resync \<in> set outs then (outs, s1)
         else (let (outs', s2) = onResponse ys s1 in (outs @ outs', s2)))"
proof (induction xs arbitrary: s)
  case (Cons ob xs)
  then show ?case by (auto simp: Let_def split_beta)
qed (simp add: split_beta)

lemma onResponses_concat: "onResponses rs s = onResponse (concat rs) s"
proof (induction rs arbitrary: s)
  case (Cons r rs)
  then show ?case by (simp only: onResponses.simps onResponse_append concat.simps)
qed simp

subsection \<open>Execution price bounds\<close>

lemma executionLoop_spec:
  assumes "executionLoop t ls acc pr = (acc', pr')" and "\<forall>(p, v) \<in> set ls. lo \<le> p \<and> p \<le> hi \<and> 0 < v"
    and "acc \<le> t"
  shows "acc' = min t (acc + sum_list (map snd ls)) \<and>
    lo * (acc' - acc) \<le> pr' - pr \<and> pr' - pr \<le> hi * (acc' - acc)"
  using assms
proof (induction ls arbitrary: acc pr)
  case (Cons x ls)
  obtain p v where x: "x = (p, v)" by (cases x)
  have vols: "0 \<le> sum_list (map snd ls)" using Cons.prems(2) by (intro sum_list_nonneg) auto
  show ?case
  proof (cases "t - acc \<le> 0")
    case True
    with Cons.prems vols x show ?thesis by (auto simp: min_def)
  next
    case False
    define k where "k = (if v > t - acc then t - acc else v)"
    have run: "executionLoop t ls (acc + k) (pr + p * k) = (acc', pr')"
      using Cons.prems(1) False by (simp add: x k_def Let_def)
    have k: "0 < k" "acc + k \<le> t" using False Cons.prems(2) by (auto simp: k_def x)
    have IH: "acc' = min t (acc + k + sum_list (map snd ls)) \<and>
        lo * (acc' - (acc + k)) \<le> pr' - (pr + p * k) \<and> pr' - (pr + p * k) \<le> hi * (acc' - (acc + k))"
      by (rule Cons.IH [OF run]) (use Cons.prems(2) k in auto)
    have "lo * k \<le> p * k" "p * k \<le> hi * k"
      using Cons.prems(2) k by (auto simp: x intro!: mult_right_mono)
    moreover have "lo * (acc' - acc) = lo * (acc' - (acc + k)) + lo * k"
      "hi * (acc' - acc) = hi * (acc' - (acc + k)) + hi * k" by (simp_all add: algebra_simps)
    moreover have "acc' = min t (acc + sum_list (map snd (x # ls)))"
      using IH vols False by (auto simp: x k_def min_def split: if_splits)
    ultimately show ?thesis using IH by linarith
  qed
qed simp

text \<open>What of level \<open>i\<close> an order for \<open>n\<close> takes: what the levels before it leave, at most the level.\<close>

definition levelTake :: "real \<Rightarrow> PriceLevel list \<Rightarrow> nat \<Rightarrow> real" where
  "levelTake n levels i = max 0 (min (snd (levels ! i)) (n - sum_list (map snd (take i levels))))"

lemma levelTake_simps [simp]:
  "levelTake n (x # ls) 0 = max 0 (min (snd x) n)"
  "levelTake n (x # ls) (Suc i) = levelTake (n - snd x) ls i"
  by (simp_all add: levelTake_def algebra_simps)

lemma levelTake_none:
  assumes "n \<le> 0" and "\<forall>x \<in> set ls. 0 < snd x" and "i < length ls"
  shows "levelTake n ls i = 0"
proof -
  have "0 \<le> sum_list (map snd (take i ls))"
    using assms(2) by (intro sum_list_nonneg) (auto dest!: in_set_takeD less_imp_le)
  then show ?thesis using assms(1) by (simp add: levelTake_def)
qed

lemma executionLoop_pays:
  assumes "executionLoop t ls acc pr = (acc', pr')" and "\<forall>x \<in> set ls. 0 < snd x"
  shows "pr' = pr + (\<Sum>i < length ls. fst (ls ! i) * levelTake (t - acc) ls i)"
  using assms
proof (induction ls arbitrary: acc pr)
  case (Cons x ls)
  obtain p v where x: "x = (p, v)" by (cases x)
  show ?case
  proof (cases "t - acc \<le> 0")
    case True
    then have "pr' = pr" using Cons.prems(1) by (simp add: x)
    with True Cons.prems(2) show ?thesis by (simp add: levelTake_none)
  next
    case False
    define k where "k = (if v > t - acc then t - acc else v)"
    have run: "executionLoop t ls (acc + k) (pr + p * k) = (acc', pr')"
      using Cons.prems(1) False by (simp add: x k_def Let_def)
    have first: "levelTake (t - acc) (x # ls) 0 = k" using False Cons.prems(2) by (simp add: x k_def)
    have rest: "levelTake (t - (acc + k)) ls i = levelTake (t - acc) (x # ls) (Suc i)" if "i < length ls" for i
      using that Cons.prems(2) levelTake_none [of "t - acc - v" ls i]
        levelTake_none [of 0 ls i] by (auto simp: x k_def diff_diff_eq)
    have "pr' = pr + p * k + (\<Sum>i < length ls. fst (ls ! i) * levelTake (t - (acc + k)) ls i)"
      by (rule Cons.IH [OF run]) (use Cons.prems(2) in simp)
    also have "\<dots> = pr + (fst ((x # ls) ! 0) * levelTake (t - acc) (x # ls) 0 +
        (\<Sum>i < length ls. fst ((x # ls) ! Suc i) * levelTake (t - acc) (x # ls) (Suc i)))"
      by (simp only: first) (simp add: x rest del: levelTake_simps)
    also have "\<dots> = pr + (\<Sum>i < length (x # ls). fst ((x # ls) ! i) * levelTake (t - acc) (x # ls) i)"
      by (simp only: list.size One_nat_def add_Suc_right add_0_right sum.lessThan_Suc_shift)
    finally show ?thesis .
  qed
qed simp

subsection \<open>Properties\<close>

text \<open>
  C18. A client that subscribes to a symbol and folds every row it is sent, first the snapshot and
  then the deltas of any sequence of book changes (a replaced book, a taker eating levels, a corrupted
  level, ticks of the generated market), holds exactly the simulator's book on both sides.
\<close>

theorem client_follows_book:
  assumes "book_ok st"
  shows "map_of (fst (applyRows (snapshotRows st now @ snd (book_run ops st)) ([], []))) =
           map_of (bids (fst (book_run ops st))) \<and>
         map_of (snd (applyRows (snapshotRows st now @ snd (book_run ops st)) ([], []))) =
           map_of (asks (fst (book_run ops st)))"
  using book_run_moves [OF assms snapshot_same [OF assms]]
  by (simp add: applyRows_append same_book_def)

definition sample_book :: symbolState where
  "sample_book = (newSymbolState \<lparr>floats = (\<lambda>_. 0), naturals = (\<lambda>_. 0), drawn = 0\<rparr>
     \<lparr>Symbol = ''A'', MinStep = 1, Decimals = 0, LotSize = 1, MarginPerLot = 0,
      ExpirationDate = '''', AutoMarket = None\<rparr>)
       \<lparr>bids := [(99, 5)], asks := [(101, 2), (102, 4)]\<rparr>"

lemma sample_book_ok: "book_ok sample_book"
  by (simp add: sample_book_def newSymbolState_def book_ok_def side_ok_def)

theorem client_follows_book_witness:
  "book_ok sample_book \<and>
   map_of (snd (applyRows (snapshotRows sample_book 1 @
      snd (book_run [(2, OpTake True 3 0), (3, OpCross)] sample_book)) ([], []))) =
   map_of (asks (fst (book_run [(2, OpTake True 3 0), (3, OpCross)] sample_book)))"
  using client_follows_book [OF sample_book_ok, of 1 "[(2, OpTake True 3 0), (3, OpCross)]"] sample_book_ok
  by blast

text \<open>
  C19. A crossed book never reaches the strategy and the fiftieth crossed book in a row forces a
  resubscription. For all the responses of a subscription, the answer to each order book message is
  determined by the book after it and by how many crossed books in a row it ends: none, and the
  strategy is handed that very book, uncrossed, best first on both sides and without empty levels;
  one to forty-nine, and nothing is given out; fifty, and the subscription ends there. Nothing else
  ends it, and the counter it leaves is the length of the run of crossed books at its end.
\<close>

theorem crossed_book_withheld:
  assumes "onResponses rs newStream = (outs, s')" and "obs = concat rs"
    and "bks = booksAfter obs ([], [])" and "fs = map crossedBook bks"
  shows "(\<forall>out \<in> set outs. snap_ok out) \<and>
    (\<forall>i < length outs. outs ! i = bookAnswer (fst (obs ! i)) (bks ! i) (streak (take (Suc i) fs))) \<and>
    Resync \<notin> set (butlast outs) \<and> (length outs = length obs \<or> outs \<noteq> [] \<and> last outs = Resync) \<and>
    crossedCount s' = streak (take (length outs) fs)"
proof -
  have run: "onResponse obs newStream = (outs, s')" using assms(1,2) by (simp add: onResponses_concat)
  have bks: "bks = booksAfter obs (bidBook newStream, askBook newStream)"
    using assms(3) by (simp add: newStream_def)
  note answers = onResponse_answers [OF run, of "[]", OF _ assms(4) [unfolded bks], folded bks]
  have "snap_ok out" if "out \<in> set outs" for out
    using that run by (metis fst_conv onResponse_snap)
  with answers show ?thesis by (simp add: newStream_def)
qed

text \<open>A crossed book, one that clears it, and two crossed books again: the counter starts anew.\<close>

definition cross_rows :: "bool \<Rightarrow> string \<times> BookRow list" where
  "cross_rows c = (''A'', if c then [bookRow 101 1 True ACTION_ADD 0, bookRow 100 1 False ACTION_ADD 0]
                          else [bookRow 101 0 True ACTION_REMOVE 0])"

theorem crossed_book_withheld_witness:
  "(let (outs, s') = onResponses [[cross_rows True, cross_rows False], [cross_rows True], [cross_rows True]] newStream
    in outs = [Withheld, Snap ''A'' [] [(100, 1)], Withheld, Withheld] \<and> crossedCount s' = 2 \<and>
       crossedCount s' = streak [True, False, True, True] \<and> (\<forall>out \<in> set outs. snap_ok out))"
proof -
  let ?rs = "[[cross_rows True, cross_rows False], [cross_rows True], [cross_rows True]]"
  have r: "onResponses ?rs newStream =
      ([Withheld, Snap ''A'' [] [(100, 1)], Withheld, Withheld],
       \<lparr>askBook = [(100, 1)], bidBook = [(101, 1)], crossedCount = 2\<rparr>)"
    by (simp add: cross_rows_def onOrderBook_def newStream_def applyRow_put applyRow_remove on_side_def
        sortedLevels_def crossed_def maxCrossedResync_def Let_def)
  have fs: "map crossedBook (booksAfter (concat ?rs) ([], [])) = [True, False, True, True]"
    by (simp add: cross_rows_def applyRow_put applyRow_remove on_side_def sortedLevels_def crossed_def
        crossedBook_def Let_def)
  from crossed_book_withheld [OF r refl refl refl] show ?thesis
    unfolding r fs by simp
qed

text \<open>
  C20. The execution price of a positive volume against positive levels is found and is the average
  price of eating the levels in their order: from each level the order takes what the levels before
  it leave of the volume, at most what the level holds, and the price times the volume there is (the
  whole of it, or less when the book is too thin) is what all these takes cost. It therefore lies
  between the best and the worst price, and is the first level's price when that level alone
  suffices.
\<close>

theorem execution_price_bounds:
  assumes "levels \<noteq> []" and "0 < n" and "\<forall>(p, v) \<in> set levels. lo \<le> p \<and> p \<le> hi \<and> 0 < v"
  shows "\<exists>px. calculateExecutionPrice levels n = (px, True) \<and> lo \<le> px \<and> px \<le> hi \<and>
    px * min (real_of_int n) (sum_list (map snd levels)) =
      (\<Sum>i < length levels. fst (levels ! i) *
         max 0 (min (snd (levels ! i)) (real_of_int n - sum_list (map snd (take i levels))))) \<and>
    (real_of_int n \<le> snd (hd levels) \<longrightarrow> px = fst (hd levels))"
proof -
  obtain acc pr where run: "executionLoop (real_of_int n) levels 0 0 = (acc, pr)"
    by (cases "executionLoop (real_of_int n) levels 0 0")
  obtain p v ls where levels: "levels = (p, v) # ls" using assms(1) by (cases levels) auto
  have spec: "acc = min (real_of_int n) (sum_list (map snd levels)) \<and> lo * acc \<le> pr \<and> pr \<le> hi * acc"
    using executionLoop_spec [OF run assms(3), simplified] assms(2) by linarith
  have pos: "\<forall>x \<in> set levels. 0 < snd x" using assms(3) by auto
  have vols: "0 \<le> sum_list (map snd ls)"
    using assms(3) by (intro sum_list_nonneg) (auto simp: levels)
  have acc: "0 < acc" using spec assms(2,3) vols by (auto simp: levels)
  have "calculateExecutionPrice levels n = (pr / acc, True)"
    using run acc assms(1,2) by (simp add: calculateExecutionPrice_def)
  moreover have "lo \<le> pr / acc" "pr / acc \<le> hi"
    using conjunct2 [OF spec] by (simp_all add: pos_le_divide_eq [OF acc] pos_divide_le_eq [OF acc])
  moreover have "pr / acc * min (real_of_int n) (sum_list (map snd levels)) =
      (\<Sum>i < length levels. fst (levels ! i) * levelTake (real_of_int n) levels i)"
    using executionLoop_pays [OF run pos] acc unfolding conjunct1 [OF spec, symmetric] by simp
  moreover have "pr / acc = p" if "real_of_int n \<le> v"
  proof -
    have "executionLoop (real_of_int n) ls (real_of_int n) (p * real_of_int n) = (real_of_int n, p * real_of_int n)"
      by (cases ls) auto
    with run that assms(2) have "acc = real_of_int n" "pr = p * real_of_int n"
      by (auto simp: levels Let_def split: if_splits)
    with assms(2) show ?thesis by simp
  qed
  ultimately show ?thesis by (simp add: levels levelTake_def)
qed

theorem execution_price_bounds_witness:
  "calculateExecutionPrice [(100, 2), (103, 4)] 3 = (101, True)"
proof -
  have "\<exists>px. calculateExecutionPrice [(100, 2), (103, 4)] 3 = (px, True) \<and> px * 3 = 303"
    using execution_price_bounds [of "[(100, 2), (103, 4)]" 3 100 103]
    by (auto simp: lessThan_Suc numeral_2_eq_2)
  then obtain px where "calculateExecutionPrice [(100, 2), (103, 4)] 3 = (px, True)" "px * 3 = 303" by blast
  moreover from this(2) have "px = 101" by simp
  ultimately show ?thesis by simp
qed

text \<open>
  A full channel keeps the newest: sending leaves the last \<open>cap\<close> items of the queue with the new
  one at the end, and reports a drop exactly when the queue was full.
\<close>

theorem channel_keeps_newest:
  assumes "0 < cap" and "length ch \<le> cap"
  shows "sendKeepNewest cap ch v False =
    Some (drop (length ch + 1 - cap) (ch @ [v]), length ch = cap)"
proof -
  have loop: "sendKeepNewest cap ch v True = Some (drop (length ch + 1 - cap) (ch @ [v]), True)" for ch :: "'a list"
    by (induction ch) (use assms(1) in \<open>auto simp: Suc_diff_le\<close>)
  show ?thesis
  proof (cases ch)
    case (Cons x xs)
    with assms loop [of xs] show ?thesis by (auto simp: Suc_diff_le)
  qed (use assms in auto)
qed

theorem channel_keeps_newest_witness:
  "sendKeepNewest 2 [1, 2 :: nat] 3 False = Some ([2, 3], True)"
  using channel_keeps_newest [of 2 "[1, 2 :: nat]" 3] by simp

end
