(* ===== verification/FinamClient.thy ===== *)
theory FinamClient
  imports Wire
begin

text \<open>
  The client's unary calls: \<open>trade/finam/orders.go\<close>, \<open>account_snapshot.go\<close>, \<open>trades.go\<close>,
  \<open>transactions.go\<close> and \<open>metrics.go\<close>. Obtaining the connection (\<open>dial\<close>) and the generated gRPC stubs are
  ports: state transformers on a world \<open>'w\<close>. Deadlines show up as errors of these ports. Functions of
  the Go package \<open>finam\<close> that the simulator has too carry the package's name.
\<close>

subsection \<open>Reading the API's fields\<close>

text \<open>\<open>GetValue\<close>, \<open>ParseDecimal\<close> on the text it returns, and \<open>decimalToFloat\<close> on the message.\<close>

definition getValue :: "decimal option \<Rightarrow> decimal" where
  "getValue d = (case d of None \<Rightarrow> None | Some v \<Rightarrow> v)"

definition ParseDecimal :: "decimal \<Rightarrow> real" where
  "ParseDecimal s = (case s of None \<Rightarrow> 0 | Some v \<Rightarrow> v)"

definition decimalToFloat :: "decimal option \<Rightarrow> real" where
  "decimalToFloat d =
     (case d of None \<Rightarrow> 0 | Some s \<Rightarrow> (case s of None \<Rightarrow> 0 | Some v \<Rightarrow> v))"

lemma decimal_simps [simp]:
  "getValue (dec v) = Some v" "ParseDecimal (Some v) = v" "decimalToFloat (dec v) = v"
  "ParseDecimal None = 0" "decimalToFloat None = 0"
  by (simp_all add: getValue_def ParseDecimal_def decimalToFloat_def dec_def)

definition ExecutedLots :: "OrderState \<Rightarrow> int" where
  "ExecutedLots st = go_round (ParseDecimal (getValue (osExecuted st)))"

definition InitialLots :: "OrderState \<Rightarrow> int" where
  "InitialLots st = go_round (ParseDecimal (getValue (osInitial st)))"

definition sideOf :: "bool \<Rightarrow> Side" where
  "sideOf buy = (if buy then SIDE_BUY else SIDE_SELL)"

definition SideMatches :: "OrderState \<Rightarrow> bool \<Rightarrow> bool" where
  "SideMatches st buy \<longleftrightarrow> omSide (osOrder st) = sideOf buy"

lemma sideOf_inj [simp]: "sideOf b = sideOf b' \<longleftrightarrow> b = b'"
  by (simp add: sideOf_def)

subsection \<open>The client and its ports\<close>

record TransactionMsg =
  tmId :: string
  tmSymbol :: string
  tmName :: string
  tmTime :: time
  tmChange :: "Money option"

record 'w Client =
  AccountID :: string
  dial :: "('w, go_error option) state"
  stubPlaceOrder :: "OrderMsg \<Rightarrow> ('w, go_error + OrderState) state"
  stubCancelOrder :: "string \<Rightarrow> string \<Rightarrow> ('w, go_error + OrderState) state"
  stubGetOrder :: "string \<Rightarrow> string \<Rightarrow> ('w, go_error + OrderState) state"
  stubGetOrders :: "string \<Rightarrow> ('w, go_error + OrderState list) state"
  stubGetAccount :: "string \<Rightarrow> ('w, go_error + AccountResponse) state"
  stubTrades :: "string \<Rightarrow> int \<Rightarrow> time \<Rightarrow> time \<Rightarrow> ('w, go_error + AccountTrade option list option) state"
  stubTransactions :: "string \<Rightarrow> int \<Rightarrow> time \<Rightarrow> time \<Rightarrow> ('w, go_error + TransactionMsg option list option) state"
  stubUsage :: "('w, go_error + QuotaUsage list) state"

text \<open>What every unary call does: dial, call the stub, wrap the error of either.\<close>

definition unary ::
  "'w Client \<Rightarrow> (go_error \<Rightarrow> go_error) \<Rightarrow> (go_error \<Rightarrow> go_error) \<Rightarrow> ('w, go_error + 'a) state \<Rightarrow> ('w, go_error + 'a) state" where
  "unary c noConn failed stub = do {
     d \<leftarrow> dial c;
     case d of
       Some e \<Rightarrow> ret (Inl (noConn e))
     | None \<Rightarrow> do {
         r \<leftarrow> stub;
         ret (case r of Inl e \<Rightarrow> Inl (failed e) | Inr x \<Rightarrow> Inr x)
       }
   }"

subsection \<open>Orders\<close>

definition finam_PlaceOrder :: "'w Client \<Rightarrow> OrderMsg \<Rightarrow> ('w, go_error + OrderState) state" where
  "finam_PlaceOrder c order' =
     unary c (Wrapped ''failed to connect to gRPC'') (Wrapped ''failed to place order'') (stubPlaceOrder c order')"

definition finam_CancelOrder :: "'w Client \<Rightarrow> string \<Rightarrow> ('w, go_error + OrderState) state" where
  "finam_CancelOrder c orderID =
     unary c (Wrapped ''failed to connect to gRPC'') (Wrapped (''failed to cancel order '' @ orderID))
       (stubCancelOrder c (AccountID c) orderID)"

definition finam_GetOrder :: "'w Client \<Rightarrow> string \<Rightarrow> ('w, go_error + OrderState) state" where
  "finam_GetOrder c orderID =
     unary c (Wrapped ''failed to connect to gRPC'') (Wrapped (''failed to get order '' @ orderID))
       (stubGetOrder c (AccountID c) orderID)"

definition finam_GetOrders :: "'w Client \<Rightarrow> ('w, go_error + OrderState list) state" where
  "finam_GetOrders c =
     unary c (Wrapped ''failed to connect to gRPC'') (Wrapped ''failed to get orders'')
       (stubGetOrders c (AccountID c))"

definition FindOrderByClientID :: "'w Client \<Rightarrow> string \<Rightarrow> ('w, go_error + OrderState option) state" where
  "FindOrderByClientID c clientOrderId =
     (if clientOrderId = '''' then ret (Inl (Leaf code_Unknown ''empty client order id''))
      else do {
        r \<leftarrow> finam_GetOrders c;
        ret (case r of
               Inl e \<Rightarrow> Inl e
             | Inr sts \<Rightarrow> Inr (find (\<lambda>st. omClientId (osOrder st) = clientOrderId) sts))
      })"

record Ticker =
  tkSymbol :: string
  Vol :: int
  HeartbeatTimeout :: duration

definition placeMarketOrder :: "'w Client \<Rightarrow> Ticker \<Rightarrow> bool \<Rightarrow> string \<Rightarrow> ('w, go_error + OrderState) state" where
  "placeMarketOrder c t buy clientOrderId =
     finam_PlaceOrder c
       \<lparr>omAccount = AccountID c, omSymbol = tkSymbol t, omQuantity = dec (of_int (Vol t)),
        omLimitPrice = None, omSide = sideOf buy, omType = ORDER_TYPE_MARKET,
        omTif = TIME_IN_FORCE_DAY, omClientId = clientOrderId\<rparr>"

definition placeLimitOrder ::
  "'w Client \<Rightarrow> Ticker \<Rightarrow> bool \<Rightarrow> real \<Rightarrow> string \<Rightarrow> ('w, go_error + OrderState) state" where
  "placeLimitOrder c t buy price clientOrderId =
     finam_PlaceOrder c
       \<lparr>omAccount = AccountID c, omSymbol = tkSymbol t, omQuantity = dec (of_int (Vol t)),
        omLimitPrice = dec price, omSide = sideOf buy, omType = ORDER_TYPE_LIMIT,
        omTif = TIME_IN_FORCE_GOOD_TILL_CROSSING, omClientId = clientOrderId\<rparr>"

definition PlaceMarketOrderBuy :: "'w Client \<Rightarrow> Ticker \<Rightarrow> string \<Rightarrow> ('w, go_error + OrderState) state" where
  "PlaceMarketOrderBuy c t cid = placeMarketOrder c t True cid"

definition PlaceMarketOrderSell :: "'w Client \<Rightarrow> Ticker \<Rightarrow> string \<Rightarrow> ('w, go_error + OrderState) state" where
  "PlaceMarketOrderSell c t cid = placeMarketOrder c t False cid"

definition PlaceLimitOrderBuy :: "'w Client \<Rightarrow> Ticker \<Rightarrow> real \<Rightarrow> string \<Rightarrow> ('w, go_error + OrderState) state" where
  "PlaceLimitOrderBuy c t price cid = placeLimitOrder c t True price cid"

definition PlaceLimitOrderSell :: "'w Client \<Rightarrow> Ticker \<Rightarrow> real \<Rightarrow> string \<Rightarrow> ('w, go_error + OrderState) state" where
  "PlaceLimitOrderSell c t price cid = placeLimitOrder c t False price cid"

subsection \<open>The account\<close>

definition finam_GetAccount :: "'w Client \<Rightarrow> ('w, go_error + AccountResponse) state" where
  "finam_GetAccount c = unary c id id (stubGetAccount c (AccountID c))"

record Position =
  psSymbol :: string
  Quantity :: real
  AveragePrice :: real
  UnrealizedPnl :: real

definition no_Position :: Position where
  "no_Position = \<lparr>psSymbol = '''', Quantity = 0, AveragePrice = 0, UnrealizedPnl = 0\<rparr>"

text \<open>\<open>findPosition\<close> of an account that may be nil.\<close>

definition findPosition :: "AccountResponse option \<Rightarrow> string \<Rightarrow> Position \<times> bool" where
  "findPosition account symbol =
     (case account of
        None \<Rightarrow> (no_Position, False)
      | Some a \<Rightarrow>
          (case find (\<lambda>p. apSymbol p = symbol) (arPositions a) of
             Some p \<Rightarrow>
               (\<lparr>psSymbol = apSymbol p, Quantity = decimalToFloat (apQuantity p),
                 AveragePrice = decimalToFloat (apAverage p),
                 UnrealizedPnl = decimalToFloat (apUnrealized p)\<rparr>, True)
           | None \<Rightarrow> (no_Position, False)))"

definition GetPosition :: "'w Client \<Rightarrow> string \<Rightarrow> ('w, go_error + Position \<times> bool) state" where
  "GetPosition c symbol = do {
     r \<leftarrow> finam_GetAccount c;
     ret (case r of Inl e \<Rightarrow> Inl e | Inr a \<Rightarrow> Inr (findPosition (Some a) symbol))
   }"

record Margin =
  AvailableCash :: real
  MoneyReserved :: real
  Source :: string

definition no_Margin :: Margin where
  "no_Margin = \<lparr>AvailableCash = 0, MoneyReserved = 0, Source = ''''\<rparr>"

text \<open>The rouble cash of an account and whether it has any.\<close>

fun roubles :: "Money list \<Rightarrow> real \<Rightarrow> bool \<Rightarrow> real \<times> bool" where
  "roubles [] sum0 any = (sum0, any)"
| "roubles (m # ms) sum0 any =
     (if CurrencyCode m \<noteq> ''RUB'' then roubles ms sum0 any
      else roubles ms (sum0 + (of_int (Units m) + of_int (Nanos m) / 10 ^ 9)) True)"

definition accountMargin :: "AccountResponse \<Rightarrow> Margin \<times> bool" where
  "accountMargin a =
     (case arPortfolio a of
        PortfolioForts avail reserved \<Rightarrow>
          (\<lparr>AvailableCash = decimalToFloat avail, MoneyReserved = decimalToFloat reserved, Source = ''forts''\<rparr>, True)
      | PortfolioMc avail initial \<Rightarrow>
          (\<lparr>AvailableCash = decimalToFloat avail, MoneyReserved = decimalToFloat initial, Source = ''mc''\<rparr>, True)
      | _ \<Rightarrow>
          (case roubles (arCash a) 0 False of
             (sum0, any) \<Rightarrow>
               if any then (\<lparr>AvailableCash = sum0, MoneyReserved = 0, Source = ''cash''\<rparr>, True)
               else (no_Margin, False)))"

definition GetMargin :: "'w Client \<Rightarrow> ('w, go_error + Margin \<times> bool) state" where
  "GetMargin c = do {
     r \<leftarrow> finam_GetAccount c;
     ret (case r of Inl e \<Rightarrow> Inl e | Inr a \<Rightarrow> Inr (accountMargin a))
   }"

definition finam_PortfolioKind :: "AccountResponse \<Rightarrow> string" where
  "finam_PortfolioKind a =
     (case arPortfolio a of
        PortfolioForts _ _ \<Rightarrow> ''FORTS'' | PortfolioMc _ _ \<Rightarrow> ''MC'' | PortfolioMct \<Rightarrow> ''MCT''
      | NoPortfolio \<Rightarrow> ''none'')"

subsection \<open>Trades, transactions, usage\<close>

record Trade =
  TradeID :: string
  trOrderID :: string
  trSymbol :: string
  trTime :: time
  trPrice :: real
  trSize :: real
  trBuy :: bool

definition parseTrade :: "AccountTrade \<Rightarrow> Trade" where
  "parseTrade t =
     \<lparr>TradeID = atId t, trOrderID = atOrderId t, trSymbol = atSymbol t, trTime = atTime t,
      trPrice = decimalToFloat (atPrice t), trSize = decimalToFloat (atSize t),
      trBuy = (atSide t = SIDE_BUY)\<rparr>"

definition parseTrades :: "AccountTrade option list option \<Rightarrow> Trade list" where
  "parseTrades resp =
     (case resp of None \<Rightarrow> [] | Some ts \<Rightarrow> List.map_filter (map_option parseTrade) ts)"

definition GetTrades :: "'w Client \<Rightarrow> time \<Rightarrow> time \<Rightarrow> int \<Rightarrow> ('w, go_error + Trade list) state" where
  "GetTrades c from to limit = do {
     r \<leftarrow> unary c id id (stubTrades c (AccountID c) limit from to);
     ret (case r of Inl e \<Rightarrow> Inl e | Inr resp \<Rightarrow> Inr (parseTrades resp))
   }"

record Transaction =
  txID :: string
  txSymbol :: string
  txName :: string
  txTime :: time
  Change :: real

definition parseTransaction :: "TransactionMsg \<Rightarrow> Transaction" where
  "parseTransaction t =
     \<lparr>txID = tmId t, txSymbol = tmSymbol t, txName = tmName t, txTime = tmTime t,
      Change = (case tmChange t of None \<Rightarrow> 0 | Some m \<Rightarrow> of_int (Units m) + of_int (Nanos m) / 10 ^ 9)\<rparr>"

definition parseTransactions :: "TransactionMsg option list option \<Rightarrow> Transaction list" where
  "parseTransactions resp =
     (case resp of None \<Rightarrow> [] | Some ts \<Rightarrow> List.map_filter (map_option parseTransaction) ts)"

definition GetTransactions :: "'w Client \<Rightarrow> time \<Rightarrow> time \<Rightarrow> int \<Rightarrow> ('w, go_error + Transaction list) state" where
  "GetTransactions c from to limit = do {
     r \<leftarrow> unary c id id (stubTransactions c (AccountID c) limit from to);
     ret (case r of Inl e \<Rightarrow> Inl e | Inr resp \<Rightarrow> Inr (parseTransactions resp))
   }"

definition finam_GetUsageMetrics :: "'w Client \<Rightarrow> ('w, go_error + QuotaUsage list) state" where
  "finam_GetUsageMetrics c = unary c id id (stubUsage c)"

end
