(* ===== verification/ClientStreams.thy ===== *)
theory ClientStreams
  imports ClientBook FinamClient OrderRegistry "HOL-Library.Sublist"
begin

text \<open>
  The client's streams: \<open>trade/finam/orderstream.go\<close>, \<open>account_stream.go\<close> and the subscriptions of
  \<open>orderbook.go\<close> around the book itself. A subscription is a goroutine that runs one session after the other
  and sends what it reads to a channel; its consumer takes from the channel. What the sessions meet (the
  errors of the connection and of the subscription, the responses, the error that ends \<open>Recv\<close>) is given, the
  two goroutines interleave arbitrarily.
\<close>

subsection \<open>Sessions\<close>

definition orderStreamBufferSize :: nat where
  "orderStreamBufferSize = 256"

definition accountStreamBufferSize :: nat where
  "accountStreamBufferSize = 64"

definition orderBookChannelBufferSize :: nat where
  "orderBookChannelBufferSize = 10000"

definition reconnectDelay :: duration where
  "reconnectDelay = second"

record 'm Session =
  connErr :: "go_error option"
  subErr :: "go_error option"
  responses :: "'m list list"
  recvErr :: go_error

text \<open>
  The reader: between sessions, in one with the responses still to come, sending the items of a response, or
  asleep after the session's error.
\<close>

datatype 'm reader_pc =
    Starting
  | Receiving "'m list list" go_error
  | Sending "'m list" "'m list list" go_error
  | Sleeping duration go_error

record 'm Stream =
  sessions_ahead :: "'m Session list"
  reader :: "'m reader_pc"
  chan :: "'m list"
  taken :: "'m list"

text \<open>
  The two ways an item is sent: blocking, where a full channel of capacity \<open>cap\<close> parks the reader (\<open>None\<close>),
  and dropping the item where the channel is full.
\<close>

definition blockingSend :: "nat \<Rightarrow> 'm \<Rightarrow> 'm list \<Rightarrow> 'm list option" where
  "blockingSend cap v ch = (if length ch < cap then Some (ch @ [v]) else None)"

definition droppingSend :: "nat \<Rightarrow> 'm \<Rightarrow> 'm list \<Rightarrow> 'm list option" where
  "droppingSend cap v ch = Some (if length ch < cap then ch @ [v] else ch)"

text \<open>The end of \<open>run\<close>, seen by \<open>reconnectLoop\<close>: the error is logged and the reader sleeps.\<close>

definition runFailed :: "go_error \<Rightarrow> 'm Stream \<Rightarrow> 'm Stream" where
  "runFailed e s = s\<lparr>reader := Sleeping reconnectDelay e\<rparr>"

text \<open>A step of the reader; \<open>None\<close> where it is parked, or where no session is left to run.\<close>

fun readerStep :: "('m \<Rightarrow> 'm list \<Rightarrow> 'm list option) \<Rightarrow> 'm Stream \<Rightarrow> 'm Stream option" where
  "readerStep send s =
     (case reader s of
        Starting \<Rightarrow>
          (case sessions_ahead s of
             [] \<Rightarrow> None
           | se # ses \<Rightarrow>
               (let s' = s\<lparr>sessions_ahead := ses\<rparr>
                in case connErr se of
                     Some e \<Rightarrow> Some (runFailed e s')
                   | None \<Rightarrow>
                       (case subErr se of
                          Some e \<Rightarrow> Some (runFailed e s')
                        | None \<Rightarrow> Some (s'\<lparr>reader := Receiving (responses se) (recvErr se)\<rparr>))))
      | Receiving [] e \<Rightarrow> Some (runFailed e s)
      | Receiving (resp # rs) e \<Rightarrow> Some (s\<lparr>reader := Sending resp rs e\<rparr>)
      | Sending [] rs e \<Rightarrow> Some (s\<lparr>reader := Receiving rs e\<rparr>)
      | Sending (v # vs) rs e \<Rightarrow>
          (case send v (chan s) of
             None \<Rightarrow> None
           | Some ch \<Rightarrow> Some (s\<lparr>reader := Sending vs rs e, chan := ch\<rparr>))
      | Sleeping d e \<Rightarrow> Some (s\<lparr>reader := Starting\<rparr>))"

declare readerStep.simps [simp del]

fun consumerStep :: "'m Stream \<Rightarrow> 'm Stream option" where
  "consumerStep s =
     (case chan s of [] \<Rightarrow> None | v # ch \<Rightarrow> Some (s\<lparr>chan := ch, taken := taken s @ [v]\<rparr>))"

declare consumerStep.simps [simp del]

text \<open>A schedule says whose turn it is, \<open>True\<close> being the reader's; a goroutine that cannot run is passed over.\<close>

fun runStream :: "('m Stream \<Rightarrow> 'm Stream option) \<Rightarrow> bool list \<Rightarrow> 'm Stream \<Rightarrow> 'm Stream" where
  "runStream run [] s = s"
| "runStream run (turn # sched) s =
     runStream run sched
       (case if turn then run s else consumerStep s of None \<Rightarrow> s | Some s' \<Rightarrow> s')"

definition subscribed :: "'m Session list \<Rightarrow> 'm Stream" where
  "subscribed ses = \<lparr>sessions_ahead = ses, reader = Starting, chan = [], taken = []\<rparr>"

text \<open>The streams of own trades, order states, account snapshots and public trades.\<close>

definition runTradeStream :: "AccountTrade Stream \<Rightarrow> AccountTrade Stream option" where
  "runTradeStream = readerStep (blockingSend orderStreamBufferSize)"

definition runOrderStream :: "OrderState Stream \<Rightarrow> OrderState Stream option" where
  "runOrderStream = readerStep (blockingSend orderStreamBufferSize)"

definition runAccountStream :: "AccountResponse Stream \<Rightarrow> AccountResponse Stream option" where
  "runAccountStream = readerStep (droppingSend accountStreamBufferSize)"

definition runLatestTradesStream :: "TapeTrade Stream \<Rightarrow> TapeTrade Stream option" where
  "runLatestTradesStream = readerStep (droppingSend orderBookChannelBufferSize)"

subsection \<open>Nothing is lost and nothing is made up\<close>

text \<open>What a session hands out, and what the reader has still to send.\<close>

definition offered :: "'m Session \<Rightarrow> 'm list" where
  "offered se = (if connErr se = None \<and> subErr se = None then concat (responses se) else [])"

fun pending_items :: "'m reader_pc \<Rightarrow> 'm list" where
  "pending_items (Receiving rs e) = concat rs"
| "pending_items (Sending vs rs e) = vs @ concat rs"
| "pending_items _ = []"

definition ahead :: "'m Stream \<Rightarrow> 'm list" where
  "ahead s = pending_items (reader s) @ concat (map offered (sessions_ahead s))"

text \<open>Everything the consumer has, will find in the channel, or will be sent.\<close>

definition all_items :: "'m Stream \<Rightarrow> 'm list" where
  "all_items s = taken s @ chan s @ ahead s"

lemma all_items_subscribed [simp]: "all_items (subscribed ses) = concat (map offered ses)"
  by (simp add: all_items_def subscribed_def ahead_def)

lemma consumer_keeps: "consumerStep s = Some s' \<Longrightarrow> all_items s' = all_items s"
  by (auto simp: consumerStep.simps all_items_def ahead_def split: list.splits)

lemma reader_keeps_blocking:
  "readerStep (blockingSend cap) s = Some s' \<Longrightarrow> all_items s' = all_items s"
  by (auto simp: readerStep.simps all_items_def ahead_def offered_def runFailed_def blockingSend_def Let_def
      split: reader_pc.splits list.splits option.splits if_splits)

lemma subseq_skip: "subseq (xs @ ys @ zs) (xs @ ys @ v # zs)"
  by (intro list_emb_append_mono subseq_order.refl list_emb_Cons)

lemma reader_keeps_dropping:
  "readerStep (droppingSend cap) s = Some s' \<Longrightarrow> subseq (all_items s') (all_items s)"
  by (auto simp: readerStep.simps all_items_def ahead_def offered_def runFailed_def droppingSend_def Let_def
      split: reader_pc.splits list.splits option.splits if_splits intro: subseq_skip)

lemma lossless: "all_items (runStream (readerStep (blockingSend cap)) sched s) = all_items s"
  by (induction sched arbitrary: s)
    (auto simp: consumer_keeps reader_keeps_blocking split: option.splits)

lemma only_dropped: "subseq (all_items (runStream (readerStep (droppingSend cap)) sched s)) (all_items s)"
proof (induction sched arbitrary: s)
  case (Cons turn sched)
  define s' where "s' = (case if turn then readerStep (droppingSend cap) s else consumerStep s of
      None \<Rightarrow> s | Some s' \<Rightarrow> s')"
  have "subseq (all_items s') (all_items s)"
    by (auto simp: s'_def consumer_keeps reader_keeps_dropping split: option.splits)
  with Cons [of s'] show ?case by (auto simp: s'_def intro: subseq_order.trans)
qed simp

subsection \<open>Every item is delivered\<close>

text \<open>The work left: steps of the reader, and one step of the consumer for each item it does not have yet.\<close>

definition session_work :: "'m Session \<Rightarrow> nat" where
  "session_work se =
     3 + (if connErr se = None \<and> subErr se = None
          then 2 * length (responses se) + 2 * length (concat (responses se)) + 1 else 0)"

fun reader_work :: "'m reader_pc \<Rightarrow> nat" where
  "reader_work Starting = 0"
| "reader_work (Sleeping d e) = 1"
| "reader_work (Receiving rs e) = 2 + 2 * length rs + 2 * length (concat rs)"
| "reader_work (Sending vs rs e) = 3 + 2 * length vs + 2 * length rs + 2 * length (concat rs)"

definition work :: "'m Stream \<Rightarrow> nat" where
  "work s = sum_list (map session_work (sessions_ahead s)) + reader_work (reader s) + length (chan s)"

lemma reader_works: "readerStep (blockingSend cap) s = Some s' \<Longrightarrow> work s' < work s"
  by (auto simp: readerStep.simps work_def session_work_def runFailed_def blockingSend_def Let_def
      split: reader_pc.splits list.splits option.splits if_splits)

lemma consumer_works: "consumerStep s = Some s' \<Longrightarrow> work s' < work s"
  by (auto simp: consumerStep.simps work_def split: list.splits)

text \<open>A parked reader leaves the consumer something to take.\<close>

lemma no_deadlock:
  assumes "0 < cap" and "readerStep (blockingSend cap) s = None" and "consumerStep s = None"
  shows "ahead s = [] \<and> chan s = []"
  using assms
  by (auto simp: readerStep.simps consumerStep.simps blockingSend_def ahead_def Let_def
      split: reader_pc.splits list.splits option.splits if_splits)

text \<open>Turn by turn, both goroutines get to the end.\<close>

definition fair_rounds :: "nat \<Rightarrow> bool list" where
  "fair_rounds n = concat (replicate n [True, False])"

lemma drained_stays:
  "readerStep send s = None \<Longrightarrow> consumerStep s = None \<Longrightarrow> runStream (readerStep send) sched s = s"
  by (induction sched) auto

lemma drains:
  "0 < cap \<Longrightarrow> work s \<le> n \<Longrightarrow>
     ahead (runStream (readerStep (blockingSend cap)) (fair_rounds n) s) = [] \<and>
     chan (runStream (readerStep (blockingSend cap)) (fair_rounds n) s) = []"
proof (induction n arbitrary: s)
  case 0
  have "readerStep (blockingSend cap) s = None" "consumerStep s = None"
    using reader_works [of cap s] consumer_works [of s] 0 by (fastforce intro: ccontr)+
  then show ?case using no_deadlock [OF 0(1)] by (simp add: fair_rounds_def)
next
  case (Suc n)
  define s1 where "s1 = (case readerStep (blockingSend cap) s of None \<Rightarrow> s | Some s' \<Rightarrow> s')"
  define s2 where "s2 = (case consumerStep s1 of None \<Rightarrow> s1 | Some s' \<Rightarrow> s')"
  have run: "runStream (readerStep (blockingSend cap)) (fair_rounds (Suc n)) s = runStream (readerStep (blockingSend cap)) (fair_rounds n) s2"
    unfolding s2_def s1_def by (simp add: fair_rounds_def)
  show ?case
  proof (cases "readerStep (blockingSend cap) s = None \<and> consumerStep s = None")
    case True
    then show ?thesis
      using no_deadlock [OF Suc.prems(1), of s] drained_stays [of "blockingSend cap" s "fair_rounds (Suc n)"] by simp
  next
    case False
    have le: "work s1 \<le> work s" "work s2 \<le> work s1"
      using reader_works [of cap s] consumer_works [of s1]
      by (auto simp: s1_def s2_def split: option.split intro: less_imp_le)
    have "work s2 < work s"
    proof (cases "readerStep (blockingSend cap) s")
      case None
      then have "s1 = s" by (simp add: s1_def)
      then show ?thesis using False None consumer_works [of s] by (auto simp: s2_def)
    next
      case (Some s')
      then have "work s1 < work s" using reader_works by (simp add: s1_def)
      with le show ?thesis by simp
    qed
    then show ?thesis unfolding run by (intro Suc.IH) (use Suc.prems in simp_all)
  qed
qed

subsection \<open>Fills through replays\<close>

text \<open>
  Every session of the trade stream starts with a replay of the account's trades and goes on with the new
  ones, some of them twice: it goes along the account's trades from the first one, each of its items the next of
  them or one it has passed. \<open>along T n xs\<close> is how far \<open>xs\<close> gets from position \<open>n\<close>, if it does so.
\<close>

fun along :: "'a list \<Rightarrow> nat \<Rightarrow> 'a list \<Rightarrow> nat option" where
  "along T n [] = Some n"
| "along T n (x # xs) =
     (if x \<in> set (take n T) then along T n xs
      else if n < length T \<and> T ! n = x then along T (Suc n) xs else None)"

lemma along_append:
  "along T n (xs @ ys) = (case along T n xs of None \<Rightarrow> None | Some m \<Rightarrow> along T m ys)"
  by (induction T n xs rule: along.induct) simp_all

lemma along_bounds: "along T n xs = Some m \<Longrightarrow> n \<le> length T \<Longrightarrow> n \<le> m \<and> m \<le> length T"
  by (induction T n xs rule: along.induct) (auto split: if_splits)

lemma along_known: "set xs \<subseteq> set (take n T) \<Longrightarrow> along T n xs = Some n"
  by (induction xs) auto

lemma along_grow: "along T n xs = Some m \<Longrightarrow> n \<le> length T \<Longrightarrow> along (T @ us) n xs = Some m"
  by (induction T n xs rule: along.induct) (auto simp: nth_append split: if_splits)

lemma take_Suc_set: "n < length T \<Longrightarrow> set (take (Suc n) T) = insert (T ! n) (set (take n T))"
  by (simp add: take_Suc_conv_app_nth)

lemma distinct_later: "distinct T \<Longrightarrow> n < length T \<Longrightarrow> T ! n \<notin> set (take n T)"
  by (auto simp: in_set_conv_nth nth_eq_iff_index_eq)

lemma along_walk: "distinct (ts @ xs) \<Longrightarrow> along (ts @ xs) (length ts) xs = Some (length ts + length xs)"
proof (induction xs arbitrary: ts)
  case (Cons x xs)
  have "along ((ts @ [x]) @ xs) (length (ts @ [x])) xs = Some (length (ts @ [x]) + length xs)"
    by (rule Cons.IH) (use Cons.prems in simp)
  then show ?case using Cons.prems by simp
qed simp

lemma along_map:
  "along T n xs = Some m \<Longrightarrow> distinct (map f T) \<Longrightarrow> along (map f T) n (map f xs) = Some m"
proof (induction T n xs rule: along.induct)
  case (2 T n x xs)
  have "f x \<notin> set (take n (map f T))" if "n < length T" "T ! n = x"
    using distinct_later [OF "2.prems"(2), of n] that by simp
  with 2 show ?case by (auto simp: take_map split: if_splits)
qed simp

text \<open>What a dedup lets through of such a sequence are the items beyond those it has seen.\<close>

lemma fold_trades_append:
  "fold_trades (ts @ us) d =
     (fst (fold_trades ts d) @ fst (fold_trades us (snd (fold_trades ts d))),
      snd (fold_trades us (snd (fold_trades ts d))))"
proof (induction ts arbitrary: d)
  case (Cons t ts)
  show ?case
    using fold_trades_Cons [of t "ts @ us" d] fold_trades_Cons [of t ts d] Cons [of "snd (SeenTrade t d)"]
    by (simp add: prod_eq_iff)
qed simp

lemma along_fold:
  "along T n xs = Some m \<Longrightarrow> distinct T \<Longrightarrow> '''' \<notin> set T \<Longrightarrow> n \<le> k \<Longrightarrow> k \<le> length T \<Longrightarrow> seen d = set (take k T) \<Longrightarrow>
     fst (fold_trades xs d) = drop k (take m T) \<and> seen (snd (fold_trades xs d)) = set (take (max k m) T)"
proof (induction T n xs arbitrary: k d rule: along.induct)
  case (2 T n x xs)
  define d' where "d' = snd (SeenTrade x d)"
  have fold: "fold_trades (x # xs) d =
      ((if fst (SeenTrade x d) then [] else [x]) @ fst (fold_trades xs d'), snd (fold_trades xs d'))"
    by (simp add: d'_def split_beta)
  show ?case
  proof (cases "x \<in> set (take k T)")
    case True
    then have "x \<noteq> ''''" using "2.prems"(3) by (auto dest: in_set_takeD)
    with True have known: "SeenTrade x d = (True, d)" by (simp add: SeenTrade_def "2.prems"(6))
    show ?thesis
    proof (cases "x \<in> set (take n T)")
      case True
      with 2 known fold show ?thesis by (simp add: d'_def)
    next
      case False
      with "2.prems"(1) have n: "n < length T" "T ! n = x" "along T (Suc n) xs = Some m" by (auto split: if_splits)
      have "n \<noteq> k" using \<open>x \<in> set (take k T)\<close> False by auto
      then have "Suc n \<le> k" using "2.prems"(4) by simp
      with "2.IH"(2) [OF False conjI [OF n(1,2)] n(3) "2.prems"(2,3) _ "2.prems"(5,6)] known fold
      show ?thesis by (simp add: d'_def)
    qed
  next
    case False
    then have "x \<notin> set (take n T)" using set_take_subset_set_take [OF "2.prems"(4), of T] by blast
    with "2.prems"(1) have n: "n < length T" "T ! n = x" "along T (Suc n) xs = Some m" by (auto split: if_splits)
    have k: "n = k"
      using False n(1,2) "2.prems"(4) nth_mem [of n "take k T"] by (cases "n < k") auto
    have "x \<noteq> ''''" using n(1,2) "2.prems"(3) nth_mem by fastforce
    then have new: "\<not> fst (SeenTrade x d)" "seen d' = insert x (set (take k T))"
      using False "2.prems"(6) SeenTrade_seen [of x d] by (auto simp: d'_def)
    have m: "Suc k \<le> m" using along_bounds [OF n(3)] n(1) k by simp
    have "fst (fold_trades xs d') = drop (Suc k) (take m T) \<and>
        seen (snd (fold_trades xs d')) = set (take (max (Suc k) m) T)"
      by (rule "2.IH"(2)) (use \<open>x \<notin> set (take n T)\<close> n k new "2.prems" in \<open>simp_all add: take_Suc_set\<close>)
    moreover have "drop k (take m T) = x # drop (Suc k) (take m T)"
      using m n(1,2) k by (simp add: Cons_nth_drop_Suc [symmetric])
    ultimately show ?thesis using fold new(1) m by simp
  qed
qed simp

lemma drop_take_split:
  assumes "k \<le> r" and "r \<le> m" and "r \<le> length T"
  shows "drop k (take r T) @ drop r (take m T) = drop k (take m T)"
proof -
  have "take m T = take r T @ drop r (take m T)"
    using append_take_drop_id [of r "take m T"] assms(2) by (simp add: min_def)
  then have "drop k (take m T) = drop k (take r T @ drop r (take m T))" by simp
  then show ?thesis using assms(1,3) by simp
qed

lemma sessions_fold:
  assumes "distinct T" and "'''' \<notin> set T" and "\<forall>p\<in>set ps. along T 0 p \<noteq> None"
    and "seen d = set (take k T)" and "k \<le> length T"
  shows "\<exists>m\<ge>k. m \<le> length T \<and> fst (fold_trades (concat ps) d) = drop k (take m T) \<and>
    (\<forall>p\<in>set ps. the (along T 0 p) \<le> m)"
  using assms(3-5)
proof (induction ps arbitrary: k d)
  case Nil
  then show ?case by (intro exI [of _ k]) simp
next
  case (Cons p ps)
  obtain r where r: "along T 0 p = Some r" using Cons.prems(1) by auto
  have le: "r \<le> length T" using along_bounds [OF r] by simp
  define k' where "k' = max k r"
  have step: "fst (fold_trades p d) = drop k (take r T)" "seen (snd (fold_trades p d)) = set (take k' T)"
    using along_fold [OF r assms(1,2) _ Cons.prems(3,2)] by (simp_all add: k'_def)
  have "k' \<le> length T" using le Cons.prems(3) by (simp add: k'_def)
  with Cons.IH [OF _ step(2)] Cons.prems(1) obtain m where m: "k' \<le> m" "m \<le> length T"
    "fst (fold_trades (concat ps) (snd (fold_trades p d))) = drop k' (take m T)"
    "\<forall>p\<in>set ps. the (along T 0 p) \<le> m"
    by auto
  have "drop k (take r T) @ drop k' (take m T) = drop k (take m T)"
    using drop_take_split [of k r m T] m(1) le by (cases "k \<le> r") (simp_all add: k'_def)
  then have "fst (fold_trades (concat (p # ps)) d) = drop k (take m T)"
    using m(3) step(1) by (simp add: fold_trades_append)
  moreover have "the (along T 0 p) \<le> m" using r m(1) by (simp add: k'_def)
  ultimately show ?case using m by (intro exI [of _ m]) (simp add: k'_def)
qed

lemma prefix_concat:
  "prefix t (concat ps) \<Longrightarrow> \<exists>qs. t = concat qs \<and> (\<forall>q\<in>set qs. \<exists>p\<in>set ps. prefix q p)"
proof (induction ps arbitrary: t)
  case (Cons p ps)
  from Cons.prems consider "prefix t p" | u where "t = p @ u" "prefix u (concat ps)"
    by (auto simp: prefix_append)
  then show ?case
  proof cases
    case 1
    then show ?thesis by (intro exI [of _ "[t]"]) simp
  next
    case 2
    then obtain qs where "u = concat qs" "\<forall>q\<in>set qs. \<exists>p\<in>set ps. prefix q p" using Cons.IH by blast
    with 2 show ?thesis by (intro exI [of _ "p # qs"]) auto
  qed
qed simp

text \<open>
  Over sessions that each go along the account's trades, what is folded are those trades, each once and in their
  order, however the goroutines are scheduled; and all of them, once a session has got to the last one and the
  goroutines have had their turns.
\<close>

definition folded :: "bool list \<Rightarrow> AccountTrade Session list \<Rightarrow> string list" where
  "folded sched ses =
     fst (fold_trades (map atId (taken (runStream runTradeStream sched (subscribed ses)))) zero_dedup)"

lemma sessions_folded_once:
  assumes "distinct (map atId feed)" and "'''' \<notin> atId ` set feed"
    and "\<forall>se\<in>set ses. along (map atId feed) 0 (map atId (offered se)) \<noteq> None"
  shows "prefix (folded sched ses) (map atId feed)"
    and "se \<in> set ses \<Longrightarrow> along (map atId feed) 0 (map atId (offered se)) = Some (length feed) \<Longrightarrow>
      work (subscribed ses) \<le> n \<Longrightarrow> folded (fair_rounds n) ses = map atId feed"
proof -
  define run where "run sched = runStream runTradeStream sched (subscribed ses)" for sched
  have kept: "taken (run sched) @ chan (run sched) @ ahead (run sched) = concat (map offered ses)" for sched
    using lossless [of orderStreamBufferSize sched "subscribed ses"]
    by (simp add: run_def runTradeStream_def all_items_def [symmetric])
  have folds: "\<exists>m. fst (fold_trades (map atId (concat qs)) zero_dedup) = take m (map atId feed) \<and>
      (\<forall>q\<in>set qs. the (along (map atId feed) 0 (map atId q)) \<le> m)"
    if "\<forall>q\<in>set qs. along (map atId feed) 0 (map atId q) \<noteq> None" for qs
    using sessions_fold [OF assms(1), of "map (map atId) qs" zero_dedup 0] that assms(2)
    by (auto simp: zero_dedup_def map_concat)
  show "prefix (folded sched ses) (map atId feed)"
  proof -
    have "prefix (taken (run sched)) (concat (map offered ses))" using kept [of sched] by (metis prefixI)
    then obtain qs where qs: "taken (run sched) = concat qs"
      "\<forall>q\<in>set qs. \<exists>p\<in>set (map offered ses). prefix q p"
      using prefix_concat by blast
    have "along (map atId feed) 0 (map atId q) \<noteq> None" if q: "q \<in> set qs" for q
    proof -
      obtain p where "p \<in> set (map offered ses)" "prefix q p" using qs(2) q by blast
      then obtain se rest where "se \<in> set ses" "offered se = q @ rest" by (auto elim: prefixE)
      then have "along (map atId feed) 0 (map atId q @ map atId rest) \<noteq> None" using assms(3) by auto
      then show ?thesis by (auto simp: along_append split: option.splits)
    qed
    with folds [of qs] show ?thesis by (auto simp: folded_def run_def [symmetric] qs(1) take_is_prefix)
  qed
  show "folded (fair_rounds n) ses = map atId feed"
    if "se \<in> set ses" "along (map atId feed) 0 (map atId (offered se)) = Some (length feed)"
      "work (subscribed ses) \<le> n"
  proof -
    have "ahead (run (fair_rounds n)) = [] \<and> chan (run (fair_rounds n)) = []"
      unfolding run_def runTradeStream_def by (rule drains [OF _ that(3)]) (simp add: orderStreamBufferSize_def)
    then have "taken (run (fair_rounds n)) = concat (map offered ses)" using kept [of "fair_rounds n"] by simp
    then show ?thesis using folds [of "map offered ses"] assms(3) that(1,2) by (force simp: folded_def run_def)
  qed
qed

end
