(* ===== verification/BookFeed.thy ===== *)
theory BookFeed
  imports ClientStreams
begin

text \<open>
  The order book subscriptions of the client, \<open>trade/finam/orderbook.go\<close>: the loop of \<open>streamBook\<close> with its
  heartbeat timer, and the two subscriptions that hand its snapshots to a channel, with the consumer taking
  from it at any time. The books themselves are in \<open>ClientBook\<close>.
\<close>

subsection \<open>The loop of streamBook\<close>

definition heartbeatTimeout :: duration where
  "heartbeatTimeout = 10 * second"

definition bookTimeout :: "Ticker \<Rightarrow> duration" where
  "bookTimeout t = (if HeartbeatTimeout t > 0 then HeartbeatTimeout t else heartbeatTimeout)"

definition heartbeat_error :: go_error where
  "heartbeat_error = Leaf code_Unknown ''heartbeat timeout: no data received''"

definition resync_error :: go_error where
  "resync_error = Leaf code_Unknown ''crossed book persisted, forcing resync''"

record BookLoop =
  loopBook :: BookStream
  timerAt :: time

definition openBook :: "Ticker \<Rightarrow> time \<Rightarrow> BookLoop" where
  "openBook t now = \<lparr>loopBook = newStream, timerAt = now + bookTimeout t\<rparr>"

text \<open>
  What the \<open>select\<close> of the loop can pick: a response, the error of \<open>Recv\<close>, or the timer, which has fired only
  once its time has come. A case gives the snapshots for \<open>onSnapshot\<close> and the error \<open>streamBook\<close> returns.
\<close>

datatype BookEvent =
    Response time "(string \<times> BookRow list) list"
  | RecvError go_error
  | TimerFires time

fun bookTurn :: "Ticker \<Rightarrow> BookEvent \<Rightarrow> BookLoop \<Rightarrow> (time \<times> BookOut) list \<times> go_error option \<times> BookLoop" where
  "bookTurn t (Response now obs) l =
     (case onResponse obs (loopBook l) of
        (outs, b) \<Rightarrow>
          (map (Pair now) outs, if Resync \<in> set outs then Some resync_error else None,
           \<lparr>loopBook = b, timerAt = now + bookTimeout t\<rparr>))"
| "bookTurn t (RecvError e) l = ([], Some e, l)"
| "bookTurn t (TimerFires now) l = ([], if timerAt l \<le> now then Some heartbeat_error else None, l)"

subsection \<open>The subscriptions\<close>

text \<open>
  The channel, the consumer and the drop counter of a subscription. \<open>onSnapshot\<close> is a callback on the queue
  and the counter (\<open>onFullSnapshot\<close>, \<open>onBestSnapshot\<close>); it has no value on a channel of capacity 0 only.
\<close>

record 'd Feed =
  bookLoop :: BookLoop
  queue :: "'d list"
  drops :: dropWarner
  got :: "'d list"

type_synonym 'd callback =
  "time \<Rightarrow> string \<Rightarrow> PriceLevel list \<Rightarrow> PriceLevel list \<Rightarrow> 'd list \<times> dropWarner \<Rightarrow> ('d list \<times> dropWarner) option"

fun handOut :: "'d callback \<Rightarrow> (time \<times> BookOut) list \<Rightarrow> 'd list \<times> dropWarner \<Rightarrow> ('d list \<times> dropWarner) option" where
  "handOut cb [] qw = Some qw"
| "handOut cb ((now, Snap sy bs as) # outs) qw =
     (case cb now sy bs as qw of None \<Rightarrow> None | Some qw' \<Rightarrow> handOut cb outs qw')"
| "handOut cb ((now, out) # outs) qw = handOut cb outs qw"

datatype FeedEvent = Stream BookEvent | Consume

fun feedStep :: "'d callback \<Rightarrow> Ticker \<Rightarrow> FeedEvent \<Rightarrow> 'd Feed \<Rightarrow> (go_error option \<times> 'd Feed) option" where
  "feedStep cb t (Stream ev) f =
     (case bookTurn t ev (bookLoop f) of
        (outs, e, l) \<Rightarrow>
          (case handOut cb outs (queue f, drops f) of
             None \<Rightarrow> None
           | Some (q, w) \<Rightarrow> Some (e, f\<lparr>bookLoop := l, queue := q, drops := w\<rparr>)))"
| "feedStep cb t Consume f =
     (case queue f of [] \<Rightarrow> Some (None, f) | d # q \<Rightarrow> Some (None, f\<lparr>queue := q, got := got f @ [d]\<rparr>))"

text \<open>A session up to the error that ends it.\<close>

fun feedRun :: "'d callback \<Rightarrow> Ticker \<Rightarrow> FeedEvent list \<Rightarrow> 'd Feed \<Rightarrow> (go_error option \<times> 'd Feed) option" where
  "feedRun cb t [] f = Some (None, f)"
| "feedRun cb t (ev # evs) f =
     (case feedStep cb t ev f of
        None \<Rightarrow> None
      | Some (Some e, f') \<Rightarrow> Some (Some e, f')
      | Some (None, f') \<Rightarrow> feedRun cb t evs f')"

definition newDrops :: dropWarner where
  "newDrops = \<lparr>dw_dropped = 0, dw_total = 0, lastWarn = 0\<rparr>"

text \<open>A new session keeps the channel and starts the book, the timer and the drop counter afresh.\<close>

definition openFeed :: "Ticker \<Rightarrow> time \<Rightarrow> 'd Feed \<Rightarrow> 'd Feed" where
  "openFeed t now f = f\<lparr>bookLoop := openBook t now, drops := newDrops\<rparr>"

definition subscribeOrderBook ::
  "Ticker \<Rightarrow> time \<Rightarrow> FeedEvent list \<Rightarrow> OrderBookData Feed \<Rightarrow> (go_error option \<times> OrderBookData Feed) option" where
  "subscribeOrderBook t now evs f =
     feedRun (onBestSnapshot orderBookChannelBufferSize (Vol t)) t evs (openFeed t now f)"

definition subscribeFullOrderBook ::
  "Ticker \<Rightarrow> time \<Rightarrow> FeedEvent list \<Rightarrow> FullOrderBookData Feed \<Rightarrow> (go_error option \<times> FullOrderBookData Feed) option" where
  "subscribeFullOrderBook t now evs f =
     feedRun (onFullSnapshot orderBookChannelBufferSize) t evs (openFeed t now f)"

text \<open>\<open>GetLastQuote\<close> passes the stub's answer through.\<close>

definition GetLastQuote ::
  "'w Client \<Rightarrow> (string \<Rightarrow> ('w, go_error + 'q) state) \<Rightarrow> string \<Rightarrow> ('w, go_error + 'q) state" where
  "GetLastQuote c stub symbol = unary c id id (stub symbol)"

subsection \<open>Keeping the newest\<close>

definition newest :: "nat \<Rightarrow> 'a list \<Rightarrow> 'a list" where
  "newest cap xs = drop (length xs - cap) xs"

lemma newest_append: "newest cap (newest cap xs @ ys) = newest cap (xs @ ys)"
  by (cases "length xs \<le> cap") (simp_all add: newest_def add.commute)

lemma newest_small [simp]: "length xs \<le> cap \<Longrightarrow> newest cap xs = xs"
  by (simp add: newest_def)

lemma newest_length [simp]: "length (newest cap xs) = min cap (length xs)"
  by (simp add: newest_def min_def)

lemma newest_last: "0 < cap \<Longrightarrow> xs \<noteq> [] \<Longrightarrow> newest cap xs \<noteq> [] \<and> last (newest cap xs) = last xs"
  using length_greater_0_conv [of xs] by (simp add: newest_def last_drop del: length_greater_0_conv)

lemma newest_suffix: "suffix (newest cap xs) xs"
  by (simp add: newest_def suffix_drop)

text \<open>The snapshots of a book that the full subscription sends on, and how an item shows its snapshot.\<close>

fun sendable :: "(time \<times> BookOut) list \<Rightarrow> (time \<times> string \<times> PriceLevel list \<times> PriceLevel list) list" where
  "sendable [] = []"
| "sendable ((now, Snap sy bs as) # outs) =
     (if bs = [] \<or> as = [] then sendable outs else (now, sy, bs, as) # sendable outs)"
| "sendable ((now, out) # outs) = sendable outs"

definition shown :: "FullOrderBookData \<Rightarrow> time \<times> string \<times> PriceLevel list \<times> PriceLevel list" where
  "shown d = (fbTimestamp d, fbSymbol d, fbBids d, fbAsks d)"

lemma onFullSnapshot_newest:
  assumes "0 < cap" and "length q \<le> cap" and "bs \<noteq> []" and "as \<noteq> []"
  shows "\<exists>d w'. onFullSnapshot cap now sy bs as (q, w) = Some (newest cap (q @ [d]), w') \<and> shown d = (now, sy, bs, as)"
  using assms channel_keeps_newest [OF assms(1,2)]
  by (simp add: onFullSnapshot_def Let_def newest_def shown_def)

lemma handOut_newest:
  assumes "0 < cap" and "length q \<le> cap"
  shows "\<exists>ds w'. handOut (onFullSnapshot cap) outs (q, w) = Some (newest cap (q @ ds), w') \<and>
    map shown ds = sendable outs"
  using assms(2)
proof (induction outs arbitrary: q w)
  case (Cons x outs)
  obtain now out where x: "x = (now, out)" by (cases x)
  show ?case
  proof (cases "\<exists>sy bs as. out = Snap sy bs as \<and> bs \<noteq> [] \<and> as \<noteq> []")
    case True
    then obtain sy bs as where out: "out = Snap sy bs as" "bs \<noteq> []" "as \<noteq> []" by blast
    obtain d w1 where d: "onFullSnapshot cap now sy bs as (q, w) = Some (newest cap (q @ [d]), w1)"
      "shown d = (now, sy, bs, as)"
      using onFullSnapshot_newest [OF assms(1) Cons.prems out(2,3)] by blast
    obtain ds w' where ds: "handOut (onFullSnapshot cap) outs (newest cap (q @ [d]), w1) =
        Some (newest cap (newest cap (q @ [d]) @ ds), w')" "map shown ds = sendable outs"
      using Cons.IH [of "newest cap (q @ [d])" w1] by auto
    then show ?thesis
      by (intro exI [of _ "d # ds"] exI [of _ w']) (simp add: x out d newest_append)
  next
    case False
    then have "handOut (onFullSnapshot cap) (x # outs) (q, w) = handOut (onFullSnapshot cap) outs (q, w)"
      "sendable (x # outs) = sendable outs"
      by (cases out; auto simp: x onFullSnapshot_def)+
    with Cons show ?thesis by simp
  qed
qed (auto intro: exI [of _ "[]"])

text \<open>What the loop of a session hands out until it ends.\<close>

fun emitted :: "Ticker \<Rightarrow> FeedEvent list \<Rightarrow> BookLoop \<Rightarrow> (time \<times> BookOut) list" where
  "emitted t [] l = []"
| "emitted t (Consume # evs) l = emitted t evs l"
| "emitted t (Stream ev # evs) l =
     (case bookTurn t ev l of (outs, e, l') \<Rightarrow> outs @ (if e = None then emitted t evs l' else []))"

lemma sendable_append: "sendable (xs @ ys) = sendable xs @ sendable ys"
  by (induction xs rule: sendable.induct) auto

lemma emitted_ok: "(now, out) \<in> set (emitted t evs l) \<Longrightarrow> snap_ok out"
proof (induction t evs l rule: emitted.induct)
  case (3 t ev evs l)
  obtain outs e l' where turn: "bookTurn t ev l = (outs, e, l')" by (cases "bookTurn t ev l")
  have "snap_ok out" if "(now, out) \<in> set outs"
  proof (cases ev)
    case (Response at' obs)
    with turn that show ?thesis
      using onResponse_snap [of out obs "loopBook l"] by (auto split: prod.splits)
  qed (use turn that in simp_all)
  with 3 turn show ?case by (auto split: if_splits)
qed simp_all

lemma sendable_ok:
  "(now, sy, bs, as) \<in> set (sendable outs) \<Longrightarrow> (now, Snap sy bs as) \<in> set outs \<and> bs \<noteq> [] \<and> as \<noteq> []"
  by (induction outs rule: sendable.induct) (auto split: if_splits)

text \<open>\<open>freshest xs ys\<close>: at most stale items of \<open>ys\<close> are missing from \<open>xs\<close>, the newest is not.\<close>

definition freshest :: "'a list \<Rightarrow> 'a list \<Rightarrow> bool" where
  "freshest xs ys \<longleftrightarrow> subseq xs ys \<and> (ys \<noteq> [] \<longrightarrow> xs \<noteq> [] \<and> last xs = last ys)"

lemma freshest_refl [simp]: "freshest xs xs"
  by (simp add: freshest_def)

lemma freshest_append:
  assumes "freshest xs ys" and "freshest zs (xs @ rest)"
  shows "freshest zs (ys @ rest)"
proof -
  have "subseq zs (ys @ rest)"
    using assms by (auto simp: freshest_def intro: subseq_order.trans list_emb_append_mono)
  moreover have "zs \<noteq> [] \<and> last zs = last (ys @ rest)" if "ys @ rest \<noteq> []"
    using assms that by (cases "rest = []") (auto simp: freshest_def)
  ultimately show ?thesis by (simp add: freshest_def)
qed

lemma freshest_map: "freshest xs ys \<Longrightarrow> freshest (map g xs) (map g ys)"
  by (auto simp: freshest_def last_map subseq_map)

lemma freshest_set: "freshest xs ys \<Longrightarrow> set xs \<subseteq> set ys"
proof
  fix x assume "freshest xs ys" "x \<in> set xs"
  then have "list_emb (=) xs ys" "x \<in> set xs" by (simp_all add: freshest_def)
  then obtain y where "y \<in> set ys" "x = y" by (rule list_emb_set)
  then show "x \<in> set ys" by simp
qed

lemma newest_freshest: "0 < cap \<Longrightarrow> freshest (xs @ newest cap ys) (xs @ ys)"
proof -
  assume "0 < cap"
  have "subseq (xs @ newest cap ys) (xs @ ys)"
    using newest_suffix by (intro list_emb_append_mono) (auto intro: suffix_imp_subseq)
  moreover have "xs @ ys \<noteq> [] \<Longrightarrow> xs @ newest cap ys \<noteq> [] \<and> last (xs @ newest cap ys) = last (xs @ ys)"
    using newest_last [OF \<open>0 < cap\<close>, of ys] by (cases "ys = []") simp_all
  ultimately show ?thesis by (simp add: freshest_def)
qed

lemma feedRun_newest:
  assumes "0 < cap"
  shows "length (queue f) \<le> cap \<Longrightarrow> \<exists>e f'. feedRun (onFullSnapshot cap) t evs f = Some (e, f') \<and>
    length (queue f') \<le> cap \<and>
    freshest (map shown (got f' @ queue f')) (map shown (got f @ queue f) @ sendable (emitted t evs (bookLoop f)))"
proof (induction evs arbitrary: f)
  case (Cons ev evs)
  show ?case
  proof (cases ev)
    case Consume
    define f1 where "f1 = (case queue f of [] \<Rightarrow> f | d # q \<Rightarrow> f\<lparr>queue := q, got := got f @ [d]\<rparr>)"
    have step: "feedStep (onFullSnapshot cap) t Consume f = Some (None, f1)"
      by (simp add: f1_def split: list.split)
    have same: "got f1 @ queue f1 = got f @ queue f" "bookLoop f1 = bookLoop f" "length (queue f1) \<le> cap"
      using Cons.prems by (auto simp: f1_def split: list.split)
    from Cons.IH [OF same(3)] show ?thesis by (simp only: Consume same feedRun.simps step emitted.simps) simp
  next
    case (Stream b)
    obtain outs e l where turn: "bookTurn t b (bookLoop f) = (outs, e, l)" by (cases "bookTurn t b (bookLoop f)")
    obtain ds w' where out: "handOut (onFullSnapshot cap) outs (queue f, drops f) =
        Some (newest cap (queue f @ ds), w')" "map shown ds = sendable outs"
      using handOut_newest [OF assms Cons.prems] by blast
    define f1 where "f1 = f\<lparr>bookLoop := l, queue := newest cap (queue f @ ds), drops := w'\<rparr>"
    have step: "feedStep (onFullSnapshot cap) t ev f = Some (e, f1)"
      using turn out by (simp add: f1_def Stream)
    have len: "length (queue f1) \<le> cap" by (simp add: f1_def)
    have fresh: "freshest (map shown (got f1 @ queue f1)) (map shown (got f @ queue f) @ sendable outs)"
      using freshest_map [OF newest_freshest [OF assms, of "got f" "queue f @ ds"], of shown]
      by (simp add: f1_def flip: out(2))
    show ?thesis
    proof (cases e)
      case None
      have emits: "sendable (emitted t (ev # evs) (bookLoop f)) = sendable outs @ sendable (emitted t evs l)"
        using turn None by (simp add: Stream sendable_append)
      have "feedRun (onFullSnapshot cap) t (ev # evs) f = feedRun (onFullSnapshot cap) t evs f1"
        using step by (simp add: None del: feedStep.simps)
      moreover have "bookLoop f1 = l" by (simp add: f1_def)
      ultimately show ?thesis
        using Cons.IH [OF len] freshest_append [OF fresh] unfolding emits by (simp only: append_assoc) blast
    next
      case (Some err)
      have emits: "sendable (emitted t (ev # evs) (bookLoop f)) = sendable outs"
        using turn Some by (simp add: Stream sendable_append)
      have "feedRun (onFullSnapshot cap) t (ev # evs) f = Some (Some err, f1)"
        using step by (simp add: Some del: feedStep.simps)
      with len fresh show ?thesis unfolding emits by blast
    qed
  qed
qed simp

text \<open>
  C21. What reaches the strategy through the full subscription, in any session and with a consumer of any
  speed, are snapshots of the stream in their order, none crossed, unsorted or one-sided, at most the
  channel's buffer of them waiting; stale ones may be missing, but the newest never is: it is the last one taken, or
  waits at the end of the queue. (Of the drop counts they carry nothing is claimed, see \<open>drops_misplaced\<close>.)
\<close>

theorem full_feed_newest:
  assumes "f = \<lparr>bookLoop = l, queue = [], drops = w, got = []\<rparr>"
  shows "\<exists>e f'. subscribeFullOrderBook t now evs f = Some (e, f') \<and> length (queue f') \<le> orderBookChannelBufferSize \<and>
    freshest (map shown (got f' @ queue f')) (sendable (emitted t evs (openBook t now))) \<and>
    (\<forall>(at', sy, bs, as)\<in>set (map shown (got f' @ queue f')). snap_ok (Snap sy bs as) \<and> bs \<noteq> [] \<and> as \<noteq> [])"
proof -
  let ?f = "openFeed t now f" and ?stream = "sendable (emitted t evs (openBook t now))"
  have f: "got ?f @ queue ?f = []" "bookLoop ?f = openBook t now" by (simp_all add: assms openFeed_def)
  have cap: "0 < orderBookChannelBufferSize" "length (queue ?f) \<le> orderBookChannelBufferSize"
    using f(1) by (simp_all add: orderBookChannelBufferSize_def)
  obtain e f' where run: "subscribeFullOrderBook t now evs f = Some (e, f')"
      "length (queue f') \<le> orderBookChannelBufferSize" "freshest (map shown (got f' @ queue f')) ?stream"
    using feedRun_newest [OF cap, of t evs] unfolding f subscribeFullOrderBook_def by auto
  moreover have "snap_ok (Snap sy bs as) \<and> bs \<noteq> [] \<and> as \<noteq> []" if "(at', sy, bs, as) \<in> set ?stream" for at' sy bs as
    using sendable_ok [OF that] emitted_ok by blast
  ultimately show ?thesis
    using freshest_set [OF run(3)] by (intro exI [of _ e] exI [of _ f']) blast
qed

text \<open>A snapshot, an update before the consumer has taken it, and its taking both.\<close>

definition leg_ticker :: Ticker where
  "leg_ticker = \<lparr>tkSymbol = ''A'', Vol = 1, HeartbeatTimeout = 0\<rparr>"

definition quiet_feed :: "FullOrderBookData Feed" where
  "quiet_feed = \<lparr>bookLoop = openBook leg_ticker 0, queue = [], drops = newDrops, got = []\<rparr>"

definition first_rows :: "BookRow list" where
  "first_rows = [bookRow 99 1 True ACTION_ADD 0, bookRow 100 1 False ACTION_ADD 0]"

theorem full_feed_newest_witness:
  "\<exists>e f'. subscribeFullOrderBook leg_ticker 0
       [Stream (Response 1 [(''A'', first_rows)]), Consume, Stream (Response 2 [(''A'', [])])] quiet_feed = Some (e, f') \<and>
     last (map shown (got f' @ queue f')) = (2, ''A'', [(99, 1)], [(100, 1)])"
proof -
  let ?evs = "[Stream (Response 1 [(''A'', first_rows)]), Consume, Stream (Response 2 [(''A'', [])])]"
  have "sendable (emitted leg_ticker ?evs (openBook leg_ticker 0)) =
      [(1, ''A'', [(99, 1)], [(100, 1)]), (2, ''A'', [(99, 1)], [(100, 1)])]"
    by (simp add: openBook_def newStream_def first_rows_def onOrderBook_def applyRow_put on_side_def sortedLevels_def
        crossed_def Let_def)
  with full_feed_newest [OF quiet_feed_def, of leg_ticker 0 ?evs] show ?thesis
    by (auto simp: freshest_def)
qed

subsection \<open>The heartbeat\<close>

text \<open>When a session last heard of the broker.\<close>

fun heard :: "FeedEvent list \<Rightarrow> time \<Rightarrow> time" where
  "heard [] t0 = t0"
| "heard (Stream (Response now obs) # evs) t0 = heard evs now"
| "heard (ev # evs) t0 = heard evs t0"

lemma heard_timer:
  "feedRun cb t evs f = Some (None, f') \<Longrightarrow> timerAt (bookLoop f) = t0 + bookTimeout t \<Longrightarrow>
     timerAt (bookLoop f') = heard evs t0 + bookTimeout t"
proof (induction evs arbitrary: f t0)
  case (Cons ev evs)
  obtain f1 where step: "feedStep cb t ev f = Some (None, f1)" "feedRun cb t evs f1 = Some (None, f')"
    using Cons.prems(1) by (auto split: option.splits prod.splits)
  define t1 where "t1 = (case ev of Stream (Response now obs) \<Rightarrow> now | _ \<Rightarrow> t0)"
  have t1: "timerAt (bookLoop f1) = t1 + bookTimeout t"
  proof (cases ev)
    case (Stream b)
    then show ?thesis
      using step(1) Cons.prems(2)
      by (cases b) (auto simp: t1_def split: prod.splits option.splits)
  next
    case Consume
    then show ?thesis using step(1) Cons.prems(2) by (auto simp: t1_def split: list.splits)
  qed
  have "heard (ev # evs) t0 = heard evs t1" by (cases ev rule: FeedEvent.exhaust) (auto simp: t1_def split: BookEvent.split)
  with Cons.IH [OF step(2) t1] show ?case by simp
qed simp

lemma feedRun_append:
  "feedRun cb t evs f = Some (None, f') \<Longrightarrow> feedRun cb t (evs @ evs') f = feedRun cb t evs' f'"
  by (induction evs arbitrary: f) (auto split: option.splits prod.splits)

text \<open>
  A silent subscription is given up: when the timer is looked at, the session ends exactly if nothing has been
  heard for the timeout of the ticker (ten seconds where it sets none).
\<close>

theorem silence_ends_session:
  assumes "subscribeFullOrderBook t t0 evs f = Some (None, f')"
  shows "subscribeFullOrderBook t t0 (evs @ [Stream (TimerFires now)]) f =
    Some (if heard evs t0 + bookTimeout t \<le> now then Some heartbeat_error else None, f')"
proof -
  have "timerAt (bookLoop f') = heard evs t0 + bookTimeout t"
    using assms unfolding subscribeFullOrderBook_def
    by (rule heard_timer) (simp add: openFeed_def openBook_def)
  then show ?thesis
    using assms by (simp add: subscribeFullOrderBook_def feedRun_append)
qed

subsection \<open>The drop counter\<close>

text \<open>
  The counter stamped on a snapshot is read before the send that evicts, and an eviction hits the oldest in the
  queue: with room for one, the consumer loses the first snapshot without a rise, and sees the rise between the
  second and the third, which follow one another.
\<close>

theorem drops_misplaced:
  "\<exists>f1 f2. feedRun (onFullSnapshot 1) leg_ticker
       [Stream (Response 1 [(''A'', first_rows)]), Stream (Response 2 [(''A'', [])]), Consume] quiet_feed = Some (None, f1) \<and>
     map fbTimestamp (got f1) = [2] \<and> map fbDrops (got f1) = [0] \<and>
     feedRun (onFullSnapshot 1) leg_ticker [Stream (Response 3 [(''A'', [])]), Consume] f1 = Some (None, f2) \<and>
     map fbTimestamp (got f2) = [2, 3] \<and> map fbDrops (got f2) = [0, 1]"
  by (simp add: quiet_feed_def newDrops_def openBook_def newStream_def first_rows_def onOrderBook_def applyRow_put
      on_side_def sortedLevels_def crossed_def onFullSnapshot_def note_drop_def Let_def)

end
