(* ===== verification/SimAssets.thy ===== *)
theory SimAssets
  imports SimControl
begin

text \<open>
  The simulator's directory calls, \<open>brokersim/assets.go\<close>, and the unary order book of \<open>brokersim/marketdata.go\<close>.
  \<open>Schedule\<close> and \<open>GetUsageMetrics\<close> are with the control plane in \<open>SimControl\<close>.
\<close>

text \<open>What every read-only call does first: the fault gate, then the token.\<close>

definition authed ::
  "codec \<Rightarrow> string list \<Rightarrow> string \<Rightarrow> (Sim \<Rightarrow> 'a outcome \<times> Sim) \<Rightarrow> Sim \<Rightarrow> 'a outcome \<times> Sim" where
  "authed K ctx m body s0 =
     (let ((e, _), ft) = gateReadOnly m (faults s0); s = s0\<lparr>faults := ft\<rparr>
      in case e of
           Some err \<Rightarrow> (Err err, s)
         | None \<Rightarrow>
             (case checkAuth K ctx s of
                Panic \<Rightarrow> (Panic, s)
              | Err err \<Rightarrow> (Err err, s)
              | Ok _ \<Rightarrow> body s))"

subsection \<open>Dates\<close>

text \<open>\<open>time.Parse\<close> with the layout 2006-01-02: four, two and two digits of a day of the proleptic calendar.\<close>

definition isDigit :: "char \<Rightarrow> bool" where
  "isDigit c \<longleftrightarrow> 48 \<le> (of_char c :: nat) \<and> (of_char c :: nat) \<le> 57"

definition leapYear :: "int \<Rightarrow> bool" where
  "leapYear y \<longleftrightarrow> y mod 4 = 0 \<and> (y mod 100 \<noteq> 0 \<or> y mod 400 = 0)"

definition monthDays :: "int \<Rightarrow> nat list" where
  "monthDays y = [31, if leapYear y then 29 else 28, 31, 30, 31, 30, 31, 31, 30, 31, 30, 31]"

definition daysBeforeYear :: "int \<Rightarrow> int" where
  "daysBeforeYear y = 365 * (y - 1) + (y - 1) div 4 - (y - 1) div 100 + (y - 1) div 400"

fun parseDate :: "string \<Rightarrow> time option" where
  "parseDate [y1, y2, y3, y4, s1, m1, m2, s2, d1, d2] =
     (let y = int (number 10 [y1, y2, y3, y4]); m = number 10 [m1, m2]; d = number 10 [d1, d2]
      in if list_all isDigit [y1, y2, y3, y4, m1, m2, d1, d2] \<and> s1 = CHR ''-'' \<and> s2 = CHR ''-'' \<and>
            1 \<le> m \<and> m \<le> 12 \<and> 1 \<le> d \<and> d \<le> monthDays y ! (m - 1)
         then Some ((daysBeforeYear y + int (sum_list (take (m - 1) (monthDays y))) + int d - 1) * 86400 * second)
         else None)"
| "parseDate _ = None"

subsection \<open>Instruments\<close>

record AssetCard =
  acBoard :: string
  acId :: string
  acTicker :: string
  acMic :: string
  acType :: string
  acName :: string
  acDecimals :: int
  acMinStep :: int
  acLotSize :: "decimal option"
  acExpiration :: "time option"

definition Pow10 :: "int \<Rightarrow> real" where
  "Pow10 n = (if 0 \<le> n then 10 ^ nat n else 1 / 10 ^ nat (- n))"

definition splitSymbol :: "string \<Rightarrow> string \<times> string" where
  "splitSymbol sy =
     (if CHR ''@'' \<in> set sy then (takeWhile (\<lambda>c. c \<noteq> CHR ''@'') sy, tl (dropWhile (\<lambda>c. c \<noteq> CHR ''@'') sy))
      else (sy, ''''))"

definition assetCard :: "string \<Rightarrow> SymbolConfig \<Rightarrow> AssetCard" where
  "assetCard sy cfg =
     (let (ticker, mic) = splitSymbol sy;
          lot = (if LotSize cfg = 0 then 1 else LotSize cfg);
          decimals = Decimals cfg;
          minStep = (if MinStep cfg > 0 then go_round (MinStep cfg * Pow10 decimals) else 1)
      in \<lparr>acBoard = mic, acId = ticker, acTicker = ticker, acMic = mic, acType = ''FUTURES'',
          acName = ticker @ '' (brokersim)'', acDecimals = decimals, acMinStep = minStep, acLotSize = dec lot,
          acExpiration = (if ExpirationDate cfg \<noteq> '''' then parseDate (ExpirationDate cfg) else None)\<rparr>)"

definition GetAsset :: "codec \<Rightarrow> string list \<Rightarrow> string \<Rightarrow> Sim \<Rightarrow> AssetCard outcome \<times> Sim" where
  "GetAsset K ctx sy =
     authed K ctx ''GetAsset''
       (\<lambda>s. case symbolLocked sy s of
              (None, s1) \<Rightarrow> (Err (rpc_error code_NotFound (''unknown symbol '' @ sy)), s1)
            | (Some st, s1) \<Rightarrow> (Ok (assetCard sy (st_cfg st)), s1))"

definition Exchanges :: "codec \<Rightarrow> string list \<Rightarrow> Sim \<Rightarrow> (string \<times> string) list outcome \<times> Sim" where
  "Exchanges K ctx =
     authed K ctx ''Exchanges''
       (\<lambda>s. (Ok [(''RTSX'', ''Moscow Exchange Derivatives (brokersim)''),
                 (''MISX'', ''Moscow Exchange Securities (brokersim)'')], s))"

definition Clock :: "codec \<Rightarrow> string list \<Rightarrow> Sim \<Rightarrow> time outcome \<times> Sim" where
  "Clock K ctx = authed K ctx ''Clock'' (\<lambda>s. (Ok (clock s), s))"

definition OptionsChain :: "codec \<Rightarrow> string list \<Rightarrow> string \<Rightarrow> Sim \<Rightarrow> (string \<times> unit list) outcome \<times> Sim" where
  "OptionsChain K ctx sy = authed K ctx ''OptionsChain'' (\<lambda>s. (Ok (sy, []), s))"

text \<open>The rows of the unary book are of another message type with the same fields.\<close>

definition OrderBook :: "codec \<Rightarrow> string list \<Rightarrow> string \<Rightarrow> Sim \<Rightarrow> (string \<times> BookRow list) outcome \<times> Sim" where
  "OrderBook K ctx sy =
     authed K ctx ''OrderBook''
       (\<lambda>s. case symbolLocked sy s of
              (None, s1) \<Rightarrow> (Err (rpc_error code_NotFound (''unknown symbol '' @ sy)), s1)
            | (Some st, s1) \<Rightarrow>
                (Ok (sy, map (\<lambda>p. bookRow p (size_at (bids st) p) True ACTION_ADD (clock s1)) (sortedPrices (bids st) True) @
                         map (\<lambda>p. bookRow p (size_at (asks st) p) False ACTION_ADD (clock s1)) (sortedPrices (asks st) False)), s1))"

subsection \<open>Lemmas\<close>

text \<open>Ticker and exchange code make up the symbol.\<close>

lemma splitSymbol_joins:
  assumes "splitSymbol sy = (ticker, mic)"
  shows "sy = (if CHR ''@'' \<in> set sy then ticker @ ''@'' @ mic else ticker)"
proof (cases "CHR ''@'' \<in> set sy")
  case True
  then have "dropWhile (\<lambda>c. c \<noteq> CHR ''@'') sy \<noteq> []" by auto
  then have "dropWhile (\<lambda>c. c \<noteq> CHR ''@'') sy = CHR ''@'' # mic"
    using assms True hd_dropWhile [of "\<lambda>c. c \<noteq> CHR ''@''" sy]
    by (cases "dropWhile (\<lambda>c. c \<noteq> CHR ''@'') sy") (auto simp: splitSymbol_def)
  moreover have "ticker = takeWhile (\<lambda>c. c \<noteq> CHR ''@'') sy" using assms True by (simp add: splitSymbol_def)
  ultimately show ?thesis using True takeWhile_dropWhile_id [of "\<lambda>c. c \<noteq> CHR ''@''" sy] by simp
qed (use assms in \<open>simp add: splitSymbol_def\<close>)

text \<open>The unary book and the first message of the stream show the same levels.\<close>

lemma OrderBook_snapshot:
  assumes "OrderBook K ctx sy s = (Ok (sy', rows), s')" and "symbols s sy = Some st"
  shows "sy' = sy \<and> rows = snapshotRows st (clock s')"
  using assms
  by (auto simp: OrderBook_def authed_def symbolLocked_def snapshotRows_def Let_def
      split: prod.splits option.splits outcome.splits)

lemma expiration_days:
  "parseDate ''2024-02-29'' = Some (738944 * 86400 * second)" "parseDate ''2023-02-29'' = None"
  "parseDate ''1970-01-01'' = Some unixEpoch" "parseDate ''2024-3-01'' = None"
  by (code_simp)+

end
