(* ===== verification/SimHttp.thy ===== *)
theory SimHttp
  imports SimAssets SimTheorems
begin

text \<open>
  The simulator's control plane over HTTP, the handlers of \<open>brokersim/control.go\<close>. A request carries its decoded
  body (\<open>None\<close> where \<open>readBody\<close> cannot decode it) or its query; the reply is the decoded JSON. Listening, the
  multiplexer and the encoding are the library's. Names of enumeration values and the format of times are left
  to the encoding.
\<close>

subsection \<open>Durations and integers as text\<close>

text \<open>\<open>time.ParseDuration\<close>, with fractions read exactly.\<close>

definition unitOf :: "string \<Rightarrow> nat option" where
  "unitOf = map_of [(''ns'', 1), (''us'', 10 ^ 3), ([CHR 0xC2, CHR 0xB5, CHR ''s''], 10 ^ 3),
     ([CHR 0xCE, CHR 0xBC, CHR ''s''], 10 ^ 3), (''ms'', 10 ^ 6), (''s'', 10 ^ 9), (''m'', 60 * 10 ^ 9),
     (''h'', 3600 * 10 ^ 9)]"

definition isUnitChar :: "char \<Rightarrow> bool" where
  "isUnitChar c \<longleftrightarrow> \<not> (c = CHR ''.'' \<or> isDigit c)"

function durationLoop :: "string \<Rightarrow> nat \<Rightarrow> nat option" where
  "durationLoop s d =
     (if s = '''' then Some d
      else
        let ds = takeWhile isDigit s; s1 = dropWhile isDigit s;
            dot = (s1 \<noteq> '''' \<and> hd s1 = CHR ''.'');
            fs = (if dot then takeWhile isDigit (tl s1) else '''');
            s2 = (if dot then dropWhile isDigit (tl s1) else s1);
            u = takeWhile isUnitChar s2; s3 = dropWhile isUnitChar s2
        in if (ds = '''' \<and> fs = '''') \<or> u = '''' then None
           else (case unitOf u of
                   None \<Rightarrow> None
                 | Some unit \<Rightarrow>
                     let v = number 10 ds; w = v * unit + number 10 fs * unit div 10 ^ length fs
                     in if v > 2 ^ 63 div unit \<or> w > 2 ^ 63 \<or> d + w > 2 ^ 63 then None
                        else durationLoop s3 (d + w)))"
  by pat_completeness auto

lemma dropWhile_shorter: "takeWhile P xs \<noteq> [] \<Longrightarrow> length (dropWhile P xs) < length xs"
  by (metis append.left_neutral length_append length_greater_0_conv less_add_same_cancel2 takeWhile_dropWhile_id)

termination durationLoop
proof (relation "measure (length \<circ> fst)", simp)
  fix s :: string and d :: nat and ds s1 dot fs s2 u s3 and unit :: nat and v w
  assume eqs: "s1 = dropWhile isDigit s" "dot = (s1 \<noteq> '''' \<and> hd s1 = CHR ''.'')"
      "s2 = (if dot then dropWhile isDigit (tl s1) else s1)" "u = takeWhile isUnitChar s2" "s3 = dropWhile isUnitChar s2"
    and u: "\<not> ((ds = '''' \<and> fs = '''') \<or> u = '''')"
  have "length s3 < length s2" unfolding eqs(5) by (rule dropWhile_shorter) (use u eqs(4) in simp)
  also have "length s2 \<le> length s1"
    using length_dropWhile_le [of isDigit "tl s1"] by (auto simp: eqs(3) intro: order_trans)
  also have "length s1 \<le> length s" unfolding eqs(1) by (rule length_dropWhile_le)
  finally show "((s3, d + w), s, d) \<in> measure (length \<circ> fst)" by simp
qed

declare durationLoop.simps [simp del]

definition signed_text :: "string \<Rightarrow> bool \<times> string" where
  "signed_text s =
     (if s \<noteq> '''' \<and> hd s = CHR ''-'' then (True, tl s)
      else if s \<noteq> '''' \<and> hd s = CHR ''+'' then (False, tl s) else (False, s))"

definition ParseDuration :: "string \<Rightarrow> duration option" where
  "ParseDuration s =
     (let (neg, r) = signed_text s
      in if r = ''0'' then Some 0
         else if r = '''' then None
         else (case durationLoop r 0 of
                 None \<Rightarrow> None
               | Some d \<Rightarrow> if neg then Some (- int d) else if d > 2 ^ 63 - 1 then None else Some (int d)))"

text \<open>\<open>strconv.ParseInt\<close> in base 10 with 64 bits.\<close>

definition ParseInt :: "string \<Rightarrow> int option" where
  "ParseInt s =
     (let (neg, ds) = signed_text s; n = int (number 10 ds); v = (if neg then - n else n)
      in if ds = '''' \<or> \<not> list_all isDigit ds \<or> v < - (2 ^ 63) \<or> 2 ^ 63 \<le> v then None else Some v)"

text \<open>\<open>Duration.UnmarshalJSON\<close>: a string, a number of nanoseconds, or something else.\<close>

datatype json_scalar = JString string | JNumber real | JOther

definition durationJSON :: "json_scalar \<Rightarrow> duration option" where
  "durationJSON j = (case j of JString s \<Rightarrow> ParseDuration s | JNumber n \<Rightarrow> Some (trunc n) | JOther \<Rightarrow> None)"

lemma isDigit_chars [simp]:
  "isDigit CHR ''0''" "isDigit CHR ''1''" "isDigit CHR ''2''" "isDigit CHR ''3''" "isDigit CHR ''5''"
  "\<not> isDigit CHR ''.''" "\<not> isDigit CHR ''h''" "\<not> isDigit CHR ''m''" "\<not> isDigit CHR ''s''"
  by code_simp+

lemma undigit_chars [simp]:
  "undigit CHR ''0'' = 0" "undigit CHR ''1'' = 1" "undigit CHR ''2'' = 2" "undigit CHR ''3'' = 3" "undigit CHR ''5'' = 5"
  by code_simp+

lemma durations:
  "ParseDuration ''1h30m'' = Some (5400 * second)" "ParseDuration ''1.5s'' = Some (1500 * millisecond)"
  "ParseDuration ''-200ms'' = Some (- 200 * millisecond)" "ParseDuration ''15'' = None" "ParseDuration ''0'' = Some 0"
  by (simp_all add: ParseDuration_def signed_text_def durationLoop.simps unitOf_def isUnitChar_def number_def Let_def)

subsection \<open>Views\<close>

record orderView =
  ovOrderID :: string
  ovAccountID :: string
  ovSymbol :: string
  ovSide :: Side
  ovType :: OrderType
  ovTimeInForce :: TimeInForce
  ovClientOrderID :: string
  ovLimitPrice :: real
  ovQuantity :: real
  ovExecuted :: real
  ovStatus :: OrderStatus
  ovPlacedAt :: time

definition viewOrder :: "simOrder \<Rightarrow> orderView" where
  "viewOrder o' =
     \<lparr>ovOrderID = o_id o', ovAccountID = o_account o', ovSymbol = o_symbol o', ovSide = o_side o',
      ovType = o_typ o', ovTimeInForce = o_tif o', ovClientOrderID = clientOrderID o', ovLimitPrice = limitPrice o',
      ovQuantity = o_qty o', ovExecuted = executed o', ovStatus = o_status o', ovPlacedAt = placedAt o'\<rparr>"

record accView =
  CashRUB :: real
  avPositions :: "string \<rightharpoonup> position"
  avOrders :: nat
  avTrades :: nat

record bookView =
  bvBids :: "Level list"
  bvAsks :: "Level list"
  bvLast :: real

record stateView =
  svAccounts :: "string \<rightharpoonup> accView"
  svSymbols :: "string \<rightharpoonup> bookView"
  svOrders :: "orderView list"
  svFaults :: "Fault list"
  svSessionType :: string
  svQuotaUsed :: int

definition viewAccount :: "account \<Rightarrow> accView" where
  "viewAccount a =
     \<lparr>CashRUB = cash a,
      avPositions = (\<lambda>sy. case positions a sy of None \<Rightarrow> None | Some p \<Rightarrow> if pqty p \<noteq> 0 then Some p else None),
      avOrders = length (a_orders a), avTrades = length (a_trades a)\<rparr>"

definition viewBook :: "symbolState \<Rightarrow> bookView" where
  "viewBook st =
     \<lparr>bvBids = map (\<lambda>p. (p, size_at (bids st) p)) (sortedPrices (bids st) True),
      bvAsks = map (\<lambda>p. (p, size_at (asks st) p)) (sortedPrices (asks st) False), bvLast = last_price st\<rparr>"

text \<open>The orders of the accounts, in the order \<open>accs\<close> in which the map of accounts is visited.\<close>

definition ordersOf :: "string list \<Rightarrow> Sim \<Rightarrow> orderView list" where
  "ordersOf accs s =
     concat (map (\<lambda>k. case accounts s k of
                        None \<Rightarrow> []
                      | Some a \<Rightarrow> map (\<lambda>oid. viewOrder (the (sim_orders s oid))) (a_orders a)) accs)"

subsection \<open>Requests and replies\<close>

datatype code_json = CodeNil | CodeNumber real | CodeString string | CodeOther

record faultBody =
  fbMethod :: string
  fbAction :: string
  fbCode :: code_json
  fbMessage :: string
  fbDelay :: string
  fbCount :: int
  fbProbability :: real

definition codeNames :: "string \<Rightarrow> nat option" where
  "codeNames = map_of
     [(''canceled'', 1), (''unknown'', code_Unknown), (''invalid_argument'', code_InvalidArgument),
      (''deadline_exceeded'', code_DeadlineExceeded), (''not_found'', code_NotFound),
      (''already_exists'', code_AlreadyExists), (''permission_denied'', code_PermissionDenied),
      (''resource_exhausted'', code_ResourceExhausted), (''failed_precondition'', code_FailedPrecondition),
      (''aborted'', 10), (''internal'', 13), (''unavailable'', code_Unavailable), (''data_loss'', 15),
      (''unauthenticated'', code_Unauthenticated)]"

datatype request =
    GetState "string list"
  | GetOrdersOf "string list" string
  | PostFault "faultBody option"
  | ListFaults
  | DeleteFaults string
  | PostBook "(string \<times> Level list \<times> Level list) option"
  | PostCross "string option"
  | PostTrade "string list" "(string \<times> real \<times> real \<times> string) option"
  | PostFill "(string \<times> real \<times> real) option"
  | PostInject "(string \<times> real \<times> real) option"
  | PostKill "(string \<times> string) option"
  | PostPosition "(string \<times> string \<times> real \<times> real) option"
  | PostSession "string option"
  | PostExpire
  | PostQuota "int option"
  | PostAutoMarket "(string \<times> AutoMarketConfig) option"

datatype reply =
    BadRequest go_error
  | StatusOk
  | ShowState stateView
  | ShowOrders "orderView list"
  | ShowFault Fault
  | ShowFaults "Fault list"
  | Removed nat
  | Expired nat

text \<open>\<open>readBody\<close>, and what most handlers do with the error of their operation.\<close>

definition readBody :: "'b option \<Rightarrow> ('b \<Rightarrow> Sim \<Rightarrow> reply \<times> Sim) \<Rightarrow> Sim \<Rightarrow> reply \<times> Sim" where
  "readBody body handle s =
     (case body of None \<Rightarrow> (BadRequest (Leaf code_Unknown ''bad json''), s) | Some b \<Rightarrow> handle b s)"

definition writeStatus :: "go_error option \<times> Sim \<Rightarrow> reply \<times> Sim" where
  "writeStatus r = (case r of (None, s) \<Rightarrow> (StatusOk, s) | (Some e, s) \<Rightarrow> (BadRequest e, s))"

subsection \<open>Handlers\<close>

definition control_state :: "string list \<Rightarrow> Sim \<Rightarrow> reply \<times> Sim" where
  "control_state accs s =
     (ShowState \<lparr>svAccounts = map_option viewAccount \<circ> accounts s, svSymbols = map_option viewBook \<circ> symbols s,
                 svOrders = ordersOf accs s, svFaults = listFaults (faults s), svSessionType = sessionType s,
                 svQuotaUsed = quotaUsed s\<rparr>, s)"

definition control_orders :: "string list \<Rightarrow> string \<Rightarrow> Sim \<Rightarrow> reply \<times> Sim" where
  "control_orders accs accID s =
     (ShowOrders (ordersOf (filter (\<lambda>k. accID = '''' \<or> k = accID) accs) s), s)"

definition control_addFault :: "faultBody \<Rightarrow> Sim \<Rightarrow> reply \<times> Sim" where
  "control_addFault body s =
     (let f = \<lparr>f_ID = 0, f_Method = fbMethod body, f_Action = fbAction body, f_Code = 0, f_Message = fbMessage body,
               f_Delay = 0, f_Count = fbCount body, f_Probability = fbProbability body\<rparr>;
          coded = (case fbCode body of
                     CodeNil \<Rightarrow> Inr f
                   | CodeNumber v \<Rightarrow> Inr (f\<lparr>f_Code := nat (trunc v mod 2 ^ 32)\<rparr>)
                   | CodeString name \<Rightarrow>
                       (case codeNames name of
                          None \<Rightarrow> Inl (Leaf code_Unknown ''unknown grpc code'')
                        | Some code \<Rightarrow> Inr (f\<lparr>f_Code := code\<rparr>))
                   | CodeOther \<Rightarrow> Inl (Leaf code_Unknown ''code must be number or string''))
      in case coded of
           Inl e \<Rightarrow> (BadRequest e, s)
         | Inr f1 \<Rightarrow>
             (case (if fbDelay body = '''' then Some f1
                    else map_option (\<lambda>d. f1\<lparr>f_Delay := d\<rparr>) (ParseDuration (fbDelay body))) of
                None \<Rightarrow> (BadRequest (Leaf code_Unknown ''bad delay''), s)
              | Some f2 \<Rightarrow>
                  (case AddFault f2 s of
                     (Inl e, s1) \<Rightarrow> (BadRequest e, s1)
                   | (Inr added, s1) \<Rightarrow> (ShowFault added, s1))))"

definition control_deleteFaults :: "string \<Rightarrow> Sim \<Rightarrow> reply \<times> Sim" where
  "control_deleteFaults q s =
     (case (if q = '''' then Some (- 1) else ParseInt q) of
        None \<Rightarrow> (BadRequest (Leaf code_Unknown ''bad id''), s)
      | Some i \<Rightarrow> (let (n, s1) = RemoveFault i s in (Removed n, s1)))"

definition control_publicTrade :: "string list \<Rightarrow> string \<times> real \<times> real \<times> string \<Rightarrow> Sim \<Rightarrow> reply \<times> Sim" where
  "control_publicTrade accs body s =
     (let (sy, price, size', side) = body
      in if price \<le> 0 \<or> size' \<le> 0 then (BadRequest (Leaf code_Unknown ''price and size must be positive''), s)
         else writeStatus (PublicTrade accs sy price size' (side \<noteq> ''sell'') s))"

definition control_killOrder :: "string \<times> string \<Rightarrow> Sim \<Rightarrow> reply \<times> Sim" where
  "control_killOrder body s =
     (let (oid, how) = body in writeStatus (KillOrder oid (if how = '''' then ''canceled'' else how) s))"

definition control_session :: "string \<Rightarrow> Sim \<Rightarrow> reply \<times> Sim" where
  "control_session ty s =
     (if ty = '''' then (BadRequest (Leaf code_Unknown ''type is required''), s) else (StatusOk, SetSession ty s))"

definition control_autoMarket :: "string \<times> AutoMarketConfig \<Rightarrow> Sim \<Rightarrow> reply \<times> Sim" where
  "control_autoMarket body s =
     (let (sy, cfg) = body; (e, started, s1) = ConfigureAutoMarket sy cfg s in writeStatus (e, s1))"

type_synonym bookBody = "string \<times> (real \<times> real) list \<times> (real \<times> real) list"

definition toLevels :: "(real \<times> real) list \<Rightarrow> Level list" where
  "toLevels pairs = map (\<lambda>(p, sz). (p, sz)) pairs"

definition control_listFaults :: "Sim \<Rightarrow> reply \<times> Sim" where
  "control_listFaults s = (ShowFaults (listFaults (faults s)), s)"

definition control_setBook :: "bookBody \<Rightarrow> Sim \<Rightarrow> reply \<times> Sim" where
  "control_setBook body s =
     (let (sy, bs, as) = body in writeStatus (SetBook sy (toLevels bs) (toLevels as) s))"

definition control_crossBook :: "string \<Rightarrow> Sim \<Rightarrow> reply \<times> Sim" where
  "control_crossBook sy s = writeStatus (CrossBook sy s)"

definition control_fill :: "string \<times> real \<times> real \<Rightarrow> Sim \<Rightarrow> reply \<times> Sim" where
  "control_fill body s = (let (oid, lots, price) = body in writeStatus (FillOrder oid lots price s))"

definition control_injectFill :: "string \<times> real \<times> real \<Rightarrow> Sim \<Rightarrow> reply \<times> Sim" where
  "control_injectFill body s = (let (oid, lots, price) = body in writeStatus (InjectFill oid lots price s))"

definition control_position :: "string \<times> string \<times> real \<times> real \<Rightarrow> Sim \<Rightarrow> reply \<times> Sim" where
  "control_position body s = (let (k, sy, qty, avg) = body in writeStatus (SetPosition k sy qty avg s))"

definition control_expireTokens :: "Sim \<Rightarrow> reply \<times> Sim" where
  "control_expireTokens s = (let (n, s1) = ExpireTokens s in (Expired n, s1))"

definition control_quota :: "int \<Rightarrow> Sim \<Rightarrow> reply \<times> Sim" where
  "control_quota n s = (StatusOk, SetQuotaRemaining n s)"

lemmas control_defs = control_state_def control_orders_def control_deleteFaults_def control_publicTrade_def
  control_killOrder_def control_session_def control_autoMarket_def control_listFaults_def control_setBook_def
  control_crossBook_def control_fill_def control_injectFill_def control_position_def control_expireTokens_def
  control_quota_def

text \<open>The routes of \<open>startControl\<close>.\<close>

fun serve :: "request \<Rightarrow> Sim \<Rightarrow> reply \<times> Sim" where
  "serve (GetState accs) s = control_state accs s"
| "serve (GetOrdersOf accs accID) s = control_orders accs accID s"
| "serve (PostFault body) s = readBody body control_addFault s"
| "serve ListFaults s = control_listFaults s"
| "serve (DeleteFaults q) s = control_deleteFaults q s"
| "serve (PostBook body) s = readBody body control_setBook s"
| "serve (PostCross body) s = readBody body control_crossBook s"
| "serve (PostTrade accs body) s = readBody body (control_publicTrade accs) s"
| "serve (PostFill body) s = readBody body control_fill s"
| "serve (PostInject body) s = readBody body control_injectFill s"
| "serve (PostKill body) s = readBody body control_killOrder s"
| "serve (PostPosition body) s = readBody body control_position s"
| "serve (PostSession body) s = readBody body control_session s"
| "serve PostExpire s = control_expireTokens s"
| "serve (PostQuota body) s = readBody body control_quota s"
| "serve (PostAutoMarket body) s = readBody body control_autoMarket s"

subsection \<open>The control plane adds no moves\<close>

lemma snd_writeStatus [simp]: "snd (writeStatus r) = snd r"
  by (simp add: writeStatus_def split: prod.split option.split)

lemma addFault_tail:
  "snd (case c of Inl e \<Rightarrow> (BadRequest e, s)
      | Inr f1 \<Rightarrow> (case D f1 of None \<Rightarrow> (BadRequest bad, s)
          | Some f2 \<Rightarrow> (case AddFault f2 s of (Inl e, s1) \<Rightarrow> (BadRequest e, s1) | (Inr added, s1) \<Rightarrow> (ShowFault added, s1)))) \<in>
   insert s (range (\<lambda>f. snd (AddFault f s)))"
proof (cases c)
  case (Inr f1)
  show ?thesis
  proof (cases "D f1")
    case (Some f2)
    have "snd (case AddFault f2 s of (Inl e, s1) \<Rightarrow> (BadRequest e, s1) | (Inr added, s1) \<Rightarrow> (ShowFault added, s1)) = snd (AddFault f2 s)"
      by (simp split: prod.split sum.split)
    then show ?thesis by (simp add: Inr Some)
  qed (simp add: Inr)
qed simp

lemma control_addFault_snd:
  "snd (control_addFault body s) = s \<or> (\<exists>f. snd (control_addFault body s) = snd (AddFault f s))"
proof -
  have "snd (control_addFault body s) \<in> insert s (range (\<lambda>f. snd (AddFault f s)))"
    unfolding control_addFault_def Let_def by (rule addFault_tail)
  then show ?thesis by auto
qed

lemma is_op:
  "\<exists>op. snd (SetBook sy bs as s) = sim_step K op s"
  "\<exists>op. snd (CrossBook sy s) = sim_step K op s"
  "\<exists>op. snd (PublicTrade accs sy price sz buy s) = sim_step K op s"
  "\<exists>op. snd (FillOrder oid lots price s) = sim_step K op s"
  "\<exists>op. snd (InjectFill oid lots price s) = sim_step K op s"
  "\<exists>op. snd (KillOrder oid how s) = sim_step K op s"
  "\<exists>op. snd (SetPosition acc sy qty avg s) = sim_step K op s"
  "\<exists>op. snd (AddFault f s) = sim_step K op s"
  "\<exists>op. snd (RemoveFault i s) = sim_step K op s"
  "\<exists>op. snd (ExpireTokens s) = sim_step K op s"
  "\<exists>op. SetSession ty s = sim_step K op s" "\<exists>op. SetQuotaRemaining n s = sim_step K op s"
  "\<exists>op. snd (snd (ConfigureAutoMarket sy cfg s)) = sim_step K op s"
  by (metis sim_step.simps)+

lemma serve_step: "snd (serve r s) = s \<or> (\<exists>op. snd (serve r s) = sim_step K op s)"
proof (cases r)
  case (PostFault body)
  show ?thesis
  proof (cases body)
    case (Some b)
    have "snd (serve r s) = snd (control_addFault b s)" by (simp add: PostFault Some readBody_def)
    with control_addFault_snd [of b s] is_op(8) [where s = s and K = K] show ?thesis by metis
  qed (simp add: PostFault readBody_def)
qed (auto simp: control_defs readBody_def split_beta is_op split: option.split)

text \<open>A run of the simulator with calls of its services and requests to its control plane.\<close>

fun sim_event :: "codec \<Rightarrow> sim_op + request \<Rightarrow> Sim \<Rightarrow> Sim" where
  "sim_event K (Inl op) s = sim_step K op s"
| "sim_event K (Inr r) s = snd (serve r s)"

lemma events_are_ops: "\<exists>ops. fold (sim_event K) evs s = sim_run K ops s"
proof (induction evs arbitrary: s)
  case Nil
  show ?case by (intro exI [of _ "[]"]) (simp add: sim_run_def)
next
  case (Cons ev evs)
  have "sim_event K ev s = s \<or> (\<exists>op. sim_event K ev s = sim_step K op s)"
    using serve_step [of _ s K] by (cases ev) auto
  then obtain ops0 where ops0: "sim_event K ev s = sim_run K ops0 s"
    by (metis sim_run_Cons sim_run_def fold_simps(1) id_apply)
  obtain ops where "fold (sim_event K) evs (sim_event K ev s) = sim_run K ops (sim_event K ev s)" using Cons by blast
  then have "fold (sim_event K) (ev # evs) s = sim_run K (ops0 @ ops) s" by (simp add: ops0 sim_run_def)
  then show ?case by blast
qed

text \<open>A refused request leaves orders and accounts as they were.\<close>

definition untouched :: "Sim \<Rightarrow> Sim \<Rightarrow> bool" where
  "untouched s s' \<longleftrightarrow> accounts s' = accounts s \<and> sim_orders s' = sim_orders s"

lemma untouched_refl [simp]: "untouched s s" "untouched s (s\<lparr>faults := ft\<rparr>)"
  by (simp_all add: untouched_def)

lemma symbolLocked_untouched: "untouched s (snd (symbolLocked sy s))"
  using symbolLocked_core [of sy s] by (cases "symbolLocked sy s") (simp add: untouched_def)

lemma symbol_refused:
  "fst (SetBook sy bs as s) = Some e \<Longrightarrow> untouched s (snd (SetBook sy bs as s))"
  "fst (CrossBook sy s) = Some e \<Longrightarrow> untouched s (snd (CrossBook sy s))"
  "fst (PublicTrade accs sy price sz b s) = Some e \<Longrightarrow> untouched s (snd (PublicTrade accs sy price sz b s))"
  "fst (SetPosition k sy qty avg s) = Some e \<Longrightarrow> untouched s (snd (SetPosition k sy qty avg s))"
  "fst (ConfigureAutoMarket sy cfg s) = Some e \<Longrightarrow> untouched s (snd (snd (ConfigureAutoMarket sy cfg s)))"
  using symbolLocked_untouched [of s sy]
  by (cases "symbolLocked sy s"; cases "fst (symbolLocked sy s)";
      auto simp: SetBook_def CrossBook_def PublicTrade_def SetPosition_def ConfigureAutoMarket_def untouched_def Let_def
      split_beta split: option.splits)+

lemma order_refused:
  "fst (FillOrder oid lots price s) = Some e \<Longrightarrow> untouched s (snd (FillOrder oid lots price s))"
  "fst (InjectFill oid lots price s) = Some e \<Longrightarrow> untouched s (snd (InjectFill oid lots price s))"
  "fst (KillOrder oid how s) = Some e \<Longrightarrow> untouched s (snd (KillOrder oid how s))"
  by (auto simp: FillOrder_def InjectFill_def KillOrder_def untouched_def Let_def split_beta
      split: option.splits if_splits)

lemma refused_untouched:
  "fst (serve r s) = BadRequest e \<Longrightarrow> untouched s (snd (serve r s))"
  by (cases r)
    (auto simp: control_defs readBody_def control_addFault_def writeStatus_def AddFault_def split_beta Let_def
      intro: symbol_refused order_refused
      split: option.splits prod.splits if_splits code_json.splits sum.splits)

text \<open>
  C14. The control plane adds no powers: a run of the simulator in which requests of the control plane come in
  between the calls of its services ends where a run of its operations ends, so what holds of all those runs
  holds of it. A request that is answered with an error leaves all orders and accounts as they were.
\<close>

theorem control_plane_refines:
  "(\<exists>ops. fold (sim_event K) evs (NewSim cfg now r) = sim_run K ops (NewSim cfg now r)) \<and>
   (\<forall>req e. fst (serve req (fold (sim_event K) evs (NewSim cfg now r))) = BadRequest e \<longrightarrow>
      untouched (fold (sim_event K) evs (NewSim cfg now r))
        (snd (serve req (fold (sim_event K) evs (NewSim cfg now r)))))"
  using events_are_ops refused_untouched by blast

theorem control_plane_refines_witness:
  "untouched (sim_event sample_codec (Inr (PostSession (Some ''CLOSED''))) sample_sim)
     (snd (serve (PostKill (Some (''o9'', ''''))) (sim_event sample_codec (Inr (PostSession (Some ''CLOSED''))) sample_sim)))"
proof -
  let ?s = "fold (sim_event sample_codec) [Inr (PostSession (Some ''CLOSED''))]
      (NewSim sample_config sample_start sample_rand)"
  have s: "?s = sim_event sample_codec (Inr (PostSession (Some ''CLOSED''))) sample_sim"
    by (simp only: fold_simps id_apply sample_sim_def)
  have "fst (serve (PostKill (Some (''o9'', ''''))) ?s) = BadRequest (Leaf code_Unknown ''order not found'')"
    unfolding s
    by (simp add: readBody_def control_session_def control_killOrder_def writeStatus_def KillOrder_def
        killStatuses_def SetSession_def sample_sim_eq)
  then show ?thesis
    using conjunct2 [OF control_plane_refines [of sample_codec "[Inr (PostSession (Some ''CLOSED''))]" sample_config sample_start sample_rand]]
    unfolding s by blast
qed

end
