(* ===== verification/Placer.thy ===== *)
theory Placer
  imports FinamClient Limiter
begin

text \<open>
  The adapter between the engine's ports and the broker's API: \<open>finambroker/finambroker.go\<close> and
  \<open>errors.go\<close>. Its core is \<open>placeResolved\<close>, a placement that is retried and resolved under one client
  order id when the broker's answer is lost.
\<close>

subsection \<open>Classifying errors (errors.go)\<close>

definition ambiguous :: "go_error \<Rightarrow> bool" where
  "ambiguous err \<longleftrightarrow>
     status_of err \<notin> {code_InvalidArgument, code_FailedPrecondition, code_PermissionDenied, code_NotFound,
       code_ResourceExhausted, code_Unauthenticated, code_OutOfRange}"

lemma ambiguous_wrap [simp]:
  "ambiguous (Wrapped m e) = ambiguous e" "ambiguous (outcomeMarker e out) = ambiguous e"
  by (simp_all add: ambiguous_def)

lemma AlreadyExists_ambiguous [simp]: "ambiguous (Leaf code_AlreadyExists m)"
  by (simp add: ambiguous_def codes)

subsection \<open>Client order ids\<close>

datatype orderKind = kindLimitBid | kindLimitAsk | kindMarketBuy | kindMarketSell

definition kind_buy :: "orderKind \<Rightarrow> bool" where
  "kind_buy k \<longleftrightarrow> k = kindLimitBid \<or> k = kindMarketBuy"

definition ghostProbes :: nat where
  "ghostProbes = 3"

definition ghostProbeGap :: duration where
  "ghostProbeGap = second"

definition cidRetryRounds :: nat where
  "cidRetryRounds = 3"

text \<open>
  The placer: its nonce, its counter (a field of the world \<open>'w\<close>, read and written by \<open>seqOf\<close> and
  \<open>setSeq\<close>) and the seams to the broker. A 64-bit counter that starts at zero does not wrap before
  \<open>2 ^ 64\<close> placements; it is a natural number here.
\<close>

record 'w placer =
  nonce :: string
  seqOf :: "'w \<Rightarrow> nat"
  setSeq :: "nat \<Rightarrow> 'w \<Rightarrow> 'w"
  place :: "orderKind \<Rightarrow> string \<Rightarrow> int \<Rightarrow> real \<Rightarrow> string \<Rightarrow> ('w, go_error + OrderState) state"
  findOrder :: "string \<Rightarrow> string \<Rightarrow> bool \<Rightarrow> int \<Rightarrow> ('w, go_error + string option) state"
  sleep :: "duration \<Rightarrow> ('w, unit) state"
  nowFn :: "('w, time) state"

text \<open>\<open>strconv.FormatInt\<close> and \<open>hex.EncodeToString\<close>; the nonce from three random bytes, or from the clock.\<close>

definition FormatInt :: "int \<Rightarrow> nat \<Rightarrow> string" where
  "FormatInt n b = (if n < 0 then CHR ''-'' # digits b (nat (- n)) else digits b (nat n))"

definition hexByte :: "nat \<Rightarrow> string" where
  "hexByte b = [digit (b div 16), digit (b mod 16)]"

definition randNonce :: "nat list option \<Rightarrow> time \<Rightarrow> string" where
  "randNonce bytes now =
     (case bytes of None \<Rightarrow> FormatInt (sgn (UnixNano now) * (\<bar>UnixNano now\<bar> mod 16777215)) 16 | Some bs \<Rightarrow> concat (map hexByte bs))"

definition seqAdd :: "'w placer \<Rightarrow> ('w, nat) state" where
  "seqAdd p = State (\<lambda>w. let n = seqOf p w + 1 in (n, setSeq p n w))"

definition cid_of :: "string \<Rightarrow> time \<Rightarrow> nat \<Rightarrow> string" where
  "cid_of nonce' now n = ''q'' @ nonce' @ FormatInt (Unix now) 36 @ digits 36 n"

definition nextClientID :: "'w placer \<Rightarrow> ('w, string) state" where
  "nextClientID p = do {
     n \<leftarrow> seqAdd p;
     t \<leftarrow> nowFn p;
     ret (cid_of (nonce p) t n)
   }"

subsection \<open>Placing with resolution\<close>

definition matchesIntent :: "OrderState \<Rightarrow> string \<Rightarrow> bool \<Rightarrow> int \<Rightarrow> bool" where
  "matchesIntent st symbol b lots \<longleftrightarrow>
     omSymbol (osOrder st) = symbol \<and> SideMatches st b \<and> InitialLots st = lots"

text \<open>
  The probes of one round; the number counts those left. The result is the order found, if any, and
  whether some probe has had a clean answer without it (\<open>sawAbsent\<close>).
\<close>

fun probeLoop ::
  "'w placer \<Rightarrow> string \<Rightarrow> string \<Rightarrow> bool \<Rightarrow> int \<Rightarrow> nat \<Rightarrow> bool \<Rightarrow> ('w, string option \<times> bool) state" where
  "probeLoop p cid symbol b lots 0 sawAbsent = ret (None, sawAbsent)"
| "probeLoop p cid symbol b lots (Suc n) sawAbsent = do {
     sleep p ghostProbeGap;
     r \<leftarrow> findOrder p cid symbol b lots;
     case r of
       Inl ferr \<Rightarrow> probeLoop p cid symbol b lots n sawAbsent
     | Inr (Some oid) \<Rightarrow> ret (Some oid, sawAbsent)
     | Inr None \<Rightarrow> probeLoop p cid symbol b lots n True
   }"

text \<open>What is reported when every round ended unresolved; \<open>firstErr\<close> is nil only if there was no round.\<close>

definition giveUp :: "bool \<Rightarrow> go_error option \<Rightarrow> go_error + string" where
  "giveUp sawAbsent firstErr =
     (if sawAbsent then (case firstErr of None \<Rightarrow> Inr '''' | Some e \<Rightarrow> Inl e)
      else (case firstErr of
              None \<Rightarrow> Inl (Leaf code_Unknown ''placement unresolved'')
            | Some e \<Rightarrow> Inl (Wrapped ''placement unresolved (transport error and order list unreachable)'' e)))"

text \<open>The rounds; the number counts those left, \<open>cidRetryRounds\<close> being the first.\<close>

fun placeRounds ::
  "'w placer \<Rightarrow> orderKind \<Rightarrow> string \<Rightarrow> int \<Rightarrow> real \<Rightarrow> string \<Rightarrow> nat \<Rightarrow> go_error option \<Rightarrow> bool \<Rightarrow>
   ('w, go_error + string) state" where
  "placeRounds p kind symbol lots price cid 0 firstErr sawAbsent = ret (giveUp sawAbsent firstErr)"
| "placeRounds p kind symbol lots price cid (Suc n) firstErr sawAbsent = do {
     r \<leftarrow> place p kind symbol lots price cid;
     case r of
       Inr st \<Rightarrow> ret (Inr (osOrderId st))
     | Inl err \<Rightarrow>
         if \<not> ambiguous err then ret (Inl (outcomeMarker err outcomeDefinitiveReject))
         else do {
           (found, sawAbsent') \<leftarrow> probeLoop p cid symbol (kind_buy kind) lots ghostProbes sawAbsent;
           case found of
             Some oid \<Rightarrow> ret (Inr oid)
           | None \<Rightarrow> do {
               whenM (n > 0) (sleep p ghostProbeGap);
               placeRounds p kind symbol lots price cid n
                 (if Suc n = cidRetryRounds then Some err else firstErr) sawAbsent'
             }
         }
   }"

definition placeResolved ::
  "'w placer \<Rightarrow> orderKind \<Rightarrow> string \<Rightarrow> int \<Rightarrow> real \<Rightarrow> ('w, go_error + string) state" where
  "placeResolved p kind symbol lots price = do {
     cid \<leftarrow> nextClientID p;
     placeRounds p kind symbol lots price cid cidRetryRounds None False
   }"

subsection \<open>The placer of a client\<close>

definition newPlace ::
  "'w Client \<Rightarrow> orderKind \<Rightarrow> string \<Rightarrow> int \<Rightarrow> real \<Rightarrow> string \<Rightarrow> ('w, go_error + OrderState) state" where
  "newPlace c kind symbol lots price cid =
     (let t = \<lparr>tkSymbol = symbol, Vol = lots, HeartbeatTimeout = 0\<rparr>
      in case kind of
           kindLimitBid \<Rightarrow> PlaceLimitOrderBuy c t price cid
         | kindLimitAsk \<Rightarrow> PlaceLimitOrderSell c t price cid
         | kindMarketBuy \<Rightarrow> PlaceMarketOrderBuy c t cid
         | kindMarketSell \<Rightarrow> PlaceMarketOrderSell c t cid)"

definition newFind ::
  "'w Client \<Rightarrow> string \<Rightarrow> string \<Rightarrow> bool \<Rightarrow> int \<Rightarrow> ('w, go_error + string option) state" where
  "newFind c cid symbol b lots = do {
     r \<leftarrow> FindOrderByClientID c cid;
     ret (case r of
            Inl e \<Rightarrow> Inl e
          | Inr None \<Rightarrow> Inr None
          | Inr (Some st) \<Rightarrow> if \<not> matchesIntent st symbol b lots then Inr None else Inr (Some (osOrderId st)))
   }"

definition newPlacer ::
  "'w Client \<Rightarrow> string \<Rightarrow> ('w \<Rightarrow> nat) \<Rightarrow> (nat \<Rightarrow> 'w \<Rightarrow> 'w) \<Rightarrow> (duration \<Rightarrow> ('w, unit) state) \<Rightarrow> ('w, time) state \<Rightarrow> 'w placer" where
  "newPlacer c nonce' get put slp now =
     \<lparr>nonce = nonce', seqOf = get, setSeq = put, place = newPlace c, findOrder = newFind c,
      sleep = slp, nowFn = now\<rparr>"

subsection \<open>Maker and taker\<close>

definition PlaceBid :: "'w placer \<Rightarrow> string \<Rightarrow> int \<Rightarrow> real \<Rightarrow> ('w, go_error + string) state" where
  "PlaceBid p symbol lots price = placeResolved p kindLimitBid symbol lots price"

definition PlaceAsk :: "'w placer \<Rightarrow> string \<Rightarrow> int \<Rightarrow> real \<Rightarrow> ('w, go_error + string) state" where
  "PlaceAsk p symbol lots price = placeResolved p kindLimitAsk symbol lots price"

definition makerCancel :: "'w Client \<Rightarrow> string \<Rightarrow> ('w, go_error + int) state" where
  "makerCancel c orderID = do {
     r \<leftarrow> finam_CancelOrder c orderID;
     ret (case r of Inl e \<Rightarrow> Inl e | Inr st \<Rightarrow> Inr (ExecutedLots st))
   }"

fun terminalOrderStatus :: "OrderStatus \<Rightarrow> bool" where
  "terminalOrderStatus ORDER_STATUS_FILLED = True"
| "terminalOrderStatus ORDER_STATUS_DONE_FOR_DAY = True"
| "terminalOrderStatus ORDER_STATUS_CANCELED = True"
| "terminalOrderStatus ORDER_STATUS_REJECTED = True"
| "terminalOrderStatus ORDER_STATUS_EXPIRED = True"
| "terminalOrderStatus ORDER_STATUS_FAILED = True"
| "terminalOrderStatus ORDER_STATUS_DENIED_BY_BROKER = True"
| "terminalOrderStatus ORDER_STATUS_REJECTED_BY_EXCHANGE = True"
| "terminalOrderStatus ORDER_STATUS_EXECUTED = True"
| "terminalOrderStatus ORDER_STATUS_DISABLED = True"
| "terminalOrderStatus _ = False"

definition makerStatus :: "'w Client \<Rightarrow> string \<Rightarrow> ('w, go_error + int \<times> bool) state" where
  "makerStatus c orderID = do {
     r \<leftarrow> finam_GetOrder c orderID;
     ret (case r of
            Inl e \<Rightarrow> Inl e
          | Inr st \<Rightarrow> Inr (ExecutedLots st, terminalOrderStatus (osStatus st)))
   }"

definition takerBuy :: "'w placer \<Rightarrow> string \<Rightarrow> int \<Rightarrow> ('w, go_error + string) state" where
  "takerBuy p symbol lots = placeResolved p kindMarketBuy symbol lots 0"

definition takerSell :: "'w placer \<Rightarrow> string \<Rightarrow> int \<Rightarrow> ('w, go_error + string) state" where
  "takerSell p symbol lots = placeResolved p kindMarketSell symbol lots 0"

fun IsDeadStatus :: "OrderStatus \<Rightarrow> bool" where
  "IsDeadStatus ORDER_STATUS_CANCELED = True"
| "IsDeadStatus ORDER_STATUS_REJECTED = True"
| "IsDeadStatus ORDER_STATUS_REJECTED_BY_EXCHANGE = True"
| "IsDeadStatus ORDER_STATUS_DENIED_BY_BROKER = True"
| "IsDeadStatus ORDER_STATUS_EXPIRED = True"
| "IsDeadStatus ORDER_STATUS_FAILED = True"
| "IsDeadStatus _ = False"

lemma dead_terminal: "IsDeadStatus st \<Longrightarrow> terminalOrderStatus st \<and> st \<noteq> ORDER_STATUS_FILLED"
  by (cases st) auto

subsection \<open>The quota poll\<close>

definition placeOrderQuota :: string where
  "placeOrderQuota = ''OrdersService.placeOrder''"

text \<open>
  \<open>poll\<close> of \<open>RefreshQuota\<close> after the call: \<open>token\<close> is the limiter's snapshot from before the call, \<open>q\<close> the
  limiter when the answer is there, which bursts may have spent from in between.
\<close>

definition quotaPoll :: "QuotaToken \<Rightarrow> go_error + QuotaUsage list \<Rightarrow> time \<Rightarrow> QuotaLimiter \<Rightarrow> QuotaLimiter" where
  "quotaPoll token answer now q =
     (case answer of
        Inl e \<Rightarrow> q
      | Inr quotas \<Rightarrow>
          (case find (\<lambda>u. q_name u = placeOrderQuota) quotas of
             None \<Rightarrow> q
           | Some u \<Rightarrow> qSet (q_remaining u) (q_reset u) now token q))"

end
