(* ===== verification/PlacerTheorems.thy ===== *)
theory PlacerTheorems
  imports Placer
begin

text \<open>
  What \<open>placeResolved\<close> does against any broker. The world of these theorems is the history of the calls a
  placer has made, and every answer is an arbitrary function of that history, so the theorems hold for
  every broker and every network. The client order ids are shown unique at the end.
\<close>

subsection \<open>A recorded world\<close>

datatype call =
    CallClock time
  | CallSleep duration
  | CallPlace orderKind string int real string "go_error + OrderState"
  | CallFind string string bool int "go_error + string option"

record Seen =
  calls :: "call list"
  counter :: nat

record answers =
  ansNow :: "call list \<Rightarrow> time"
  ansPlace :: "call list \<Rightarrow> orderKind \<Rightarrow> string \<Rightarrow> int \<Rightarrow> real \<Rightarrow> string \<Rightarrow> go_error + OrderState"
  ansFind :: "call list \<Rightarrow> string \<Rightarrow> string \<Rightarrow> bool \<Rightarrow> int \<Rightarrow> go_error + string option"

definition record_call :: "(call list \<Rightarrow> 'a) \<Rightarrow> ('a \<Rightarrow> call) \<Rightarrow> (Seen, 'a) state" where
  "record_call ans entry =
     State (\<lambda>w. let a = ans (calls w) in (a, w\<lparr>calls := calls w @ [entry a]\<rparr>))"

definition recorder :: "string \<Rightarrow> answers \<Rightarrow> Seen placer" where
  "recorder nonce' ans =
     \<lparr>nonce = nonce', seqOf = counter, setSeq = (\<lambda>n w. w\<lparr>counter := n\<rparr>),
      place = (\<lambda>k sy n p cid. record_call (\<lambda>h. ansPlace ans h k sy n p cid) (CallPlace k sy n p cid)),
      findOrder = (\<lambda>cid sy b n. record_call (\<lambda>h. ansFind ans h cid sy b n) (CallFind cid sy b n)),
      sleep = (\<lambda>d. record_call (\<lambda>h. ()) (\<lambda>u. CallSleep d)),
      nowFn = record_call (ansNow ans) CallClock\<rparr>"

lemma wp_State [simp]: "wp (State f) Q w = (case f w of (a, w') \<Rightarrow> Q a w')"
  by (simp add: wp_def)

lemma wp_cong: "(\<And>a s'. Q a s' = Q' a s') \<Longrightarrow> wp m Q s = wp m Q' s"
  by (auto simp: wp_def split: prod.splits)

lemma recorder_simps [simp]:
  "nonce (recorder nc ans) = nc"
  "wp (place (recorder nc ans) k sy n p cid) Q w =
     (let a = ansPlace ans (calls w) k sy n p cid
      in Q a (w\<lparr>calls := calls w @ [CallPlace k sy n p cid a]\<rparr>))"
  "wp (findOrder (recorder nc ans) cid sy b n) R w =
     (let a = ansFind ans (calls w) cid sy b n
      in R a (w\<lparr>calls := calls w @ [CallFind cid sy b n a]\<rparr>))"
  "wp (sleep (recorder nc ans) d) S w = S () (w\<lparr>calls := calls w @ [CallSleep d]\<rparr>)"
  "wp (nowFn (recorder nc ans)) T w =
     (let t = ansNow ans (calls w) in T t (w\<lparr>calls := calls w @ [CallClock t]\<rparr>))"
  "wp (seqAdd (recorder nc ans)) U w = U (counter w + 1) (w\<lparr>counter := counter w + 1\<rparr>)"
  by (simp_all add: recorder_def record_call_def seqAdd_def Let_def)

text \<open>A call of one placement under one client order id.\<close>

fun ours :: "orderKind \<Rightarrow> string \<Rightarrow> int \<Rightarrow> real \<Rightarrow> string \<Rightarrow> call \<Rightarrow> bool" where
  "ours k sy n p cid (CallPlace k' sy' n' p' cid' a) \<longleftrightarrow> k' = k \<and> sy' = sy \<and> n' = n \<and> p' = p \<and> cid' = cid"
| "ours k sy n p cid (CallFind cid' sy' b n' a) \<longleftrightarrow> cid' = cid \<and> sy' = sy \<and> b = kind_buy k \<and> n' = n"
| "ours k sy n p cid (CallSleep d) \<longleftrightarrow> d = ghostProbeGap"
| "ours k sy n p cid (CallClock t) \<longleftrightarrow> False"

fun place_answers :: "call list \<Rightarrow> (go_error + OrderState) list" where
  "place_answers [] = []"
| "place_answers (CallPlace k sy n p cid a # cs) = a # place_answers cs"
| "place_answers (_ # cs) = place_answers cs"

fun find_answers :: "call list \<Rightarrow> (go_error + string option) list" where
  "find_answers [] = []"
| "find_answers (CallFind cid sy b n a # cs) = a # find_answers cs"
| "find_answers (_ # cs) = find_answers cs"

lemma answers_append [simp]:
  "place_answers (xs @ ys) = place_answers xs @ place_answers ys"
  "find_answers (xs @ ys) = find_answers xs @ find_answers ys"
  by (induction xs rule: place_answers.induct; simp)
    (induction xs rule: find_answers.induct; simp)

subsection \<open>The probes and the rounds\<close>

definition unresolved :: "go_error + string option \<Rightarrow> bool" where
  "unresolved a \<longleftrightarrow> (\<forall>oid. a \<noteq> Inr (Some oid))"

lemma probeLoop_wp:
  "wp (probeLoop (recorder nc ans) cid sy (kind_buy k) n m saw) (\<lambda>(f, saw') w'.
     \<exists>tr. calls w' = calls w @ tr \<and> counter w' = counter w \<and> (\<forall>c\<in>set tr. ours k sy n p cid c) \<and>
       place_answers tr = [] \<and> length (find_answers tr) \<le> m \<and>
       (case f of
          Some oid \<Rightarrow> find_answers tr \<noteq> [] \<and> last (find_answers tr) = Inr (Some oid)
        | None \<Rightarrow> length (find_answers tr) = m \<and> (\<forall>a\<in>set (find_answers tr). unresolved a) \<and>
            saw' = (saw \<or> Inr None \<in> set (find_answers tr)))) w"
proof (induction m arbitrary: saw w)
  case 0
  show ?case by (auto intro!: exI [of _ "[]"])
next
  case (Suc m)
  define w1 where "w1 = w\<lparr>calls := calls w @ [CallSleep ghostProbeGap]\<rparr>"
  define a where "a = ansFind ans (calls w1) cid sy (kind_buy k) n"
  define w2 where "w2 = w1\<lparr>calls := calls w1 @ [CallFind cid sy (kind_buy k) n a]\<rparr>"
  let ?tr = "[CallSleep ghostProbeGap, CallFind cid sy (kind_buy k) n a]"
  have w2: "calls w2 = calls w @ ?tr" "counter w2 = counter w" by (simp_all add: w2_def w1_def)
  have step: "wp (probeLoop (recorder nc ans) cid sy (kind_buy k) n (Suc m) saw) Q w =
      (case a of
         Inl e \<Rightarrow> wp (probeLoop (recorder nc ans) cid sy (kind_buy k) n m saw) Q w2
       | Inr None \<Rightarrow> wp (probeLoop (recorder nc ans) cid sy (kind_buy k) n m True) Q w2
       | Inr (Some oid) \<Rightarrow> Q (Some oid, saw) w2)" for Q
    by (simp add: Let_def w1_def a_def w2_def split: sum.split option.split)
  show ?case
  proof (cases "\<exists>oid. a = Inr (Some oid)")
    case True
    then show ?thesis using w2 by (auto simp: step simp del: probeLoop.simps intro!: exI [of _ ?tr])
  next
    case False
    then have go: "wp (probeLoop (recorder nc ans) cid sy (kind_buy k) n (Suc m) saw) Q w =
        wp (probeLoop (recorder nc ans) cid sy (kind_buy k) n m (saw \<or> a = Inr None)) Q w2" for Q
      unfolding step by (auto split: sum.splits option.splits)
    show ?thesis
      unfolding go
    proof (rule wp_mono [OF Suc.IH], safe)
      fix f saw' and w' :: Seen and tr
      assume "calls w' = calls w2 @ tr" "counter w' = counter w2" "\<forall>c\<in>set tr. ours k sy n p cid c"
        "place_answers tr = []" "length (find_answers tr) \<le> m"
        "case f of
          Some oid \<Rightarrow> find_answers tr \<noteq> [] \<and> last (find_answers tr) = Inr (Some oid)
        | None \<Rightarrow> length (find_answers tr) = m \<and> (\<forall>a\<in>set (find_answers tr). unresolved a) \<and>
            saw' = ((saw \<or> a = Inr None) \<or> Inr None \<in> set (find_answers tr))"
      then show "\<exists>tr. calls w' = calls w @ tr \<and> counter w' = counter w \<and> (\<forall>c\<in>set tr. ours k sy n p cid c) \<and>
       place_answers tr = [] \<and> length (find_answers tr) \<le> Suc m \<and>
       (case f of
          Some oid \<Rightarrow> find_answers tr \<noteq> [] \<and> last (find_answers tr) = Inr (Some oid)
        | None \<Rightarrow> length (find_answers tr) = Suc m \<and> (\<forall>a\<in>set (find_answers tr). unresolved a) \<and>
            saw' = (saw \<or> Inr None \<in> set (find_answers tr)))"
        using False w2 by (intro exI [of _ "?tr @ tr"]) (auto simp: unresolved_def split: option.splits)
    qed
  qed
qed

text \<open>
  How the rounds end: with the order a placement or a probe returned, with a definitive rejection of the
  last placement, or unresolved after all of them.
\<close>

definition placedBy :: "call list \<Rightarrow> string \<Rightarrow> bool" where
  "placedBy tr oid \<longleftrightarrow>
     (place_answers tr \<noteq> [] \<and> (\<exists>st. last (place_answers tr) = Inr st \<and> osOrderId st = oid)) \<or>
     (find_answers tr \<noteq> [] \<and> last (find_answers tr) = Inr (Some oid))"

definition rejectedBy :: "call list \<Rightarrow> go_error \<Rightarrow> bool" where
  "rejectedBy tr err \<longleftrightarrow> place_answers tr \<noteq> [] \<and> last (place_answers tr) = Inl err \<and> \<not> ambiguous err"

definition lost :: "go_error + OrderState \<Rightarrow> bool" where
  "lost a \<longleftrightarrow> (\<exists>err. a = Inl err \<and> ambiguous err)"

definition exhausted :: "nat \<Rightarrow> call list \<Rightarrow> bool" where
  "exhausted n tr \<longleftrightarrow>
     length (place_answers tr) = n \<and> (\<forall>a\<in>set (place_answers tr). lost a) \<and>
     length (find_answers tr) = n * ghostProbes \<and> (\<forall>a\<in>set (find_answers tr). unresolved a)"

definition firstError :: "nat \<Rightarrow> go_error option \<Rightarrow> call list \<Rightarrow> go_error option" where
  "firstError n fe tr =
     (if n = cidRetryRounds then (case place_answers tr of Inl e # _ \<Rightarrow> Some e | _ \<Rightarrow> fe) else fe)"

definition rounds_end :: "nat \<Rightarrow> go_error option \<Rightarrow> bool \<Rightarrow> call list \<Rightarrow> go_error + string \<Rightarrow> bool" where
  "rounds_end n fe saw tr r \<longleftrightarrow>
     (\<exists>oid. r = Inr oid \<and> placedBy tr oid) \<or>
     (\<exists>err. r = Inl (outcomeMarker err outcomeDefinitiveReject) \<and> rejectedBy tr err) \<or>
     (exhausted n tr \<and> r = giveUp (saw \<or> Inr None \<in> set (find_answers tr)) (firstError n fe tr))"

definition all_but_last_lost :: "(go_error + OrderState) list \<Rightarrow> bool" where
  "all_but_last_lost as \<longleftrightarrow> (\<forall>a\<in>set (butlast as). lost a)"

lemma all_but_last_lost_Cons:
  "lost a \<Longrightarrow> all_but_last_lost as \<Longrightarrow> all_but_last_lost (a # as)"
  by (simp add: all_but_last_lost_def)

lemma rounds_end_Cons:
  assumes "rounds_end n (if Suc n = cidRetryRounds then Some err else fe) saw' tr r" and "n < cidRetryRounds"
    and "place_answers tr1 = [Inl err]" and "ambiguous err" and "find_answers tr1 = fs"
    and "length fs = ghostProbes" and "\<forall>a\<in>set fs. unresolved a" and "saw' = (saw \<or> Inr None \<in> set fs)"
  shows "rounds_end (Suc n) fe saw (tr1 @ tr) r"
proof -
  have "fs \<noteq> []" using assms(6) by (auto simp: ghostProbes_def)
  then show ?thesis
    using assms
    by (auto simp: rounds_end_def placedBy_def rejectedBy_def exhausted_def lost_def firstError_def disj_assoc)
qed

lemma placeRounds_wp:
  "n \<le> cidRetryRounds \<Longrightarrow>
   wp (placeRounds (recorder nc ans) k sy lots p cid n fe saw) (\<lambda>r w'.
     \<exists>tr. calls w' = calls w @ tr \<and> counter w' = counter w \<and> (\<forall>c\<in>set tr. ours k sy lots p cid c) \<and>
       length (place_answers tr) \<le> n \<and> length (find_answers tr) \<le> n * ghostProbes \<and>
       all_but_last_lost (place_answers tr) \<and> rounds_end n fe saw tr r) w"
proof (induction n arbitrary: fe saw w)
  case 0
  show ?case
    by (auto simp: rounds_end_def exhausted_def firstError_def cidRetryRounds_def all_but_last_lost_def
        intro!: exI [of _ "[]"])
next
  case (Suc n)
  define a where "a = ansPlace ans (calls w) k sy lots p cid"
  define w1 where "w1 = w\<lparr>calls := calls w @ [CallPlace k sy lots p cid a]\<rparr>"
  let ?c = "CallPlace k sy lots p cid a"
  have w1: "calls w1 = calls w @ [?c]" "counter w1 = counter w" by (simp_all add: w1_def)
  show ?case
  proof (cases "lost a")
    case False
    then show ?thesis using w1
      by (auto simp: Let_def a_def [symmetric] w1_def [symmetric] lost_def rounds_end_def placedBy_def
          rejectedBy_def all_but_last_lost_def ghostProbes_def split: sum.splits intro!: exI [of _ "[?c]"])
  next
    case True
    then obtain err where err: "a = Inl err" "ambiguous err" by (auto simp: lost_def)
    let ?fe = "if Suc n = cidRetryRounds then Some err else fe"
    let ?Q = "\<lambda>r w'. \<exists>tr. calls w' = calls w @ tr \<and> counter w' = counter w \<and> (\<forall>c\<in>set tr. ours k sy lots p cid c) \<and>
       length (place_answers tr) \<le> Suc n \<and> length (find_answers tr) \<le> Suc n * ghostProbes \<and>
       all_but_last_lost (place_answers tr) \<and> rounds_end (Suc n) fe saw tr r"
    have next_round: "wp (placeRounds (recorder nc ans) k sy lots p cid n ?fe saw') ?Q w3"
      if "calls w3 = calls w1 @ tr @ sl" "counter w3 = counter w1" "\<forall>c\<in>set (tr @ sl). ours k sy lots p cid c"
        "place_answers tr = []" "length (find_answers tr) = ghostProbes" "\<forall>a\<in>set (find_answers tr). unresolved a"
        "saw' = (saw \<or> Inr None \<in> set (find_answers tr))" "sl = [] \<or> sl = [CallSleep ghostProbeGap]"
      for w3 tr sl saw'
    proof (rule wp_mono [OF Suc.IH], goal_cases)
      case 1
      then show ?case using Suc.prems by simp
    next
      case (2 r w')
      then obtain tr2 where tr2: "calls w' = calls w3 @ tr2" "counter w' = counter w3"
          "\<forall>c\<in>set tr2. ours k sy lots p cid c" "length (place_answers tr2) \<le> n"
          "length (find_answers tr2) \<le> n * ghostProbes" "all_but_last_lost (place_answers tr2)"
          "rounds_end n ?fe saw' tr2 r"
        by blast
      have "rounds_end (Suc n) fe saw ((?c # tr @ sl) @ tr2) r"
        by (rule rounds_end_Cons [OF tr2(7)]) (use that err Suc.prems in auto)
      then show ?case
        using tr2 that w1 True all_but_last_lost_Cons [OF True tr2(6)]
        by (intro exI [of _ "(?c # tr @ sl) @ tr2"]) auto
    qed
    have step: "wp (placeRounds (recorder nc ans) k sy lots p cid (Suc n) fe saw) Q w =
        wp (probeLoop (recorder nc ans) cid sy (kind_buy k) lots ghostProbes saw) (\<lambda>(f, saw') w'.
          case f of
            Some oid \<Rightarrow> Q (Inr oid) w'
          | None \<Rightarrow> wp (placeRounds (recorder nc ans) k sy lots p cid n ?fe saw') Q
              (if n > 0 then w'\<lparr>calls := calls w' @ [CallSleep ghostProbeGap]\<rparr> else w')) w1" for Q
      unfolding placeRounds.simps(2) wp_bind recorder_simps(2) Let_def w1_def a_def [symmetric]
        err(1) sum.case
      by (simp only: err(2) simp_thms if_False wp_bind, rule wp_cong) (auto split: option.splits)
    show ?thesis
      unfolding step
    proof (rule wp_mono [OF probeLoop_wp [where k = k and p = p]], safe)
      fix f saw' and w' :: Seen and tr
      assume tr: "calls w' = calls w1 @ tr" "counter w' = counter w1" "\<forall>c\<in>set tr. ours k sy lots p cid c"
        "place_answers tr = []" "length (find_answers tr) \<le> ghostProbes"
        "case f of
          Some oid \<Rightarrow> find_answers tr \<noteq> [] \<and> last (find_answers tr) = Inr (Some oid)
        | None \<Rightarrow> length (find_answers tr) = ghostProbes \<and> (\<forall>a\<in>set (find_answers tr). unresolved a) \<and>
            saw' = (saw \<or> Inr None \<in> set (find_answers tr))"
      show "case f of
            Some oid \<Rightarrow> ?Q (Inr oid) w'
          | None \<Rightarrow> wp (placeRounds (recorder nc ans) k sy lots p cid n ?fe saw') ?Q
              (if n > 0 then w'\<lparr>calls := calls w' @ [CallSleep ghostProbeGap]\<rparr> else w')"
      proof (cases f)
        case None
        have "wp (placeRounds (recorder nc ans) k sy lots p cid n ?fe saw') ?Q w'"
          by (rule next_round [of _ tr "[]"]) (use tr None in simp_all)
        moreover have "wp (placeRounds (recorder nc ans) k sy lots p cid n ?fe saw') ?Q
            (w'\<lparr>calls := calls w' @ [CallSleep ghostProbeGap]\<rparr>)"
          by (rule next_round [of _ tr "[CallSleep ghostProbeGap]"]) (use tr None in simp_all)
        ultimately show ?thesis
          using None by (cases "0 < n") (simp_all only: option.case if_True if_False simp_thms)
      next
        case (Some oid)
        then show ?thesis
          using tr w1 True
          by (auto simp: rounds_end_def placedBy_def all_but_last_lost_def intro!: exI [of _ "?c # tr"])
      qed
    qed
  qed
qed

subsection \<open>Properties of a placement\<close>

lemma placeResolved_wp:
  "wp (placeResolved (recorder nc ans) k sy lots p) (\<lambda>r w'. \<exists>t cid tr.
     cid = cid_of nc t (counter w + 1) \<and> calls w' = calls w @ CallClock t # tr \<and> counter w' = counter w + 1 \<and>
     (\<forall>c\<in>set tr. ours k sy lots p cid c) \<and>
     length (place_answers tr) \<le> cidRetryRounds \<and> length (find_answers tr) \<le> cidRetryRounds * ghostProbes \<and>
     all_but_last_lost (place_answers tr) \<and> rounds_end cidRetryRounds None False tr r) w"
proof -
  define t where "t = ansNow ans (calls w)"
  define w1 where "w1 = w\<lparr>counter := counter w + 1, calls := calls w @ [CallClock t]\<rparr>"
  have w1: "calls w1 = calls w @ [CallClock t]" "counter w1 = counter w + 1" by (simp_all add: w1_def)
  have start: "wp (placeResolved (recorder nc ans) k sy lots p) Q w =
      wp (placeRounds (recorder nc ans) k sy lots p (cid_of nc t (counter w + 1)) cidRetryRounds None False) Q w1" for Q
    by (simp add: placeResolved_def nextClientID_def Let_def t_def w1_def)
  show ?thesis
    unfolding start
    by (rule wp_mono [OF placeRounds_wp [OF order_refl]]) (auto simp: w1)
qed

lemma place_numbers [simp]: "cidRetryRounds = 3" "ghostProbes = 3"
  by (simp_all add: cidRetryRounds_def ghostProbes_def)

text \<open>
  C31. A placement uses one client order id, minted for it from a fresh count, in every placement and every
  probe, with the same order each time; it places at most three times and probes at most nine times, and
  places again only after an answer that left the order's fate open.
\<close>

theorem one_client_id:
  assumes "run_state (placeResolved (recorder nc ans) k sy lots p) w = (r, w')"
  shows "\<exists>t tr. calls w' = calls w @ CallClock t # tr \<and> counter w' = counter w + 1 \<and>
    (\<forall>c\<in>set tr. ours k sy lots p (cid_of nc t (counter w + 1)) c) \<and>
    length (place_answers tr) \<le> 3 \<and> length (find_answers tr) \<le> 9 \<and>
    (\<forall>a\<in>set (butlast (place_answers tr)). lost a)"
proof -
  from placeResolved_wp [of nc ans k sy lots p w] assms
  have "\<exists>t cid tr. cid = cid_of nc t (counter w + 1) \<and> calls w' = calls w @ CallClock t # tr \<and>
      counter w' = counter w + 1 \<and> (\<forall>c\<in>set tr. ours k sy lots p cid c) \<and>
      length (place_answers tr) \<le> cidRetryRounds \<and> length (find_answers tr) \<le> cidRetryRounds * ghostProbes \<and>
      all_but_last_lost (place_answers tr) \<and> rounds_end cidRetryRounds None False tr r"
    by (simp only: wp_def prod.case)
  then show ?thesis by (auto simp: all_but_last_lost_def)
qed

text \<open>A broker whose first answer is lost and which then shows the order, or answers again.\<close>

definition lossy :: "go_error + string option \<Rightarrow> go_error + OrderState \<Rightarrow> answers" where
  "lossy found again =
     \<lparr>ansNow = (\<lambda>h. 0),
      ansPlace = (\<lambda>h k sy n p cid. if place_answers h = [] then Inl (Leaf code_Unavailable ''reset'') else again),
      ansFind = (\<lambda>h cid sy b n. found)\<rparr>"

definition no_calls :: Seen where
  "no_calls = \<lparr>calls = [], counter = 0\<rparr>"

theorem one_client_id_witness:
  "\<exists>t tr. calls (snd (run_state (placeResolved (recorder ''abcdef'' (lossy (Inr (Some ''o1'')) (Inl (Leaf 6 ''''))))
       kindMarketBuy ''A'' 2 0) no_calls)) = CallClock t # tr \<and>
     list_all (ours kindMarketBuy ''A'' 2 0 (cid_of ''abcdef'' t 1)) tr"
  using one_client_id [OF prod.collapse [symmetric],
    of "''abcdef''" "lossy (Inr (Some ''o1'')) (Inl (Leaf 6 ''''))" kindMarketBuy "''A''" 2 0 no_calls]
  by (fastforce simp: no_calls_def list_all_iff)

text \<open>
  C32. The outcome tells what the broker said: an id is the one a placement or a probe returned; an error is
  definitive exactly when the last placement was answered by a definitive error, and otherwise all three
  placements were lost, all nine probes failed to show the order, and the error carries the first loss.
\<close>

theorem placement_outcome:
  assumes "run_state (placeResolved (recorder nc ans) k sy lots p) w = (r, w')"
    and "\<And>k' sy' n p' cid e. CallPlace k' sy' n p' cid (Inl e) \<in> set (calls w') \<Longrightarrow> as_marker e = None"
  shows "\<exists>t tr. calls w' = calls w @ CallClock t # tr \<and>
    (case r of
       Inr oid \<Rightarrow> placedBy tr oid
     | Inl e \<Rightarrow>
         if MaybeDelivered (Some e) then
           exhausted 3 tr \<and> (\<exists>err. hd (place_answers tr) = Inl err \<and> on_chain e err)
         else (\<exists>err. rejectedBy tr err \<and> e = outcomeMarker err outcomeDefinitiveReject))"
proof -
  from placeResolved_wp [of nc ans k sy lots p w] assms(1)
  have "\<exists>t cid tr. calls w' = calls w @ CallClock t # tr \<and> rounds_end cidRetryRounds None False tr r"
    by (simp only: wp_def prod.case) blast
  then obtain t tr where tr: "calls w' = calls w @ CallClock t # tr" "rounds_end 3 None False tr r"
    by auto
  have mem: "\<exists>k' sy' n p' cid. CallPlace k' sy' n p' cid a \<in> set cs" if "a \<in> set (place_answers cs)" for a cs
    using that by (induction cs rule: place_answers.induct) (auto, blast+)
  have unmarked: "as_marker e = None" if "Inl e \<in> set (place_answers tr)" for e
    using mem [OF that] assms(2) tr(1) by fastforce
  consider oid where "r = Inr oid" "placedBy tr oid"
    | err where "r = Inl (outcomeMarker err outcomeDefinitiveReject)" "rejectedBy tr err"
    | "exhausted 3 tr" "r = giveUp (Inr None \<in> set (find_answers tr)) (firstError 3 None tr)"
    using tr(2) by (auto simp: rounds_end_def)
  then show ?thesis
  proof cases
    case 3
    then obtain err as where first: "place_answers tr = Inl err # as"
      by (cases "place_answers tr") (auto simp: exhausted_def lost_def)
    then have "as_marker err = None" using unmarked by auto
    moreover have "r = Inl err \<or> (\<exists>m. r = Inl (Wrapped m err))"
      using 3(2) first by (auto simp: giveUp_def firstError_def)
    moreover have "on_chain err err" "on_chain (Wrapped m err) err" for m
      by (rule on_chain.here) (rule on_chain.there [OF _ on_chain.here], simp)
    ultimately show ?thesis
      using tr(1) 3(1) first by (auto simp: MaybeDelivered_def)
  qed (use tr(1) in \<open>auto simp: MaybeDelivered_def\<close>)
qed

lemma lossy_run:
  "wp (placeResolved (recorder ''abcdef'' (lossy (Inr None) (Inl (Leaf 6 '''')))) kindMarketBuy ''A'' 2 0)
     (\<lambda>r w'. r = Inl (Leaf code_Unavailable ''reset'') \<and>
       (\<forall>k sy n p cid e. CallPlace k sy n p cid (Inl e) \<in> set (calls w') \<longrightarrow> as_marker e = None)) no_calls"
  by (auto simp: lossy_def no_calls_def placeResolved_def nextClientID_def Let_def numeral_3_eq_3
      ambiguous_def codes giveUp_def)

theorem placement_outcome_witness:
  "\<exists>e. fst (run_state (placeResolved (recorder ''abcdef'' (lossy (Inr None) (Inl (Leaf 6 ''''))))
       kindMarketBuy ''A'' 2 0) no_calls) = Inl e \<and> MaybeDelivered (Some e)"
proof -
  let ?run = "run_state (placeResolved (recorder ''abcdef'' (lossy (Inr None) (Inl (Leaf 6 ''''))))
       kindMarketBuy ''A'' 2 0) no_calls"
  have r: "fst ?run = Inl (Leaf code_Unavailable ''reset'')"
    and calls: "CallPlace k' sy' n p' cid (Inl e) \<in> set (calls (snd ?run)) \<Longrightarrow> as_marker e = None"
    for k' sy' n p' cid e
    using lossy_run unfolding wp_def by (auto simp: split_beta)
  show ?thesis
    using placement_outcome [OF prod.collapse [symmetric] calls] r by (auto simp: MaybeDelivered_def)
qed

subsection \<open>Client order ids\<close>

lemma randNonce_length: "length (randNonce (Some bs) t) = 2 * length bs"
  by (induction bs) (simp_all add: randNonce_def hexByte_def)

text \<open>A Unix time with six base-36 digits: from 1971 to the end of 2038.\<close>

definition six_digit_time :: "time \<Rightarrow> bool" where
  "six_digit_time t \<longleftrightarrow> 36 ^ 5 \<le> Unix t \<and> Unix t < 36 ^ 6"

lemma six_digits:
  assumes "six_digit_time t"
  shows "FormatInt (Unix t) 36 = digits 36 (nat (Unix t))"
    and "length (FormatInt (Unix t) 36) = 6"
proof -
  have "0 \<le> Unix t" using assms by (simp add: six_digit_time_def)
  then show eq: "FormatInt (Unix t) 36 = digits 36 (nat (Unix t))" by (simp add: FormatInt_def)
  have "(36 :: nat) ^ 5 \<le> nat (Unix t)" "nat (Unix t) < 36 ^ 6"
    using assms by (simp_all add: six_digit_time_def nat_less_iff le_nat_iff)
  then have "5 < length (digits 36 (nat (Unix t)))" "length (digits 36 (nat (Unix t))) \<le> 6"
    by (auto intro: digits_length_lower digits_length_upper)
  then show "length (FormatInt (Unix t) 36) = 6" by (simp add: eq)
qed

lemma cid_of_inj:
  assumes "length nc = length nc'" and "six_digit_time t" and "six_digit_time t'"
    and "cid_of nc t n = cid_of nc' t' n'"
  shows "nc = nc' \<and> Unix t = Unix t' \<and> n = n'"
proof -
  have "nc @ FormatInt (Unix t) 36 @ digits 36 n = nc' @ FormatInt (Unix t') 36 @ digits 36 n'"
    using assms(4) by (simp add: cid_of_def)
  then have nc: "nc = nc'"
    and rest: "FormatInt (Unix t) 36 @ digits 36 n = FormatInt (Unix t') 36 @ digits 36 n'"
    using append_same_length [OF assms(1)] by blast+
  then have "FormatInt (Unix t) 36 = FormatInt (Unix t') 36" "digits 36 n = digits 36 n'"
    using append_same_length [of "FormatInt (Unix t) 36" "FormatInt (Unix t') 36"]
      six_digits(2) [OF assms(2)] six_digits(2) [OF assms(3)] by auto
  then show ?thesis
    using nc assms(2,3) by (simp add: six_digits(1) digits_inj six_digit_time_def nat_eq_iff)
qed

text \<open>
  C33. With nonces of three random bytes (not the fallback on the clock) and at Unix times that have six digits
  in base 36, two client order ids are the same only if nonce, second and count are; and for the first
  \<open>36 ^ 7\<close> placements an id fits the API's twenty characters.
\<close>

theorem client_ids_distinct:
  assumes "length bs = 3" and "length bs' = 3" and "six_digit_time t" and "six_digit_time t'"
    and "cid_of (randNonce (Some bs) t0) t n = cid_of (randNonce (Some bs') t0') t' n'"
  shows "randNonce (Some bs) t0 = randNonce (Some bs') t0' \<and> Unix t = Unix t' \<and> n = n' \<and>
    (n < 36 ^ 7 \<longrightarrow> length (cid_of (randNonce (Some bs) t0) t n) \<le> 20)"
proof -
  have "length (cid_of (randNonce (Some bs) t0) t n) \<le> 20" if "n < 36 ^ 7"
  proof -
    have "length (digits 36 n) \<le> 7" using that by (intro digits_length_upper) auto
    then show ?thesis using assms(1) six_digits(2) [OF assms(3)] by (simp add: cid_of_def randNonce_length)
  qed
  then show ?thesis
    using cid_of_inj [OF _ assms(3,4,5)] assms(1,2) by (simp add: randNonce_length)
qed

theorem client_ids_distinct_witness:
  "length (cid_of (randNonce (Some [1, 2, 255]) 0) (unixEpoch + 1700000000 * second) 5) \<le> 20"
  using client_ids_distinct [of "[1, 2, 255]" "[1, 2, 255]" "unixEpoch + 1700000000 * second" "unixEpoch + 1700000000 * second" 0 5 0 5]
  by (simp add: six_digit_time_def Unix_def UnixNano_def)

end
