(* ===== verification/SimIdentity.thy ===== *)
theory SimIdentity
  imports SimInvariant
begin

text \<open>
  What every operation of the simulator leaves alone, stated for a client that shares the simulator with
  others: an order keeps its identity (account, client id, symbol, side and size) for good, only a placement
  creates one, and only the two fault operations change the rules other than by using them up.
\<close>

subsection \<open>The identity of orders\<close>

record order_key =
  k_account :: string
  k_client :: string
  k_symbol :: string
  k_side :: Side
  k_qty :: real

definition order_key_of :: "simOrder \<Rightarrow> order_key" where
  "order_key_of o' =
     \<lparr>k_account = o_account o', k_client = clientOrderID o', k_symbol = o_symbol o', k_side = o_side o',
      k_qty = o_qty o'\<rparr>"

definition identity :: "Sim \<Rightarrow> string \<rightharpoonup> order_key" where
  "identity s = (\<lambda>oid. map_option order_key_of (sim_orders s oid))"

lemma identity_cong: "sim_orders s' = sim_orders s \<Longrightarrow> identity s' = identity s"
  by (simp add: identity_def)

lemma identity_still: "still s s' \<Longrightarrow> identity s' = identity s"
  by (rule identity_cong) (simp add: still_def)

lemma identity_putOrder:
  "sim_orders s oid = Some o0 \<Longrightarrow> o_id o1 = oid \<Longrightarrow> order_key_of o1 = order_key_of o0 \<Longrightarrow>
     identity (putOrder o1 s) = identity s"
  by (auto simp: identity_def fun_eq_iff)

lemma order_key_simps [simp]:
  "order_key_of (withdrawn st now o') = order_key_of o'" "order_key_of (announced now o') = order_key_of o'"
  "order_key_of (filled n lots now o') = order_key_of o'"
  "o_id (withdrawn st now o') = o_id o'" "o_id (announced now o') = o_id o'"
  by (simp_all add: order_key_of_def withdrawn_def announced_def)

lemma identity_bookTrade [simp]: "identity (snd (bookTrade o' lots price now s)) = identity s"
  by (rule identity_cong) (simp add: bookTrade_def Let_def split_beta)

lemma identity_fill_core:
  assumes "sim_wf s" and "sim_orders s oid = Some o'"
  shows "identity (fill_core o' lots price now s) = identity s"
proof -
  have "identity (putOrder (filled n l now o') (snd (nextSeq s))) = identity (snd (nextSeq s))" for n l
    by (rule identity_putOrder [where oid = oid and ?o0.0 = o'])
      (use assms wf_order [OF assms] in \<open>simp_all add: order_ok_def\<close>)
  then show ?thesis
    by (simp add: fill_core_def Let_def identity_cong [of "snd (nextSeq s)" s])
qed

lemma identity_withdraw:
  assumes "sim_wf s" and "sim_orders s oid = Some o'"
  shows "identity (withdraw st now o' s) = identity s"
proof -
  have "identity (putOrder (withdrawn st now o') s) = identity s"
    by (rule identity_putOrder [OF assms(2)])
      (use wf_order [OF assms] in \<open>simp_all add: order_ok_def\<close>)
  then show ?thesis
    by (simp add: withdraw_def Let_def identity_cong [of "emitOrderLocked (withdrawn st now o') s'" s' for s'])
qed

interpretation identity: sim_moves_quiet "\<lambda>s. sim_wf s \<and> identity s = M" for M
proof
  show "sim_wf (fillOrderLocked oid lots price now s) \<and> identity (fillOrderLocked oid lots price now s) = M"
    if "sim_wf s \<and> identity s = M" for s oid lots price now
    by (rule fill_kept [where I = "\<lambda>s. sim_wf s \<and> identity s = M", OF that])
      (use that in \<open>auto simp: identity_still identity_fill_core intro: wf_still wf_fill_core\<close>)
  show "sim_wf (putOrder (announced now o') s) \<and> identity (putOrder (announced now o') s) = M"
    if "sim_wf s \<and> identity s = M" "sim_orders s oid = Some o'" "\<not> terminal o'" for s oid o' now
    using that wf_order [of s oid o'] identity_putOrder [of s oid o' "announced now o'"]
    by (auto intro: wf_announce simp: order_ok_def)
qed (auto dest: calm_still intro: wf_still wf_withdraw simp: identity_still identity_withdraw withdrawal_def)

theorem step_identity:
  assumes "sim_wf s" and "\<not> places op"
  shows "identity (sim_step K op s) = identity s"
proof -
  consider "injects op" | "sets_position op" | "\<not> injects op" "\<not> sets_position op" by blast
  then show ?thesis
  proof cases
    case 1
    then obtain oid lots price where op: "op = OpInject oid lots price" by (cases op) auto
    have "identity (snd (InjectFill oid lots price s)) = identity s"
      by (rule identity_cong) (auto simp: InjectFill_def Let_def split_beta bookTrade_def split: option.split)
    then show ?thesis by (simp add: op)
  next
    case 2
    then obtain k sy qty avg where op: "op = OpSetPosition k sy qty avg" by (cases op) auto
    have "identity (snd (SetPosition k sy qty avg s)) = identity s"
      by (rule identity_cong)
        (auto simp: SetPosition_def Let_def dest!: symbolLocked_core split: option.splits prod.splits)
    then show ?thesis by (simp add: op)
  next
    case 3
    with identity.step_kept_quiet [of s "identity s" op K] assms show ?thesis by simp
  qed
qed

subsection \<open>What a placement creates\<close>

definition new_key :: "account \<Rightarrow> OrderMsg \<Rightarrow> nat \<Rightarrow> order_key" where
  "new_key acc req n =
     \<lparr>k_account = a_id acc, k_client = new_cid req n, k_symbol = omSymbol req, k_side = omSide req,
      k_qty = parseDec (omQuantity req)\<rparr>"

lemma validateOrder_qty: "validateOrder req = Inr (qty, lp) \<Longrightarrow> qty = parseDec (omQuantity req)"
  by (auto simp: validateOrder_def Let_def split: if_splits OrderType.splits)

text \<open>The id a placement answers with, when no rule mangles it, is the new order's.\<close>

lemma enterOrder_answer:
  "osOrderId (fst (enterOrder acc mangleNone o' s)) = o_id o'"
  by (simp add: enterOrder_def Let_def)

lemma placeLocked_creates:
  assumes "placeLocked acc req qty lp mangle s = (r, s')" and "sim_wf s"
    and "validateOrder req = Inr (qty, lp)"
  shows "((\<forall>resp. r \<noteq> Ok resp) \<and> identity s' = identity s) \<or>
    (\<exists>n resp. identity s (order_id n) = None \<and> r = Ok resp \<and>
       identity s' = (identity s)(order_id n \<mapsto> new_key acc req (n - 1)) \<and>
       (mangle = mangleNone \<longrightarrow> osOrderId resp = order_id n))"
proof -
  obtain st s1 where sym: "symbolLocked (omSymbol req) s = (st, s1)" by (cases "symbolLocked (omSymbol req) s")
  have one: "still s s1" using symbolLocked_still [of s "omSymbol req"] sym by simp
  obtain e s2 where quota: "consumePlaceQuotaLocked s1 = (e, s2)" by (cases "consumePlaceQuotaLocked s1")
  have two: "still s s2" using still_trans [OF one] quota_still [of s1] quota by simp
  have wf2: "sim_wf s2" by (rule wf_still [OF assms(2) two])
  have id2: "identity s2 = identity s" by (rule identity_still [OF two])
  let ?s = "entered acc req qty lp mangle s2" and ?n = "seq s2 + 1"
  have new: "identity ?s = (identity s)(order_id ?n \<mapsto> new_key acc req (?n - 1))"
    using validateOrder_qty [OF assms(3)] unfolding id2 [symmetric]
    by (auto simp: identity_def entered_core order_key_of_def new_key_def fun_eq_iff)
  have none: "identity s (order_id ?n) = None"
    using fresh_order_id [OF wf2] unfolding id2 [symmetric] by (simp add: identity_def)
  consider (no) "\<forall>resp. r \<noteq> Ok resp" "still s s'"
    | (yes) resp where "r = Ok resp" "s' = scheduleExec (order_id ?n) ?s"
        "mangle = mangleNone \<longrightarrow> osOrderId resp = order_id ?n"
    using assms(1) sym quota one two
      enterOrder_answer [of acc "fst (newOrder acc req qty lp s2)" "snd (newOrder acc req qty lp s2)"]
    by (auto simp: placeLocked_def entered_def Let_def split_beta split: option.splits if_splits)
  then show ?thesis
  proof cases
    case no
    then show ?thesis using identity_still by blast
  next
    case yes
    then have "identity s' = (identity s)(order_id ?n \<mapsto> new_key acc req (?n - 1))"
      using new identity_cong [of "scheduleExec (order_id ?n) ?s" ?s] by simp
    with none yes show ?thesis by blast
  qed
qed

text \<open>Rules all of whose actions satisfy a predicate, such as those that do not mangle the id of an answer.\<close>

definition rules_all :: "(string \<Rightarrow> bool) \<Rightarrow> faultTable \<Rightarrow> bool" where
  "rules_all P ft \<longleftrightarrow> (\<forall>f\<in>set (rules ft). P (f_Action f))"

definition mangles :: "string \<Rightarrow> bool" where
  "mangles act \<longleftrightarrow> act = ''blank_order_id'' \<or> act = ''reuse_order_id''"

abbreviation plain_rules :: "faultTable \<Rightarrow> bool" where
  "plain_rules \<equiv> rules_all (\<lambda>act. \<not> mangles act)"

lemma gateAction_plain: "\<not> mangles (f_Action r) \<Longrightarrow> d_mangle (gateAction r d) = d_mangle d"
  by (simp add: gateAction_def mangles_def Let_def)

lemma gateLoop_plain:
  "gateLoop m ds rs d k = (kept, d', k') \<Longrightarrow>
     ((\<forall>f\<in>set rs. P (f_Action f)) \<longrightarrow> (\<forall>f\<in>set kept. P (f_Action f))) \<and>
     ((\<forall>f\<in>set rs. \<not> mangles (f_Action f)) \<longrightarrow> d_mangle d' = d_mangle d)"
proof (induction m ds rs d k arbitrary: kept d' k' rule: gateLoop.induct)
  case (2 m ds r rs d k)
  obtain sk k1 where skip: "skipped r ds k = (sk, k1)" by (cases "skipped r ds k")
  note IH = "2.IH"(1) "2.IH"(2) [OF _ skip [symmetric] refl] "2.IH"(3) [OF _ skip [symmetric] refl]
    "2.IH"(4) [OF _ skip [symmetric] refl]
  show ?case
    using "2.prems" gateAction_plain [of r d] IH
    by (auto simp: skip Let_def split: if_splits prod.splits)
qed simp

lemma gate_plain:
  shows "rules_all P ft \<Longrightarrow> rules_all P (snd (gate m ft))"
    and "plain_rules ft \<Longrightarrow> d_mangle (fst (gate m ft)) = mangleNone"
proof -
  obtain kept d k where run: "gateLoop m (draws ft) (rules ft) noDirective (used_draws ft) = (kept, d, k)"
    by (cases "gateLoop m (draws ft) (rules ft) noDirective (used_draws ft)")
  have "d_mangle noDirective = mangleNone" by (simp add: noDirective_def)
  with gateLoop_plain [OF run, of P]
  show "rules_all P ft \<Longrightarrow> rules_all P (snd (gate m ft))"
    "plain_rules ft \<Longrightarrow> d_mangle (fst (gate m ft)) = mangleNone"
    by (force simp: gate_def run rules_all_def)+
qed

lemma gates_plain [simp]:
  "rules_all P ft \<Longrightarrow> rules_all P (snd (gateReadOnly m ft))"
  "rules_all P ft \<Longrightarrow> rules_all P (snd (unaryGate m ft))"
  using gate_plain(1) [of P ft m] by (simp_all add: gateReadOnly_def unaryGate_def split_beta)

lemma unaryGate_mangle:
  "plain_rules ft \<Longrightarrow> fst (fst (unaryGate m ft)) = Proceed after mangle \<Longrightarrow> mangle = mangleNone"
  using gate_plain(2) [of ft m] by (auto simp: unaryGate_def split_beta split: option.splits if_splits)

lemma gateKillLoop_rules:
  "gateKillLoop m ds rs k = (rs', e, k') \<Longrightarrow> \<forall>f\<in>set rs. P (f_Action f) \<Longrightarrow> \<forall>f\<in>set rs'. P (f_Action f)"
proof (induction m ds rs k arbitrary: rs' e k' rule: gateKillLoop.induct)
  case (2 m ds r rs k)
  obtain sk k1 where skip: "skipped r ds k = (sk, k1)" by (cases "skipped r ds k")
  note IH = "2.IH"(1) "2.IH"(2) [OF _ skip [symmetric] refl]
  show ?case using "2.prems" IH by (auto simp: skip Let_def split: if_splits prod.splits)
qed simp

lemma gateKill_rules: "rules_all P ft \<Longrightarrow> rules_all P (snd (gateKill m ft))"
  using gateKillLoop_rules [where P = P and m = m and ds = "draws ft" and rs = "rules ft" and k = "used_draws ft"]
  by (force simp: gateKill_def rules_all_def split: prod.split)

subsection \<open>Who changes the rules\<close>

lemma rules_kept_simps [simp]:
  "faults (emitOrderLocked o' s) = faults s" "faults (emitTradeLocked t s) = faults s"
  "faults (emitAccountLocked k s) = faults s" "faults (broadcastBookLocked sy rows s) = faults s"
  "faults (broadcastTapeLocked sy tr s) = faults s" "faults (putSymbol sy st s) = faults s"
  "faults (putOrder o' s) = faults s" "faults (putAccount a s) = faults s"
  "faults (snd (nextSeq s)) = faults s" "faults (scheduleExec oid s) = faults s"
  "faults (countPlace s) = faults s" "faults (countCancel s) = faults s"
  "faults (withdraw how now o' s) = faults s"
  by (simp_all add: sim_ops putOrder_def putAccount_def withdraw_def Let_def)

lemma symbolLocked_rules [simp]: "faults (snd (symbolLocked sy s)) = faults s"
  by (auto simp: symbolLocked_def Let_def split: option.split)

lemma fillOrder_rules [simp]: "faults (fillOrderLocked oid lots price now s) = faults s"
  by (auto simp: fillOrderLocked_def bookTrade_def Let_def split_beta split: option.split)

lemma takerFills_rules [simp]: "faults (takerFills oid sy sd now fs s) = faults s"
  by (induction fs arbitrary: s) (auto simp: Let_def split_beta split: option.split)

lemma execOrder_rules [simp]: "faults (execOrderLocked o' s) = faults s"
  by (auto simp: execOrderLocked_def takerExecLocked_def Let_def split_beta split: option.split)

lemma matchLoop_rules [simp]: "faults (matchLoop price now oids sz s) = faults s"
  by (induction price now oids sz s rule: matchLoop.induct) (auto simp: Let_def split: option.split)

lemma matchPrint_rules [simp]: "faults (matchPublicPrintLocked accs sy tr s) = faults s"
  by (simp add: matchPublicPrintLocked_def Let_def)

lemma printAll_rules [simp]: "faults (printAll accs sy trs s) = faults s"
  by (induction trs arbitrary: s) simp_all

lemma timers_rules [simp]: "faults (runExec i s) = faults s" "faults (runCancel i s) = faults s"
  by (auto simp: runExec_def runCancel_def Let_def split: option.split)

lemma control_rules [simp]:
  "faults (snd (SetBook sy bs as s)) = faults s" "faults (snd (CrossBook sy s)) = faults s"
  "faults (snd (PublicTrade accs sy price sz b s)) = faults s" "faults (snd (FillOrder oid lots price s)) = faults s"
  "faults (snd (InjectFill oid lots price s)) = faults s" "faults (snd (KillOrder oid how s)) = faults s"
  "faults (snd (SetPosition k sy qty avg s)) = faults s" "faults (SetSession ty s) = faults s"
  "faults (SetQuotaRemaining n s) = faults s" "faults (snd (ExpireTokens s)) = faults s"
  "faults (autoMarketTick accs sy s) = faults s" "faults (autoMarketExit sy s) = faults s" "faults (snd (snd (ConfigureAutoMarket sy c s))) = faults s"
  by (auto simp: SetBook_def CrossBook_def PublicTrade_def FillOrder_def InjectFill_def KillOrder_def
      SetPosition_def SetSession_def SetQuotaRemaining_def ExpireTokens_def autoMarketTick_def autoMarketExit_def
      ConfigureAutoMarket_def startAutoMarket_def bookTrade_def Let_def split_beta
      split: option.split)

lemma placeLocked_rules [simp]: "faults (snd (placeLocked acc req qty lp mangle s)) = faults s"
  by (auto simp: placeLocked_def consumePlaceQuotaLocked_def newOrder_def nextSeq_def enterOrder_def Let_def
      split_beta split: option.split)

lemma requests_plain:
  assumes "rules_all P (faults s)"
  shows "rules_all P (faults (snd (PlaceOrder K ctx req s)))" "rules_all P (faults (snd (CancelOrder K ctx k oid s)))"
  using gates_plain(2) [of P "faults s"] assms
  by (auto simp: PlaceOrder_def CancelOrder_def Let_def split_beta
      split: unary_gate.split outcome.split sum.split option.split)

lemma queries_plain:
  assumes "rules_all P (faults s)"
  shows "rules_all P (faults (snd (Auth K secret s)))" "rules_all P (faults (snd (GetOrder K ctx k oid s)))"
    "rules_all P (faults (snd (GetOrders K ctx k s)))" "rules_all P (faults (snd (GetAccount K ctx syms k s)))"
    "rules_all P (faults (snd (GetUsageMetrics K ctx s)))" "rules_all P (faults (snd (Schedule K ctx s)))"
    "rules_all P (faults (snd (TokenDetails K raw s)))" "rules_all P (faults (snd (SubscribeOrders K ctx k s)))"
    "rules_all P (faults (snd (SubscribeTrades K ctx k s)))"
    "rules_all P (faults (snd (SubscribeAccount K ctx syms k s)))"
    "rules_all P (faults (snd (SubscribeOrderBook K ctx sy s)))"
    "rules_all P (faults (snd (SubscribeLatestTrades K ctx sy s)))"
  using gates_plain(1) [of P "faults s"] assms
  by (auto simp: Auth_def GetOrder_def GetOrders_def GetAccount_def GetUsageMetrics_def Schedule_def
      TokenDetails_def SubscribeOrders_def SubscribeTrades_def SubscribeAccount_def SubscribeOrderBook_def
      SubscribeLatestTrades_def Let_def split_beta split: option.split outcome.split)

lemma addFault_plain: "rules_all P ft \<Longrightarrow> P (f_Action f) \<Longrightarrow> rules_all P (snd (addFault f ft))"
  by (auto simp: addFault_def rules_all_def Let_def)

lemma removeRule_subset: "removeRule i rs = (n, rs') \<Longrightarrow> set rs' \<subseteq> set rs"
  by (induction i rs arbitrary: n rs' rule: removeRule.induct) (auto split: if_splits prod.splits)

lemma removeFault_plain: "rules_all P ft \<Longrightarrow> rules_all P (snd (removeFault i ft))"
  using removeRule_subset [of i "rules ft"]
  by (cases "removeRule i (rules ft)") (auto simp: removeFault_def rules_all_def)

text \<open>An operation that adds only such a rule keeps them so.\<close>

fun adds_only :: "(string \<Rightarrow> bool) \<Rightarrow> sim_op \<Rightarrow> bool" where
  "adds_only P (OpAddFault f) \<longleftrightarrow> P (f_Action f)"
| "adds_only P _ \<longleftrightarrow> True"

abbreviation plain_op :: "sim_op \<Rightarrow> bool" where
  "plain_op \<equiv> adds_only (\<lambda>act. \<not> mangles act)"

theorem step_plain:
  assumes "rules_all P (faults s)" and "adds_only P op"
  shows "rules_all P (faults (sim_step K op s))"
  using assms requests_plain [OF assms(1)] queries_plain [OF assms(1)]
    addFault_plain [OF assms(1)] removeFault_plain [OF assms(1)]
  by (cases op) (simp_all add: AddFault_def RemoveFault_def split_beta)

text \<open>So a placement creates the order it names, or none.\<close>

theorem PlaceOrder_creates:
  assumes "sim_wf s" and "PlaceOrder K ctx req s = (r, s')"
  shows "((\<forall>resp. r \<noteq> Ok resp) \<and> identity s' = identity s) \<or>
    (\<exists>n acc t. identity s (order_id n) = None \<and>
       identity s' = (identity s)(order_id n \<mapsto> new_key acc req (n - 1)) \<and>
       (\<exists>s0. accounts s0 = accounts s \<and> checkAccount K ctx (omAccount req) s0 = Ok (acc, t)) \<and>
       (plain_rules (faults s) \<longrightarrow> (\<forall>resp. r = Ok resp \<longrightarrow> osOrderId resp = order_id n)))"
proof -
  define g where "g = unaryGate ''PlaceOrder'' (faults (countPlace s))"
  define s2 where "s2 = (countPlace s)\<lparr>faults := snd g\<rparr>"
  have still2: "still s s2" by (simp add: s2_def still_def countPlace_def)
  have wf2: "sim_wf s2" by (rule wf_still [OF assms(1) still2])
  have id2: "identity s2 = identity s" by (rule identity_still [OF still2])
  have acc2: "accounts s2 = accounts s" using still2 by (simp add: still_def)
  have place: "PlaceOrder K ctx req s = (case fst (fst g) of
      Abort e \<Rightarrow> (Err e, s2)
    | Proceed after mangle \<Rightarrow>
        (case checkAccount K ctx (omAccount req) s2 of
           Panic \<Rightarrow> (Panic, s2) | Err e \<Rightarrow> (Err e, s2)
         | Ok (acc, _) \<Rightarrow>
             (case validateOrder req of
                Inl e \<Rightarrow> (Err e, s2)
              | Inr (qty, lp) \<Rightarrow>
                  (case placeLocked acc req qty lp mangle s2 of
                     (Ok resp, s3) \<Rightarrow> (case after of Some e \<Rightarrow> (Err e, s3) | None \<Rightarrow> (Ok resp, s3))
                   | (r, s3) \<Rightarrow> (r, s3)))))"
    unfolding PlaceOrder_def Let_def split_beta s2_def g_def by (rule refl)
  show ?thesis
  proof (cases "\<exists>after mangle acc t qty lp. fst (fst g) = Proceed after mangle \<and>
      checkAccount K ctx (omAccount req) s2 = Ok (acc, t) \<and> validateOrder req = Inr (qty, lp)")
    case False
    then have "(\<forall>resp. r \<noteq> Ok resp) \<and> s' = s2"
      using assms(2) unfolding place
      by (auto split: unary_gate.splits outcome.splits sum.splits prod.splits)
    then show ?thesis by (simp add: id2)
  next
    case True
    then obtain after mangle acc t qty lp where go: "fst (fst g) = Proceed after mangle"
        "checkAccount K ctx (omAccount req) s2 = Ok (acc, t)" "validateOrder req = Inr (qty, lp)"
      by blast
    obtain r3 s3 where run: "placeLocked acc req qty lp mangle s2 = (r3, s3)"
      by (cases "placeLocked acc req qty lp mangle s2")
    have res: "s' = s3" "r = Ok resp \<Longrightarrow> r3 = Ok resp" "\<forall>resp. r3 \<noteq> Ok resp \<Longrightarrow> r = r3" for resp
      using assms(2) unfolding place by (auto simp: go run split: outcome.splits option.splits)
    have clean: "plain_rules (faults s) \<Longrightarrow> mangle = mangleNone"
      using unaryGate_mangle [of "faults s" "''PlaceOrder''" after mangle] go(1) by (simp add: g_def)
    from placeLocked_creates [OF run wf2 go(3)] show ?thesis
    proof
      assume no: "(\<forall>resp. r3 \<noteq> Ok resp) \<and> identity s3 = identity s2"
      then have "r = r3" using res(3) by blast
      with no show ?thesis by (simp add: res(1) id2)
    next
      assume "\<exists>n resp. identity s2 (order_id n) = None \<and> r3 = Ok resp \<and>
        identity s3 = (identity s2)(order_id n \<mapsto> new_key acc req (n - 1)) \<and>
        (mangle = mangleNone \<longrightarrow> osOrderId resp = order_id n)"
      then obtain n resp where new: "identity s (order_id n) = None" "r3 = Ok resp"
          "identity s' = (identity s)(order_id n \<mapsto> new_key acc req (n - 1))"
          "mangle = mangleNone \<longrightarrow> osOrderId resp = order_id n"
        unfolding id2 res(1) by blast
      have "plain_rules (faults s) \<longrightarrow> (\<forall>resp. r = Ok resp \<longrightarrow> osOrderId resp = order_id n)"
        using new(2,4) clean res(2) by fastforce
      with new(1,3) go(2) acc2 show ?thesis by blast
    qed
  qed
qed

end
