(* ===== verification/LivePlacer.thy ===== *)
theory LivePlacer
  imports PlacerTheorems SimIdentity
begin

text \<open>
  The placer of \<open>finambroker/finambroker.go\<close> working against the simulator of \<open>brokersim\<close> over a network
  that loses requests and answers, while other clients, timers and the control plane act between any two of
  its calls. What \<open>placeResolved\<close> relies on is the locale \<open>order_broker\<close>; the simulator provides it.
\<close>

subsection \<open>What a placement relies on\<close>

text \<open>The order a caller asked for.\<close>

definition asked_for :: "string \<Rightarrow> string \<Rightarrow> bool \<Rightarrow> int \<Rightarrow> string \<Rightarrow> order_key \<Rightarrow> bool" where
  "asked_for acc sy b lots cid k \<longleftrightarrow>
     k_account k = acc \<and> k_client k = cid \<and> k_symbol k = sy \<and> k_side k = sideOf b \<and> go_round (k_qty k) = lots"

text \<open>
  \<open>ids w\<close> are the orders the broker holds; \<open>mine cid w\<close> says that \<open>cid\<close> was minted by this placer.
\<close>

locale order_broker =
  fixes p :: "'w placer"
    and acc :: string
    and good :: "'w \<Rightarrow> bool"
    and ids :: "'w \<Rightarrow> string \<rightharpoonup> order_key"
    and mine :: "string \<Rightarrow> 'w \<Rightarrow> bool"
  assumes mints: "good w \<Longrightarrow> wp (nextClientID p) (\<lambda>cid w'. good w' \<and> ids w' = ids w \<and> mine cid w' \<and>
      (\<forall>oid k. ids w oid = Some k \<longrightarrow> k_client k \<noteq> cid)) w"
    and places: "good w \<Longrightarrow> mine cid w \<Longrightarrow> wp (place p kind sy lots price cid) (\<lambda>r w'.
      good w' \<and> mine cid w' \<and> ids w \<subseteq>\<^sub>m ids w' \<and>
      (\<forall>st. r = Inr st \<longrightarrow> osOrderId st \<noteq> '''' \<and>
        (\<exists>k. ids w' (osOrderId st) = Some k \<and> asked_for acc sy (kind_buy kind) lots cid k))) w"
    and finds: "good w \<Longrightarrow> mine cid w \<Longrightarrow> wp (findOrder p cid sy b lots) (\<lambda>r w'.
      good w' \<and> mine cid w' \<and> ids w \<subseteq>\<^sub>m ids w' \<and>
      (\<forall>oid. r = Inr (Some oid) \<longrightarrow> oid \<noteq> '''' \<and> (\<exists>k. ids w' oid = Some k \<and> asked_for acc sy b lots cid k))) w"
    and sleeps: "good w \<Longrightarrow> mine cid w \<Longrightarrow> wp (sleep p d) (\<lambda>_ w'. good w' \<and> mine cid w' \<and> ids w \<subseteq>\<^sub>m ids w') w"
begin

definition kept :: "string \<Rightarrow> 'w \<Rightarrow> 'w \<Rightarrow> bool" where
  "kept cid w w' \<longleftrightarrow> good w' \<and> mine cid w' \<and> ids w \<subseteq>\<^sub>m ids w'"

definition got :: "string \<Rightarrow> bool \<Rightarrow> int \<Rightarrow> string \<Rightarrow> 'w \<Rightarrow> string \<Rightarrow> bool" where
  "got sy b lots cid w oid \<longleftrightarrow> oid \<noteq> '''' \<and> (\<exists>k. ids w oid = Some k \<and> asked_for acc sy b lots cid k)"

lemma kept_trans: "kept cid w w1 \<Longrightarrow> kept cid w1 w2 \<Longrightarrow> kept cid w w2"
  by (auto simp: kept_def intro: map_le_trans)

lemma kept_refl: "good w \<Longrightarrow> mine cid w \<Longrightarrow> kept cid w w"
  by (simp add: kept_def)

lemma kept_start: "kept cid w w1 \<Longrightarrow> good w1 \<and> mine cid w1"
  by (simp add: kept_def)

lemma probes:
  "kept cid w0 w \<Longrightarrow> wp (probeLoop p cid sy b lots n saw)
     (\<lambda>(f, saw') w'. kept cid w0 w' \<and> (\<forall>oid. f = Some oid \<longrightarrow> got sy b lots cid w' oid)) w"
proof (induction n arbitrary: saw w)
  case (Suc n)
  have "wp (sleep p ghostProbeGap) (\<lambda>_ w1. kept cid w0 w1) w"
    using Suc.prems kept_start [OF Suc.prems] kept_trans
    by (intro wp_mono [OF sleeps]) (auto simp: kept_def intro: map_le_trans)
  then show ?case
    unfolding probeLoop.simps wp_bind
  proof (rule wp_mono)
    fix u w1
    assume w1: "kept cid w0 w1"
    show "wp (findOrder p cid sy b lots) (\<lambda>r. wp (case r of
        Inl ferr \<Rightarrow> probeLoop p cid sy b lots n saw
      | Inr None \<Rightarrow> probeLoop p cid sy b lots n True
      | Inr (Some oid) \<Rightarrow> ret (Some oid, saw))
      (\<lambda>(f, saw') w'. kept cid w0 w' \<and> (\<forall>oid. f = Some oid \<longrightarrow> got sy b lots cid w' oid))) w1"
    proof (rule wp_mono [OF finds [where cid = cid]], goal_cases)
      case (3 r w2)
      then have "kept cid w0 w2" using kept_trans [OF w1] by (simp add: kept_def)
      with 3 Suc.IH [of w2] show ?case by (auto simp: got_def split: sum.split option.split)
    qed (use kept_start [OF w1] in simp_all)
  qed
qed simp

lemma rounds:
  "kept cid w0 w \<Longrightarrow> n = 0 \<longrightarrow> fe \<noteq> None \<Longrightarrow> n \<le> cidRetryRounds \<Longrightarrow> fe = None \<longrightarrow> n = cidRetryRounds \<Longrightarrow>
   wp (placeRounds p kind sy lots price cid n fe saw)
     (\<lambda>r w'. kept cid w0 w' \<and> (\<forall>oid. r = Inr oid \<longrightarrow> got sy (kind_buy kind) lots cid w' oid)) w"
proof (induction n arbitrary: fe saw w)
  case 0
  then show ?case by (auto simp: giveUp_def split: if_splits)
next
  case (Suc n)
  let ?Q = "\<lambda>r w'. kept cid w0 w' \<and> (\<forall>oid. r = Inr oid \<longrightarrow> got sy (kind_buy kind) lots cid w' oid)"
  have again: "wp (placeRounds p kind sy lots price cid n (if Suc n = cidRetryRounds then Some e else fe) saw') ?Q w'"
    if "kept cid w0 w'" for w' saw' e
    using that Suc.prems by (intro Suc.IH) auto
  have pause: "wp (whenM (0 < n) (sleep p ghostProbeGap)) (\<lambda>_ w'. kept cid w0 w') w'" if "kept cid w0 w'" for w'
    using that kept_start [OF that]
    by (auto intro!: wp_mono [OF sleeps [where cid = cid]] simp: kept_def intro: map_le_trans)
  show ?case
    unfolding placeRounds.simps wp_bind
  proof (rule wp_mono [OF places [where cid = cid]], goal_cases)
    case (3 r w1)
    then have w1: "kept cid w0 w1" using kept_trans [OF Suc.prems(1)] by (simp add: kept_def)
    show ?case
    proof (cases r)
      case (Inl e)
      show ?thesis
      proof (cases "ambiguous e")
        case True
        have "wp (case f of
            Some oid \<Rightarrow> ret (Inr oid)
          | None \<Rightarrow> do {
              whenM (0 < n) (sleep p ghostProbeGap);
              placeRounds p kind sy lots price cid n (if Suc n = cidRetryRounds then Some e else fe) saw'
            }) ?Q w2"
          if "kept cid w0 w2 \<and> (\<forall>oid. f = Some oid \<longrightarrow> got sy (kind_buy kind) lots cid w2 oid)" for f saw' w2
        proof (cases f)
          case None
          show ?thesis
            unfolding None option.case wp_bind by (rule wp_mono [OF pause again]) (use that in simp)
        qed (use that in simp)
        note go = this
        show ?thesis
          using True unfolding Inl sum.case
          by (simp only: simp_thms if_False wp_bind, intro wp_mono [OF probes [OF w1]])
            (simp only: split_beta, rule go)
      qed (use w1 Inl in simp)
    next
      case (Inr st)
      with 3 w1 show ?thesis by (simp add: got_def)
    qed
  qed (use kept_start [OF Suc.prems(1)] in simp_all)
qed

theorem placeResolved_got:
  assumes "good w"
  shows "wp (placeResolved p kind sy lots price) (\<lambda>r w'. good w' \<and> ids w \<subseteq>\<^sub>m ids w' \<and>
    (\<forall>oid. r = Inr oid \<longrightarrow> oid \<noteq> '''' \<and> ids w oid = None \<and>
       (\<exists>cid k. mine cid w' \<and> ids w' oid = Some k \<and> asked_for acc sy (kind_buy kind) lots cid k))) w"
  unfolding placeResolved_def wp_bind
proof (rule wp_mono [OF mints [OF assms]], elim conjE)
  fix cid w1
  assume w1: "good w1" "ids w1 = ids w" "mine cid w1" "\<forall>oid k. ids w oid = Some k \<longrightarrow> k_client k \<noteq> cid"
  have "wp (placeRounds p kind sy lots price cid cidRetryRounds None False)
     (\<lambda>r w'. kept cid w1 w' \<and> (\<forall>oid. r = Inr oid \<longrightarrow> got sy (kind_buy kind) lots cid w' oid)) w1"
    using w1 by (intro rounds kept_refl) (auto simp: cidRetryRounds_def)
  then show "wp (placeRounds p kind sy lots price cid cidRetryRounds None False) (\<lambda>r w'. good w' \<and> ids w \<subseteq>\<^sub>m ids w' \<and>
    (\<forall>oid. r = Inr oid \<longrightarrow> oid \<noteq> '''' \<and> ids w oid = None \<and>
       (\<exists>cid k. mine cid w' \<and> ids w' oid = Some k \<and> asked_for acc sy (kind_buy kind) lots cid k))) w1"
  proof (rule wp_mono)
    fix r w'
    assume r: "kept cid w1 w' \<and> (\<forall>oid. r = Inr oid \<longrightarrow> got sy (kind_buy kind) lots cid w' oid)"
    have new: "ids w oid = None" if "got sy (kind_buy kind) lots cid w' oid" for oid
    proof (cases "ids w oid")
      case (Some k)
      then have "ids w' oid = Some k" using r w1(2) by (force simp: kept_def map_le_def)
      with that w1(4) Some show ?thesis by (auto simp: got_def asked_for_def)
    qed
    show "good w' \<and> ids w \<subseteq>\<^sub>m ids w' \<and>
    (\<forall>oid. r = Inr oid \<longrightarrow> oid \<noteq> '''' \<and> ids w oid = None \<and>
       (\<exists>cid k. mine cid w' \<and> ids w' oid = Some k \<and> asked_for acc sy (kind_buy kind) lots cid k))"
      using r new w1(2) by (auto simp: kept_def got_def)
  qed
qed

end

subsection \<open>The simulator behind a network\<close>

text \<open>
  \<open>fates\<close> says what happens to the next calls (delivered, once the list is used up), \<open>between\<close> what the
  simulator does before each of them and in each pause; \<open>ticks\<close> counts the readings of the client's clock,
  the counters are the two placers'. The record can be extended by what else a caller keeps.
\<close>

datatype fate = Delivered | RequestLost go_error | AnswerLost go_error

record Live =
  sim :: Sim
  fates :: "fate list"
  between :: "sim_op list list"
  ticks :: nat
  makerSeq :: nat
  takerSeq :: nat

record Link =
  lk_codec :: codec
  lk_ctx :: "string list"
  lk_account :: string
  lk_symbols :: "string list"
  lk_clock :: "nat \<Rightarrow> time"
  lk_maker :: string
  lk_taker :: string

definition drift :: "Link \<Rightarrow> 'z Live_scheme \<Rightarrow> 'z Live_scheme" where
  "drift L w =
     (case between w of
        [] \<Rightarrow> w
      | ops # rest \<Rightarrow> w\<lparr>between := rest, sim := sim_run (lk_codec L) ops (sim w)\<rparr>)"

definition answer_of :: "'a outcome \<Rightarrow> go_error + 'a" where
  "answer_of r =
     (case r of Ok x \<Rightarrow> Inr x | Err e \<Rightarrow> Inl e | Panic \<Rightarrow> Inl (Leaf code_Unavailable ''connection closed''))"

definition onSim :: "Link \<Rightarrow> (Sim \<Rightarrow> 'a outcome \<times> Sim) \<Rightarrow> ('z Live_scheme, go_error + 'a) state" where
  "onSim L h = State (\<lambda>w0.
     let w = drift L w0; w1 = w\<lparr>fates := tl (fates w)\<rparr>; r = h (sim w)
     in case fates w of
          RequestLost e # _ \<Rightarrow> (Inl e, w1)
        | AnswerLost e # _ \<Rightarrow> (Inl e, w1\<lparr>sim := snd r\<rparr>)
        | _ \<Rightarrow> (answer_of (fst r), w1\<lparr>sim := snd r\<rparr>))"

definition unimplemented :: go_error where
  "unimplemented = Leaf 12 ''unimplemented''"

definition liveClient :: "Link \<Rightarrow> 'z Live_scheme Client" where
  "liveClient L =
     \<lparr>AccountID = lk_account L, dial = ret None,
      stubPlaceOrder = (\<lambda>m. onSim L (PlaceOrder (lk_codec L) (lk_ctx L) m)),
      stubCancelOrder = (\<lambda>a oid. onSim L (CancelOrder (lk_codec L) (lk_ctx L) a oid)),
      stubGetOrder = (\<lambda>a oid. onSim L (GetOrder (lk_codec L) (lk_ctx L) a oid)),
      stubGetOrders = (\<lambda>a. onSim L (GetOrders (lk_codec L) (lk_ctx L) a)),
      stubGetAccount = (\<lambda>a. onSim L (GetAccount (lk_codec L) (lk_ctx L) (lk_symbols L) a)),
      stubTrades = (\<lambda>a n t t'. ret (Inl unimplemented)),
      stubTransactions = (\<lambda>a n t t'. ret (Inl unimplemented)),
      stubUsage = onSim L (GetUsageMetrics (lk_codec L) (lk_ctx L))\<rparr>"

lemma liveClient_ports [simp]:
  "AccountID (liveClient L) = lk_account L" "dial (liveClient L) = ret None"
  "stubPlaceOrder (liveClient L) m = onSim L (PlaceOrder (lk_codec L) (lk_ctx L) m)"
  "stubCancelOrder (liveClient L) a oid = onSim L (CancelOrder (lk_codec L) (lk_ctx L) a oid)"
  "stubGetOrder (liveClient L) a oid = onSim L (GetOrder (lk_codec L) (lk_ctx L) a oid)"
  "stubGetOrders (liveClient L) a = onSim L (GetOrders (lk_codec L) (lk_ctx L) a)"
  "stubGetAccount (liveClient L) a = onSim L (GetAccount (lk_codec L) (lk_ctx L) (lk_symbols L) a)"
  "stubUsage (liveClient L) = onSim L (GetUsageMetrics (lk_codec L) (lk_ctx L))"
  by (simp_all add: liveClient_def)

definition livePause :: "Link \<Rightarrow> duration \<Rightarrow> ('z Live_scheme, unit) state" where
  "livePause L d = State (\<lambda>w.
     ((), let w1 = drift L w in w1\<lparr>sim := sim_step (lk_codec L) (OpElapse d) (sim w1)\<rparr>))"

definition liveNow :: "Link \<Rightarrow> ('z Live_scheme, time) state" where
  "liveNow L = State (\<lambda>w. (lk_clock L (ticks w), w\<lparr>ticks := ticks w + 1\<rparr>))"

definition makerPlacer :: "Link \<Rightarrow> 'z Live_scheme placer" where
  "makerPlacer L =
     newPlacer (liveClient L) (lk_maker L) makerSeq (\<lambda>n w. w\<lparr>makerSeq := n\<rparr>) (livePause L) (liveNow L)"

definition takerPlacer :: "Link \<Rightarrow> 'z Live_scheme placer" where
  "takerPlacer L =
     newPlacer (liveClient L) (lk_taker L) takerSeq (\<lambda>n w. w\<lparr>takerSeq := n\<rparr>) (livePause L) (liveNow L)"

subsection \<open>Who may use which client id\<close>

definition link_ok :: "Link \<Rightarrow> bool" where
  "link_ok L \<longleftrightarrow>
     length (lk_maker L) = 6 \<and> length (lk_taker L) = 6 \<and> lk_maker L \<noteq> lk_taker L \<and> lk_account L \<noteq> '''' \<and>
     (\<forall>n. six_digit_time (lk_clock L n))"

text \<open>An id the placers of this link have minted so far, if it has their form at all.\<close>

definition allowed :: "Link \<Rightarrow> nat \<Rightarrow> nat \<Rightarrow> string \<Rightarrow> bool" where
  "allowed L m t c \<longleftrightarrow>
     (\<forall>tm n. six_digit_time tm \<longrightarrow> c = cid_of (lk_maker L) tm n \<longrightarrow> n \<le> m) \<and>
     (\<forall>tm n. six_digit_time tm \<longrightarrow> c = cid_of (lk_taker L) tm n \<longrightarrow> n \<le> t)"

definition foreign_id :: "Link \<Rightarrow> string \<Rightarrow> bool" where
  "foreign_id L c \<longleftrightarrow> take 7 c \<noteq> ''q'' @ lk_maker L \<and> take 7 c \<noteq> ''q'' @ lk_taker L"

text \<open>What others may do: anything but use this link's ids or install a rule that mangles answers.\<close>

fun foreign :: "Link \<Rightarrow> sim_op \<Rightarrow> bool" where
  "foreign L (OpPlace ctx req) \<longleftrightarrow> foreign_id L (omClientId req)"
| "foreign L op \<longleftrightarrow> plain_op op"

definition sim_good :: "Link \<Rightarrow> nat \<Rightarrow> nat \<Rightarrow> Sim \<Rightarrow> bool" where
  "sim_good L m t s \<longleftrightarrow>
     sim_wf s \<and> plain_rules (faults s) \<and> (\<forall>oid k. identity s oid = Some k \<longrightarrow> allowed L m t (k_client k))"

definition live_ok :: "Link \<Rightarrow> 'z Live_scheme \<Rightarrow> bool" where
  "live_ok L w \<longleftrightarrow>
     link_ok L \<and> sim_good L (makerSeq w) (takerSeq w) (sim w) \<and>
     (\<forall>ops\<in>set (between w). list_all (foreign L) ops)"

lemma allowed_mono: "allowed L m t c \<Longrightarrow> m \<le> m' \<Longrightarrow> t \<le> t' \<Longrightarrow> allowed L m' t' c"
  by (fastforce simp: allowed_def)

lemma sim_good_mono: "sim_good L m t s \<Longrightarrow> m \<le> m' \<Longrightarrow> t \<le> t' \<Longrightarrow> sim_good L m' t' s"
  using allowed_mono by (fastforce simp: sim_good_def)

lemma foreign_allowed: "link_ok L \<Longrightarrow> foreign_id L c \<Longrightarrow> allowed L m t c"
  by (auto simp: allowed_def foreign_id_def link_ok_def cid_of_def)

lemma made_allowed: "allowed L m t (''b'' @ c)"
  by (auto simp: allowed_def cid_of_def)

lemma minted_allowed:
  assumes "link_ok L" and "six_digit_time tm"
  shows "n \<le> m \<Longrightarrow> allowed L m t (cid_of (lk_maker L) tm n)"
    and "n \<le> t \<Longrightarrow> allowed L m t (cid_of (lk_taker L) tm n)"
proof -
  have lens: "length (lk_maker L) = length (lk_taker L)" "lk_maker L \<noteq> lk_taker L"
    using assms(1) by (simp_all add: link_ok_def)
  have same: "n = n'" if "six_digit_time tm'" "cid_of nc tm n = cid_of nc tm' n'" for nc tm' n'
    using cid_of_inj [OF refl assms(2) that] by blast
  have apart: "cid_of (lk_maker L) tm n \<noteq> cid_of (lk_taker L) tm' n'"
    "cid_of (lk_taker L) tm n \<noteq> cid_of (lk_maker L) tm' n'" if "six_digit_time tm'" for tm' n'
    using cid_of_inj [OF lens(1) assms(2) that] cid_of_inj [OF lens(1) [symmetric] assms(2) that] lens(2)
    by metis+
  show "n \<le> m \<Longrightarrow> allowed L m t (cid_of (lk_maker L) tm n)"
    and "n \<le> t \<Longrightarrow> allowed L m t (cid_of (lk_taker L) tm n)"
    unfolding allowed_def using same apart by metis+
qed

lemma new_cid_allowed: "omClientId req \<noteq> '''' \<longrightarrow> allowed L m t (omClientId req) \<Longrightarrow> allowed L m t (new_cid req n)"
  using made_allowed by (simp add: new_cid_def)

subsection \<open>Every step keeps the orders and the ids\<close>

definition sim_moves_on :: "Link \<Rightarrow> nat \<Rightarrow> nat \<Rightarrow> Sim \<Rightarrow> Sim \<Rightarrow> bool" where
  "sim_moves_on L m t s s' \<longleftrightarrow> sim_good L m t s' \<and> identity s \<subseteq>\<^sub>m identity s'"

lemma place_moves_on:
  assumes "sim_good L m t s" and "omClientId req \<noteq> '''' \<longrightarrow> allowed L m t (omClientId req)"
  shows "sim_moves_on L m t s (snd (PlaceOrder K ctx req s))"
proof -
  obtain r s' where run: "PlaceOrder K ctx req s = (r, s')" by (cases "PlaceOrder K ctx req s")
  have wf: "sim_wf s" using assms(1) by (simp add: sim_good_def)
  have "sim_wf s'" "plain_rules (faults s')"
    using step_kept_all [OF wf, of K "OpPlace ctx req"] requests_plain(1) [of _ s K ctx req] assms(1) run
    by (simp_all add: sim_good_def)
  then show ?thesis
    using PlaceOrder_creates [OF wf run] assms new_cid_allowed [OF assms(2)]
    by (fastforce simp: sim_moves_on_def sim_good_def run new_key_def map_le_def split: if_splits)
qed

lemma step_moves_on:
  assumes "sim_good L m t s" and "link_ok L" and "foreign L op"
  shows "sim_moves_on L m t s (sim_step K op s)"
proof (cases "places op")
  case True
  then obtain ctx req where "op = OpPlace ctx req" by (cases op) auto
  then show ?thesis
    using place_moves_on [OF assms(1)] foreign_allowed [OF assms(2)] assms(3) by simp
next
  case False
  then have "plain_op op" using assms(3) by (cases op) auto
  then show ?thesis
    using assms(1) step_identity [OF _ False] step_kept_all step_plain
    by (simp add: sim_moves_on_def sim_good_def)
qed

lemma moves_on_trans: "sim_moves_on L m t s s' \<Longrightarrow> sim_moves_on L m t s' s'' \<Longrightarrow> sim_moves_on L m t s s''"
  by (auto simp: sim_moves_on_def intro: map_le_trans)

lemma run_moves_on:
  "sim_good L m t s \<Longrightarrow> link_ok L \<Longrightarrow> list_all (foreign L) ops \<Longrightarrow> sim_moves_on L m t s (sim_run K ops s)"
proof (induction ops arbitrary: s)
  case (Cons op ops)
  then have one: "sim_moves_on L m t s (sim_step K op s)" by (simp add: step_moves_on)
  with Cons have "sim_moves_on L m t (sim_step K op s) (sim_run K ops (sim_step K op s))"
    by (simp add: sim_moves_on_def)
  with one show ?case unfolding sim_run_Cons by (rule moves_on_trans)
qed (simp add: sim_run_def sim_moves_on_def)

text \<open>The orders of a live world, and how it moves on.\<close>

abbreviation orders_of :: "'z Live_scheme \<Rightarrow> string \<rightharpoonup> order_key" where
  "orders_of w \<equiv> identity (sim w)"

definition live_on :: "Link \<Rightarrow> 'z Live_scheme \<Rightarrow> 'z Live_scheme \<Rightarrow> bool" where
  "live_on L w w' \<longleftrightarrow>
     live_ok L w' \<and> orders_of w \<subseteq>\<^sub>m orders_of w' \<and> makerSeq w' = makerSeq w \<and> takerSeq w' = takerSeq w \<and>
     Live.more w' = Live.more w"

lemma live_on_refl: "live_ok L w \<Longrightarrow> live_on L w w"
  by (simp add: live_on_def)

lemma live_on_trans: "live_on L w w1 \<Longrightarrow> live_on L w1 w2 \<Longrightarrow> live_on L w w2"
  by (auto simp: live_on_def intro: map_le_trans)

lemma drift_on:
  assumes "live_ok L w"
  shows "live_on L w (drift L w)"
proof (cases "between w")
  case (Cons ops rest)
  with assms run_moves_on [of L "makerSeq w" "takerSeq w" "sim w" ops "lk_codec L"] show ?thesis
    by (simp add: drift_def live_on_def live_ok_def sim_moves_on_def)
qed (simp add: drift_def live_on_refl assms)

text \<open>A call whose handler moves the simulator on moves the world on; a proper answer is the handler's.\<close>

lemma onSim_wp:
  assumes "live_ok L w"
    and "\<And>s. sim_good L (makerSeq w) (takerSeq w) s \<Longrightarrow> sim_moves_on L (makerSeq w) (takerSeq w) s (snd (h s))"
  shows "wp (onSim L h) (\<lambda>r w'. live_on L w w' \<and>
    (\<forall>x. r = Inr x \<longrightarrow> (\<exists>s. sim_good L (makerSeq w) (takerSeq w) s \<and> h s = (Ok x, sim w')))) w"
proof -
  define w1 where "w1 = drift L w"
  have on: "live_on L w w1" using drift_on [OF assms(1)] by (simp add: w1_def)
  then have seqs: "makerSeq w1 = makerSeq w" "takerSeq w1 = takerSeq w" by (simp_all add: live_on_def)
  have good: "sim_good L (makerSeq w) (takerSeq w) (sim w1)"
    using on by (auto simp: live_on_def live_ok_def)
  have "live_on L w1 (w1\<lparr>fates := fs\<rparr>)" "live_on L w1 (w1\<lparr>fates := fs, sim := snd (h (sim w1))\<rparr>)" for fs
    using on assms(2) [OF good] by (auto simp: live_on_def live_ok_def sim_moves_on_def seqs)
  note moved = this [THEN live_on_trans [OF on]]
  have ok: "h (sim w1) = (Ok x, snd (h (sim w1)))" if "answer_of (fst (h (sim w1))) = Inr x" for x
    using that by (cases "h (sim w1)") (auto simp: answer_of_def split: outcome.splits)
  show ?thesis
    unfolding onSim_def wp_State Let_def w1_def [symmetric]
    using moved good ok by (auto split: list.split fate.split)
qed

end
