(* ===== verification/LiveContract.thy ===== *)
theory LiveContract
  imports LivePlacer
begin

text \<open>
  The simulator behind a network keeps what \<open>placeResolved\<close> relies on: the contract \<open>order_broker\<close> holds of the
  maker's and of the taker's placer over it.
\<close>

subsection \<open>The simulator keeps the contract\<close>

lemma wp_unary_live [simp]:
  "wp (unary (liveClient L) f g stub) Q w =
     wp stub (\<lambda>r. Q (case r of Inl e \<Rightarrow> Inl (g e) | Inr x \<Rightarrow> Inr x)) w"
  by (simp add: unary_def liveClient_def)

lemma checkAccount_id:
  assumes "sim_wf s" and "accounts s0 = accounts s" and "checkAccount K ctx k s0 = Ok (acc, t)" and "k \<noteq> ''''"
  shows "accounts s k = Some acc" and "a_id acc = k"
proof -
  show "accounts s k = Some acc"
    using assms(2-) by (auto simp: checkAccount_def Let_def split: outcome.splits prod.splits if_splits option.splits)
  then show "a_id acc = k" using wf_account [OF assms(1)] by (simp add: account_ok_def)
qed

definition req_key :: "OrderMsg \<Rightarrow> order_key" where
  "req_key req =
     \<lparr>k_account = omAccount req, k_client = omClientId req, k_symbol = omSymbol req, k_side = omSide req,
      k_qty = parseDec (omQuantity req)\<rparr>"

lemma placeOrder_live:
  assumes "live_ok L w" and "omAccount req = lk_account L" and "omClientId req \<noteq> ''''"
    and "allowed L (makerSeq w) (takerSeq w) (omClientId req)"
  shows "wp (finam_PlaceOrder (liveClient L) req) (\<lambda>r w'. live_on L w w' \<and>
    (\<forall>st. r = Inr st \<longrightarrow> osOrderId st \<noteq> '''' \<and> orders_of w' (osOrderId st) = Some (req_key req))) w"
proof -
  have entered: "osOrderId st \<noteq> '''' \<and> identity s' (osOrderId st) = Some (req_key req)"
    if good: "sim_good L (makerSeq w) (takerSeq w) s" and run: "PlaceOrder (lk_codec L) (lk_ctx L) req s = (Ok st, s')"
    for s st s'
  proof -
    have wf: "sim_wf s" and plain: "plain_rules (faults s)" using good by (simp_all add: sim_good_def)
    obtain n acc t s0 where new: "identity s' = (identity s)(order_id n \<mapsto> new_key acc req (n - 1))"
        "osOrderId st = order_id n" "accounts s0 = accounts s"
        "checkAccount (lk_codec L) (lk_ctx L) (omAccount req) s0 = Ok (acc, t)"
      using PlaceOrder_creates [OF wf run] plain by auto
    have "lk_account L \<noteq> ''''" using assms(1) by (simp add: live_ok_def link_ok_def)
    then have "a_id acc = omAccount req" using checkAccount_id(2) [OF wf new(3,4)] assms(2) by simp
    then show ?thesis using new(1,2) assms(3) by (simp add: new_key_def req_key_def new_cid_def)
  qed
  show ?thesis
    unfolding finam_PlaceOrder_def wp_unary_live liveClient_ports
    by (rule wp_mono [OF onSim_wp [OF assms(1) place_moves_on]])
      (use assms(4) entered in \<open>auto split: sum.splits\<close>)
qed

definition mine :: "Link \<Rightarrow> string \<Rightarrow> 'z Live_scheme \<Rightarrow> bool" where
  "mine L cid w \<longleftrightarrow> client_made cid \<and> allowed L (makerSeq w) (takerSeq w) cid"

lemma mine_on: "mine L cid w \<Longrightarrow> live_on L w w' \<Longrightarrow> mine L cid w'"
  by (simp add: mine_def live_on_def)

lemma live_onD: "live_on L w w' \<Longrightarrow> live_ok L w' \<and> orders_of w \<subseteq>\<^sub>m orders_of w'"
  by (simp add: live_on_def)

lemma newPlace_live:
  assumes "live_ok L w" and "mine L cid w"
  shows "wp (newPlace (liveClient L) kind sy lots price cid) (\<lambda>r w'. live_on L w w' \<and>
    (\<forall>st. r = Inr st \<longrightarrow> osOrderId st \<noteq> '''' \<and>
      (\<exists>k. orders_of w' (osOrderId st) = Some k \<and> asked_for (lk_account L) sy (kind_buy kind) lots cid k))) w"
proof -
  have go: "wp (finam_PlaceOrder (liveClient L) req) (\<lambda>r w'. live_on L w w' \<and>
      (\<forall>st. r = Inr st \<longrightarrow> osOrderId st \<noteq> '''' \<and>
        (\<exists>k. orders_of w' (osOrderId st) = Some k \<and> asked_for (lk_account L) sy b lots cid k))) w"
    if "omAccount req = lk_account L" "omClientId req = cid" "asked_for (lk_account L) sy b lots cid (req_key req)"
    for req b
    by (rule wp_mono [OF placeOrder_live [OF assms(1)]]) (use assms(2) that in \<open>auto simp: mine_def client_made_def\<close>)
  show ?thesis
    by (cases kind; simp add: newPlace_def PlaceLimitOrderBuy_def PlaceLimitOrderSell_def PlaceMarketOrderBuy_def
        PlaceMarketOrderSell_def placeLimitOrder_def placeMarketOrder_def; rule go)
      (simp_all add: asked_for_def req_key_def kind_buy_def)
qed

lemma query_moves_on:
  "sim_good L m t s \<Longrightarrow> link_ok L \<Longrightarrow> \<not> places op \<Longrightarrow> plain_op op \<Longrightarrow>
     sim_moves_on L m t s (sim_step K op s) \<and> identity (sim_step K op s) = identity s"
  using step_moves_on [of L m t s op K] step_identity [of s op K]
  by (cases op) (simp_all add: sim_good_def)

lemma newFind_live:
  assumes "live_ok L w" and "mine L cid w"
  shows "wp (newFind (liveClient L) cid sy b lots) (\<lambda>r w'. live_on L w w' \<and>
    (\<forall>oid. r = Inr (Some oid) \<longrightarrow> oid \<noteq> '''' \<and>
      (\<exists>k. orders_of w' oid = Some k \<and> asked_for (lk_account L) sy b lots cid k))) w"
proof -
  have link: "link_ok L" and cid: "cid \<noteq> ''''" using assms by (simp_all add: live_ok_def mine_def client_made_def)
  then have acc: "lk_account L \<noteq> ''''" by (simp add: link_ok_def)
  have moves: "sim_moves_on L m t s (snd (GetOrders (lk_codec L) (lk_ctx L) (lk_account L) s))"
    "identity (snd (GetOrders (lk_codec L) (lk_ctx L) (lk_account L) s)) = identity s"
    if "sim_good L m t s" for m t s
    using query_moves_on [OF that link, of "OpGetOrders (lk_ctx L) (lk_account L)" "lk_codec L"] by simp_all
  have found: "osOrderId st \<noteq> '''' \<and>
      (\<exists>k. identity s' (osOrderId st) = Some k \<and> asked_for (lk_account L) sy b lots cid k)"
    if good: "sim_good L (makerSeq w) (takerSeq w) s"
      and run: "GetOrders (lk_codec L) (lk_ctx L) (lk_account L) s = (Ok sts, s')"
      and st: "find (\<lambda>st. omClientId (osOrder st) = cid) sts = Some st" "matchesIntent st sy b lots"
    for s sts s' st
  proof -
    have wf: "sim_wf s" using good by (simp add: sim_good_def)
    from st(1) have mem: "st \<in> set sts" "omClientId (osOrder st) = cid"
      by (auto simp: find_Some_iff set_conv_nth)
    obtain acc' t where listed:
        "checkAccount (lk_codec L) (lk_ctx L) (lk_account L)
           (s\<lparr>faults := snd (gateReadOnly ''GetOrders'' (faults s))\<rparr>) = Ok (acc', t)"
        "sts = map orderState (filter (\<lambda>o'. ordersListIncludesTerminal (s_cfg s) \<or> \<not> terminal o')
           (map (\<lambda>oid. the (sim_orders s oid)) (a_orders acc')))"
      using run by (auto simp: GetOrders_def Let_def split_beta split: option.splits outcome.splits prod.splits)
    have known: "accounts s (lk_account L) = Some acc'"
      using checkAccount_id(1) [OF wf _ listed(1) acc] by simp
    from mem(1) listed(2) obtain oid where oid: "oid \<in> set (a_orders acc')" "st = orderState (the (sim_orders s oid))"
      by auto
    from wf_account [OF wf known] oid(1) have "\<exists>c. owns s (lk_account L) oid c" by (simp add: account_ok_def)
    then obtain o' where o': "sim_orders s oid = Some o'" "o_account o' = lk_account L" by (auto simp: owns_def)
    have "order_ok s oid o'" by (rule wf_order [OF wf o'(1)])
    then obtain n where "o_id o' = oid" "oid = order_id n" unfolding order_ok_def by blast
    then have "o_id o' = oid" "oid \<noteq> ''''" by simp_all
    moreover have "identity s' oid = Some (order_key_of o')"
      using moves(2) [OF good] run o'(1) by (simp add: identity_def)
    moreover have "asked_for (lk_account L) sy b lots cid (order_key_of o')"
      using st(2) mem(2) o' oid(2)
      by (simp add: matchesIntent_def asked_for_def order_key_of_def orderState_def SideMatches_def InitialLots_def)
    ultimately show ?thesis using oid(2) o'(1) by (simp add: orderState_def)
  qed
  show ?thesis
    unfolding newFind_def FindOrderByClientID_def finam_GetOrders_def wp_bind wp_if wp_unary_live liveClient_ports
    using cid
    by (auto intro!: wp_mono [OF onSim_wp [OF assms(1) moves(1)]] dest!: found split: sum.splits option.splits if_splits)
qed

lemma livePause_wp:
  assumes "live_ok L w"
  shows "wp (livePause L d) (\<lambda>_ w'. live_on L w w') w"
proof -
  define w1 where "w1 = drift L w"
  have on: "live_on L w w1" using drift_on [OF assms] by (simp add: w1_def)
  then have good: "sim_good L (makerSeq w1) (takerSeq w1) (sim w1)" and link: "link_ok L"
    and others: "\<forall>ops\<in>set (between w1). list_all (foreign L) ops"
    unfolding live_on_def live_ok_def by blast+
  have "sim_moves_on L (makerSeq w1) (takerSeq w1) (sim w1) (sim_step (lk_codec L) (OpElapse d) (sim w1))"
    by (rule query_moves_on [OF good link, THEN conjunct1]) simp_all
  then have "live_on L w1 (w1\<lparr>sim := sim_step (lk_codec L) (OpElapse d) (sim w1)\<rparr>)"
    using link others by (simp add: live_on_def live_ok_def sim_moves_on_def del: sim_step.simps)
  then show ?thesis
    unfolding livePause_def wp_State Let_def w1_def [symmetric] prod.case by (rule live_on_trans [OF on])
qed

text \<open>Minting raises the counter, so the new id is on no order.\<close>

lemma mint_maker:
  assumes "live_ok L w"
  shows "wp (nextClientID (makerPlacer L)) (\<lambda>cid w'. live_ok L w' \<and> orders_of w' = orders_of w \<and> mine L cid w' \<and>
    Live.more w' = Live.more w \<and> (\<forall>oid k. orders_of w oid = Some k \<longrightarrow> k_client k \<noteq> cid)) w"
proof -
  define cid where "cid = cid_of (lk_maker L) (lk_clock L (ticks w)) (makerSeq w + 1)"
  then have minted: "cid_of (lk_maker L) (lk_clock L (ticks w)) (Suc (makerSeq w)) = cid" by simp
  have link: "link_ok L" and six: "six_digit_time (lk_clock L (ticks w))"
    using assms by (simp_all add: live_ok_def link_ok_def)
  have "allowed L (makerSeq w + 1) (takerSeq w) cid"
    unfolding cid_def by (rule minted_allowed(1) [OF link six]) simp
  moreover have "\<not> allowed L (makerSeq w) (takerSeq w) cid"
  proof
    assume "allowed L (makerSeq w) (takerSeq w) cid"
    then have "makerSeq w + 1 \<le> makerSeq w" using six unfolding allowed_def cid_def by blast
    then show False by simp
  qed
  moreover have "client_made cid" by (simp add: cid_def cid_of_def client_made_def)
  ultimately show ?thesis
    using assms sim_good_mono [of L "makerSeq w" "takerSeq w" "sim w" "makerSeq w + 1"]
    by (auto simp: nextClientID_def seqAdd_def makerPlacer_def newPlacer_def liveNow_def Let_def live_ok_def
        mine_def sim_good_def minted)
qed

lemma mint_taker:
  assumes "live_ok L w"
  shows "wp (nextClientID (takerPlacer L)) (\<lambda>cid w'. live_ok L w' \<and> orders_of w' = orders_of w \<and> mine L cid w' \<and>
    Live.more w' = Live.more w \<and> (\<forall>oid k. orders_of w oid = Some k \<longrightarrow> k_client k \<noteq> cid)) w"
proof -
  define cid where "cid = cid_of (lk_taker L) (lk_clock L (ticks w)) (takerSeq w + 1)"
  then have minted: "cid_of (lk_taker L) (lk_clock L (ticks w)) (Suc (takerSeq w)) = cid" by simp
  have link: "link_ok L" and six: "six_digit_time (lk_clock L (ticks w))"
    using assms by (simp_all add: live_ok_def link_ok_def)
  have "allowed L (makerSeq w) (takerSeq w + 1) cid"
    unfolding cid_def by (rule minted_allowed(2) [OF link six]) simp
  moreover have "\<not> allowed L (makerSeq w) (takerSeq w) cid"
  proof
    assume "allowed L (makerSeq w) (takerSeq w) cid"
    then have "takerSeq w + 1 \<le> takerSeq w" using six unfolding allowed_def cid_def by blast
    then show False by simp
  qed
  moreover have "client_made cid" by (simp add: cid_def cid_of_def client_made_def)
  ultimately show ?thesis
    using assms sim_good_mono [of L "makerSeq w" "takerSeq w" "sim w" "makerSeq w" "takerSeq w + 1"]
    by (auto simp: nextClientID_def seqAdd_def takerPlacer_def newPlacer_def liveNow_def Let_def live_ok_def
        mine_def sim_good_def minted)
qed

text \<open>\<open>rest\<close> is what the caller keeps besides; no placement touches it.\<close>

definition with_rest :: "Link \<Rightarrow> 'z \<Rightarrow> 'z Live_scheme \<Rightarrow> bool" where
  "with_rest L rest w \<longleftrightarrow> live_ok L w \<and> Live.more w = rest"

lemma contract:
  assumes "with_rest L rest w" and "mine L cid w"
  shows "wp (newPlace (liveClient L) kind sy lots price cid) (\<lambda>r w'. with_rest L rest w' \<and> mine L cid w' \<and>
      orders_of w \<subseteq>\<^sub>m orders_of w' \<and> (\<forall>st. r = Inr st \<longrightarrow> osOrderId st \<noteq> '''' \<and>
        (\<exists>k. orders_of w' (osOrderId st) = Some k \<and> asked_for (lk_account L) sy (kind_buy kind) lots cid k))) w"
    and "wp (newFind (liveClient L) cid sy b lots) (\<lambda>r w'. with_rest L rest w' \<and> mine L cid w' \<and>
      orders_of w \<subseteq>\<^sub>m orders_of w' \<and> (\<forall>oid. r = Inr (Some oid) \<longrightarrow> oid \<noteq> '''' \<and>
        (\<exists>k. orders_of w' oid = Some k \<and> asked_for (lk_account L) sy b lots cid k))) w"
    and "wp (livePause L d) (\<lambda>_ w'. with_rest L rest w' \<and> mine L cid w' \<and> orders_of w \<subseteq>\<^sub>m orders_of w') w"
proof -
  have ok: "live_ok L w" using assms(1) by (simp add: with_rest_def)
  have on: "with_rest L rest w' \<and> mine L cid w' \<and> orders_of w \<subseteq>\<^sub>m orders_of w'" if "live_on L w w'" for w'
    using that assms mine_on [OF assms(2) that] by (simp add: with_rest_def live_on_def)
  show "wp (newPlace (liveClient L) kind sy lots price cid) (\<lambda>r w'. with_rest L rest w' \<and> mine L cid w' \<and>
      orders_of w \<subseteq>\<^sub>m orders_of w' \<and> (\<forall>st. r = Inr st \<longrightarrow> osOrderId st \<noteq> '''' \<and>
        (\<exists>k. orders_of w' (osOrderId st) = Some k \<and> asked_for (lk_account L) sy (kind_buy kind) lots cid k))) w"
    by (rule wp_mono [OF newPlace_live [OF ok assms(2)]]) (use on in blast)
  show "wp (newFind (liveClient L) cid sy b lots) (\<lambda>r w'. with_rest L rest w' \<and> mine L cid w' \<and>
      orders_of w \<subseteq>\<^sub>m orders_of w' \<and> (\<forall>oid. r = Inr (Some oid) \<longrightarrow> oid \<noteq> '''' \<and>
        (\<exists>k. orders_of w' oid = Some k \<and> asked_for (lk_account L) sy b lots cid k))) w"
    by (rule wp_mono [OF newFind_live [OF ok assms(2)]]) (use on in blast)
  show "wp (livePause L d) (\<lambda>_ w'. with_rest L rest w' \<and> mine L cid w' \<and> orders_of w \<subseteq>\<^sub>m orders_of w') w"
    by (rule wp_mono [OF livePause_wp [OF ok]]) (use on in blast)
qed

lemma placer_ports:
  "place (makerPlacer L) = newPlace (liveClient L)" "place (takerPlacer L) = newPlace (liveClient L)"
  "findOrder (makerPlacer L) = newFind (liveClient L)" "findOrder (takerPlacer L) = newFind (liveClient L)"
  "sleep (makerPlacer L) = livePause L" "sleep (takerPlacer L) = livePause L"
  by (simp_all add: makerPlacer_def takerPlacer_def newPlacer_def)

lemma mints_rest:
  assumes "with_rest L rest w"
  shows "wp (nextClientID (makerPlacer L)) (\<lambda>cid w'. with_rest L rest w' \<and> orders_of w' = orders_of w \<and>
      mine L cid w' \<and> (\<forall>oid k. orders_of w oid = Some k \<longrightarrow> k_client k \<noteq> cid)) w"
    and "wp (nextClientID (takerPlacer L)) (\<lambda>cid w'. with_rest L rest w' \<and> orders_of w' = orders_of w \<and>
      mine L cid w' \<and> (\<forall>oid k. orders_of w oid = Some k \<longrightarrow> k_client k \<noteq> cid)) w"
  using assms by (auto simp: with_rest_def intro: wp_mono [OF mint_maker] wp_mono [OF mint_taker])

interpretation maker: order_broker "makerPlacer L" "lk_account L" "with_rest L rest" orders_of "mine L" for L rest
  by (rule order_broker.intro) (unfold placer_ports, (rule mints_rest contract; assumption)+)

interpretation taker: order_broker "takerPlacer L" "lk_account L" "with_rest L rest" orders_of "mine L" for L rest
  by (rule order_broker.intro) (unfold placer_ports, (rule mints_rest contract; assumption)+)

subsection \<open>Placing over the simulator\<close>

text \<open>An id minted by a placer is on one order of its account at most.\<close>

lemma only_order:
  assumes "live_ok L w" and "mine L cid w" and "orders_of w oid = Some k" and "orders_of w oid' = Some k'"
    and "k_account k' = k_account k" and "k_client k = cid" and "k_client k' = cid"
  shows "oid' = oid"
proof -
  have wf: "sim_wf (sim w)" and made: "client_made cid"
    using assms(1,2) by (auto simp: live_ok_def sim_good_def mine_def)
  from assms(3,4) obtain o1 o2 where o: "sim_orders (sim w) oid = Some o1" "k = order_key_of o1"
      "sim_orders (sim w) oid' = Some o2" "k' = order_key_of o2"
    by (auto simp: identity_def)
  obtain a where "account_ok (sim w) (o_account o1) a" using wf_account_of [OF wf o(1)] .
  then have ids: "clients_ok (sim w) (o_account o1) (clientIDs a)" by (simp add: account_ok_def)
  have "owns (sim w) (o_account o1) oid cid" "owns (sim w) (o_account o1) oid' cid"
    using o assms(5-7) by (auto simp: owns_def order_key_of_def)
  from clients_ok_made [OF ids this(1) made] clients_ok_made [OF ids this(2) made] show ?thesis by simp
qed

end
