(* ===== verification/LiveTheorems.thy ===== *)
theory LiveTheorems
  imports LiveContract SimProtocol
begin

text \<open>
  What the placer achieves over the simulator: exactly-once placement, with a run in which the answer of the
  placement is lost, and a run that shows the limit of the errors \<open>placeResolved\<close> reports as definitive.
\<close>

subsection \<open>A lossy run\<close>

definition sample_link :: Link where
  "sample_link = \<lparr>lk_codec = sample_codec, lk_ctx = sample_ctx, lk_account = ''SIM-1'', lk_symbols = [''A'', ''B''],
     lk_clock = (\<lambda>n. unixEpoch + 36 ^ 5 * second), lk_maker = ''000001'', lk_taker = ''000002''\<rparr>"

definition lossy :: Live where
  "lossy = \<lparr>sim = sample_sim, fates = [AnswerLost (Leaf 14 ''lost'')], between = [], ticks = 0, makerSeq = 0,
     takerSeq = 0\<rparr>"

lemma sample_link_simps [simp]:
  "lk_codec sample_link = sample_codec" "lk_ctx sample_link = sample_ctx" "lk_account sample_link = ''SIM-1''"
  "lk_clock sample_link n = unixEpoch + 36 ^ 5 * second" "lk_maker sample_link = ''000001''" "lk_taker sample_link = ''000002''"
  by (simp_all add: sample_link_def)

lemma lossy_ok: "live_ok sample_link lossy"
proof -
  have "sim_wf sample_sim" unfolding sample_sim_def by (rule wf_NewSim)
  then show ?thesis
    by (simp add: live_ok_def link_ok_def lossy_def sim_good_def six_digit_time_def Unix_def UnixNano_def
        rules_all_def identity_def sample_sim_eq)
qed

definition sample_cid :: string where
  "sample_cid = ''q0000021000001''"

lemma sample_mint: "cid_of ''000002'' (unixEpoch + 36 ^ 5 * second) 1 = sample_cid"
proof -
  have "digit 0 = CHR ''0''" "digit 1 = CHR ''1''" by code_simp+
  then show ?thesis by (simp add: cid_of_def FormatInt_def Unix_def UnixNano_def sample_cid_def digits.simps)
qed

definition sample_market :: OrderMsg where
  "sample_market = \<lparr>omAccount = ''SIM-1'', omSymbol = ''A'', omQuantity = dec 2, omLimitPrice = None,
     omSide = SIDE_BUY, omType = ORDER_TYPE_MARKET, omTif = TIME_IN_FORCE_DAY, omClientId = sample_cid\<rparr>"

definition landed :: Live where
  "landed = lossy\<lparr>fates := [], ticks := 1, takerSeq := 1,
     sim := sim_step sample_codec (OpElapse second) (snd (PlaceOrder sample_codec sample_ctx sample_market sample_sim))\<rparr>"

lemma landed_sim:
  "clock (sim landed) = sample_start + second" "tokens (sim landed) = []" "revokeBefore (sim landed) = 0"
  "accounts (sim landed) = [''SIM-1'' \<mapsto> acc0\<lparr>a_orders := [order_id 1], clientIDs := [sample_cid \<mapsto> order_id 1]\<rparr>]"
  "sim_orders (sim landed) = [order_id 1 \<mapsto> sample_order\<lparr>clientOrderID := sample_cid\<rparr>]"
  "rules (faults (sim landed)) = []" "s_cfg (sim landed) = sample_config" "fates landed = []" "between landed = []"
  by (simp_all add: landed_def lossy_def run_defs sample_sim_eq sample_market_def sample_order_def order_id_def
      sample_cid_def Let_def numeral_2_eq_2)

lemma run_unary_live:
  "run_state (unary (liveClient L) f g stub) w =
     (case run_state stub w of (r, w') \<Rightarrow> (case r of Inl e \<Rightarrow> Inl (g e) | Inr x \<Rightarrow> Inr x, w'))"
  by (simp add: unary_def liveClient_def split: prod.split)

lemma onSim_now:
  "fates w = [] \<Longrightarrow> between w = [] \<Longrightarrow> h (sim w) = (Ok x, s') \<Longrightarrow> run_state (onSim L h) w = (Inr x, w\<lparr>sim := s'\<rparr>)"
  by (cases w) (simp add: onSim_def drift_def answer_of_def)

lemma sample_lost:
  "run_state (newPlace (liveClient sample_link) kindMarketBuy ''A'' 2 0 sample_cid) (lossy\<lparr>ticks := 1, takerSeq := 1\<rparr>) =
     (Inl (Wrapped ''failed to place order'' (Leaf 14 ''lost'')),
      lossy\<lparr>fates := [], ticks := 1, takerSeq := 1,
        sim := snd (PlaceOrder sample_codec sample_ctx sample_market sample_sim)\<rparr>)"
  by (simp add: newPlace_def PlaceMarketOrderBuy_def placeMarketOrder_def finam_PlaceOrder_def run_unary_live
 onSim_def drift_def lossy_def sample_market_def sideOf_def Let_def)

lemma landed_token:
  "clock s = sample_start + second \<Longrightarrow> tokens s = [] \<Longrightarrow> revokeBefore s = 0 \<Longrightarrow> accounts s ''SIM-1'' = Some a \<Longrightarrow>
     checkAccount sample_codec sample_ctx ''SIM-1'' s = Ok (a, unixEpoch + 1000 * second)"
  by (simp add: sample_codec_def sample_ctx_def checkAccount_def checkAuth_def bearerToken_def parseToken_def
      hasPrefix_def hasSuffix_def simTokenPrefix_def simTokenSuffix_def slice_def)

lemma landed_list:
  "fst (GetOrders sample_codec sample_ctx ''SIM-1'' (sim landed)) =
     Ok [orderState (sample_order\<lparr>clientOrderID := sample_cid\<rparr>)]"
  using landed_sim
  by (simp add: GetOrders_def gateReadOnly_def unaryGate_def gate_def noDirective_def landed_token terminal_def
      sample_order_def Let_def)

lemma sample_found:
  "run_state (newFind (liveClient sample_link) sample_cid ''A'' True 2) landed =
     (Inr (Some (order_id 1)), landed\<lparr>sim := snd (GetOrders sample_codec sample_ctx ''SIM-1'' (sim landed))\<rparr>)"
proof -
  have "sample_cid \<noteq> ''''" "go_round 2 = 2" using go_round_of_int [of 2] by (simp_all add: sample_cid_def)
  then show ?thesis
    by (simp add: newFind_def FindOrderByClientID_def finam_GetOrders_def run_unary_live onSim_def drift_def
        landed_sim landed_list answer_of_def orderState_def sample_order_def matchesIntent_def SideMatches_def
        sideOf_def InitialLots_def Let_def)
qed

lemma sample_run_live:
  "result (placeResolved (takerPlacer sample_link) kindMarketBuy ''A'' 2 0) lossy = Inr (order_id 1)"
proof -
  have mint: "run_state (nextClientID (takerPlacer sample_link)) lossy = (sample_cid, lossy\<lparr>ticks := 1, takerSeq := 1\<rparr>)"
    by (simp add: nextClientID_def seqAdd_def takerPlacer_def newPlacer_def liveNow_def lossy_def
        flip: sample_mint)
  have pause: "run_state (livePause sample_link ghostProbeGap)
      (lossy\<lparr>fates := [], ticks := 1, takerSeq := 1,
        sim := snd (PlaceOrder sample_codec sample_ctx sample_market sample_sim)\<rparr>) = ((), landed)"
    by (simp add: livePause_def drift_def landed_def lossy_def ghostProbeGap_def)
  have lost: "ambiguous (Leaf 14 ''lost'')" by (simp add: ambiguous_def codes)
  show ?thesis
    unfolding placeResolved_def cidRetryRounds_def ghostProbes_def numeral_3_eq_3
    by (simp add: result_def mint placer_ports sample_lost [simplified] pause [simplified] sample_found [simplified]
        lost kind_buy_def ghostProbes_def numeral_3_eq_3)
qed

subsection \<open>Exactly-once placement\<close>

text \<open>
  C34. Placing over the simulator is exactly-once: through any losses of requests and answers, retries and
  moves of others in between, an order id that \<open>placeResolved\<close> hands back names an order that was not there
  before, of the wanted account, symbol, side and size, and no other order of the account carries the client
  id under which it was placed. No order disappears.
\<close>

theorem simulator_placement:
  assumes "live_ok L w" and "p = makerPlacer L \<or> p = takerPlacer L"
  shows "wp (placeResolved p kind sy lots price) (\<lambda>r w'. live_ok L w' \<and> orders_of w \<subseteq>\<^sub>m orders_of w' \<and>
    (\<forall>oid. r = Inr oid \<longrightarrow> oid \<noteq> '''' \<and> orders_of w oid = None \<and>
       (\<exists>cid k. orders_of w' oid = Some k \<and> asked_for (lk_account L) sy (kind_buy kind) lots cid k \<and>
          (\<forall>oid' k'. orders_of w' oid' = Some k' \<longrightarrow> k_account k' = lk_account L \<longrightarrow> k_client k' = cid \<longrightarrow>
             oid' = oid)))) w"
proof -
  have start: "with_rest L (Live.more w) w" using assms(1) by (simp add: with_rest_def)
  have "wp (placeResolved p kind sy lots price) (\<lambda>r w'. with_rest L (Live.more w) w' \<and> orders_of w \<subseteq>\<^sub>m orders_of w' \<and>
    (\<forall>oid. r = Inr oid \<longrightarrow> oid \<noteq> '''' \<and> orders_of w oid = None \<and>
       (\<exists>cid k. mine L cid w' \<and> orders_of w' oid = Some k \<and> asked_for (lk_account L) sy (kind_buy kind) lots cid k))) w"
    using maker.placeResolved_got [OF start] taker.placeResolved_got [OF start] assms(2) by (elim disjE) simp_all
  then show ?thesis
  proof (rule wp_mono)
    fix r and w' :: "'a Live_scheme"
    assume "with_rest L (Live.more w) w' \<and> orders_of w \<subseteq>\<^sub>m orders_of w' \<and>
      (\<forall>oid. r = Inr oid \<longrightarrow> oid \<noteq> '''' \<and> orders_of w oid = None \<and>
         (\<exists>cid k. mine L cid w' \<and> orders_of w' oid = Some k \<and> asked_for (lk_account L) sy (kind_buy kind) lots cid k))"
    then show "live_ok L w' \<and> orders_of w \<subseteq>\<^sub>m orders_of w' \<and>
      (\<forall>oid. r = Inr oid \<longrightarrow> oid \<noteq> '''' \<and> orders_of w oid = None \<and>
         (\<exists>cid k. orders_of w' oid = Some k \<and> asked_for (lk_account L) sy (kind_buy kind) lots cid k \<and>
            (\<forall>oid' k'. orders_of w' oid' = Some k' \<longrightarrow> k_account k' = lk_account L \<longrightarrow> k_client k' = cid \<longrightarrow>
               oid' = oid)))"
      using only_order [of L w'] by (fastforce simp: with_rest_def asked_for_def)
  qed
qed

theorem simulator_placement_witness:
  "result (placeResolved (takerPlacer sample_link) kindMarketBuy ''A'' 2 0) lossy = Inr (order_id 1) \<and>
   (\<exists>cid k. orders_of (exec (placeResolved (takerPlacer sample_link) kindMarketBuy ''A'' 2 0) lossy) (order_id 1) = Some k \<and>
      asked_for ''SIM-1'' ''A'' True 2 cid k)"
  using simulator_placement [OF lossy_ok, of "takerPlacer sample_link" kindMarketBuy "''A''" 2 0]
  by (auto simp: wp_iff sample_run_live kind_buy_def)

subsection \<open>A definitive answer on a retry\<close>

text \<open>The same placement, but the token is revoked right after the order landed.\<close>

definition revoked :: Live where
  "revoked = lossy\<lparr>between := [[], [OpExpire]]\<rparr>"

definition cut_off :: "'z Live_scheme \<Rightarrow> bool" where
  "cut_off w \<longleftrightarrow>
     fates w = [] \<and> between w = [] \<and> rules (faults (sim w)) = [] \<and> 1 \<le> revokeBefore (sim w) \<and>
     sim_orders (sim w) (order_id 1) = Some (sample_order\<lparr>clientOrderID := sample_cid\<rparr>)"

lemma revoked_token:
  "1 \<le> revokeBefore s \<Longrightarrow>
     checkAccount sample_codec sample_ctx ''SIM-1'' s = Err (Leaf code_Unauthenticated ''token revoked'')"
  by (simp add: sample_codec_def sample_ctx_def checkAccount_def checkAuth_def bearerToken_def parseToken_def
      hasPrefix_def hasSuffix_def simTokenPrefix_def simTokenSuffix_def slice_def)

lemma cut_off_pause: "cut_off w \<Longrightarrow> wp (livePause sample_link ghostProbeGap) (\<lambda>_ w'. cut_off w') w"
  by (simp add: livePause_def drift_def cut_off_def ghostProbeGap_def Let_def)

lemma cut_off_find:
  assumes "cut_off w" and "cid \<noteq> ''''"
  shows "wp (newFind (liveClient sample_link) cid sy b lots) (\<lambda>r w'. cut_off w' \<and> (\<exists>e. r = Inl e)) w"
  using assms
  by (simp add: newFind_def FindOrderByClientID_def finam_GetOrders_def onSim_def drift_def cut_off_def GetOrders_def
      gateReadOnly_def unaryGate_def gate_def noDirective_def revoked_token answer_of_def Let_def)

lemma cut_off_place:
  assumes "cut_off w"
  shows "wp (newPlace (liveClient sample_link) kindMarketBuy sy lots 0 cid)
    (\<lambda>r w'. cut_off w' \<and> (\<exists>e. r = Inl e \<and> \<not> ambiguous e)) w"
  using assms
  by (simp add: newPlace_def PlaceMarketOrderBuy_def placeMarketOrder_def finam_PlaceOrder_def onSim_def drift_def
      cut_off_def PlaceOrder_def countPlace_def unaryGate_def gate_def noDirective_def revoked_token answer_of_def
      ambiguous_def codes Let_def)

lemma probes_once_cut_off:
  assumes "wp (livePause sample_link ghostProbeGap) (\<lambda>_ w'. cut_off w') w" and "cid \<noteq> ''''"
    and "\<And>w :: 'z Live_scheme. cut_off w \<Longrightarrow>
      wp (probeLoop (takerPlacer sample_link) cid sy b lots n saw) (\<lambda>r w'. cut_off w' \<and> r = (None, saw)) w"
  shows "wp (probeLoop (takerPlacer sample_link) cid sy b lots (Suc n) saw)
    (\<lambda>r w'. cut_off w' \<and> r = (None, saw)) (w :: 'z Live_scheme)"
  unfolding probeLoop.simps placer_ports wp_bind
proof (rule wp_mono [OF assms(1)])
  fix w1 :: "'z Live_scheme" and u
  assume "cut_off w1"
  from cut_off_find [OF this assms(2)]
  show "wp (newFind (liveClient sample_link) cid sy b lots)
    (\<lambda>r. wp (case r of Inl ferr \<Rightarrow> probeLoop (takerPlacer sample_link) cid sy b lots n saw
              | Inr None \<Rightarrow> probeLoop (takerPlacer sample_link) cid sy b lots n True
              | Inr (Some oid) \<Rightarrow> ret (Some oid, saw)) (\<lambda>r w'. cut_off w' \<and> r = (None, saw))) w1"
    by (rule wp_mono) (use assms(3) in auto)
qed

lemma cut_off_probes:
  "cut_off w \<Longrightarrow> cid \<noteq> '''' \<Longrightarrow>
     wp (probeLoop (takerPlacer sample_link) cid sy b lots n saw) (\<lambda>r w'. cut_off w' \<and> r = (None, saw)) w"
  by (induction n arbitrary: w) (simp, rule probes_once_cut_off [OF cut_off_pause])

lemma cut_off_rounds:
  assumes "cut_off w"
  shows "wp (placeRounds (takerPlacer sample_link) kindMarketBuy sy lots 0 cid (Suc n) e saw)
    (\<lambda>r w'. cut_off w' \<and> (\<exists>e. r = Inl e \<and> \<not> MaybeDelivered (Some e))) w"
  unfolding placeRounds.simps placer_ports wp_bind
  by (rule wp_mono [OF cut_off_place [OF assms]]) (auto simp: MaybeDelivered_def)

text \<open>
  A definitive answer on a retry is reported as "nothing rests" although the order of the first round is at
  the broker, active and under the very client id of the call.
\<close>

theorem retry_reject_not_final:
  "wp (placeResolved (takerPlacer sample_link) kindMarketBuy ''A'' 2 0)
     (\<lambda>r w'. (\<exists>e. r = Inl e \<and> \<not> MaybeDelivered (Some e)) \<and>
        (\<exists>o'. sim_orders (sim w') (order_id 1) = Some o' \<and> active o' \<and> clientOrderID o' = sample_cid)) revoked"
proof -
  let ?w = "revoked\<lparr>ticks := 1, takerSeq := 1\<rparr>"
  have mint: "wp (nextClientID (takerPlacer sample_link)) (\<lambda>cid w'. cid = sample_cid \<and> w' = ?w) revoked"
    by (simp add: nextClientID_def seqAdd_def takerPlacer_def newPlacer_def liveNow_def lossy_def revoked_def
        flip: sample_mint)
  let ?w1 = "?w\<lparr>fates := [], between := [[OpExpire]],
    sim := snd (PlaceOrder sample_codec sample_ctx sample_market sample_sim)\<rparr>"
  have lost: "ambiguous (Leaf 14 ''lost'')" by (simp add: ambiguous_def codes)
  have place1: "wp (newPlace (liveClient sample_link) kindMarketBuy ''A'' 2 0 sample_cid)
      (\<lambda>r w'. r = Inl (Wrapped ''failed to place order'' (Leaf 14 ''lost'')) \<and> w' = ?w1) ?w"
    by (simp add: newPlace_def PlaceMarketOrderBuy_def placeMarketOrder_def finam_PlaceOrder_def onSim_def drift_def
        revoked_def lossy_def sample_market_def sideOf_def sim_run_def Let_def)
  have pause1: "wp (livePause sample_link ghostProbeGap) (\<lambda>_ w'. cut_off w') ?w1"
    using landed_sim
    by (simp add: livePause_def drift_def revoked_def lossy_def cut_off_def sim_run_def ExpireTokens_def
        UnixNano_def ghostProbeGap_def landed_def Let_def)
  have cid: "sample_cid \<noteq> ''''" by (simp add: sample_cid_def)
  have buys: "kind_buy kindMarketBuy = True" by (simp add: kind_buy_def)
  have probes: "wp (probeLoop (takerPlacer sample_link) sample_cid ''A'' True 2 ghostProbes False)
      (\<lambda>r w'. cut_off w' \<and> r = (None, False)) ?w1"
    unfolding ghostProbes_def numeral_3_eq_3 by (rule probes_once_cut_off [OF pause1 cid cut_off_probes [OF _ cid]])
  have last: "wp (placeRounds (takerPlacer sample_link) kindMarketBuy ''A'' 2 0 sample_cid (Suc n) e saw)
      (\<lambda>r w'. (\<exists>e. r = Inl e \<and> \<not> MaybeDelivered (Some e)) \<and>
        (\<exists>o'. sim_orders (sim w') (order_id 1) = Some o' \<and> active o' \<and> clientOrderID o' = sample_cid)) w"
    if "cut_off w" for n e saw and w :: Live
    by (rule wp_mono [OF cut_off_rounds [OF that]]) (auto simp: cut_off_def active_def sample_order_def)
  have second: "wp (sleep (takerPlacer sample_link) ghostProbeGap)
      (\<lambda>_. wp (placeRounds (takerPlacer sample_link) kindMarketBuy ''A'' 2 0 sample_cid (Suc n) e saw)
        (\<lambda>r w'. (\<exists>e. r = Inl e \<and> \<not> MaybeDelivered (Some e)) \<and>
          (\<exists>o'. sim_orders (sim w') (order_id 1) = Some o' \<and> active o' \<and> clientOrderID o' = sample_cid))) w"
    if "cut_off w" for n e saw and w :: Live
    unfolding placer_ports by (rule wp_mono [OF cut_off_pause [OF that] last])
  show ?thesis
    unfolding placeResolved_def wp_bind
  proof (rule wp_mono [OF mint], elim conjE)
    fix cid and w' :: Live
    assume w': "cid = sample_cid" "w' = ?w"
    show "wp (placeRounds (takerPlacer sample_link) kindMarketBuy ''A'' 2 0 cid cidRetryRounds None False)
      (\<lambda>r w'. (\<exists>e. r = Inl e \<and> \<not> MaybeDelivered (Some e)) \<and>
        (\<exists>o'. sim_orders (sim w') (order_id 1) = Some o' \<and> active o' \<and> clientOrderID o' = sample_cid)) w'"
      unfolding w' cidRetryRounds_def numeral_3_eq_3
      unfolding placeRounds.simps(2) [of _ _ _ _ _ _ "Suc (Suc 0)"] wp_bind placer_ports(2)
      apply (rule wp_mono [OF place1], elim conjE, hypsubst)
      apply (simp only: sum.case ambiguous_wrap lost not_True_eq_False if_False wp_bind buys)
      apply (rule wp_mono [OF probes])
      apply (auto simp del: placeRounds.simps One_nat_def intro: second)
      done
  qed
qed

end
