(* ===== verification/LiveEngine.thy ===== *)
theory LiveEngine
  imports LiveTheorems EngineTheorems Limiter
begin

text \<open>
  The engine wired as in production, with \<open>finambroker\<close>'s maker and taker and the quota limiter, trading
  against the simulator behind a lossy network. The contract the engine's theorems ask of a broker is
  discharged by the models of \<open>finambroker\<close>, \<open>trade/finam\<close> and \<open>brokersim\<close>.
\<close>

subsection \<open>The wiring\<close>

text \<open>Besides the live world: the limiter, and what was committed to the strategy and booked by the sink.\<close>

record Desk = Live +
  limiter :: QuotaLimiter
  committed :: "Intent list"
  booked :: "(string \<times> bool \<times> int) list"

definition deskPlace :: "Link \<Rightarrow> bool \<Rightarrow> string \<Rightarrow> int \<Rightarrow> real \<Rightarrow> (Desk, go_error + string) state" where
  "deskPlace L b sy n pr = (if b then PlaceBid (makerPlacer L) sy n pr else PlaceAsk (makerPlacer L) sy n pr)"

definition deskTake :: "Link \<Rightarrow> bool \<Rightarrow> string \<Rightarrow> int \<Rightarrow> (Desk, go_error + string) state" where
  "deskTake L b sy n = (if b then takerBuy (takerPlacer L) sy n else takerSell (takerPlacer L) sy n)"

definition deskAllow :: "time \<Rightarrow> int \<Rightarrow> (Desk, bool \<times> time) state" where
  "deskAllow t n = State (\<lambda>w. (fst (Allow t n (limiter w)), w\<lparr>limiter := snd (Allow t n (limiter w))\<rparr>))"

definition deskSpend :: "time \<Rightarrow> int \<Rightarrow> (Desk, unit) state" where
  "deskSpend t n = modify (\<lambda>w. w\<lparr>limiter := Spend t n (limiter w)\<rparr>)"

text \<open>The strategy is its \<open>Peek\<close> and its position, functions of the world.\<close>

definition desk :: "Link \<Rightarrow> EngineConfig \<Rightarrow> ('g RowState \<Rightarrow> Desk \<Rightarrow> Intent) \<Rightarrow> (Desk \<Rightarrow> int) \<Rightarrow> (Desk, 'g) Wiring" where
  "desk L c decide pos =
     \<lparr>cfg = c, Place = deskPlace L, Cancel = makerCancel (liveClient L), Status = makerStatus (liveClient L),
      Take = deskTake L, LimAllow = deskAllow, LimSpend = deskSpend, ClockNow = liveNow L, hasSink = True,
      SinkFill = (\<lambda>sy b n pr. modify (\<lambda>w. w\<lparr>booked := (sy, b, n) # booked w\<rparr>)),
      SinkAmend = (\<lambda>sy b n pr pr'. skip), Peek = decide,
      DeciderCommit = (\<lambda>i t. modify (\<lambda>w. w\<lparr>committed := i # committed w\<rparr>)),
      DeciderPosition = pos, SaveLots = None, MapOrder = (\<lambda>l w. l), RaceAFirst = (\<lambda>w. True)\<rparr>"

definition issued_of :: "Desk \<Rightarrow> string set" where
  "issued_of w = dom (orders_of w)"

text \<open>
  Between two events of the engine the simulator runs operations of others, the fates of calls to come change,
  and the limiter, the strategy and the sink do as they like.
\<close>

definition desk_env :: "Link \<Rightarrow> Desk \<Rightarrow> Desk \<Rightarrow> bool" where
  "desk_env L w w' \<longleftrightarrow>
     (\<exists>ops. list_all (foreign L) ops \<and> sim w' = sim_run (lk_codec L) ops (sim w)) \<and>
     (\<forall>ops\<in>set (between w'). list_all (foreign L) ops) \<and> makerSeq w' = makerSeq w \<and> takerSeq w' = takerSeq w"

subsection \<open>The contract\<close>

abbreviation desk_on :: "Link \<Rightarrow> Desk \<Rightarrow> Desk \<Rightarrow> bool" where
  "desk_on L \<equiv> advances issued_of (live_ok L)"

lemma desk_on_live: "live_on L w w' \<Longrightarrow> desk_on L w w'"
  by (auto simp: advances_def live_on_def issued_of_def map_le_def dom_def)

lemma keeps_worldI: "(\<And>w. live_ok L w \<Longrightarrow> wp m (\<lambda>_ w'. desk_on L w w') w) \<Longrightarrow> keeps_world issued_of (live_ok L) m"
  by (simp add: keeps_world_def wp_def split_beta)

lemma placements_fresh:
  assumes "p = makerPlacer L \<or> p = takerPlacer L"
  shows "places_fresh issued_of (live_ok L) (placeResolved p kind sy n pr)"
proof -
  have got: "wp (placeResolved p kind sy n pr) (\<lambda>r w'. desk_on L w w' \<and>
      (\<forall>oid. r = Inr oid \<longrightarrow> oid \<noteq> '''' \<and> oid \<notin> issued_of w \<and> oid \<in> issued_of w')) w"
    if "live_ok L w" for w
  proof -
    have start: "with_rest L (Live.more w) w" using that by (simp add: with_rest_def)
    show ?thesis
      using assms
    proof
      assume p: "p = makerPlacer L"
      show ?thesis unfolding p
        by (rule wp_mono [OF maker.placeResolved_got [OF start]])
          (auto simp: with_rest_def advances_def issued_of_def map_le_def dom_def)
    next
      assume p: "p = takerPlacer L"
      show ?thesis unfolding p
        by (rule wp_mono [OF taker.placeResolved_got [OF start]])
          (auto simp: with_rest_def advances_def issued_of_def map_le_def dom_def)
    qed
  qed
  then show ?thesis by (auto simp: places_fresh_def keeps_world_def wp_def split_beta)
qed

lemma desk_place_fresh: "places_fresh issued_of (live_ok L) (deskPlace L b sy n pr)"
  using placements_fresh [of "makerPlacer L" L] by (simp add: deskPlace_def PlaceBid_def PlaceAsk_def)

lemma desk_take_fresh: "places_fresh issued_of (live_ok L) (deskTake L b sy n)"
  using placements_fresh [of "takerPlacer L" L] by (simp add: deskTake_def takerBuy_def takerSell_def)

text \<open>The lots a cancel or a status reports are those of an order, so not negative.\<close>

lemma ExecutedLots_orderState [simp]: "ExecutedLots (orderState o') = go_round (executed o')"
  by (simp add: ExecutedLots_def orderState_def)

lemma go_round_nonneg: "0 \<le> x \<Longrightarrow> 0 \<le> go_round x"
  by (simp add: go_round_def)

lemma withdrawn_executed [simp]: "executed (withdrawn st t o') = executed o'"
  by (simp add: withdrawn_def)

lemma reported_nonneg:
  assumes "sim_wf s"
  shows "CancelOrder K ctx acc oid s = (Ok st, s') \<Longrightarrow> 0 \<le> ExecutedLots st"
    and "GetOrder K ctx acc oid s = (Ok st, s') \<Longrightarrow> 0 \<le> ExecutedLots st"
proof -
  have ord: "0 \<le> executed o'" if "sim_orders s oid = Some o'" for oid o'
    using wf_order [OF assms that] by (simp add: order_ok_def)
  show "CancelOrder K ctx acc oid s = (Ok st, s') \<Longrightarrow> 0 \<le> ExecutedLots st"
    by (auto simp: CancelOrder_def countCancel_def Let_def split_beta
        split: unary_gate.splits outcome.splits prod.splits option.splits if_splits intro!: go_round_nonneg dest: ord)
  show "GetOrder K ctx acc oid s = (Ok st, s') \<Longrightarrow> 0 \<le> ExecutedLots st"
    by (auto simp: GetOrder_def Let_def split_beta
        split: outcome.splits prod.splits option.splits if_splits intro!: go_round_nonneg dest: ord)
qed

lemma cancel_live:
  assumes "live_ok L w"
  shows "wp (makerCancel (liveClient L) oid) (\<lambda>r w'. live_on L w w' \<and> (\<forall>k. r = Inr k \<longrightarrow> 0 \<le> k)) w"
proof -
  have link: "link_ok L" using assms by (simp add: live_ok_def)
  have moves: "sim_moves_on L m t s (snd (CancelOrder (lk_codec L) (lk_ctx L) acc oid s))" if "sim_good L m t s" for m t s acc
    using query_moves_on [OF that link, of "OpCancel (lk_ctx L) acc oid" "lk_codec L"] by simp
  show ?thesis
    unfolding makerCancel_def finam_CancelOrder_def wp_bind wp_unary_live liveClient_ports
    by (rule wp_mono [OF onSim_wp [OF assms moves]])
      (auto simp: sim_good_def split: sum.splits dest: reported_nonneg(1))
qed

lemma status_live:
  assumes "live_ok L w"
  shows "wp (makerStatus (liveClient L) oid) (\<lambda>r w'. live_on L w w' \<and> (\<forall>k t. r = Inr (k, t) \<longrightarrow> 0 \<le> k)) w"
proof -
  have link: "link_ok L" using assms by (simp add: live_ok_def)
  have moves: "sim_moves_on L m t s (snd (GetOrder (lk_codec L) (lk_ctx L) acc oid s))" if "sim_good L m t s" for m t s acc
    using query_moves_on [OF that link, of "OpGetOrder (lk_ctx L) acc oid" "lk_codec L"] by simp
  show ?thesis
    unfolding makerStatus_def finam_GetOrder_def wp_bind wp_unary_live liveClient_ports
    by (rule wp_mono [OF onSim_wp [OF assms moves]])
      (auto simp: sim_good_def split: sum.splits dest: reported_nonneg(2))
qed

lemma desk_simps [simp]:
  "cfg (desk L c decide pos) = c" "Place (desk L c decide pos) b sy n pr = deskPlace L b sy n pr"
  "Cancel (desk L c decide pos) = makerCancel (liveClient L)" "Status (desk L c decide pos) = makerStatus (liveClient L)"
  "Take (desk L c decide pos) b sy n = deskTake L b sy n" "LimAllow (desk L c decide pos) = deskAllow"
  "LimSpend (desk L c decide pos) = deskSpend" "ClockNow (desk L c decide pos) = liveNow L" "hasSink (desk L c decide pos)"
  "SinkFill (desk L c decide pos) sy b n pr = modify (\<lambda>w. w\<lparr>booked := (sy, b, n) # booked w\<rparr>)"
  "SinkAmend (desk L c decide pos) sy b n pr pr' = skip" "Peek (desk L c decide pos) = decide"
  "DeciderCommit (desk L c decide pos) i t = modify (\<lambda>w. w\<lparr>committed := i # committed w\<rparr>)"
  "DeciderPosition (desk L c decide pos) = pos" "SaveLots (desk L c decide pos) = None"
  "MapOrder (desk L c decide pos) l w = l" "RaceAFirst (desk L c decide pos) w"
  by (simp_all add: desk_def)

lemma live_ok_desk [simp]:
  "live_ok L (w\<lparr>limiter := q\<rparr>) = live_ok L w" "live_ok L (w\<lparr>booked := bs\<rparr>) = live_ok L w"
  "live_ok L (w\<lparr>committed := cs\<rparr>) = live_ok L w" "live_ok L (w\<lparr>ticks := n\<rparr>) = live_ok L w"
  by (simp_all add: live_ok_def)

lemma desk_env_on: "live_ok L w \<Longrightarrow> desk_env L w w' \<Longrightarrow> desk_on L w w'"
  using run_moves_on [of L "makerSeq w" "takerSeq w" "sim w" _ "lk_codec L"]
  by (fastforce simp: desk_env_def live_ok_def advances_def sim_moves_on_def issued_of_def map_le_def dom_def)

text \<open>The engine's laws of a broker hold of the wiring, for every strategy and every two legs.\<close>

theorem desk_broker:
  assumes "LegA c \<noteq> LegB c" and "LegA c \<noteq> ''''" and "LegB c \<noteq> ''''"
  shows "broker (desk L c decide pos) issued_of (live_ok L) (desk_env L)"
proof
  fix w :: Desk and oid k ended
  assume w: "live_ok L w"
  show "0 \<le> k" if "fst (run_state (Cancel (desk L c decide pos) oid) w) = Inr k"
    using cancel_live [OF w, of oid] that by (simp add: wp_def split_beta)
  show "0 \<le> k" if "fst (run_state (Status (desk L c decide pos) oid) w) = Inr (k, ended)"
    using status_live [OF w, of oid] that by (simp add: wp_def split_beta)
next
  show "keeps_world issued_of (live_ok L) (Cancel (desk L c decide pos) oid)" for oid
    by (rule keeps_worldI) (auto intro: wp_mono [OF cancel_live] desk_on_live)
  show "keeps_world issued_of (live_ok L) (Status (desk L c decide pos) oid)" for oid
    by (rule keeps_worldI) (auto intro: wp_mono [OF status_live] desk_on_live)
qed (use assms desk_place_fresh desk_take_fresh desk_env_on in
    \<open>auto simp: keeps_world_def advances_def issued_of_def deskAllow_def deskSpend_def liveNow_def\<close>)

subsection \<open>A concrete desk\<close>

definition trade_desk :: "(Desk, unit) Wiring" where
  "trade_desk = desk sample_link script_cfg (\<lambda>_ _. buy_two) (\<lambda>w. \<Sum>i\<leftarrow>committed w. Action i * Lots i)"

interpretation desk: broker trade_desk issued_of "live_ok sample_link" "desk_env sample_link"
  unfolding trade_desk_def by (rule desk_broker) simp_all

text \<open>
  C40. The whole stack keeps the legs balanced: the engine with \<open>finambroker\<close>'s maker and taker over the
  simulator, through lost requests and answers, revoked tokens, fills, kills and the other operations of the
  simulator, except that no fault rule makes it answer with a wrong order id and nobody else places under the
  placer's client ids (\<open>live_ok\<close>), for every strategy and configuration. Every order the engine counts is an order of the simulator,
  and unless the engine is halted, its net lots on LegA times the hedge ratio offset those on LegB exactly.
\<close>

theorem live_legs_balanced:
  assumes "LegA c \<noteq> LegB c" and "LegA c \<noteq> ''''" and "LegB c \<noteq> ''''"
    and "live_ok L w0" and "reachable (desk L c decide pos) (desk_env L) w0 s"
  shows "(\<forall>oid a. own s oid = Some a \<longrightarrow> (\<exists>o'. sim_orders (sim (world s)) oid = Some o')) \<and>
    (\<not> Halted s \<longrightarrow> hedgeRatio (desk L c decide pos) * leg_net s (LegA c) + leg_net s (LegB c) = 0)"
proof -
  note B = desk_broker [OF assms(1-3), of L decide pos]
  have inv: "broker.inv (desk L c decide pos) issued_of (live_ok L) s"
    by (rule broker.reachable_inv [OF B assms(5,4)])
  have "dom (own s) \<subseteq> issued_of (world s)"
    using inv by (simp add: broker.inv_def [OF B] broker.base_def [OF B])
  then have "\<exists>o'. sim_orders (sim (world s)) oid = Some o'" if "own s oid = Some a" for oid a
    using that by (fastforce simp: issued_of_def identity_def dom_def)
  then show ?thesis using broker.legs_balance [OF B inv] by simp
qed

subsection \<open>A live run\<close>

text \<open>A maker order of two lots rests on A; one lot of it fills, and three lots are taken on B.\<close>

definition maker_order :: OrderMsg where
  "maker_order = \<lparr>omAccount = ''SIM-1'', omSymbol = ''A'', omQuantity = dec 2, omLimitPrice = dec 100,
     omSide = SIDE_BUY, omType = ORDER_TYPE_LIMIT, omTif = TIME_IN_FORCE_GOOD_TILL_CROSSING, omClientId = ''q0000011000001''\<rparr>"

definition rested :: Sim where
  "rested = snd (PlaceOrder sample_codec sample_ctx maker_order sample_sim)"

definition taker_order :: OrderMsg where
  "taker_order = \<lparr>omAccount = ''SIM-1'', omSymbol = ''B'', omQuantity = dec 3, omLimitPrice = None,
     omSide = SIDE_SELL, omType = ORDER_TYPE_MARKET, omTif = TIME_IN_FORCE_DAY, omClientId = sample_cid\<rparr>"

definition hedged :: Sim where
  "hedged = snd (PlaceOrder sample_codec sample_ctx taker_order rested)"

lemma maker_placed: "\<exists>st. PlaceOrder sample_codec sample_ctx maker_order sample_sim = (Ok st, rested) \<and> osOrderId st = order_id 1"
  by (simp add: rested_def run_defs sample_sim_eq maker_order_def orderState_def order_id_def Let_def)

lemma taker_placed: "\<exists>st. PlaceOrder sample_codec sample_ctx taker_order rested = (Ok st, hedged) \<and> osOrderId st = order_id 3"
  by (simp add: hedged_def rested_def run_defs sample_sim_eq maker_order_def taker_order_def sample_cid_def orderState_def
      order_id_def Let_def)

lemma placed_at_once:
  assumes "run_state (nextClientID p) w = (cid, w1)" and "run_state (place p kind sy lots price cid) w1 = (Inr st, w2)"
  shows "run_state (placeResolved p kind sy lots price) w = (Inr (osOrderId st), w2)"
  unfolding placeResolved_def cidRetryRounds_def numeral_3_eq_3 by (simp add: assms)

lemma maker_mint: "cid_of ''000001'' (unixEpoch + 36 ^ 5 * second) 1 = ''q0000011000001''"
proof -
  have "digit 0 = CHR ''0''" "digit 1 = CHR ''1''" by code_simp+
  then show ?thesis by (simp add: cid_of_def FormatInt_def Unix_def UnixNano_def digits.simps)
qed

lemma desk_places:
  fixes w :: Desk
  assumes "fates w = []" and "between w = []" and "makerSeq w = 0" and "sim w = sample_sim"
  shows "run_state (deskPlace sample_link True ''A'' 2 100) w =
    (Inr (order_id 1), w\<lparr>ticks := ticks w + 1, makerSeq := 1, sim := rested\<rparr>)"
proof -
  let ?w1 = "w\<lparr>ticks := ticks w + 1, makerSeq := 1\<rparr>"
  obtain st where st: "PlaceOrder sample_codec sample_ctx maker_order sample_sim = (Ok st, rested)" "osOrderId st = order_id 1"
    using maker_placed by blast
  have mint: "run_state (nextClientID (makerPlacer sample_link)) w = (''q0000011000001'', ?w1)"
    using assms maker_mint by (simp add: nextClientID_def seqAdd_def makerPlacer_def newPlacer_def liveNow_def)
  have "run_state (onSim sample_link (PlaceOrder sample_codec sample_ctx maker_order)) ?w1 = (Inr st, ?w1\<lparr>sim := rested\<rparr>)"
    by (rule onSim_now) (use assms st in simp_all)
  then have "run_state (place (makerPlacer sample_link) kindLimitBid ''A'' 2 100 ''q0000011000001'') ?w1 =
      (Inr st, ?w1\<lparr>sim := rested\<rparr>)"
    by (simp add: placer_ports newPlace_def PlaceLimitOrderBuy_def placeLimitOrder_def finam_PlaceOrder_def
        run_unary_live sideOf_def flip: maker_order_def)
  from placed_at_once [OF mint this] show ?thesis by (simp add: deskPlace_def PlaceBid_def st)
qed

lemma desk_takes:
  fixes w :: Desk
  assumes "fates w = []" and "between w = []" and "takerSeq w = 0" and "sim w = rested"
  shows "run_state (deskTake sample_link False ''B'' 3) w =
    (Inr (order_id 3), w\<lparr>ticks := ticks w + 1, takerSeq := 1, sim := hedged\<rparr>)"
proof -
  let ?w1 = "w\<lparr>ticks := ticks w + 1, takerSeq := 1\<rparr>"
  obtain st where st: "PlaceOrder sample_codec sample_ctx taker_order rested = (Ok st, hedged)" "osOrderId st = order_id 3"
    using taker_placed by blast
  have mint: "run_state (nextClientID (takerPlacer sample_link)) w = (sample_cid, ?w1)"
    using assms sample_mint by (simp add: nextClientID_def seqAdd_def takerPlacer_def newPlacer_def liveNow_def)
  have "run_state (onSim sample_link (PlaceOrder sample_codec sample_ctx taker_order)) ?w1 = (Inr st, ?w1\<lparr>sim := hedged\<rparr>)"
    by (rule onSim_now) (use assms st in simp_all)
  then have "run_state (place (takerPlacer sample_link) kindMarketSell ''B'' 3 0 sample_cid) ?w1 =
      (Inr st, ?w1\<lparr>sim := hedged\<rparr>)"
    by (simp add: placer_ports newPlace_def PlaceMarketOrderSell_def placeMarketOrder_def finam_PlaceOrder_def
        run_unary_live sideOf_def flip: taker_order_def)
  from placed_at_once [OF mint this] show ?thesis by (simp add: deskTake_def takerSell_def st)
qed

definition desk_world :: Desk where
  "desk_world = \<lparr>sim = sample_sim, fates = [], between = [], ticks = 0, makerSeq = 0, takerSeq = 0,
     limiter = NewQuotaLimiter 0, committed = [], booked = []\<rparr>"

lemma desk_world_ok: "live_ok sample_link desk_world"
  using lossy_ok by (simp add: live_ok_def desk_world_def lossy_def)

lemma desk_limiter [simp]:
  "run_state (deskAllow t n) w = (fst (Allow t n (limiter w)), w\<lparr>limiter := snd (Allow t n (limiter w))\<rparr>)"
  "run_state (deskSpend t n) w = ((), w\<lparr>limiter := Spend t n (limiter w)\<rparr>)"
  "run_state (liveNow sample_link) w = (unixEpoch + 36 ^ 5 * second, w\<lparr>ticks := ticks w + 1\<rparr>)"
  by (simp_all add: deskAllow_def deskSpend_def liveNow_def)

lemma desk_ratio [simp]: "hedgeRatio (desk L script_cfg decide pos) = 3"
  by (simp add: hedgeRatio_def)

definition live_events :: "unit event list" where
  "live_events =
     [EvBook ''A'' 1 100 101, EvBook ''B'' 1 50 51, EvState \<lparr>rsTime = 2, Signal = ()\<rparr>,
      EvFill 3 (order_id 1) ''A'' True 1 100]"

lemma live_run:
  "runs trade_desk live_events (NewEngine trade_desk desk_world) (\<lambda>s. \<not> Halted s \<and> 
     own s = [order_id 1 \<mapsto> (makerAcct ''A'' True 100 2)\<lparr>Seen := 1, Folded := 1, Credited := 1\<rparr>,
       order_id 3 \<mapsto> (takerAcct ''B'' False 3 3)\<lparr>Price := 50, Credited := 3\<rparr>])"
  by (simp add: live_events_def trade_desk_def script_eval desk_world_def Allow_def Spend_def refreshWindow_def
      NewQuotaLimiter_def desk_places desk_takes order_id_nonempty [symmetric])

theorem live_legs_balanced_witness:
  "runs trade_desk live_events (NewEngine trade_desk desk_world) (\<lambda>s.
     3 * leg_net s ''A'' + leg_net s ''B'' = 0 \<and> own s (order_id 3) = Some ((takerAcct ''B'' False 3 3)\<lparr>Price := 50, Credited := 3\<rparr>) \<and>
     (\<exists>o'. sim_orders (sim (world s)) (order_id 3) = Some o'))"
proof -
  define s where "s = run_events trade_desk live_events (NewEngine trade_desk desk_world)"
  have s: "\<not> Halted s" "own s (order_id 3) = Some ((takerAcct ''B'' False 3 3)\<lparr>Price := 50, Credited := 3\<rparr>)"
    using live_run by (simp_all add: runs_def s_def)
  have "reachable trade_desk (desk_env sample_link) desk_world s"
    unfolding s_def by (rule reaches_run_events [OF reaches.start])
  from live_legs_balanced [OF _ _ _ desk_world_ok this [unfolded trade_desk_def]] s
  show ?thesis by (simp add: runs_def s_def [symmetric])
qed

end
