(* ===== verification/MarketHours.thy ===== *)
theory MarketHours
  imports FinamClient
begin

text \<open>
  The client's assets calls, \<open>trade/finam/assets.go\<close>: the trading schedule, the monitor that walks it
  (\<open>monitorMarketOpen\<close>) and the paged instrument directory. The generated stubs and \<open>time.Now\<close> are ports;
  random numbers come from \<open>rand.Int63n\<close>, an argument \<open>Int63n\<close>. Products with a fraction are read as reals.
\<close>

subsection \<open>Delays\<close>

abbreviation minute :: duration where
  "minute \<equiv> 60 * second"

definition jitterFraction :: real where
  "jitterFraction = 20 / 100"

definition nextPollDelay :: "duration \<Rightarrow> duration \<Rightarrow> duration" where
  "nextPollDelay interval jitter = (let d = interval + jitter in if d \<le> 0 then interval else d)"

definition randJitter :: "(int \<Rightarrow> int) \<Rightarrow> duration \<Rightarrow> duration" where
  "randJitter Int63n interval =
     (let span = trunc (real_of_int interval * jitterFraction)
      in if span \<le> 0 then 0 else Int63n (2 * span + 1) - span)"

definition safetyNet :: "(int \<Rightarrow> int) \<Rightarrow> duration \<Rightarrow> duration" where
  "safetyNet Int63n interval = (if interval \<le> 0 then 0 else interval + Int63n interval)"

definition scheduleRetryInterval :: duration where
  "scheduleRetryInterval = minute"

text \<open>The delay \<open>MonitorMarketOpen\<close> hands to the loop for failed fetches.\<close>

definition scheduleRetryDelay :: "(int \<Rightarrow> int) \<Rightarrow> duration" where
  "scheduleRetryDelay Int63n = nextPollDelay scheduleRetryInterval (randJitter Int63n scheduleRetryInterval)"

subsection \<open>Sessions\<close>

record session =
  sessType :: string
  start :: time
  ends :: time

definition isTradingType :: "string \<Rightarrow> bool" where
  "isTradingType ty \<longleftrightarrow> ty = ''EARLY_TRADING'' \<or> ty = ''CORE_TRADING'' \<or> ty = ''LATE_TRADING''"

fun classify :: "session list \<Rightarrow> time \<Rightarrow> bool" where
  "classify [] now = False"
| "classify (s # ss) now =
     (if (now > start s \<or> now = start s) \<and> now < ends s then isTradingType (sessType s) else classify ss now)"

text \<open>The loop over \<open>sessions\<close>; \<open>consider\<close> keeps the earliest time after \<open>now\<close>.\<close>

definition consider_time :: "time \<Rightarrow> time \<Rightarrow> time option \<Rightarrow> time option" where
  "consider_time now t best =
     (if t > now \<and> (case best of None \<Rightarrow> True | Some b \<Rightarrow> t < b) then Some t else best)"

definition nextBoundary :: "session list \<Rightarrow> time \<Rightarrow> time option" where
  "nextBoundary sessions now =
     fold (\<lambda>s best. consider_time now (ends s) (consider_time now (start s) best)) sessions None"

subsection \<open>Schedule calls\<close>

text \<open>A session of the answer: its type and its interval, whose two timestamps may be missing.\<close>

record SessionMsg =
  smType :: string
  smInterval :: "(time option \<times> time option) option"

type_synonym 'w schedule_port = "string \<Rightarrow> ('w, go_error + SessionMsg list) state"

definition fetchSchedule :: "'w Client \<Rightarrow> 'w schedule_port \<Rightarrow> string \<Rightarrow> ('w, go_error + SessionMsg list) state" where
  "fetchSchedule c Schedule symbol =
     unary c (Wrapped ''failed to create grpc connection'') (Wrapped ''failed to get schedule'') (Schedule symbol)"

text \<open>The loop of \<open>GetMarketMode\<close>: a missing timestamp stays the zero time.\<close>

fun modeAt :: "SessionMsg list \<Rightarrow> time \<Rightarrow> string" where
  "modeAt [] now = ''''"
| "modeAt (m # ms) now =
     (case smInterval m of
        None \<Rightarrow> modeAt ms now
      | Some (st, en) \<Rightarrow>
          (let startTime = (case st of None \<Rightarrow> 0 | Some t \<Rightarrow> t); endTime = (case en of None \<Rightarrow> 0 | Some t \<Rightarrow> t)
           in if startTime \<noteq> 0 \<and> endTime \<noteq> 0 \<and> (now > startTime \<or> now = startTime) \<and> now < endTime
              then smType m else modeAt ms now))"

definition GetMarketMode ::
  "'w Client \<Rightarrow> 'w schedule_port \<Rightarrow> ('w, time) state \<Rightarrow> string \<Rightarrow> ('w, go_error + string) state" where
  "GetMarketMode c Schedule now symbol = do {
     r \<leftarrow> fetchSchedule c Schedule symbol;
     case r of
       Inl e \<Rightarrow> ret (Inl e)
     | Inr ms \<Rightarrow> do { t \<leftarrow> now; ret (Inr (modeAt ms t)) }
   }"

fun sessionsOf :: "SessionMsg list \<Rightarrow> session list" where
  "sessionsOf [] = []"
| "sessionsOf (m # ms) =
     (case smInterval m of
        Some (Some a, Some b) \<Rightarrow> \<lparr>sessType = smType m, start = a, ends = b\<rparr> # sessionsOf ms
      | _ \<Rightarrow> sessionsOf ms)"

definition getSchedule ::
  "'w Client \<Rightarrow> 'w schedule_port \<Rightarrow> string \<Rightarrow> ('w, go_error + session list) state" where
  "getSchedule c Schedule symbol = do {
     r \<leftarrow> fetchSchedule c Schedule symbol;
     ret (case r of Inl e \<Rightarrow> Inl e | Inr ms \<Rightarrow> Inr (sessionsOf ms))
   }"

definition MarketOpen ::
  "'w Client \<Rightarrow> 'w schedule_port \<Rightarrow> ('w, time) state \<Rightarrow> string \<Rightarrow> ('w, go_error + bool) state" where
  "MarketOpen c Schedule now symbol = do {
     r \<leftarrow> GetMarketMode c Schedule now symbol;
     ret (case r of Inl e \<Rightarrow> Inl e | Inr ty \<Rightarrow> Inr (isTradingType ty))
   }"

definition IsMarketOpen ::
  "'w Client \<Rightarrow> 'w schedule_port \<Rightarrow> ('w, time) state \<Rightarrow> string \<Rightarrow> ('w, bool) state" where
  "IsMarketOpen c Schedule now symbol = do {
     r \<leftarrow> MarketOpen c Schedule now symbol;
     ret (case r of Inl e \<Rightarrow> False | Inr open' \<Rightarrow> open')
   }"

subsection \<open>The monitor\<close>

text \<open>
  The variables of \<open>monitorMarketOpen\<close>, the instant its timer is set to fire at, and what it told
  \<open>onUpdate\<close> so far, newest first, each report with the clock reading it was computed for.
\<close>

record Monitor =
  sessions :: "session list"
  nextRefreshAt :: time
  firesAt :: time
  reports :: "(time \<times> bool) list"

definition onUpdate :: "time \<Rightarrow> bool \<Rightarrow> Monitor \<Rightarrow> Monitor" where
  "onUpdate now open' m = m\<lparr>reports := (now, open') # reports m\<rparr>"

text \<open>One call of \<open>attemptFetch\<close>: \<open>now\<close> is the clock after \<open>fetch\<close> returned.\<close>

definition attemptFetch :: "go_error + session list \<Rightarrow> time \<Rightarrow> Monitor \<Rightarrow> bool \<times> Monitor" where
  "attemptFetch fetched now m =
     (case fetched of
        Inl e \<Rightarrow> (False, m)
      | Inr ss \<Rightarrow> (True, onUpdate now (classify ss now) (m\<lparr>sessions := ss\<rparr>)))"

definition nextWake :: "duration \<Rightarrow> time \<Rightarrow> time \<Rightarrow> Monitor \<Rightarrow> duration" where
  "nextWake retryDelay now untilNow m =
     (case nextBoundary (sessions m) now of
        None \<Rightarrow> if retryDelay > 0 then retryDelay else millisecond
      | Some boundary \<Rightarrow>
          (let wake = (if boundary < nextRefreshAt m then boundary else nextRefreshAt m)
           in if \<not> wake > now then millisecond else time_sub wake untilNow))"

text \<open>
  What one pass of the loop reads from outside: the clock at its calls of \<open>time.Now\<close> (in \<open>time.Until\<close> and the
  setting of the timer as well), the answer of \<open>fetch\<close> and the drawn delays.
\<close>

record Pass =
  atTick :: time
  fetched :: "go_error + session list"
  atClassify :: time
  atRefresh :: time
  netDelay :: duration
  failDelay :: duration
  atWake :: time
  atUntil :: time
  idleDelay :: duration
  atReset :: time

definition setTimer :: "Pass \<Rightarrow> Monitor \<Rightarrow> Monitor" where
  "setTimer p m = m\<lparr>firesAt := atReset p + nextWake (idleDelay p) (atWake p) (atUntil p) m\<rparr>"

text \<open>Before the loop, after \<open>attempts\<close> failed the first time: the fetch that succeeds, and the first timer.\<close>

fun bootstrap :: "Pass list \<Rightarrow> Monitor option" where
  "bootstrap [] = None"
| "bootstrap (p # ps) =
     (let (ok, m) = attemptFetch (fetched p) (atClassify p)
                      \<lparr>sessions = [], nextRefreshAt = 0, firesAt = 0, reports = []\<rparr>
      in if ok then Some (setTimer p (m\<lparr>nextRefreshAt := atRefresh p + netDelay p\<rparr>)) else bootstrap ps)"

text \<open>The body of the timer case.\<close>

definition refreshDue :: "Pass \<Rightarrow> Monitor \<Rightarrow> bool" where
  "refreshDue p m \<longleftrightarrow> nextBoundary (sessions m) (atTick p) = None \<or> \<not> atTick p < nextRefreshAt m"

definition refresh :: "Pass \<Rightarrow> Monitor \<Rightarrow> Monitor" where
  "refresh p m =
     (let (ok, m1) = attemptFetch (fetched p) (atClassify p) m
      in if ok then m1\<lparr>nextRefreshAt := atRefresh p + netDelay p\<rparr>
         else m1\<lparr>nextRefreshAt := atRefresh p + failDelay p\<rparr>)"

definition onTimer :: "Pass \<Rightarrow> Monitor \<Rightarrow> Monitor" where
  "onTimer p m0 =
     (let m1 = (if nextBoundary (sessions m0) (atTick p) \<noteq> None
                then onUpdate (atTick p) (classify (sessions m0) (atTick p)) m0 else m0);
          m2 = (if refreshDue p m0 then refresh p m1 else m1)
      in setTimer p m2)"

text \<open>The interval floor on entry.\<close>

definition flooredInterval :: "duration \<Rightarrow> duration" where
  "flooredInterval interval = (if interval \<le> 0 then scheduleRetryInterval else interval)"

subsection \<open>The instrument directory\<close>

definition maxPages :: nat where
  "maxPages = 100"

text \<open>The loop, with the pages left; a call may hand back instruments and an error.\<close>

primrec assetPages ::
  "'w Client \<Rightarrow> (int \<Rightarrow> bool \<Rightarrow> ('w, go_error + 'a list \<times> int) state) \<Rightarrow> bool \<Rightarrow> nat \<Rightarrow> 'a list \<Rightarrow> int \<Rightarrow>
   ('w, 'a list \<times> go_error option) state" where
  "assetPages c AllAssets onlyActive 0 out cursor = ret (out, Some (Leaf code_Unknown ''AllAssets: page budget exhausted''))"
| "assetPages c AllAssets onlyActive (Suc n) out cursor = do {
     d \<leftarrow> dial c;
     case d of
       Some e \<Rightarrow> ret (out, Some e)
     | None \<Rightarrow> do {
         r \<leftarrow> AllAssets cursor onlyActive;
         case r of
           Inl e \<Rightarrow> ret (out, Some e)
         | Inr (page, next') \<Rightarrow>
             (let out' = out @ page
              in if next' = 0 \<or> page = [] then ret (out', None)
                 else assetPages c AllAssets onlyActive n out' next')
       }
   }"

definition GetAllAssets ::
  "'w Client \<Rightarrow> (int \<Rightarrow> bool \<Rightarrow> ('w, go_error + 'a list \<times> int) state) \<Rightarrow> bool \<Rightarrow>
   ('w, 'a list \<times> go_error option) state" where
  "GetAllAssets c AllAssets onlyActive = assetPages c AllAssets onlyActive maxPages [] 0"

text \<open>The remaining calls pass the stub's answer and error through.\<close>

definition finam_GetAsset ::
  "'w Client \<Rightarrow> (string \<Rightarrow> string \<Rightarrow> ('w, go_error + 'a) state) \<Rightarrow> string \<Rightarrow> ('w, go_error + 'a) state" where
  "finam_GetAsset c stub symbol = unary c id id (stub symbol (AccountID c))"

definition GetOptionsChain ::
  "'w Client \<Rightarrow> (string \<Rightarrow> ('w, go_error + 'a list) state) \<Rightarrow> string \<Rightarrow> ('w, go_error + 'a list) state" where
  "GetOptionsChain c stub symbol = unary c id id (stub symbol)"

definition GetExchanges ::
  "'w Client \<Rightarrow> ('w, go_error + 'a list) state \<Rightarrow> ('w, go_error + 'a list) state" where
  "GetExchanges c stub = unary c id id stub"

end
