(* ===== verification/MarketTheorems.thy ===== *)
theory MarketTheorems
  imports MarketHours
begin

text \<open>
  What the schedule code promises: the classification is constant between boundaries, the monitor's view is
  that of the cached schedule until the next boundary, the one-shot probe agrees with the walk, and the paged
  directory ends.
\<close>

subsection \<open>Boundaries\<close>

definition boundaries :: "session list \<Rightarrow> time set" where
  "boundaries ss = (\<Union>s\<in>set ss. {start s, ends s})"

lemma boundaries_Cons [simp]: "boundaries (s # ss) = insert (start s) (insert (ends s) (boundaries ss))"
  by (auto simp: boundaries_def)

lemma boundaries_Nil [simp]: "boundaries [] = {}"
  by (simp add: boundaries_def)

text \<open>The loop keeps the least of the times after \<open>now\<close> it has seen.\<close>

definition least_after :: "time \<Rightarrow> time set \<Rightarrow> time option \<Rightarrow> bool" where
  "least_after now T best \<longleftrightarrow>
     (case best of
        None \<Rightarrow> \<forall>t\<in>T. t \<le> now
      | Some b \<Rightarrow> b \<in> T \<and> now < b \<and> (\<forall>t\<in>T. now < t \<longrightarrow> b \<le> t))"

lemma least_after_consider: "least_after now T best \<Longrightarrow> least_after now (insert t T) (consider_time now t best)"
  by (auto simp: least_after_def consider_time_def split: option.splits)

lemma nextBoundary_fold:
  "least_after now T best \<Longrightarrow>
     least_after now (T \<union> boundaries ss)
       (fold (\<lambda>s best. consider_time now (ends s) (consider_time now (start s) best)) ss best)"
proof (induction ss arbitrary: T best)
  case (Cons s ss)
  then have "least_after now (insert (ends s) (insert (start s) T))
      (consider_time now (ends s) (consider_time now (start s) best))"
    by (intro least_after_consider)
  from Cons.IH [OF this] show ?case by (simp add: insert_commute)
qed simp

lemma nextBoundary_least: "least_after now (boundaries ss) (nextBoundary ss now)"
  using nextBoundary_fold [of now "{}" None ss] by (simp add: nextBoundary_def least_after_def)

lemma nextBoundary_None: "nextBoundary ss now = None \<longleftrightarrow> (\<forall>t\<in>boundaries ss. t \<le> now)"
proof
  show "\<forall>t\<in>boundaries ss. t \<le> now" if "nextBoundary ss now = None"
    using nextBoundary_least [of now ss] that by (simp add: least_after_def)
  show "nextBoundary ss now = None" if "\<forall>t\<in>boundaries ss. t \<le> now"
    using nextBoundary_least [of now ss] that by (force simp: least_after_def split: option.splits)
qed

lemma nextBoundary_Some:
  "nextBoundary ss now = Some b \<Longrightarrow> b \<in> boundaries ss \<and> now < b \<and> (\<forall>t\<in>boundaries ss. now < t \<longrightarrow> b \<le> t)"
  using nextBoundary_least [of now ss] by (simp add: least_after_def)

text \<open>No boundary in between, no change of the verdict.\<close>

definition before_boundary :: "session list \<Rightarrow> time \<Rightarrow> time \<Rightarrow> bool" where
  "before_boundary ss now t \<longleftrightarrow> (\<forall>b. nextBoundary ss now = Some b \<longrightarrow> t < b)"

lemma before_boundary_iff: "before_boundary ss now t \<longleftrightarrow> (\<forall>b\<in>boundaries ss. now < b \<longrightarrow> t < b)"
proof (cases "nextBoundary ss now")
  case None
  then have "\<forall>t\<in>boundaries ss. t \<le> now" by (simp only: nextBoundary_None)
  with None show ?thesis by (force simp: before_boundary_def)
next
  case (Some b)
  then show ?thesis using nextBoundary_Some [OF Some] by (force simp: before_boundary_def)
qed

lemma classify_constant:
  assumes "now \<le> t" and "before_boundary ss now t"
  shows "classify ss t = classify ss now"
  using assms(2) unfolding before_boundary_iff
proof (induction ss)
  case (Cons s ss)
  have "start s \<le> t \<longleftrightarrow> start s \<le> now" "t < ends s \<longleftrightarrow> now < ends s"
    using Cons.prems assms(1) by (fastforce simp: not_less)+
  moreover have "classify ss t = classify ss now" using Cons by simp
  ultimately show ?case by auto
qed simp

subsection \<open>The monitor\<close>

text \<open>A run of the monitor: the successful first fetch, then its timer passes, each when the timer has fired.\<close>

inductive monitored :: "Monitor \<Rightarrow> bool" where
  started: "bootstrap ps = Some m \<Longrightarrow> monitored m"
| fired: "monitored m \<Longrightarrow> firesAt m \<le> atTick p \<Longrightarrow> monitored (onTimer p m)"

text \<open>The newest report is the verdict of the schedule now cached, at the reading it was made for.\<close>

definition view_kept :: "Monitor \<Rightarrow> bool" where
  "view_kept m \<longleftrightarrow> (\<exists>now earlier. reports m = (now, classify (sessions m) now) # earlier)"

lemma view_kept_update: "view_kept (onUpdate now (classify (sessions m) now) m)"
  by (simp add: view_kept_def onUpdate_def)

lemma view_kept_timer [simp]: "view_kept (setTimer p m) = view_kept m" "view_kept (m\<lparr>nextRefreshAt := t\<rparr>) = view_kept m"
  by (simp_all add: view_kept_def setTimer_def)

lemma attemptFetch_view:
  "attemptFetch f now m = (ok, m') \<Longrightarrow> ok \<or> view_kept m \<Longrightarrow> view_kept m'"
  by (auto simp: attemptFetch_def view_kept_def onUpdate_def split: sum.splits)

lemma bootstrap_view: "bootstrap ps = Some m \<Longrightarrow> view_kept m"
proof (induction ps)
  case (Cons p ps)
  obtain ok m1 where fetch: "attemptFetch (fetched p) (atClassify p)
      \<lparr>sessions = [], nextRefreshAt = 0, firesAt = 0, reports = []\<rparr> = (ok, m1)"
    by (cases "attemptFetch (fetched p) (atClassify p)
      \<lparr>sessions = [], nextRefreshAt = 0, firesAt = 0, reports = []\<rparr>") auto
  show ?case
  proof (cases ok)
    case True
    with Cons.prems fetch attemptFetch_view [OF fetch] show ?thesis by auto
  next
    case False
    with Cons fetch show ?thesis by simp
  qed
qed simp

lemma refresh_view: "view_kept m \<Longrightarrow> view_kept (refresh p m)"
  unfolding refresh_def using attemptFetch_view [of "fetched p" "atClassify p" m]
  by (cases "attemptFetch (fetched p) (atClassify p) m") simp

lemma onTimer_view:
  assumes "view_kept m"
  shows "view_kept (onTimer p m)"
  using assms refresh_view view_kept_update by (simp add: onTimer_def Let_def)

text \<open>
  C35. Whatever answers and delays the monitor meets, what it last reported is what the schedule it last
  fetched says, from the instant the report was made for until the next boundary of that schedule: it never
  reports a guess, neither on a failed fetch nor on an exhausted schedule.
\<close>

theorem monitor_view:
  assumes "monitored m"
  shows "\<exists>now open' earlier. reports m = (now, open') # earlier \<and>
    (\<forall>t\<ge>now. before_boundary (sessions m) now t \<longrightarrow> classify (sessions m) t = open')"
proof -
  have "view_kept m" using assms
    by induction (simp_all add: bootstrap_view onTimer_view)
  then obtain now open' earlier where "reports m = (now, open') # earlier" "open' = classify (sessions m) now"
    by (auto simp: view_kept_def)
  then show ?thesis using classify_constant by blast
qed

text \<open>A schedule whose second fetch fails after ten seconds, and the boundary it was in flight over.\<close>

definition day :: "session list" where
  "day = [\<lparr>sessType = ''CORE_TRADING'', start = 0, ends = 100 * second\<rparr>,
          \<lparr>sessType = ''CLOSED'', start = 100 * second, ends = 200 * second\<rparr>]"

definition first_pass :: Pass where
  "first_pass = \<lparr>atTick = 0, fetched = Inr day, atClassify = 10 * second, atRefresh = 10 * second,
     netDelay = 80 * second, failDelay = 60 * second, atWake = 10 * second, atUntil = 10 * second,
     idleDelay = 60 * second, atReset = 10 * second\<rparr>"

definition late_pass :: Pass where
  "late_pass = \<lparr>atTick = 90 * second, fetched = Inl (Leaf code_DeadlineExceeded ''timeout''),
     atClassify = 101 * second, atRefresh = 101 * second, netDelay = 80 * second, failDelay = 60 * second,
     atWake = 101 * second, atUntil = 101 * second, idleDelay = 60 * second, atReset = 101 * second\<rparr>"

definition morning :: Monitor where
  "morning = \<lparr>sessions = day, nextRefreshAt = 90 * second, firesAt = 90 * second, reports = [(10 * second, True)]\<rparr>"

lemmas run_monitor_defs = morning_def day_def first_pass_def late_pass_def attemptFetch_def onUpdate_def setTimer_def
  nextWake_def nextBoundary_def consider_time_def isTradingType_def time_sub_def max_duration_def min_duration_def

lemma morning_bootstrap: "bootstrap [first_pass] = Some morning"
  by (simp add: run_monitor_defs)

theorem monitor_view_witness:
  "\<exists>now open' earlier. reports (onTimer late_pass morning) = (now, open') # earlier \<and>
    (\<forall>t\<ge>now. before_boundary (sessions (onTimer late_pass morning)) now t \<longrightarrow>
       classify (sessions (onTimer late_pass morning)) t = open')"
proof (rule monitor_view)
  have "monitored morning" by (rule monitored.started [OF morning_bootstrap])
  then show "monitored (onTimer late_pass morning)"
    by (rule monitored.fired) (simp add: morning_def late_pass_def)
qed

text \<open>
  The refresh blocks the walk: while the fetch hung, the cached schedule closed the market at 100 s, but the
  view stays open until the timer of the failed refresh, a minute after the fetch gave up.
\<close>

theorem fetch_blocks_walk:
  "onTimer late_pass morning =
     \<lparr>sessions = day, nextRefreshAt = 161 * second, firesAt = 161 * second,
      reports = [(90 * second, True), (10 * second, True)]\<rparr>"
  "\<not> classify day (100 * second)"
  by (simp_all add: onTimer_def refreshDue_def refresh_def run_monitor_defs)

text \<open>The timer fires by the next boundary, or a millisecond after it was set when a boundary or refresh is due already.\<close>

lemma nextWake_le:
  assumes "nextBoundary (sessions m) now = Some b" and "now \<le> untilNow"
  shows "untilNow + nextWake d now untilNow m \<le> max b (untilNow + millisecond)"
proof -
  define wake where "wake = (if b < nextRefreshAt m then b else nextRefreshAt m)"
  have "time_sub wake untilNow \<le> max 0 (wake - untilNow)"
    by (auto simp: time_sub_def min_duration_def max_duration_def max_def min_def)
  moreover have "wake \<le> b" by (simp add: wake_def)
  ultimately show ?thesis
    using assms(1) by (auto simp: nextWake_def wake_def [symmetric] Let_def)
qed

lemma nextWake_firesAt [simp]: "nextWake d now u (m\<lparr>firesAt := t\<rparr>) = nextWake d now u m"
  by (cases "nextBoundary (sessions m) now") (simp_all add: nextWake_def)

text \<open>
  C17. The schedule is not slept through: a pass that finds a boundary \<open>b\<close> ahead sets a timer whose pass, at most
  \<open>lag\<close> late, comes by \<open>b\<close> but for the time between the readings; and that pass reports anew, unless its own
  fetch failed.
\<close>

theorem boundary_noticed:
  assumes "nextBoundary (sessions (onTimer p m)) (atWake p) = Some b"
    and "atWake p \<le> atUntil p" and "atUntil p \<le> atReset p"
    and "atTick q \<le> firesAt (onTimer p m) + lag" and "atTick q \<le> atClassify q"
  shows "atTick q \<le> max b (atUntil p + millisecond) + (atReset p - atUntil p) + lag \<and>
    ((\<exists>now open' earlier. reports (onTimer q (onTimer p m)) = (now, open') # earlier \<and> atTick q \<le> now) \<or>
      refreshDue q (onTimer p m) \<and> (\<exists>e. fetched q = Inl e))"
proof -
  obtain m2 where m2: "onTimer p m = setTimer p m2" by (auto simp: onTimer_def Let_def)
  have "firesAt (onTimer p m) = atReset p + nextWake (idleDelay p) (atWake p) (atUntil p) (onTimer p m)"
    unfolding m2 by (simp add: setTimer_def)
  with nextWake_le [OF assms(1,2), of "idleDelay p"] assms(4)
  have in_time: "atTick q \<le> max b (atUntil p + millisecond) + (atReset p - atUntil p) + lag" by simp
  have "(\<exists>now open' earlier. reports (onTimer q (onTimer p m)) = (now, open') # earlier \<and> atTick q \<le> now) \<or>
      refreshDue q (onTimer p m) \<and> (\<exists>e. fetched q = Inl e)"
    using assms(5)
    by (auto simp: onTimer_def [of q] refreshDue_def refresh_def attemptFetch_def onUpdate_def setTimer_def Let_def
        split: sum.split)
  with in_time show ?thesis by blast
qed

text \<open>A pass that refreshes at 90 s; its timer then wakes the monitor at the end of the session, at 100 s.\<close>

definition quiet_pass :: Pass where
  "quiet_pass = first_pass\<lparr>atTick := 90 * second, fetched := Inr day, netDelay := 300 * second,
     atClassify := 91 * second, atRefresh := 91 * second, atWake := 91 * second, atUntil := 91 * second,
     atReset := 91 * second\<rparr>"

definition closing_pass :: Pass where
  "closing_pass = quiet_pass\<lparr>atTick := 100 * second + millisecond, atClassify := 102 * second\<rparr>"

theorem boundary_noticed_witness:
  "atTick closing_pass \<le> max (100 * second) (atUntil quiet_pass + millisecond) +
     (atReset quiet_pass - atUntil quiet_pass) + 5 * millisecond \<and>
   ((\<exists>now open' earlier. reports (onTimer closing_pass (onTimer quiet_pass morning)) = (now, open') # earlier \<and>
       atTick closing_pass \<le> now) \<or>
    refreshDue closing_pass (onTimer quiet_pass morning) \<and> (\<exists>e. fetched closing_pass = Inl e))"
  by (rule boundary_noticed)
    (simp_all add: closing_pass_def quiet_pass_def onTimer_def refreshDue_def refresh_def run_monitor_defs)

subsection \<open>Delays\<close>

definition draws_below :: "(int \<Rightarrow> int) \<Rightarrow> bool" where
  "draws_below f \<longleftrightarrow> (\<forall>n>0. 0 \<le> f n \<and> f n < n)"

lemma safetyNet_bounds:
  "draws_below f \<Longrightarrow> 0 < interval \<Longrightarrow> interval \<le> safetyNet f interval \<and> safetyNet f interval < 2 * interval"
  by (simp add: draws_below_def safetyNet_def)

lemma retry_delay_bounds:
  assumes "draws_below f"
  shows "48 * second \<le> scheduleRetryDelay f \<and> scheduleRetryDelay f \<le> 72 * second"
proof -
  have "trunc (real_of_int scheduleRetryInterval * jitterFraction) = 12 * second"
    by (simp add: trunc_def scheduleRetryInterval_def jitterFraction_def floor_eq_iff)
  then have "randJitter f scheduleRetryInterval = f (24 * second + 1) - 12 * second"
    by (simp add: randJitter_def Let_def)
  moreover have "0 \<le> f (24 * second + 1) \<and> f (24 * second + 1) < 24 * second + 1"
    using assms by (simp add: draws_below_def)
  ultimately show ?thesis by (simp add: scheduleRetryDelay_def nextPollDelay_def scheduleRetryInterval_def Let_def)
qed

subsection \<open>The probe and the walk\<close>

text \<open>A schedule whose timestamps are none of them the zero time.\<close>

definition dated :: "SessionMsg list \<Rightarrow> bool" where
  "dated ms \<longleftrightarrow> (\<forall>m\<in>set ms. \<forall>a b. smInterval m = Some (Some a, Some b) \<longrightarrow> a \<noteq> 0 \<and> b \<noteq> 0)"

lemma modeAt_classify: "dated ms \<Longrightarrow> isTradingType (modeAt ms t) = classify (sessionsOf ms) t"
proof (induction ms)
  case (Cons m ms)
  then have IH: "isTradingType (modeAt ms t) = classify (sessionsOf ms) t" by (simp add: dated_def)
  have zero: "a \<noteq> 0" "b \<noteq> 0" if "smInterval m = Some (Some a, Some b)" for a b
    using Cons.prems that by (simp_all add: dated_def)
  show ?case
  proof (cases "smInterval m")
    case (Some ab)
    obtain st en where ab: "ab = (st, en)" by (cases ab)
    show ?thesis using Some ab IH zero by (cases st; cases en) (auto simp: Let_def)
  qed (simp add: IH)
qed (simp add: isTradingType_def)

text \<open>The one-shot probe answers what the monitor's walk would say of the same answer.\<close>

theorem MarketOpen_classifies:
  assumes "\<And>w ms w'. run_state (Schedule symbol) w = (Inr ms, w') \<Longrightarrow> dated ms"
  shows "MarketOpen c Schedule now symbol = do {
     r \<leftarrow> getSchedule c Schedule symbol;
     case r of Inl e \<Rightarrow> ret (Inl e) | Inr ss \<Rightarrow> do { t \<leftarrow> now; ret (Inr (classify ss t)) } }"
proof (rule state.expand, rule ext)
  fix w
  show "run_state (MarketOpen c Schedule now symbol) w = run_state (do {
     r \<leftarrow> getSchedule c Schedule symbol;
     case r of Inl e \<Rightarrow> ret (Inl e) | Inr ss \<Rightarrow> do { t \<leftarrow> now; ret (Inr (classify ss t)) } }) w"
    using assms modeAt_classify
    by (auto simp: MarketOpen_def GetMarketMode_def getSchedule_def fetchSchedule_def unary_def
        split: prod.split option.split sum.split)
qed

subsection \<open>The directory\<close>

text \<open>A server of pages, which logs the cursors it is asked for; where its cursors lead from the start.\<close>

definition directory_port :: "(int \<Rightarrow> 'a list \<times> int) \<Rightarrow> int \<Rightarrow> bool \<Rightarrow> (int list, go_error + 'a list \<times> int) state" where
  "directory_port serve cursor onlyActive = State (\<lambda>asked. (Inr (serve cursor), asked @ [cursor]))"

primrec cursor_at :: "(int \<Rightarrow> 'a list \<times> int) \<Rightarrow> nat \<Rightarrow> int" where
  "cursor_at serve 0 = 0"
| "cursor_at serve (Suc j) = snd (serve (cursor_at serve j))"

definition last_page :: "(int \<Rightarrow> 'a list \<times> int) \<Rightarrow> nat \<Rightarrow> bool" where
  "last_page serve j \<longleftrightarrow> snd (serve (cursor_at serve j)) = 0 \<or> fst (serve (cursor_at serve j)) = []"

definition pages_upto :: "(int \<Rightarrow> 'a list \<times> int) \<Rightarrow> nat \<Rightarrow> nat \<Rightarrow> 'a list" where
  "pages_upto serve k j = concat (map (\<lambda>i. fst (serve (cursor_at serve i))) [k..<j])"

lemma pages_upto_Cons: "k < j \<Longrightarrow> pages_upto serve k j = fst (serve (cursor_at serve k)) @ pages_upto serve (Suc k) j"
  by (simp add: pages_upto_def upt_conv_Cons)

lemma directory_page:
  assumes "dial c = ret None"
  shows "run_state (assetPages c (directory_port serve) act (Suc n) out (cursor_at serve k)) asked =
    (let out' = out @ fst (serve (cursor_at serve k)); asked' = asked @ [cursor_at serve k]
     in if last_page serve k then ((out', None), asked')
        else run_state (assetPages c (directory_port serve) act n out' (cursor_at serve (Suc k))) asked')"
  using assms by (simp add: directory_port_def last_page_def Let_def split: prod.split)

lemma directory_ends:
  assumes "dial c = ret None"
  shows "k \<le> j \<Longrightarrow> j < k + n \<Longrightarrow> \<forall>i. k \<le> i \<and> i < j \<longrightarrow> \<not> last_page serve i \<Longrightarrow> last_page serve j \<Longrightarrow>
    run_state (assetPages c (directory_port serve) act n out (cursor_at serve k)) asked =
      ((out @ pages_upto serve k (Suc j), None), asked @ map (cursor_at serve) [k..<Suc j])"
proof (induction n arbitrary: k out asked)
  case (Suc n)
  note step = directory_page [OF assms, of serve act n out k asked, unfolded Let_def]
  show ?case
  proof (cases "k = j")
    case True
    then show ?thesis using Suc.prems step by (simp add: pages_upto_Cons) (simp add: pages_upto_def)
  next
    case False
    then have "\<not> last_page serve k" "Suc k \<le> j" using Suc.prems by auto
    then show ?thesis
      using step Suc.IH [of "Suc k" "out @ fst (serve (cursor_at serve k))" "asked @ [cursor_at serve k]"] Suc.prems
      by (simp add: pages_upto_Cons upt_conv_Cons del: upt_Suc assetPages.simps cursor_at.simps)
  qed
qed simp

lemma directory_exhausted:
  assumes "dial c = ret None"
  shows "\<forall>i. k \<le> i \<and> i < k + n \<longrightarrow> \<not> last_page serve i \<Longrightarrow>
    \<exists>e. run_state (assetPages c (directory_port serve) act n out (cursor_at serve k)) asked =
      ((out @ pages_upto serve k (k + n), Some e), asked @ map (cursor_at serve) [k..<k + n])"
proof (induction n arbitrary: k out asked)
  case (Suc n)
  have "\<not> last_page serve k" "\<forall>i. Suc k \<le> i \<and> i < Suc k + n \<longrightarrow> \<not> last_page serve i" using Suc.prems by auto
  then show ?case
    using directory_page [OF assms, of serve act n out k asked, unfolded Let_def]
      Suc.IH [of "Suc k" "out @ fst (serve (cursor_at serve k))" "asked @ [cursor_at serve k]"]
    by (auto simp: pages_upto_Cons upt_conv_Cons simp del: upt_Suc assetPages.simps cursor_at.simps)
qed (simp add: pages_upto_def)

text \<open>
  C36. Following the cursors ends: on any server, \<open>GetAllAssets\<close> asks for the pages in the order of the cursors, each
  once, and at most a hundred. It returns all of them up to the first last page without an error, and with an
  error exactly when a hundred pages did not reach a last one.
\<close>

theorem GetAllAssets_ends:
  assumes "dial c = ret None"
  shows "(\<exists>j<100. (\<forall>i<j. \<not> last_page serve i) \<and> last_page serve j \<and>
      run_state (GetAllAssets c (directory_port serve) onlyActive) [] =
        ((pages_upto serve 0 (Suc j), None), map (cursor_at serve) [0..<Suc j])) \<or>
    (\<forall>i<100. \<not> last_page serve i) \<and>
      (\<exists>e. run_state (GetAllAssets c (directory_port serve) onlyActive) [] =
        ((pages_upto serve 0 100, Some e), map (cursor_at serve) [0..<100]))"
proof (cases "\<exists>j<100. last_page serve j")
  case True
  define j where "j = (LEAST j. last_page serve j)"
  obtain j0 where "j0 < 100" "last_page serve j0" using True by blast
  then have j: "last_page serve j" "j < 100" "\<forall>i<j. \<not> last_page serve i"
    unfolding j_def by (auto intro: LeastI dest: not_less_Least order.strict_trans1 [OF Least_le])
  show ?thesis
    using directory_ends [OF assms, of 0 j 100 serve onlyActive "[]" "[]"] j
    by (auto simp: GetAllAssets_def maxPages_def intro!: exI [of _ j])
next
  case False
  then show ?thesis
    using directory_exhausted [OF assms, of 0 100 serve onlyActive "[]" "[]"]
    by (simp add: GetAllAssets_def maxPages_def)
qed

definition two_pages :: "int \<Rightarrow> string list \<times> int" where
  "two_pages cursor = (if cursor = 0 then ([''A'', ''B''], 7) else ([''C''], 0))"

definition connected :: "int list Client" where
  "connected = \<lparr>AccountID = ''1'', dial = ret None, stubPlaceOrder = (\<lambda>_. ret (Inl (Leaf 12 ''''))),
     stubCancelOrder = (\<lambda>_ _. ret (Inl (Leaf 12 ''''))), stubGetOrder = (\<lambda>_ _. ret (Inl (Leaf 12 ''''))),
     stubGetOrders = (\<lambda>_. ret (Inr [])), stubGetAccount = (\<lambda>_. ret (Inl (Leaf 12 ''''))),
     stubTrades = (\<lambda>_ _ _ _. ret (Inr None)), stubTransactions = (\<lambda>_ _ _ _. ret (Inr None)), stubUsage = ret (Inr [])\<rparr>"

theorem GetAllAssets_ends_witness:
  "run_state (GetAllAssets connected (directory_port two_pages) True) [] = (([''A'', ''B'', ''C''], None), [0, 7])"
proof -
  have last: "last_page two_pages 1" "\<not> last_page two_pages 0"
    by (simp_all add: last_page_def two_pages_def)
  have "dial connected = ret None" by (simp add: connected_def)
  from GetAllAssets_ends [OF this, of two_pages True] obtain j where j: "last_page two_pages j" "\<forall>i<j. \<not> last_page two_pages i"
      "run_state (GetAllAssets connected (directory_port two_pages) True) [] =
        ((pages_upto two_pages 0 (Suc j), None), map (cursor_at two_pages) [0..<Suc j])"
    using last(1) by fastforce
  then have "j = 1" using last by (metis gr0I less_one linorder_neqE_nat)
  with j(3) show ?thesis by (simp add: pages_upto_def two_pages_def)
qed

end
