(* ===== verification/LiveQueries.thy ===== *)
theory LiveQueries
  imports LiveTheorems MarketTheorems
begin

text \<open>
  Round trips through the wire: what the simulator's control plane sets, the client reads back (positions,
  margin, the trading session), the answer being built by \<open>brokersim\<close> and parsed by \<open>trade/finam\<close>.
\<close>

subsection \<open>The account snapshot\<close>

lemma find_concat_option:
  assumes "sy \<in> set syms"
  shows "find (\<lambda>(sy', p). sy' = sy) (filter (\<lambda>(sy, p). Q p)
      (concat (map (\<lambda>sy. case m sy of Some p \<Rightarrow> [(sy, p)] | None \<Rightarrow> []) syms))) =
    (case m sy of Some p \<Rightarrow> if Q p then Some (sy, p) else None | None \<Rightarrow> None)"
  using assms
proof (induction syms)
  case (Cons t syms)
  show ?case
  proof (cases "sy \<in> set syms")
    case True
    with Cons.IH show ?thesis by (cases "t = sy") (auto split: option.splits)
  next
    case False
    have "find (\<lambda>(sy', p). sy' = sy) (filter (\<lambda>(sy, p). Q p)
      (concat (map (\<lambda>sy. case m sy of Some p \<Rightarrow> [(sy, p)] | None \<Rightarrow> []) syms))) = None"
      using False by (auto simp: find_None_iff split: option.splits)
    then show ?thesis using Cons.prems False by (auto split: option.splits)
  qed
qed simp

lemma find_map: "find P (map f xs) = map_option f (find (P \<circ> f) xs)"
  by (induction xs) auto

text \<open>Every open position comes back with its lots, its average and its unrealized result.\<close>

lemma findPosition_snapshot:
  assumes "sy \<in> set syms"
  shows "findPosition (Some (accountSnapshotLocked syms a s)) sy =
    (case positions a sy of
       Some p \<Rightarrow>
         if pqty p \<noteq> 0 then
           (\<lparr>psSymbol = sy, Quantity = pqty p, AveragePrice = pavg p, UnrealizedPnl = unrealizedOf s sy p\<rparr>, True)
         else (no_Position, False)
     | None \<Rightarrow> (no_Position, False))"
proof -
  have "((\<lambda>p. apSymbol p = sy) \<circ> (\<lambda>(sy, p). \<lparr>apSymbol = sy, apQuantity = dec (pqty p), apAverage = dec (pavg p),
      apCurrent = dec (lastOf s sy p), apUnrealized = dec (unrealizedOf s sy p)\<rparr>)) = (\<lambda>(sy', p). sy' = sy)"
    by (auto simp: fun_eq_iff)
  then show ?thesis
    using find_concat_option [OF assms, of "\<lambda>p. pqty p \<noteq> 0" "positions a"]
    by (simp add: findPosition_def accountSnapshotLocked_def openPositions_def find_map Let_def split: option.splits)
qed

text \<open>The margin: exact from a portfolio, within half a nano from the rouble cash.\<close>

lemma accountMargin_snapshot:
  assumes "openPositions syms a = ps"
  shows "portfolioKind a = ''forts'' \<or> portfolioKind a = ''mc'' \<Longrightarrow>
      accountMargin (accountSnapshotLocked syms a s) =
        (\<lparr>AvailableCash = cash a - (\<Sum>(sy, p)\<leftarrow>ps. reservedOf s sy p),
          MoneyReserved = (\<Sum>(sy, p)\<leftarrow>ps. reservedOf s sy p), Source = portfolioKind a\<rparr>, True)"
    and "portfolioKind a = ''none'' \<Longrightarrow> accountMargin (accountSnapshotLocked syms a s) = (no_Margin, False)"
  using assms by (auto simp: accountMargin_def accountSnapshotLocked_def Let_def)

lemma go_round_close: "\<bar>real_of_int (go_round x) - x\<bar> \<le> 1 / 2"
proof (cases "0 \<le> x")
  case True
  have "real_of_int \<lfloor>x + 1 / 2\<rfloor> \<le> x + 1 / 2 \<and> x + 1 / 2 < real_of_int \<lfloor>x + 1 / 2\<rfloor> + 1"
    using floor_correct [of "x + 1 / 2"] by simp
  then show ?thesis unfolding go_round_def if_P [OF True] abs_le_iff by linarith
next
  case False
  have "real_of_int \<lceil>x - 1 / 2\<rceil> - 1 < x - 1 / 2 \<and> x - 1 / 2 \<le> real_of_int \<lceil>x - 1 / 2\<rceil>"
    using ceiling_correct [of "x - 1 / 2"] by simp
  then show ?thesis unfolding go_round_def if_not_P [OF False] abs_le_iff by linarith
qed

lemma accountMargin_cash:
  assumes "portfolioKind a \<notin> {''forts'', ''mc'', ''none''}"
  shows "\<bar>AvailableCash (fst (accountMargin (accountSnapshotLocked syms a s))) - cash a\<bar> \<le> 1 / 2 / 10 ^ 9"
proof -
  define r where "r = real_of_int (go_round ((cash a - real_of_int (trunc (cash a))) * 10 ^ 9))"
  have "\<bar>r - (cash a - real_of_int (trunc (cash a))) * 10 ^ 9\<bar> \<le> 1 / 2"
    unfolding r_def by (rule go_round_close)
  then have "\<bar>real_of_int (trunc (cash a)) + r / 10 ^ 9 - cash a\<bar> \<le> 1 / 2 / 10 ^ 9" by (simp add: abs_le_iff field_simps)
  then show ?thesis
    using assms by (simp add: accountMargin_def accountSnapshotLocked_def r_def Let_def)
qed

subsection \<open>Positions\<close>

lemma checkAccount_account:
  "checkAccount K ctx k s = Ok (acc, t) \<Longrightarrow> k \<noteq> '''' \<Longrightarrow> accounts s k = Some acc"
  by (auto simp: checkAccount_def Let_def split: outcome.splits prod.splits if_splits option.splits)

lemma SetPosition_sets:
  "SetPosition k sy qty avg s = (None, s') \<Longrightarrow> accounts s' k = Some a \<Longrightarrow>
     positions a sy = (if qty = 0 then None else Some \<lparr>pqty = qty, pavg = avg\<rparr>)"
  by (auto simp: SetPosition_def emitAccountLocked_def Let_def split: option.splits prod.splits if_splits)

text \<open>
  C15. A position set at the simulator's control plane is the position the client reads: \<open>GetPosition\<close> hands back the
  lots and the average that \<open>SetPosition\<close> was given, and no position where it was set to none.
\<close>

theorem position_roundtrip:
  assumes "SetPosition (lk_account L) sy qty avg s0 = (None, sim w)"
    and "fates w = []" and "between w = []" and "rules (faults (sim w)) = []"
    and "checkAccount (lk_codec L) (lk_ctx L) (lk_account L) (sim w) = Ok (a, d)" and "lk_account L \<noteq> ''''"
    and "sy \<in> set (lk_symbols L)"
  shows "\<exists>u. result (GetPosition (liveClient L) sy) w =
    Inr (if qty = 0 then (no_Position, False)
         else (\<lparr>psSymbol = sy, Quantity = qty, AveragePrice = avg, UnrealizedPnl = u\<rparr>, True))"
proof -
  have a: "accounts (sim w) (lk_account L) = Some a" by (rule checkAccount_account [OF assms(5,6)])
  define s1 where "s1 = (sim w)\<lparr>faults := (faults (sim w))\<lparr>rules := []\<rparr>\<rparr>"
  have get: "GetAccount (lk_codec L) (lk_ctx L) (lk_symbols L) (lk_account L) (sim w) =
      (Ok (accountSnapshotLocked (lk_symbols L) a s1), s1)"
    using assms(4,5)
    by (simp add: GetAccount_def gateReadOnly_def unaryGate_def gate_def noDirective_def checkAccount_faults s1_def Let_def)
  have "run_state (onSim L (GetAccount (lk_codec L) (lk_ctx L) (lk_symbols L) (lk_account L))) w =
      (Inr (accountSnapshotLocked (lk_symbols L) a s1), w\<lparr>sim := s1\<rparr>)"
    by (rule onSim_now) (use assms get in simp_all)
  then have "result (GetPosition (liveClient L) sy) w = Inr (findPosition (Some (accountSnapshotLocked (lk_symbols L) a s1)) sy)"
    by (simp add: GetPosition_def finam_GetAccount_def run_unary_live result_def)
  then show ?thesis
    using findPosition_snapshot [OF assms(7), of a s1] SetPosition_sets [OF assms(1) a] by simp
qed

theorem position_roundtrip_witness:
  "\<exists>u. result (GetPosition (liveClient sample_link) ''A'')
      (lossy\<lparr>fates := [], sim := snd (SetPosition ''SIM-1'' ''A'' (- 7) 250 sample_sim)\<rparr>) =
    Inr (\<lparr>psSymbol = ''A'', Quantity = - 7, AveragePrice = 250, UnrealizedPnl = u\<rparr>, True)"
proof -
  let ?w = "lossy\<lparr>fates := [], sim := snd (SetPosition ''SIM-1'' ''A'' (- 7) 250 sample_sim)\<rparr>"
  have w: "SetPosition (lk_account sample_link) ''A'' (- 7) 250 sample_sim = (None, sim ?w)"
    "between ?w = []" "rules (faults (sim ?w)) = []"
    by (simp_all add: lossy_def SetPosition_def symbolLocked_def emitAccountLocked_def sample_sim_eq Let_def)
  obtain a where "checkAccount (lk_codec sample_link) (lk_ctx sample_link) (lk_account sample_link) (sim ?w) =
      Ok (a, unixEpoch + 1000 * second)"
    by (simp add: lossy_def SetPosition_def symbolLocked_def emitAccountLocked_def sample_sim_eq Let_def)
  from position_roundtrip [OF w(1) _ w(2,3) this] show ?thesis by (simp add: sample_link_def)
qed

subsection \<open>The trading session\<close>

definition liveSchedule :: "Link \<Rightarrow> 'z Live_scheme schedule_port" where
  "liveSchedule L sy = do {
     r \<leftarrow> onSim L (Schedule (lk_codec L) (lk_ctx L));
     ret (case r of
            Inl e \<Rightarrow> Inl e
          | Inr (ty, st, en) \<Rightarrow> Inr [\<lparr>smType = ty, smInterval = Some (Some st, Some en)\<rparr>])
   }"

lemma checkAuth_cong:
  assumes "tokens s' = tokens s" and "revokeBefore s' = revokeBefore s" and "clock s' = clock s"
  shows "checkAuth K ctx s' = checkAuth K ctx s"
  unfolding checkAuth_def assms ..

text \<open>The session type set at the control plane decides what \<open>MarketOpen\<close> says, within twelve hours of it.\<close>

theorem session_roundtrip:
  assumes "sim w = SetSession ty s0" and "fates w = []" and "between w = []" and "rules (faults (sim w)) = []"
    and "checkAuth (lk_codec L) (lk_ctx L) (sim w) = Ok (acc, d)"
    and "12 * 3600 * second < clock (sim w)"
    and "clock (sim w) - 12 * 3600 * second \<le> lk_clock L (ticks w)"
    and "lk_clock L (ticks w) < clock (sim w) + 12 * 3600 * second"
  shows "result (MarketOpen (liveClient L) (liveSchedule L) (liveNow L) sy) w = Inr (isTradingType ty)"
proof -
  have auth: "checkAuth (lk_codec L) (lk_ctx L) ((sim w)\<lparr>faults := ft\<rparr>) = Ok (acc, d)" for ft
    using assms(5) checkAuth_cong [of "(sim w)\<lparr>faults := ft\<rparr>" "sim w"] by simp
  have "sessionType (sim w) = ty" using assms(1) by (simp add: SetSession_def)
  then have "\<exists>s1. Schedule (lk_codec L) (lk_ctx L) (sim w) =
      (Ok (ty, clock (sim w) - 12 * 3600 * second, clock (sim w) + 12 * 3600 * second), s1)"
    using assms(4) auth
    by (simp add: Schedule_def gateReadOnly_def unaryGate_def gate_def noDirective_def Let_def)
  then obtain s1 where "Schedule (lk_codec L) (lk_ctx L) (sim w) =
      (Ok (ty, clock (sim w) - 12 * 3600 * second, clock (sim w) + 12 * 3600 * second), s1)"
    by blast
  then have "run_state (onSim L (Schedule (lk_codec L) (lk_ctx L))) w =
      (Inr (ty, clock (sim w) - 12 * 3600 * second, clock (sim w) + 12 * 3600 * second), w\<lparr>sim := s1\<rparr>)"
    by (rule onSim_now [OF assms(2,3)])
  then show ?thesis
    using assms(6-8)
    by (auto simp: MarketOpen_def GetMarketMode_def fetchSchedule_def run_unary_live liveSchedule_def liveNow_def
        result_def Let_def)
qed

end
