(* ===== verification/EngineSuspend.thy ===== *)
theory EngineSuspend
  imports EngineHandlers EngineCore
begin

text \<open>
  A suspended engine: a reconcile found the broker's positions different from the engine's, and no clip is in
  flight. Every handler but \<open>Reconcile\<close> keeps it so: no clip is opened, though hedges still owed are placed
  and orders still owed a cancel are cancelled.
\<close>

named_theorems sus \<open>operations that keep a suspended engine suspended\<close>

definition suspended :: "'w Engine \<Rightarrow> bool" where
  "suspended s \<longleftrightarrow> clip s = None \<and> suspect (recovery s)"

lemma suspect_simps [simp]:
  "suspect (EnterImpaired t b m) = suspect m"
  "suspect (mDeferHedge sy bu n t b m) = suspect m"
  "suspect (QueueRetire oid t b m) = suspect m"
  "suspect (AdvancePace t p b g m) = suspect m"
  "suspect (ClearImpaired m) = suspect m"
  "suspect (MarkUnverified m) = suspect m"
  "suspect (ResetDeadStreak m) = suspect m"
  "suspect (snd (IncrementDeadStreak m)) = suspect m"
  "suspect (snd (mHalt m)) = suspect m"
  by (simp_all add: EnterImpaired_def mDeferHedge_def QueueRetire_def AdvancePace_def ClearImpaired_def
      MarkUnverified_def ResetDeadStreak_def IncrementDeadStreak_def mHalt_def Let_def)

lemma suspended_simps [simp]:
  "suspended (s\<lparr>world := w\<rparr>) = suspended s"
  "suspended (s\<lparr>elog := l\<rparr>) = suspended s"
  "suspended (s\<lparr>pending := p\<rparr>) = suspended s"
  "suspended (s\<lparr>own := ow\<rparr>) = suspended s"
  "suspended (s\<lparr>now := t\<rparr>) = suspended s"
  "suspended (s\<lparr>quote := q\<rparr>) = suspended s"
  by (simp_all add: suspended_def)

lemma suspended_recovery [simp]:
  "suspect m = suspect (recovery s) \<Longrightarrow> suspended (s\<lparr>recovery := m\<rparr>) = suspended s"
  by (simp add: suspended_def)

lemma sus_rpc [sus]:
  "suspended s \<Longrightarrow> (\<And>a s'. suspended s' \<Longrightarrow> Q a s') \<Longrightarrow> wp (rpc m) Q s"
  by (auto simp: wp_rpc split: prod.split)

lemma sus_emit [sus]:
  "suspended s \<Longrightarrow> (\<And>a s'. suspended s' \<Longrightarrow> Q a s') \<Longrightarrow> wp (emit x) Q s"
  by simp

lemma suspended_clip: "suspended s \<Longrightarrow> clip s = None"
  by (simp add: suspended_def)

lemma sus_spendOne [sus]:
  "suspended s \<Longrightarrow> (\<And>a s'. suspended s' \<Longrightarrow> Q a s') \<Longrightarrow> wp (spendOne P) Q s"
  by (rule wp_mono [of _ "\<lambda>_. suspended"])
    (auto simp: spendOne_def suspended_clip Let_def intro!: sus split: option.split prod.split sum.split if_splits)

lemma sus_cancelRPC [sus]:
  "suspended s \<Longrightarrow> (\<And>a s'. suspended s' \<Longrightarrow> Q a s') \<Longrightarrow> wp (cancelRPC P oid) Q s"
  by (rule wp_mono [of _ "\<lambda>_. suspended"])
    (auto simp: cancelRPC_def suspended_clip Let_def intro!: sus split: option.split prod.split sum.split if_splits)

lemma sus_sinkFill [sus]:
  "suspended s \<Longrightarrow> (\<And>a s'. suspended s' \<Longrightarrow> Q a s') \<Longrightarrow> wp (sinkFill P oid sy bu n pr) Q s"
  by (rule wp_mono [of _ "\<lambda>_. suspended"])
    (auto simp: sinkFill_def suspended_clip Let_def intro!: sus split: option.split prod.split sum.split if_splits)

lemma sus_sinkAmend [sus]:
  "suspended s \<Longrightarrow> (\<And>a s'. suspended s' \<Longrightarrow> Q a s') \<Longrightarrow> wp (sinkAmend P oid sy bu n pr pr') Q s"
  by (rule wp_mono [of _ "\<lambda>_. suspended"])
    (auto simp: sinkAmend_def suspended_clip Let_def intro!: sus split: option.split prod.split sum.split if_splits)

lemma sus_placeTakerRPC [sus]:
  "suspended s \<Longrightarrow> (\<And>a s'. suspended s' \<Longrightarrow> Q a s') \<Longrightarrow> wp (placeTakerRPC P sy bu n) Q s"
  by (rule wp_mono [of _ "\<lambda>_. suspended"])
    (auto simp: placeTakerRPC_def suspended_clip Let_def intro!: sus split: option.split prod.split sum.split if_splits)

lemma sus_commitTakerPlacement [sus]:
  "suspended s \<Longrightarrow> (\<And>a s'. suspended s' \<Longrightarrow> Q a s') \<Longrightarrow> wp (commitTakerPlacement P sy bu n r) Q s"
  by (rule wp_mono [of _ "\<lambda>_. suspended"])
    (auto simp: commitTakerPlacement_def suspended_clip Let_def intro!: sus split: option.split prod.split sum.split if_splits)

lemma sus_tryPlaceTaker [sus]:
  "suspended s \<Longrightarrow> (\<And>a s'. suspended s' \<Longrightarrow> Q a s') \<Longrightarrow> wp (tryPlaceTaker P sy bu n) Q s"
  by (rule wp_mono [of _ "\<lambda>_. suspended"])
    (auto simp: tryPlaceTaker_def suspended_clip Let_def intro!: sus split: option.split prod.split sum.split if_splits)

lemma sus_chaseLoop [sus]:
  "suspended s \<Longrightarrow> (\<And>a s'. suspended s' \<Longrightarrow> Q a s') \<Longrightarrow> wp (chaseLoop P sy bu z n) Q s"
proof (induction P sy bu z n arbitrary: s rule: chaseLoop.induct)
  case (1 P sy bu z n)
  show ?case
  proof (cases "z \<ge> rejectFloor P \<and> z > 0 \<and> RejectRetryLotStep (cfg P) > 0")
    case True
    show ?thesis
      unfolding chaseLoop.simps [of P sy bu z n] if_P [OF True] wp_bind
      apply (rule sus_placeTakerRPC [OF "1.prems"(1)])
      apply (rule sus_commitTakerPlacement, assumption)
      using "1.IH" [OF True] "1.prems" apply auto
      done
  next
    case False
    then show ?thesis
      unfolding chaseLoop.simps [of P sy bu z n] if_not_P [OF False] using "1.prems" by simp
  qed
qed

lemma sus_tryTakers [sus]:
  "suspended s \<Longrightarrow> (\<And>a s'. suspended s' \<Longrightarrow> Q a s') \<Longrightarrow> wp (tryTakers P sy bu n k) Q s"
  by (induction k arbitrary: s) (auto intro!: sus_tryPlaceTaker)

lemma sus_deferHedge [sus]:
  "suspended s \<Longrightarrow> (\<And>a s'. suspended s' \<Longrightarrow> Q a s') \<Longrightarrow> wp (deferHedge P sy bu n) Q s"
  by (rule wp_mono [of _ "\<lambda>_. suspended"])
    (auto simp: deferHedge_def suspended_clip Let_def intro!: sus split: option.split prod.split sum.split if_splits)

lemma sus_takerRetryPlain [sus]:
  "suspended s \<Longrightarrow> (\<And>a s'. suspended s' \<Longrightarrow> Q a s') \<Longrightarrow> wp (takerRetryPlain P sy bu n k) Q s"
  by (rule wp_mono [of _ "\<lambda>_. suspended"])
    (auto simp: takerRetryPlain_def suspended_clip Let_def intro!: sus split: option.split prod.split sum.split if_splits)

lemma sus_takerRetryFrom [sus]:
  "suspended s \<Longrightarrow> (\<And>a s'. suspended s' \<Longrightarrow> Q a s') \<Longrightarrow> wp (takerRetryFrom P sy bu n k) Q s"
  by (rule wp_mono [of _ "\<lambda>_. suspended"])
    (auto simp: takerRetryFrom_def shrinkTakerChase_def suspended_clip Let_def intro!: sus split: option.split prod.split sum.split if_splits)

lemma sus_takerRetry [sus]:
  "suspended s \<Longrightarrow> (\<And>a s'. suspended s' \<Longrightarrow> Q a s') \<Longrightarrow> wp (takerRetry P sy bu n) Q s"
  by (rule wp_mono [of _ "\<lambda>_. suspended"])
    (auto simp: takerRetry_def suspended_clip Let_def intro!: sus split: option.split prod.split sum.split if_splits)

lemma sus_hedgeStrayMakerFill [sus]:
  "suspended s \<Longrightarrow> (\<And>a s'. suspended s' \<Longrightarrow> Q a s') \<Longrightarrow> wp (hedgeStrayMakerFill P sy bu n) Q s"
  by (rule wp_mono [of _ "\<lambda>_. suspended"])
    (auto simp: hedgeStrayMakerFill_def hedge_def suspended_clip Let_def intro!: sus split: option.split prod.split sum.split if_splits)

lemma sus_askDeferred [sus]:
  "suspended s \<Longrightarrow> (\<And>a s'. suspended s' \<Longrightarrow> Q a s') \<Longrightarrow> wp (askDeferred P oid) Q s"
  by (rule wp_mono [of _ "\<lambda>_. suspended"])
    (auto simp: askDeferred_def suspended_clip Let_def intro!: sus split: option.split prod.split sum.split if_splits)

lemma sus_finishRetire [sus]:
  "suspended s \<Longrightarrow> (\<And>a s'. suspended s' \<Longrightarrow> Q a s') \<Longrightarrow> wp (finishRetire P oid n) Q s"
  by (rule wp_mono [of _ "\<lambda>_. suspended"])
    (auto simp: finishRetire_def suspended_clip Let_def intro!: sus split: option.split prod.split sum.split if_splits)

lemma sus_resolveDeferred [sus]:
  "suspended s \<Longrightarrow> (\<And>a s'. suspended s' \<Longrightarrow> Q a s') \<Longrightarrow> wp (resolveDeferred P oid) Q s"
  by (rule wp_mono [of _ "\<lambda>_. suspended"])
    (auto simp: resolveDeferred_def suspended_clip Let_def intro!: sus split: option.split prod.split sum.split if_splits)

lemma sus_tryDeferredRetire [sus]:
  "suspended s \<Longrightarrow> (\<And>a s'. suspended s' \<Longrightarrow> Q a s') \<Longrightarrow> wp (tryDeferredRetire P oid) Q s"
  by (rule wp_mono [of _ "\<lambda>_. suspended"])
    (auto simp: tryDeferredRetire_def suspended_clip Let_def intro!: sus split: option.split prod.split sum.split if_splits)

lemma sus_settleTaker [sus]:
  "suspended s \<Longrightarrow> (\<And>a s'. suspended s' \<Longrightarrow> Q a s') \<Longrightarrow> wp (settleTaker P oid n) Q s"
  by (rule wp_mono [of _ "\<lambda>_. suspended"])
    (auto simp: settleTaker_def IncrementDeadStreak_def suspended_clip Let_def intro!: sus split: option.split prod.split sum.split if_splits)

lemma sus_confirmDeadTaker [sus]:
  "suspended s \<Longrightarrow> (\<And>a s'. suspended s' \<Longrightarrow> Q a s') \<Longrightarrow> wp (confirmDeadTaker P oid) Q s"
  by (rule wp_mono [of _ "\<lambda>_. suspended"])
    (auto simp: confirmDeadTaker_def suspended_clip Let_def intro!: sus split: option.split prod.split sum.split if_splits)

lemma sus_checkPendingTaker [sus]:
  "suspended s \<Longrightarrow> (\<And>a s'. suspended s' \<Longrightarrow> Q a s') \<Longrightarrow> wp (checkPendingTaker P t oid) Q s"
  by (rule wp_mono [of _ "\<lambda>_. suspended"])
    (auto simp: checkPendingTaker_def suspended_clip Let_def intro!: sus split: option.split prod.split sum.split if_splits)

lemma sus_checkPendingLoop [sus]:
  "suspended s \<Longrightarrow> (\<And>a s'. suspended s' \<Longrightarrow> Q a s') \<Longrightarrow> wp (checkPendingLoop P t oids) Q s"
  by (induction oids arbitrary: s) (auto intro!: sus_checkPendingTaker)

lemma sus_checkPendingTakers [sus]:
  "suspended s \<Longrightarrow> (\<And>a s'. suspended s' \<Longrightarrow> Q a s') \<Longrightarrow> wp (checkPendingTakers P t) Q s"
  by (rule wp_mono [of _ "\<lambda>_. suspended"])
    (auto simp: checkPendingTakers_def suspended_clip Let_def intro!: sus split: option.split prod.split sum.split if_splits)

lemma sus_retirePass [sus]:
  "suspended s \<Longrightarrow> (\<And>a s'. suspended s' \<Longrightarrow> Q a s') \<Longrightarrow> wp (retirePass P q) Q s"
proof (induction q arbitrary: s Q)
  case (Cons x q)
  show ?case
    unfolding retirePass.simps wp_bind
    by (rule sus_tryDeferredRetire [OF Cons.prems(1)], rule Cons.IH, assumption) (auto simp: Cons.prems(2) split: prod.split)
qed simp

lemma sus_debtPass [sus]:
  "suspended s \<Longrightarrow> (\<And>a s'. suspended s' \<Longrightarrow> Q a s') \<Longrightarrow> wp (debtPass P ds) Q s"
proof (induction ds arbitrary: s Q)
  case (Cons x ds)
  show ?case
    unfolding debtPass.simps wp_bind
    by (rule sus_tryPlaceTaker [OF Cons.prems(1)], rule Cons.IH, assumption) (auto simp: Cons.prems(2) split: prod.split)
qed simp

lemma sus_serviceObligations [sus]:
  "suspended s \<Longrightarrow> (\<And>a s'. suspended s' \<Longrightarrow> Q a s') \<Longrightarrow> wp (serviceObligations P) Q s"
  by (rule wp_mono [of _ "\<lambda>_. suspended"])
    (auto simp: serviceObligations_def suspended_clip Let_def intro!: sus split: option.split prod.split sum.split if_splits)

lemma sus_serviceImpaired [sus]:
  "suspended s \<Longrightarrow> (\<And>a s'. suspended s' \<Longrightarrow> Q a s') \<Longrightarrow> wp (serviceImpaired P) Q s"
  by (rule wp_mono [of _ "\<lambda>_. suspended"])
    (auto simp: serviceImpaired_def suspended_clip Let_def intro!: sus split: option.split prod.split sum.split if_splits)

subsection \<open>The handlers\<close>

text \<open>Without a clip in flight these do nothing.\<close>

lemma no_clip [simp]:
  "clip s = None \<Longrightarrow> wp (CancelClip P) Q s = Q () s"
  "clip s = None \<Longrightarrow> wp (resolveClip P t) Q s = Q () s"
  "clip s = None \<Longrightarrow> wp (checkTimeout P t) Q s = Q () s"
  "clip s = None \<Longrightarrow> wp (checkStaleBooks P t) Q s = Q () s"
  "clip s = None \<Longrightarrow> wp (maybeRepeg P sy t) Q s = Q () s"
  "clip s = None \<Longrightarrow> wp (manageWorkingClip P st) Q s = Q () s"
  "clip s = None \<Longrightarrow> wp (PullIfUnwanted P st) Q s = Q () s"
  by (simp_all add: CancelClip_def resolveClip_def checkTimeout_def checkStaleBooks_def maybeRepeg_def
      manageWorkingClip_def PullIfUnwanted_def)

lemma sus_foldTakerFill [sus]:
  "suspended s \<Longrightarrow> (\<And>a s'. suspended s' \<Longrightarrow> Q a s') \<Longrightarrow> wp (foldTakerFill P oid acct rep n pr) Q s"
  by (rule wp_mono [of _ "\<lambda>_. suspended"])
    (auto simp: foldTakerFill_def suspended_clip Let_def intro!: sus split: option.split prod.split sum.split if_splits)

lemma sus_foldRetiredFill [sus]:
  "suspended s \<Longrightarrow> (\<And>a s'. suspended s' \<Longrightarrow> Q a s') \<Longrightarrow> wp (foldRetiredFill P oid sy bu acct rep n pr) Q s"
  by (rule wp_mono [of _ "\<lambda>_. suspended"])
    (auto simp: foldRetiredFill_def suspended_clip Let_def intro!: sus split: option.split prod.split sum.split if_splits)

lemma sus_foldLiveFill [sus]:
  "suspended s \<Longrightarrow> (\<And>a s'. suspended s' \<Longrightarrow> Q a s') \<Longrightarrow> wp (foldLiveFill P t oid sy bu acct n pr) Q s"
  by (rule wp_mono [of _ "\<lambda>_. suspended"])
    (auto simp: foldLiveFill_def suspended_clip Let_def intro!: sus split: option.split prod.split sum.split if_splits)

lemma sus_foldFill [sus]:
  "suspended s \<Longrightarrow> (\<And>a s'. suspended s' \<Longrightarrow> Q a s') \<Longrightarrow> wp (foldFill P t oid sy bu acct n pr) Q s"
  by (rule wp_mono [of _ "\<lambda>_. suspended"])
    (auto simp: foldFill_def suspended_clip Let_def intro!: sus split: option.split prod.split sum.split if_splits)

lemma sus_OnFill [sus]:
  "suspended s \<Longrightarrow> (\<And>a s'. suspended s' \<Longrightarrow> Q a s') \<Longrightarrow> wp (OnFill P t oid sy bu n pr) Q s"
  by (rule wp_mono [of _ "\<lambda>_. suspended"])
    (auto simp: OnFill_def suspended_clip Let_def intro!: sus split: option.split prod.split sum.split if_splits)

lemma sus_OnOrderStatus [sus]:
  "suspended s \<Longrightarrow> (\<And>a s'. suspended s' \<Longrightarrow> Q a s') \<Longrightarrow> wp (OnOrderStatus P oid dead) Q s"
  by (rule wp_mono [of _ "\<lambda>_. suspended"])
    (auto simp: OnOrderStatus_def suspended_clip Let_def intro!: sus split: option.split prod.split sum.split if_splits)

lemma sus_OnTick [sus]:
  "suspended s \<Longrightarrow> (\<And>a s'. suspended s' \<Longrightarrow> Q a s') \<Longrightarrow> wp (OnTick P t) Q s"
  by (rule wp_mono [of _ "\<lambda>_. suspended"])
    (auto simp: OnTick_def suspended_clip Let_def intro!: sus split: option.split prod.split sum.split if_splits)

lemma sus_OnBook [sus]:
  "suspended s \<Longrightarrow> (\<And>a s'. suspended s' \<Longrightarrow> Q a s') \<Longrightarrow> wp (OnBook P sy t b a) Q s"
  by (rule wp_mono [of _ "\<lambda>_. suspended"])
    (auto simp: OnBook_def suspended_clip Let_def intro!: sus split: option.split prod.split sum.split if_splits)

lemma sus_Halt [sus]:
  "suspended s \<Longrightarrow> (\<And>a s'. suspended s' \<Longrightarrow> Q a s') \<Longrightarrow> wp (Halt P) Q s"
  by (rule wp_mono [of _ "\<lambda>_. suspended"])
    (auto simp: Halt_def mHalt_def suspended_clip Let_def intro!: sus split: option.split prod.split sum.split if_splits)

lemma suspended_Suspect: "suspended s \<Longrightarrow> Suspect (recovery s)"
  by (simp add: suspended_def Suspect_def)

lemma sus_OnState [sus]:
  "suspended s \<Longrightarrow> (\<And>a s'. suspended s' \<Longrightarrow> Q a s') \<Longrightarrow> wp (OnState P st) Q s"
  by (rule wp_mono [of _ "\<lambda>_. suspended"])
    (auto simp: OnState_def suspended_clip suspended_Suspect Let_def intro!: sus split: if_splits)

lemma sus_handle:
  assumes "suspended s" and "\<And>a b. ev \<noteq> EvReconcile a b"
  shows "suspended (exec (handle P ev) s)"
  using assms by (cases ev) (auto intro!: exec_of_wp [where Q = suspended] sus simp: suspended_clip)

lemma stays_suspended:
  "suspended s \<Longrightarrow> (\<forall>ev\<in>set evs. \<forall>a b. ev \<noteq> EvReconcile a b) \<Longrightarrow> suspended (run_events P evs s)"
  by (induction evs arbitrary: s) (auto intro!: sus_handle)

end
