(* ===== verification/LiveReconcile.thy ===== *)
theory LiveReconcile
  imports LiveEngine LiveQueries EngineSuspend
begin

text \<open>
  \<open>ReconcileFromBroker\<close> of \<open>finambroker\<close> with both of its sides: it compares the position the engine believes
  in with the positions of the simulator's account.
\<close>

subsection \<open>ReconcileFromBroker\<close>

text \<open>
  Both positions are fetched before the engine compares them; \<open>int(math.Round(x))\<close> is \<open>go_round\<close>, for values
  an \<open>int\<close> holds.
\<close>

definition ReconcileFromBroker ::
  "('w, 'g) Wiring \<Rightarrow> 'w Client \<Rightarrow> string \<Rightarrow> string \<Rightarrow> ('w, go_error option) eng" where
  "ReconcileFromBroker P client symA symB = do {
     ra \<leftarrow> rpc (GetPosition client symA);
     case ra of
       Inl e \<Rightarrow> ret (Some (Wrapped (symA @ '' position fetch failed'') e))
     | Inr (a, _) \<Rightarrow> do {
         rb \<leftarrow> rpc (GetPosition client symB);
         case rb of
           Inl e \<Rightarrow> ret (Some (Wrapped (symB @ '' position fetch failed'') e))
         | Inr (b, _) \<Rightarrow> do {
             Reconcile P (go_round (Quantity a)) (go_round (Quantity b));
             ret None
           }
       }
   }"

text \<open>\<open>Reconcile\<close> sets and clears the two flags, and does nothing else.\<close>

definition agrees :: "('w, 'g) Wiring \<Rightarrow> int \<Rightarrow> int \<Rightarrow> 'w Engine \<Rightarrow> bool" where
  "agrees P a b s \<longleftrightarrow> a = Position P s \<and> b = - hedgeLots P (LegB (cfg P)) (Position P s)"

lemma run_Reconcile:
  "run_state (Reconcile P a b) s =
     ((), if Halted s \<or> clip s \<noteq> None \<or> Impaired s then s
          else if agrees P a b s then s\<lparr>recovery := ClearUnverified (ResumeFromSuspect (recovery s))\<rparr>
          else if suspect (recovery s) then s\<lparr>recovery := LogPersistentMismatch (recovery s)\<rparr>
          else s\<lparr>recovery := (recovery s)\<lparr>suspect := True\<rparr>\<rparr>)"
  by (simp add: Reconcile_def agrees_def with_recovery_def MarkSuspect_def Let_def)

text \<open>A divergence that a second pass finds again suspends; no number of passes halts the engine.\<close>

lemma divergence_never_halts:
  "\<not> Halted s \<Longrightarrow> \<not> Halted (fold (\<lambda>(a, b) s. snd (run_state (Reconcile P a b) s)) passes s)"
proof (induction passes arbitrary: s)
  case (Cons p passes)
  show ?case
    using Cons.IH [of "snd (run_state (Reconcile P (fst p) (snd p)) s)"] Cons.prems
    by (simp add: split_beta run_Reconcile)
qed simp

lemma Reconcile_label:
  assumes "\<not> Halted s" and "clip s = None" and "\<not> Impaired s"
  shows "StateLabel (snd (run_state (Reconcile P a b) s)) = (if agrees P a b s then '''' else ''suspect'')"
  using assms
  by (auto simp: run_Reconcile StateLabel_def Suspect_def ClearUnverified_def ResumeFromSuspect_def LogPersistentMismatch_def)

lemma run_rpc: "run_state (rpc m) s = (fst (run_state m (world s)), s\<lparr>world := snd (run_state m (world s))\<rparr>)"
  by (simp add: rpc_def split_beta)

text \<open>A failed fetch leaves the engine as it was.\<close>

lemma failed_fetch:
  assumes "run_state (ReconcileFromBroker P c symA symB) s = (Some e, s')"
  shows "s' = s\<lparr>world := world s'\<rparr>"
  using assms
  by (auto simp: ReconcileFromBroker_def run_rpc split_beta split: sum.splits prod.splits)

subsection \<open>The positions of the simulator\<close>

definition sim_lots :: "account \<Rightarrow> string \<Rightarrow> int" where
  "sim_lots a sy = go_round (case positions a sy of None \<Rightarrow> 0 | Some p \<Rightarrow> pqty p)"

text \<open>The link is quiet: nothing is lost, delayed or broken, and nothing else happens meanwhile.\<close>

definition quiet :: "Link \<Rightarrow> account \<Rightarrow> 'z Live_scheme \<Rightarrow> bool" where
  "quiet L a w \<longleftrightarrow> fates w = [] \<and> between w = [] \<and> rules (faults (sim w)) = [] \<and> lk_account L \<noteq> '''' \<and>
     (\<exists>d. checkAccount (lk_codec L) (lk_ctx L) (lk_account L) (sim w) = Ok (a, d))"

definition asked :: "'z Live_scheme \<Rightarrow> 'z Live_scheme" where
  "asked w = w\<lparr>sim := (sim w)\<lparr>faults := (faults (sim w))\<lparr>rules := []\<rparr>\<rparr>\<rparr>"

lemma GetPosition_quiet:
  assumes "quiet L a w" and "sy \<in> set (lk_symbols L)"
  shows "\<exists>p b. run_state (GetPosition (liveClient L) sy) w = (Inr (p, b), asked w) \<and> go_round (Quantity p) = sim_lots a sy"
proof -
  let ?s = "sim (asked w)"
  obtain d where d: "checkAccount (lk_codec L) (lk_ctx L) (lk_account L) (sim w) = Ok (a, d)"
    using assms(1) by (auto simp: quiet_def)
  have "GetAccount (lk_codec L) (lk_ctx L) (lk_symbols L) (lk_account L) (sim w) =
      (Ok (accountSnapshotLocked (lk_symbols L) a ?s), ?s)"
    using assms(1) d
    by (simp add: GetAccount_def gateReadOnly_def unaryGate_def gate_def noDirective_def checkAccount_faults quiet_def
        asked_def Let_def)
  then have "run_state (onSim L (GetAccount (lk_codec L) (lk_ctx L) (lk_symbols L) (lk_account L))) w =
      (Inr (accountSnapshotLocked (lk_symbols L) a ?s), asked w)"
    using assms(1) onSim_now [of w "GetAccount (lk_codec L) (lk_ctx L) (lk_symbols L) (lk_account L)" _ ?s L]
    by (simp add: quiet_def asked_def)
  then have "run_state (GetPosition (liveClient L) sy) w =
      (Inr (findPosition (Some (accountSnapshotLocked (lk_symbols L) a ?s)) sy), asked w)"
    by (simp add: GetPosition_def finam_GetAccount_def run_unary_live)
  then show ?thesis
    using findPosition_snapshot [OF assms(2), of a ?s]
    by (auto simp: sim_lots_def no_Position_def split: option.splits)
qed

lemma quiet_asked: "quiet L a w \<Longrightarrow> quiet L a (asked w)"
  by (auto simp: quiet_def asked_def checkAccount_faults)

lemma asked_untouched: "accounts (sim (asked w)) = accounts (sim w)" "sim_orders (sim (asked w)) = sim_orders (sim w)"
  "committed (asked v) = committed v"
  by (simp_all add: asked_def)

text \<open>
  C13. Over a quiet link, a reconcile pass of an idle engine sees the account as the simulator has it and takes no
  position of its own: if the lots on both legs are those the strategy's position stands for, the engine is
  ready afterwards; if not, it is suspended, and whatever events follow, no clip is opened before another
  pass. Orders, accounts and the engine's ledger stay as they were.
\<close>

theorem reconcile_sees_broker:
  assumes "quiet L a (world s)" and "LegA c \<in> set (lk_symbols L)" and "LegB c \<in> set (lk_symbols L)"
    and "\<not> Halted s" and "clip s = None" and "\<not> Impaired s"
    and P: "P = desk L c decide (\<lambda>w. p (committed w))"
  shows "\<exists>s'. run_state (ReconcileFromBroker P (liveClient L) (LegA c) (LegB c)) s = (None, s') \<and>
     accounts (sim (world s')) = accounts (sim (world s)) \<and> sim_orders (sim (world s')) = sim_orders (sim (world s)) \<and>
     own s' = own s \<and>
     (if sim_lots a (LegA c) = p (committed (world s)) \<and>
         sim_lots a (LegB c) = - hedgeLots P (LegB c) (p (committed (world s)))
      then StateLabel s' = ''''
      else StateLabel s' = ''suspect'' \<and>
        (\<forall>evs. (\<forall>ev\<in>set evs. \<forall>x y. ev \<noteq> EvReconcile x y) \<longrightarrow> clip (run_events P evs s') = None))"
proof -
  define s1 where "s1 = s\<lparr>world := asked (asked (world s))\<rparr>"
  define s2 where "s2 = snd (run_state (Reconcile P (sim_lots a (LegA c)) (sim_lots a (LegB c))) s1)"
  obtain pa ba pb bb where "run_state (GetPosition (liveClient L) (LegA c)) (world s) = (Inr (pa, ba), asked (world s))"
      "go_round (Quantity pa) = sim_lots a (LegA c)"
      "run_state (GetPosition (liveClient L) (LegB c)) (asked (world s)) = (Inr (pb, bb), asked (asked (world s)))"
      "go_round (Quantity pb) = sim_lots a (LegB c)"
    using GetPosition_quiet [OF assms(1,2)] GetPosition_quiet [OF quiet_asked [OF assms(1)] assms(3)] by metis
  then have run: "run_state (ReconcileFromBroker P (liveClient L) (LegA c) (LegB c)) s = (None, s2)"
    by (simp add: ReconcileFromBroker_def run_rpc s1_def s2_def split_beta)
  have agr: "agrees P (sim_lots a (LegA c)) (sim_lots a (LegB c)) s1 \<longleftrightarrow>
      sim_lots a (LegA c) = p (committed (world s)) \<and> sim_lots a (LegB c) = - hedgeLots P (LegB c) (p (committed (world s)))"
    by (simp add: agrees_def Position_def P desk_def s1_def asked_untouched)
  have idle: "\<not> Halted s1" "clip s1 = None" "\<not> Impaired s1" using assms by (simp_all add: s1_def)
  have "world s2 = asked (asked (world s))" "own s2 = own s"
    by (simp_all add: s2_def s1_def run_Reconcile)
  moreover have "StateLabel s2 = (if agrees P (sim_lots a (LegA c)) (sim_lots a (LegB c)) s1 then '''' else ''suspect'')"
    unfolding s2_def by (rule Reconcile_label [OF idle])
  moreover have "suspended s2" if "\<not> agrees P (sim_lots a (LegA c)) (sim_lots a (LegB c)) s1"
    using idle that by (simp add: s2_def run_Reconcile suspended_def LogPersistentMismatch_def)
  ultimately show ?thesis
    unfolding run agr by (auto simp: asked_untouched intro: suspended_clip stays_suspended)
qed

theorem reconcile_sees_broker_witness:
  "\<exists>s'. run_state (ReconcileFromBroker trade_desk (liveClient sample_link) ''A'' ''B'')
       (NewEngine trade_desk (desk_world\<lparr>sim := snd (SetPosition ''SIM-1'' ''A'' 5 250 sample_sim)\<rparr>)) = (None, s') \<and>
     StateLabel s' = ''suspect'' \<and> clip (run_events trade_desk live_events s') = None"
proof -
  let ?w = "desk_world\<lparr>sim := snd (SetPosition ''SIM-1'' ''A'' 5 250 sample_sim)\<rparr>"
  let ?s = "NewEngine trade_desk ?w"
  let ?a = "acc0\<lparr>positions := [''A'' \<mapsto> \<lparr>pqty = 5, pavg = 250\<rparr>]\<rparr>"
  have q: "quiet sample_link ?a (world ?s)"
    by (simp add: quiet_def NewEngine_def desk_world_def SetPosition_def symbolLocked_def emitAccountLocked_def
        sample_sim_eq Let_def)
  have idle: "\<not> Halted ?s" "clip ?s = None" "\<not> Impaired ?s"
    by (simp_all add: NewEngine_def trade_desk_def desk_def newMachine_def)
  have lots: "sim_lots ?a ''A'' = 5" by (simp add: sim_lots_def go_round_def)
  have syms: "LegA script_cfg \<in> set (lk_symbols sample_link)" "LegB script_cfg \<in> set (lk_symbols sample_link)"
    by (simp_all add: sample_link_def)
  have pos: "(\<Sum>i\<leftarrow>committed (world ?s). Action i * Lots i) = 0"
    by (simp add: NewEngine_def desk_world_def)
  have "\<forall>ev\<in>set live_events. \<forall>x y. ev \<noteq> EvReconcile x y" by (simp add: live_events_def)
  with reconcile_sees_broker [OF q syms idle trade_desk_def] lots pos
  show ?thesis by auto
qed

end
