(* ===== verification/LiveQuota.thy ===== *)
theory LiveQuota
  imports LiveEngine
begin

text \<open>
  \<open>RefreshQuota\<close> of \<open>finambroker\<close> with both of its sides: the limiter the engine asks before a burst of orders
  and the quota the simulator counts placements against.
\<close>

subsection \<open>RefreshQuota\<close>

record 'w QuotaUpdater =
  uSnapshot :: "('w, QuotaToken) state"
  uSet :: "int \<Rightarrow> time \<Rightarrow> time \<Rightarrow> QuotaToken \<Rightarrow> ('w, unit) state"

text \<open>
  One poll; \<open>now'\<close> reads the client's clock. Here it is one step of the run below: no placement of the engine
  comes between the snapshot of the limiter and the answer. What the token does for spends that race an answer
  is stated of \<open>qSet\<close> alone, for any token, in \<open>qSet_covers\<close> below.
\<close>

definition poll :: "'w Client \<Rightarrow> 'w QuotaUpdater \<Rightarrow> ('w, time) state \<Rightarrow> ('w, unit) state" where
  "poll client updater now' = do {
     token \<leftarrow> uSnapshot updater;
     answer \<leftarrow> finam_GetUsageMetrics client;
     t \<leftarrow> now';
     case answer of
       Inl e \<Rightarrow> skip
     | Inr quotas \<Rightarrow>
         (case find (\<lambda>u. q_name u = placeOrderQuota) quotas of
            None \<Rightarrow> skip
          | Some u \<Rightarrow> uSet updater (q_remaining u) (q_reset u) t token)
   }"

text \<open>
  The loop polls at once and then after every tick until its context ends; \<open>waits\<close> holds one entry for each tick
  that comes before that, namely what happens up to it.
\<close>

fun RefreshQuota ::
  "'w Client \<Rightarrow> 'w QuotaUpdater \<Rightarrow> ('w, time) state \<Rightarrow> ('w, unit) state list \<Rightarrow> ('w, unit) state" where
  "RefreshQuota client updater now' [] = poll client updater now'"
| "RefreshQuota client updater now' (wait # waits) = do {
     poll client updater now';
     wait;
     RefreshQuota client updater now' waits
   }"

lemma RefreshQuota_snoc:
  "RefreshQuota client updater now' (waits @ [wait]) =
     do { RefreshQuota client updater now' waits; wait; poll client updater now' }"
  by (induction waits) simp_all

text \<open>The budget as status blocks show it.\<close>

definition quotaString :: "QuotaLimiter \<Rightarrow> string" where
  "quotaString q = (let (rem, ok) = Remaining q in if \<not> ok then ''n/a'' else FormatInt rem 10)"

subsection \<open>The limiter of the desk\<close>

definition deskUpdater :: "Desk QuotaUpdater" where
  "deskUpdater =
     \<lparr>uSnapshot = State (\<lambda>w. (Snapshot (limiter w), w)),
      uSet = (\<lambda>rem reset t token. modify (\<lambda>w. w\<lparr>limiter := qSet rem reset t token (limiter w)\<rparr>))\<rparr>"

lemma poll_is_quotaPoll:
  assumes "run_state (finam_GetUsageMetrics (liveClient L)) w = (answer, w')"
  shows "run_state (poll (liveClient L) deskUpdater (liveNow L)) w =
    ((), w'\<lparr>ticks := ticks w' + 1,
      limiter := quotaPoll (Snapshot (limiter w)) answer (lk_clock L (ticks w')) (limiter w')\<rparr>)"
  using assms
  by (auto simp: poll_def deskUpdater_def liveNow_def quotaPoll_def split: sum.splits option.splits)

text \<open>The answer of the simulator, whatever the network did to other calls.\<close>

lemma GetUsageMetrics_reports:
  assumes "GetUsageMetrics K ctx s = (Ok quotas, s')"
  shows "\<exists>u. quotas = [u] \<and> q_name u = placeOrderQuota \<and>
      q_remaining u = max 0 (placeQuotaLimit (s_cfg s') - quotaUsed s') \<and>
      q_reset u = quotaStart s' + placeQuotaWindow (s_cfg s')"
  using assms
  by (auto simp: GetUsageMetrics_def placeOrderQuota_def Let_def max_def split_beta
      split: option.splits outcome.splits if_splits)

lemma onSim_Inr:
  fixes w :: Desk
  assumes "run_state (onSim L h) w = (Inr x, w')"
  shows "\<exists>s. h s = (Ok x, sim w') \<and> limiter w' = limiter w \<and> ticks w' = ticks w"
  using assms
  by (cases "h (sim (drift L w))")
    (auto simp: onSim_def answer_of_def drift_def Let_def split: list.splits fate.splits outcome.splits)

lemma metrics_report:
  fixes w :: Desk
  assumes "run_state (finam_GetUsageMetrics (liveClient L)) w = (Inr quotas, w')"
  shows "(\<exists>u. quotas = [u] \<and> q_name u = placeOrderQuota \<and>
      q_remaining u = max 0 (placeQuotaLimit (s_cfg (sim w')) - quotaUsed (sim w')) \<and>
      q_reset u = quotaStart (sim w') + placeQuotaWindow (s_cfg (sim w'))) \<and>
    limiter w' = limiter w \<and> ticks w' = ticks w"
proof -
  have "run_state (onSim L (GetUsageMetrics (lk_codec L) (lk_ctx L))) w = (Inr quotas, w')"
    using assms by (auto simp: finam_GetUsageMetrics_def run_unary_live split: prod.splits sum.splits)
  from onSim_Inr [OF this] show ?thesis using GetUsageMetrics_reports by blast
qed

subsection \<open>The simulator admits what the limiter grants\<close>

text \<open>Placements at the given times all pass the simulator's quota.\<close>

fun admits :: "time list \<Rightarrow> Sim \<Rightarrow> bool" where
  "admits [] s = True"
| "admits (t # ts) s =
     (case consumePlaceQuotaLocked (s\<lparr>clock := t\<rparr>) of (e, s') \<Rightarrow> e = None \<and> admits ts s')"

lemma admits_room:
  "0 \<le> quotaUsed s \<Longrightarrow> quotaUsed s + int (length ts) \<le> placeQuotaLimit (s_cfg s) \<Longrightarrow> admits ts s"
  by (induction ts arbitrary: s) (auto simp: consumePlaceQuotaLocked_def Let_def)

text \<open>A poll that is used leaves the limiter with no more than was reported, less what was spent meanwhile.\<close>

lemma qSet_covers:
  assumes "tkEpoch token = epoch q" and "lastSetToken q \<le> tkSpent token" and "t < reset"
  shows "let q' = qSet rem reset t token q
    in remaining q' \<le> rem - (totalSpent q - tkSpent token) \<and> resetAt q' = reset \<and> known q' \<and> margin q' = margin q"
  using assms by (auto simp: qSet_def Let_def)

lemma Allow_granted:
  "fst (fst (Allow t n q)) \<Longrightarrow> known q \<Longrightarrow> resetAt q \<noteq> 0 \<Longrightarrow> t < resetAt q \<Longrightarrow> n + margin q \<le> remaining q"
  by (auto simp: Allow_def refreshWindow_def Let_def split: if_splits)

text \<open>
  C12. What the limiter grants, the simulator admits: once a poll of \<open>RefreshQuota\<close> has got its answer inside the
  broker's window, a burst that \<open>Allow\<close> grants in that window passes the simulator's placement quota in full,
  at whatever times its orders arrive.
\<close>

theorem granted_burst_admitted:
  assumes "run_state (finam_GetUsageMetrics (liveClient L)) w = (Inr quotas, w0)"
    and "run_state (poll (liveClient L) deskUpdater (liveNow L)) w = ((), w1)"
    and "lastSetToken (limiter w) \<le> totalSpent (limiter w)" and "0 \<le> margin (limiter w)"
    and "0 \<le> quotaUsed (sim w1)"
    and "lk_clock L (ticks w) < quotaStart (sim w1) + placeQuotaWindow (s_cfg (sim w1))"
    and "0 \<le> t" and "t < quotaStart (sim w1) + placeQuotaWindow (s_cfg (sim w1))"
    and "fst (fst (Allow t n (limiter w1)))" and "int (length ts) \<le> n"
  shows "admits ts (sim w1)"
proof -
  let ?q = "qSet (max 0 (placeQuotaLimit (s_cfg (sim w0)) - quotaUsed (sim w0)))
      (quotaStart (sim w0) + placeQuotaWindow (s_cfg (sim w0))) (lk_clock L (ticks w)) (Snapshot (limiter w)) (limiter w)"
  have w1: "limiter w1 = ?q" "sim w1 = sim w0"
    using assms(2) metrics_report [OF assms(1)] poll_is_quotaPoll [OF assms(1)] by (auto simp: quotaPoll_def)
  have q: "remaining ?q \<le> max 0 (placeQuotaLimit (s_cfg (sim w0)) - quotaUsed (sim w0)) \<and>
      resetAt ?q = quotaStart (sim w0) + placeQuotaWindow (s_cfg (sim w0)) \<and> known ?q \<and> margin ?q = margin (limiter w)"
    using qSet_covers [of "Snapshot (limiter w)" "limiter w"] assms(3,6) w1(2) by (simp add: Snapshot_def Let_def)
  have "n + margin (limiter w) \<le> max 0 (placeQuotaLimit (s_cfg (sim w0)) - quotaUsed (sim w0))"
    using Allow_granted [OF assms(9)] q assms(7,8) w1 by auto
  then have "ts = [] \<or> quotaUsed (sim w0) + int (length ts) \<le> placeQuotaLimit (s_cfg (sim w0))"
    using assms(4,10) by (cases ts) (auto simp: max_def split: if_splits)
  then show ?thesis using admits_room assms(5) w1(2) by (metis admits.simps(1))
qed

definition quota_link :: Link where
  "quota_link = sample_link\<lparr>lk_clock := \<lambda>n. sample_start\<rparr>"

definition quota_world :: Desk where
  "quota_world = desk_world\<lparr>sim := SetQuotaRemaining 3 sample_sim\<rparr>"

lemma sample_auth:
  "clock s = sample_start \<Longrightarrow> tokens s = [] \<Longrightarrow> revokeBefore s = 0 \<Longrightarrow>
     checkAuth sample_codec sample_ctx s = Ok (''SIM-1'', unixEpoch + 1000 * second)"
  by (simp add: sample_codec_def sample_ctx_def checkAuth_def bearerToken_def parseToken_def
      hasPrefix_def hasSuffix_def simTokenPrefix_def simTokenSuffix_def slice_def)

theorem granted_burst_admitted_witness:
  "admits [sample_start, sample_start + 1, sample_start + 2]
     (sim (exec (poll (liveClient quota_link) deskUpdater (liveNow quota_link)) quota_world))"
proof -
  obtain u s0 where use: "GetUsageMetrics sample_codec sample_ctx (SetQuotaRemaining 3 sample_sim) = (Ok [u], s0)"
      "q_name u = placeOrderQuota" "q_remaining u = 3" "q_reset u = sample_start + 60 * second"
      "quotaUsed s0 = 197" "quotaStart s0 = sample_start" "s_cfg s0 = sample_config"
    by (simp add: GetUsageMetrics_def gateReadOnly_def unaryGate_def gate_def noDirective_def sample_auth time_sub_def SetQuotaRemaining_def sample_sim_eq placeOrderQuota_def Let_def)
  have link: "lk_codec quota_link = sample_codec" "lk_ctx quota_link = sample_ctx" "lk_clock quota_link n = sample_start" for n
    by (simp_all add: quota_link_def)
  have "run_state (onSim quota_link (GetUsageMetrics sample_codec sample_ctx)) quota_world = (Inr [u], quota_world\<lparr>sim := s0\<rparr>)"
    by (rule onSim_now) (simp_all add: quota_world_def desk_world_def use(1))
  then have run: "run_state (finam_GetUsageMetrics (liveClient quota_link)) quota_world = (Inr [u], quota_world\<lparr>sim := s0\<rparr>)"
    by (simp add: finam_GetUsageMetrics_def run_unary_live link)
  define w1 where "w1 = exec (poll (liveClient quota_link) deskUpdater (liveNow quota_link)) quota_world"
  have w1: "run_state (poll (liveClient quota_link) deskUpdater (liveNow quota_link)) quota_world = ((), w1)"
    by (simp add: w1_def exec_def prod_eq_iff)
  have q: "limiter quota_world = NewQuotaLimiter 0" by (simp add: quota_world_def desk_world_def)
  have sim: "sim w1 = s0" and lim: "limiter w1 = qSet 3 (sample_start + 60 * second) sample_start (Snapshot (NewQuotaLimiter 0)) (NewQuotaLimiter 0)"
    using w1 use q unfolding poll_is_quotaPoll [OF run] by (auto simp: quotaPoll_def link)
  have "fst (fst (Allow sample_start 3 (limiter w1)))"
    by (simp add: lim qSet_def Allow_def refreshWindow_def NewQuotaLimiter_def Snapshot_def)
  from granted_burst_admitted [OF run w1 _ _ _ _ _ _ this, of "[sample_start, sample_start + 1, sample_start + 2]"]
  show ?thesis unfolding w1_def [symmetric] sim by (simp add: q link use NewQuotaLimiter_def)
qed

end
