(* ===== verification/SimFeed.thy ===== *)
theory SimFeed
  imports SimIdentity
begin

text \<open>
  How the simulator's operations treat own trades: each appends the same new trades to the accounts they belong to
  and to the channels of those accounts' subscribers, and never takes one back. This is one relation between two
  states, kept by every operation.
\<close>

subsection \<open>Trades and subscribers\<close>

definition trades_of :: "Sim \<Rightarrow> string \<Rightarrow> AccountTrade list" where
  "trades_of s k = (case accounts s k of None \<Rightarrow> [] | Some a \<Rightarrow> a_trades a)"

definition own :: "string \<Rightarrow> AccountTrade list \<Rightarrow> AccountTrade list" where
  "own k ts = filter (\<lambda>t. atAccount t = k) ts"

lemma own_simps [simp]: "own k [] = []" "own k (ts @ us) = own k ts @ own k us"
  by (simp_all add: own_def)

text \<open>Trades offered one after the other to a channel, and to a subscriber of one account.\<close>

definition offers :: "AccountTrade list \<Rightarrow> AccountTrade list \<Rightarrow> AccountTrade list" where
  "offers ts q = fold (offer subBuffer) ts q"

definition view_after :: "AccountTrade list \<Rightarrow> string \<times> AccountTrade list \<Rightarrow> string \<times> AccountTrade list" where
  "view_after ts v = (fst v, offers (own (fst v) ts) (snd v))"

lemma offers_append [simp]: "offers (ts @ us) q = offers us (offers ts q)"
  by (simp add: offers_def)

lemma view_after_simps [simp]:
  "view_after [] = (\<lambda>v. v)" "view_after us (view_after ts v) = view_after (ts @ us) v"
  by (auto simp: view_after_def offers_def fun_eq_iff)

lemma offers_length: "length q \<le> length (offers ts q)"
proof (induction ts arbitrary: q)
  case (Cons t ts)
  have "length q \<le> length (offer subBuffer t q)" by (simp add: offer_def)
  also have "\<dots> \<le> length (offers ts (offer subBuffer t q))" by (rule Cons.IH)
  finally show ?case by (simp add: offers_def)
qed (simp add: offers_def)

text \<open>A channel that still has room has lost nothing.\<close>

lemma offers_room: "length (offers ts q) < subBuffer \<Longrightarrow> offers ts q = q @ ts"
proof (induction ts arbitrary: q)
  case (Cons t ts)
  have "length (offer subBuffer t q) < subBuffer"
    using offers_length [of "offer subBuffer t q" ts] Cons.prems by (simp add: offers_def)
  then have "length q < subBuffer" by (auto simp: offer_def split: if_splits)
  then have one: "offer subBuffer t q = q @ [t]" by (simp add: offer_def)
  have "offers (t # ts) q = offers ts (q @ [t])" by (simp add: offers_def one)
  with Cons.IH [of "q @ [t]"] Cons.prems show ?case by simp
qed (simp add: offers_def)

subsection \<open>New trades between two states\<close>

text \<open>The trades of \<open>ts\<close>, with the ids numbered from the sequence in between, are new in \<open>s'\<close>.\<close>

fun numbered :: "nat \<Rightarrow> nat \<Rightarrow> AccountTrade list \<Rightarrow> bool" where
  "numbered lo hi [] = True"
| "numbered lo hi (t # ts) = (\<exists>n. lo < n \<and> n \<le> hi \<and> atId t = ''AT'' @ itoa n \<and> numbered n hi ts)"

lemma numbered_mono: "numbered lo hi ts \<Longrightarrow> lo' \<le> lo \<Longrightarrow> hi \<le> hi' \<Longrightarrow> numbered lo' hi' ts"
proof (induction ts arbitrary: lo lo')
  case (Cons t ts)
  then obtain n where "lo < n" "n \<le> hi" "atId t = ''AT'' @ itoa n" "numbered n hi ts" by auto
  with Cons.IH [of n n] Cons.prems show ?case by (intro numbered.simps(2) [THEN iffD2] exI [of _ n]) simp
qed simp

lemma numbered_append:
  "numbered lo mid ts \<Longrightarrow> numbered mid hi us \<Longrightarrow> lo \<le> mid \<Longrightarrow> mid \<le> hi \<Longrightarrow> numbered lo hi (ts @ us)"
proof (induction ts arbitrary: lo)
  case (Cons t ts)
  then obtain n where "lo < n" "n \<le> mid" "atId t = ''AT'' @ itoa n" "numbered n mid ts" by auto
  with Cons.IH [of n] Cons.prems show ?case by auto
qed (simp add: numbered_mono)

lemma numbered_own: "numbered lo hi ts \<Longrightarrow> numbered lo hi (own k ts)"
proof (induction ts arbitrary: lo)
  case (Cons t ts)
  then obtain n where n: "lo < n" "n \<le> hi" "atId t = ''AT'' @ itoa n" "numbered n hi ts" by auto
  with Cons.IH [of n] numbered_mono [of n hi "own k ts" lo hi] show ?case by (auto simp: own_def)
qed (simp add: own_def)

lemma numbered_above: "numbered lo hi ts \<Longrightarrow> t \<in> set ts \<Longrightarrow> \<exists>n>lo. atId t = ''AT'' @ itoa n"
  by (induction ts arbitrary: lo) (auto intro: less_trans)

lemma numbered_ids: "numbered lo hi ts \<Longrightarrow> distinct (map atId ts) \<and> '''' \<notin> atId ` set ts"
proof (induction ts arbitrary: lo)
  case (Cons t ts)
  then obtain n where n: "lo < n" "atId t = ''AT'' @ itoa n" "numbered n hi ts" by auto
  have "atId t \<noteq> atId u" if "u \<in> set ts" for u
    using numbered_above [OF n(3) that] n(2) by (auto simp: itoa_def digits_inj)
  with Cons.IH [OF n(3)] n(2) show ?case by auto
qed simp

definition booked :: "AccountTrade list \<Rightarrow> Sim \<Rightarrow> Sim \<Rightarrow> bool" where
  "booked ts s s' \<longleftrightarrow>
     (\<forall>k. trades_of s' k = trades_of s k @ own k ts) \<and>
     prefix (map (view_after ts) (subViews s)) (subViews s') \<and>
     seq s \<le> seq s' \<and> numbered (seq s) (seq s') ts"

lemma booked_append:
  assumes "booked ts s t" and "booked us t u"
  shows "booked (ts @ us) s u"
proof -
  have "prefix (map (view_after us) (map (view_after ts) (subViews s))) (map (view_after us) (subViews t))"
    using assms(1) unfolding booked_def by (intro map_mono_prefix) simp
  then have "prefix (map (view_after (ts @ us)) (subViews s)) (map (view_after us) (subViews t))"
    by (simp add: comp_def)
  then have "prefix (map (view_after (ts @ us)) (subViews s)) (subViews u)"
    using assms(2) unfolding booked_def by (meson prefix_order.trans)
  then show ?thesis using assms numbered_append by (auto simp: booked_def)
qed

text \<open>No trade: the accounts' trades are the same, subscribers may be new.\<close>

lemma booked_none:
  assumes "\<And>k. trades_of s' k = trades_of s k" and "prefix (subViews s) (subViews s')" and "seq s \<le> seq s'"
  shows "booked [] s s'"
  using assms by (simp add: booked_def)

lemma booked_calm: "calm s s' \<Longrightarrow> booked [] s s'"
  by (rule booked_none) (auto simp: calm_def still_def trades_of_def)

text \<open>One trade: an account and its subscribers get it.\<close>

lemma booked_one:
  assumes "accounts s k = Some a" and "accounts s' = (accounts s)(k \<mapsto> b)" and "a_trades b = a_trades a @ [t]"
    and "atAccount t = k" and "atId t = ''AT'' @ itoa n" and "seq s < n" and "n \<le> seq s'"
    and "tradeSubs s' = sendAll subBuffer k t (tradeSubs s)"
  shows "booked [t] s s'"
proof -
  have "subViews s' = map (view_after [t]) (subViews s)"
    using assms(4) by (auto simp: subViews_def assms(8) sendAll_def view_after_def own_def offers_def)
  moreover have "numbered (seq s) (seq s') [t]"
    using assms(5-7) by auto
  moreover have "trades_of s' k' = trades_of s k' @ own k' [t]" for k'
    using assms(1-4) by (auto simp: trades_of_def own_def)
  ultimately show ?thesis using assms(6,7) by (simp add: booked_def)
qed

subsection \<open>The relation is kept\<close>

lemma bookTrade_seq: "seq (snd (bookTrade o' lots price now s)) = seq s + 1"
  by (simp add: bookTrade_def Let_def split_beta nextSeq_def putAccount_def)

lemma bookTrade_subs: "tradeSubs (snd (bookTrade o' lots price now s)) = tradeSubs s"
  by (simp add: bookTrade_def Let_def split_beta nextSeq_def putAccount_def)

lemma bookTrade_trade:
  "fst (bookTrade o' lots price now s) = accountTrade (seq s + 1) o' lots price now"
  by (simp add: bookTrade_def Let_def split_beta nextSeq_def)

lemma accountTrade_id: "atId (accountTrade n o' lots price now) = ''AT'' @ itoa n"
  by (simp add: accountTrade_def)

text \<open>\<open>bookTrade\<close> and the send that goes with it, whatever else is sent in between.\<close>

lemma booked_trade:
  assumes "accounts s (o_account o') = Some a" and "a_id a = o_account o'"
    and "bookTrade o' lots price now s = (t, s1)" and "calm s1 s2" and "tradeSubs s2 = tradeSubs s1"
  shows "booked [t] s (emitTradeLocked t s2)"
proof -
  have s1: "s1 = snd (bookTrade o' lots price now s)" and t: "t = accountTrade (seq s + 1) o' lots price now"
    using assms(3) bookTrade_trade [of o' lots price now s] by simp_all
  let ?b = "(applyFillToAccountLocked a (o_symbol o') (o_side o') lots price)\<lparr>a_trades := a_trades a @ [t]\<rparr>"
  show ?thesis
  proof (rule booked_one [OF assms(1), where b = ?b])
    show "accounts (emitTradeLocked t s2) = (accounts s)(o_account o' \<mapsto> ?b)"
      using assms(2,4) by (simp add: s1 t calm_def still_def bookTrade_core [OF assms(1,2)])
    show "seq s + 1 \<le> seq (emitTradeLocked t s2)"
      using assms(4) by (simp add: s1 calm_def still_def bookTrade_seq)
    show "tradeSubs (emitTradeLocked t s2) = sendAll subBuffer (o_account o') t (tradeSubs s)"
      using assms(5) by (simp add: emitTradeLocked_def s1 t bookTrade_subs)
  qed (simp_all add: t accountTrade_id)
qed

lemma booked_fill:
  assumes wf: "sim_wf s" and o': "sim_orders s oid = Some o'" and "active o'" and "0 < lots"
  shows "\<exists>t. booked [t] s (fillOrderLocked oid lots price now s)"
proof -
  define o1 where "o1 = filled (seq s + 1) (fill_lots o' lots) now o'"
  define s0 where "s0 = putOrder o1 (snd (nextSeq s))"
  obtain t s1 where book: "bookTrade o1 (fill_lots o' lots) price now s0 = (t, s1)"
    by (cases "bookTrade o1 (fill_lots o' lots) price now s0")
  define s2 where "s2 = (case symbols s1 (o_symbol o1) of
      Some st \<Rightarrow> putSymbol (o_symbol o1) (st\<lparr>last_price := price\<rparr>) s1 | None \<Rightarrow> s1)"
  have fill: "fillOrderLocked oid lots price now s =
      emitAccountLocked (o_account o1) (emitTradeLocked t (emitOrderLocked o1 s2))"
  proof -
    have "\<not> (lots \<le> 0 \<or> \<not> active o')" using assms(3,4) by simp
    then show ?thesis
      using book unfolding s2_def s0_def o1_def
      by (simp only: fillOrderLocked_def o' option.case if_False Let_def nextSeq_def prod.case snd_conv
          fill_lots_def [symmetric] filled_def [symmetric])
  qed
  obtain a where a: "accounts s (o_account o') = Some a" "account_ok s (o_account o') a"
    using wf_account_of [OF wf o'] .
  have id: "a_id a = o_account o'" using a(2) unfolding account_ok_def by (rule conjunct1)
  have "booked [] s s0"
    by (rule booked_none) (simp_all add: s0_def trades_of_def subViews_def)
  moreover have "booked [t] s0 (emitTradeLocked t (emitOrderLocked o1 s2))"
  proof (rule booked_trade [OF _ _ book])
    have "calm s1 s2" by (simp add: s2_def split: option.split)
    then show "calm s1 (emitOrderLocked o1 s2)" by (rule calm_trans) simp
    show "tradeSubs (emitOrderLocked o1 s2) = tradeSubs s1" by (simp add: s2_def split: option.split)
  qed (use a(1) id in \<open>simp_all add: s0_def o1_def\<close>)
  moreover have "booked [] (emitTradeLocked t (emitOrderLocked o1 s2)) (fillOrderLocked oid lots price now s)"
    unfolding fill by (rule booked_calm) simp
  ultimately have "booked ([] @ [t] @ []) s (fillOrderLocked oid lots price now s)"
    by (intro booked_append)
  then show ?thesis by auto
qed

definition fed :: "Sim \<Rightarrow> Sim \<Rightarrow> bool" where
  "fed s s' \<longleftrightarrow> (\<exists>ts. booked ts s s')"

lemma fed_refl [simp]: "fed s s"
  unfolding fed_def by (rule exI [of _ "[]"]) (simp add: booked_none)

lemma fed_trans: "fed s t \<Longrightarrow> fed t u \<Longrightarrow> fed s u"
  unfolding fed_def by (blast intro: booked_append)

lemma fed_calm: "fed s0 s \<Longrightarrow> calm s s' \<Longrightarrow> fed s0 s'"
  unfolding fed_def using booked_append [OF _ booked_calm] by blast

lemma fed_booked: "fed s0 s \<Longrightarrow> booked ts s s' \<Longrightarrow> fed s0 s'"
  unfolding fed_def by (blast intro: booked_append)

lemma withdraw_quiet: "booked [] s (withdraw st now o' s)"
  by (rule booked_none) (simp_all add: withdraw_def Let_def trades_of_def subViews_def)

lemma announce_quiet: "booked [] s (putOrder o' s)"
  by (rule booked_none) (simp_all add: trades_of_def subViews_def)

lemma SetPosition_quiet:
  assumes "sim_wf s"
  shows "booked [] s (snd (SetPosition k sy qty avg s))"
proof (rule booked_none)
  show "trades_of (snd (SetPosition k sy qty avg s)) k' = trades_of s k'" for k'
    using wf_account [OF assms, of k]
    by (auto simp: SetPosition_def trades_of_def account_ok_def Let_def dest!: symbolLocked_core
        split: option.splits prod.splits)
qed (auto simp: SetPosition_def subViews_def Let_def dest!: symbolLocked_core split: option.splits prod.splits)

lemma entered_quiet:
  assumes "sim_wf s" and "accounts s k = Some acc"
  shows "booked [] s (entered acc req qty lp mangle s)"
proof (rule booked_none)
  have "a_id acc = k" using wf_account [OF assms] by (simp add: account_ok_def)
  then show "trades_of (entered acc req qty lp mangle s) k' = trades_of s k'" for k'
    using assms(2) by (simp add: trades_of_def entered_core)
  show "prefix (subViews s) (subViews (entered acc req qty lp mangle s))"
    by (simp add: entered_def enterOrder_def newOrder_def nextSeq_def subViews_def Let_def)
qed (use entered_core(3) [of s acc req qty lp mangle] in simp)

interpretation fed: sim_moves_all "\<lambda>s. sim_wf s \<and> fed s0 s" for s0
proof
  show "sim_wf (fillOrderLocked oid lots price now s) \<and> fed s0 (fillOrderLocked oid lots price now s)"
    if inv: "sim_wf s \<and> fed s0 s" for s oid lots price now
  proof (cases "\<exists>o'. sim_orders s oid = Some o' \<and> active o' \<and> 0 < lots")
    case True
    then obtain o' t where "booked [t] s (fillOrderLocked oid lots price now s)"
      using booked_fill inv by blast
    moreover have "sim_wf (fillOrderLocked oid lots price now s)"
      by (rule fill_kept [where I = sim_wf]) (use inv in \<open>auto intro: wf_still wf_fill_core\<close>)
    ultimately show ?thesis using inv fed_booked by blast
  qed (use inv in \<open>simp add: fill_none\<close>)
  show "sim_wf (case bookTrade o' lots price now s of (t, s') \<Rightarrow> emitTradeLocked t s') \<and>
      fed s0 (case bookTrade o' lots price now s of (t, s') \<Rightarrow> emitTradeLocked t s')"
    if inv: "sim_wf s \<and> fed s0 s" "sim_orders s oid = Some o'" "0 < lots" for s oid o' lots price now
  proof -
    obtain t s1 where book: "bookTrade o' lots price now s = (t, s1)" by (cases "bookTrade o' lots price now s")
    obtain a where a: "accounts s (o_account o') = Some a" "account_ok s (o_account o') a"
      using wf_account_of [OF _ inv(2)] inv(1) by blast
    have "booked [t] s (emitTradeLocked t s1)"
      by (rule booked_trade [OF a(1) _ book]) (use a(2) in \<open>simp_all add: account_ok_def\<close>)
    then show ?thesis using inv wf_injected [of s oid o' lots price now] fed_booked book by auto
  qed
  show "sim_wf (putOrder (announced now o') s) \<and> fed s0 (putOrder (announced now o') s)"
    if "sim_wf s \<and> fed s0 s" "sim_orders s oid = Some o'" "\<not> terminal o'" for s oid o' now
    using that wf_announce fed_booked [OF _ announce_quiet] by blast
qed (auto dest: calm_still intro: wf_still fed_calm wf_withdraw fed_booked [OF _ withdraw_quiet] wf_entered
    fed_booked [OF _ entered_quiet] wf_set_position fed_booked [OF _ SetPosition_quiet] simp: withdrawal_def)

lemma step_booked: "sim_wf s \<Longrightarrow> \<exists>ts. booked ts s (sim_step K op s)"
  using fed.step_kept_all [of s s K op] by (auto simp: fed_def)

text \<open>From a new simulator on, the ids of an account's trades all differ.\<close>

definition trade_ids_ok :: "Sim \<Rightarrow> bool" where
  "trade_ids_ok s \<longleftrightarrow> (\<forall>k. numbered 0 (seq s) (trades_of s k))"

lemma trade_ids_booked:
  assumes "trade_ids_ok s" and "booked ts s s'"
  shows "trade_ids_ok s'"
proof -
  have "numbered 0 (seq s') (trades_of s k @ own k ts)" for k
    by (rule numbered_append [where mid = "seq s"])
      (use assms numbered_own in \<open>auto simp: trade_ids_ok_def booked_def\<close>)
  then show ?thesis using assms(2) by (simp add: trade_ids_ok_def booked_def)
qed

lemma trade_ids_NewSim: "trade_ids_ok (NewSim cfg now r)"
  by (auto simp: trade_ids_ok_def trades_of_def newAccount_def dest!: NewSim_accounts split: option.split)

end
