(* ===== verification/SimStreams.thy ===== *)
theory SimStreams
  imports SimFeed
begin

text \<open>
  A subscription to own trades on the simulator's side, from \<open>SubscribeTrades\<close> over the loop \<open>runEventStream\<close> to the
  removal of the subscriber, with any other operation of the simulator in between; and what of it reaches
  the client. A session of the client that ends is followed by the next one.
\<close>

subsection \<open>The loop of a stream\<close>

text \<open>The branches of its select; \<open>CtxDone\<close> carries the error of the stream's context.\<close>

datatype StreamTurn = CtxDone go_error | Stopping | TokenCheck | Event

definition runEventStream ::
  "string \<Rightarrow> StreamTurn \<Rightarrow> time \<Rightarrow> 'a eventSub \<Rightarrow> faultTable \<Rightarrow> (go_error option \<times> 'a list) \<times> 'a eventSub \<times> faultTable" where
  "runEventStream m turn now sub ft =
     (case turn of
        CtxDone e \<Rightarrow> ((Some e, []), sub, ft)
      | Stopping \<Rightarrow> ((Some (Leaf code_Unavailable ''brokersim shutting down''), []), sub, ft)
      | TokenCheck \<Rightarrow> (let (e, ft') = streamCheck m now sub ft in ((e, []), sub, ft'))
      | Event \<Rightarrow> streamEvent m sub ft)"

text \<open>The first message of a stream that starts with a replay, where there is something to replay.\<close>

definition sendReplay :: "string \<Rightarrow> 'a list \<Rightarrow> faultTable \<Rightarrow> (go_error option \<times> 'a list list) \<times> faultTable" where
  "sendReplay m replay ft = (if replay = [] then ((None, []), ft) else streamSend m replay ft)"

text \<open>
  The loops of the public tape, of the book and of the account snapshots. A response of the book stream is a list
  of books, empty for a heartbeat; the account's channel carries signals, and each sends the snapshot as it is then.
\<close>

definition tapeTurn ::
  "StreamTurn \<Rightarrow> time \<Rightarrow> TapeTrade eventSub \<Rightarrow> faultTable \<Rightarrow>
     (go_error option \<times> (string \<times> TapeTrade list) list) \<times> TapeTrade eventSub \<times> faultTable" where
  "tapeTurn turn now sub ft =
     (case runEventStream ''SubscribeLatestTrades'' turn now sub ft of
        ((e, trs), sub', ft') \<Rightarrow> ((e, map (\<lambda>tr. (es_key sub, [tr])) trs), sub', ft'))"

datatype BookTurn = Loop StreamTurn | Heartbeat

definition bookStreamTurn ::
  "BookTurn \<Rightarrow> time \<Rightarrow> (string \<times> BookRow list) eventSub \<Rightarrow> faultTable \<Rightarrow>
     (go_error option \<times> (string \<times> BookRow list) list list) \<times> (string \<times> BookRow list) eventSub \<times> faultTable" where
  "bookStreamTurn bt now sub ft =
     (case bt of
        Heartbeat \<Rightarrow> (let (r, ft') = streamSend ''SubscribeOrderBook'' [] ft in (r, sub, ft'))
      | Loop turn \<Rightarrow>
          (case runEventStream ''SubscribeOrderBook'' turn now sub ft of
             ((e, books), sub', ft') \<Rightarrow> ((e, map (\<lambda>b. [b]) books), sub', ft')))"

definition accountTurn ::
  "string list \<Rightarrow> account \<Rightarrow> StreamTurn \<Rightarrow> unit eventSub \<Rightarrow> Sim \<Rightarrow>
     (go_error option \<times> AccountResponse list) \<times> unit eventSub \<times> faultTable" where
  "accountTurn syms acc turn sub s =
     (if turn = Event then
        (case es_queue sub of
           [] \<Rightarrow> ((None, []), sub, faults s)
         | _ # q \<Rightarrow>
             (let (r, ft) = streamSend ''SubscribeAccount'' (accountSnapshotLocked syms acc s) (faults s)
              in (r, sub\<lparr>es_queue := q\<rparr>, ft)))
      else
        (case runEventStream ''SubscribeAccount'' turn (clock s) sub (faults s) of
           ((e, _), sub', ft) \<Rightarrow> ((e, []), sub', ft)))"

text \<open>
  Revoking the tokens ends every stream at its next check, one whose token was issued anew included, since
  the deadline of a stream is the one it was opened with.
\<close>

lemma check_expired: "sub_expired now sub \<Longrightarrow>
    fst (fst (runEventStream m TokenCheck now sub ft)) = Some (Leaf code_Unauthenticated ''token expired'')"
  by (simp add: runEventStream_def streamCheck_def split_beta)

lemma revoked_streams_end:
  assumes "clock (snd (ExpireTokens s)) \<le> now"
  shows "\<forall>sub\<in>set (tradeSubs (snd (ExpireTokens s))). sub_expired now sub"
    and "\<forall>sub\<in>set (orderSubs (snd (ExpireTokens s))). sub_expired now sub"
    and "\<forall>sub\<in>set (bookSubs (snd (ExpireTokens s))). sub_expired now sub"
    and "\<forall>sub\<in>set (tapeSubs (snd (ExpireTokens s))). sub_expired now sub"
    and "\<forall>sub\<in>set (accountSubs (snd (ExpireTokens s))). sub_expired now sub"
  using assms by (auto simp: ExpireTokens_def killSubs_def sub_expired_def Let_def)

text \<open>
  A rule that silences the book stream swallows its heartbeats and its changes alike, so the client's book goes
  stale while the stream stays open; the rule is not used up.
\<close>

definition silences :: "string \<Rightarrow> Fault \<Rightarrow> bool" where
  "silences m r \<longleftrightarrow> matches_method m r \<and> f_Action r = ''silence'' \<and> f_Count r \<noteq> 0"

lemma peekLoop_silent: "d_silence d \<or> list_ex (silences m) rs \<Longrightarrow> d_silence (peekLoop m rs d)"
proof (induction m rs d rule: peekLoop.induct)
  case (2 m r rs d)
  then show ?case by (cases "silences m r") (auto simp: silences_def)
qed simp

lemma gateKillLoop_silences:
  "gateKillLoop m ds rs k = (rs', e, k') \<Longrightarrow> list_ex (silences m) rs \<Longrightarrow> list_ex (silences m) rs'"
proof (induction m ds rs k arbitrary: rs' e k' rule: gateKillLoop.induct)
  case (2 m ds r rs k)
  obtain sk k1 where skip: "skipped r ds k = (sk, k1)" by (cases "skipped r ds k")
  note IH = "2.IH"(1) "2.IH"(2) [OF _ skip [symmetric] refl]
  have "\<not> silences m r" if "f_Action r = ''kill_stream''" using that by (simp add: silences_def)
  then show ?case using "2.prems" IH by (auto simp: skip Let_def split: if_splits prod.splits)
qed simp

lemma silenced_send:
  assumes "list_ex (silences m) (rules ft)" and "streamSend m msg ft = ((e, msgs), ft')"
  shows "msgs = [] \<and> list_ex (silences m) (rules ft')"
proof -
  obtain rs e1 k where kill: "gateKillLoop m (draws ft) (rules ft) (used_draws ft) = (rs, e1, k)"
    by (cases "gateKillLoop m (draws ft) (rules ft) (used_draws ft)")
  from gateKillLoop_silences [OF kill assms(1)] peekLoop_silent [of noDirective m rs] assms(2)
  show ?thesis by (auto simp: streamSend_def gateKill_def kill peek_def Let_def split: option.splits)
qed

lemma silenced_book:
  assumes "list_ex (silences ''SubscribeOrderBook'') (rules ft)" and "bt \<in> {Heartbeat, Loop Event}"
    and "bookStreamTurn bt now sub ft = ((e, msgs), sub', ft')"
  shows "msgs = [] \<and> list_ex (silences ''SubscribeOrderBook'') (rules ft')"
  using assms
  by (auto simp: bookStreamTurn_def runEventStream_def streamEvent_def dest!: silenced_send [OF assms(1)]
      split: prod.splits list.splits)

text \<open>Where no rule silences streams, a message that is sent arrives, once or twice.\<close>

abbreviation hears :: "faultTable \<Rightarrow> bool" where
  "hears \<equiv> rules_all (\<lambda>act. act \<noteq> ''silence'')"

lemma peekLoop_hears: "\<forall>r\<in>set rs. f_Action r \<noteq> ''silence'' \<Longrightarrow> d_silence (peekLoop m rs d) = d_silence d"
  by (induction m rs d rule: peekLoop.induct) simp_all

lemma streamSend_hears:
  assumes "hears ft" and "streamSend m msg ft = ((e, msgs), ft')"
  shows "hears ft' \<and> (if e = None then msgs = [msg] \<or> msgs = [msg, msg] else msgs = [])"
proof -
  obtain e1 ft1 where kill: "gateKill m ft = (e1, ft1)" by (cases "gateKill m ft")
  have "hears ft1" using gateKill_rules [OF assms(1), of m] kill by simp
  moreover from this have "\<not> d_silence (peek m ft1)"
    using peekLoop_hears [of "rules ft1" m noDirective] by (simp add: peek_def rules_all_def noDirective_def)
  ultimately show ?thesis using assms(2) kill by (auto simp: streamSend_def Let_def split: option.splits if_splits)
qed

lemma streamCheck_hears: "hears ft \<Longrightarrow> hears (snd (streamCheck m now sub ft))"
  by (simp add: streamCheck_def gateKill_rules)

subsection \<open>A subscription and its client\<close>

text \<open>\<open>Greeting i replay\<close>: subscribed in slot \<open>i\<close>, the replay not sent yet.\<close>

datatype Phase = Idle | Greeting nat "AccountTrade list" | Serving nat

text \<open>
  \<open>sent\<close> are the responses of the running session on their way to the client, \<open>over\<close> the sessions that ended, as
  the client has met them.
\<close>

record TradeFeed =
  on :: Sim
  phase :: Phase
  sent :: "AccountTrade list list"
  over :: "AccountTrade list list list"

text \<open>The deferred removal of a subscriber, and the end of a session of which \<open>got\<close> responses reach the client.\<close>

definition unsubscribe :: "nat \<Rightarrow> Sim \<Rightarrow> Sim" where
  "unsubscribe i s = s\<lparr>tradeSubs := drop_nth i (tradeSubs s)\<rparr>"

definition hangUp :: "nat \<Rightarrow> nat \<Rightarrow> TradeFeed \<Rightarrow> TradeFeed" where
  "hangUp i got f =
     f\<lparr>on := unsubscribe i (on f), phase := Idle, sent := [], over := over f @ [take got (sent f)]\<rparr>"

text \<open>A subscription that is refused, or whose handler panics, is a session without a response.\<close>

definition connect :: "codec \<Rightarrow> string list \<Rightarrow> string \<Rightarrow> TradeFeed \<Rightarrow> TradeFeed" where
  "connect K ctx k f =
     (case phase f of
        Idle \<Rightarrow>
          (case SubscribeTrades K ctx k (on f) of
             (Ok replay, s) \<Rightarrow> f\<lparr>on := s, phase := Greeting (length (tradeSubs (on f))) replay\<rparr>
           | (_, s) \<Rightarrow> f\<lparr>on := s, over := over f @ [[]]\<rparr>)
      | _ \<Rightarrow> f)"

definition greet :: "TradeFeed \<Rightarrow> TradeFeed" where
  "greet f =
     (case phase f of
        Greeting i replay \<Rightarrow>
          (case sendReplay ''SubscribeTrades'' replay (faults (on f)) of
             ((e, msgs), ft) \<Rightarrow>
               (let f1 = f\<lparr>on := (on f)\<lparr>faults := ft\<rparr>\<rparr>
                in if e \<noteq> None then hangUp i 0 f1 else f1\<lparr>phase := Serving i, sent := msgs\<rparr>))
      | _ \<Rightarrow> f)"

definition serveTurn :: "StreamTurn \<Rightarrow> TradeFeed \<Rightarrow> TradeFeed" where
  "serveTurn turn f =
     (case phase f of
        Serving i \<Rightarrow>
          (case runEventStream ''SubscribeTrades'' turn (clock (on f)) (tradeSubs (on f) ! i) (faults (on f)) of
             ((e, evs), sub, ft) \<Rightarrow>
               (let f1 = f\<lparr>on := (on f)\<lparr>tradeSubs := (tradeSubs (on f))[i := sub], faults := ft\<rparr>,
                           sent := sent f @ map (\<lambda>t. [t]) evs\<rparr>
                in if e \<noteq> None then hangUp i (length (sent f1)) f1 else f1))
      | _ \<Rightarrow> f)"

text \<open>The connection breaks: the stream's context ends, and only the first \<open>got\<close> responses were received.\<close>

definition cut :: "nat \<Rightarrow> TradeFeed \<Rightarrow> TradeFeed" where
  "cut got f = (case phase f of Idle \<Rightarrow> f | Greeting i r \<Rightarrow> hangUp i got f | Serving i \<Rightarrow> hangUp i got f)"

text \<open>The subscription of someone else in slot \<open>j\<close> ends.\<close>

definition shifted :: "nat \<Rightarrow> nat \<Rightarrow> nat" where
  "shifted j i = (if j < i then i - 1 else i)"

definition leaves :: "nat \<Rightarrow> TradeFeed \<Rightarrow> TradeFeed" where
  "leaves j f =
     (case phase f of
        Idle \<Rightarrow> f\<lparr>on := unsubscribe j (on f)\<rparr>
      | Greeting i r \<Rightarrow>
          if i = j then f else f\<lparr>on := unsubscribe j (on f), phase := Greeting (shifted j i) r\<rparr>
      | Serving i \<Rightarrow> if i = j then f else f\<lparr>on := unsubscribe j (on f), phase := Serving (shifted j i)\<rparr>)"

datatype feed_step = Op sim_op | Connects "string list" | Greets | Turn StreamTurn | Cuts nat | Leaves nat

fun feedStep :: "codec \<Rightarrow> string \<Rightarrow> feed_step \<Rightarrow> TradeFeed \<Rightarrow> TradeFeed" where
  "feedStep K k (Op op) f = f\<lparr>on := sim_step K op (on f)\<rparr>"
| "feedStep K k (Connects ctx) f = connect K ctx k f"
| "feedStep K k Greets f = greet f"
| "feedStep K k (Turn turn) f = serveTurn turn f"
| "feedStep K k (Cuts got) f = cut got f"
| "feedStep K k (Leaves j) f = leaves j f"

definition tradeRun :: "codec \<Rightarrow> string \<Rightarrow> feed_step list \<Rightarrow> TradeFeed \<Rightarrow> TradeFeed" where
  "tradeRun K k steps f = fold (feedStep K k) steps f"

definition quietFeed :: "Sim \<Rightarrow> TradeFeed" where
  "quietFeed s = \<lparr>on = s, phase = Idle, sent = [], over = []\<rparr>"

text \<open>The channel of the subscription has room left at every step; no step installs a rule that silences streams.\<close>

fun slot_of :: "Phase \<Rightarrow> nat option" where
  "slot_of Idle = None"
| "slot_of (Greeting i r) = Some i"
| "slot_of (Serving i) = Some i"

definition roomy :: "TradeFeed \<Rightarrow> bool" where
  "roomy f = (case slot_of (phase f) of None \<Rightarrow> True | Some i \<Rightarrow> length (es_queue (tradeSubs (on f) ! i)) < subBuffer)"

fun keepsUp :: "codec \<Rightarrow> string \<Rightarrow> feed_step list \<Rightarrow> TradeFeed \<Rightarrow> bool" where
  "keepsUp K k [] f = True"
| "keepsUp K k (st # sts) f = (roomy (feedStep K k st f) \<and> keepsUp K k sts (feedStep K k st f))"

fun audible :: "feed_step \<Rightarrow> bool" where
  "audible (Op op) = adds_only (\<lambda>act. act \<noteq> ''silence'') op"
| "audible _ = True"

end
