(* ===== verification/LiveFills.thy ===== *)
theory LiveFills
  imports SimStreams SimTheorems ClientStreams
begin

text \<open>
  Own fills from the simulator's matching to the strategy's dedup: the trades booked on the account, the channel of
  the subscription, the sessions of the client with their replays and breaks, the client's reader and channel.
\<close>

subsection \<open>Where a session stands\<close>

text \<open>
  A running session has gone along the account's trades up to some position, and from there on its channel
  holds the rest.
\<close>

definition stands :: "string \<Rightarrow> TradeFeed \<Rightarrow> bool" where
  "stands k f \<longleftrightarrow>
     (case phase f of
        Idle \<Rightarrow> sent f = []
      | Greeting i r \<Rightarrow>
          sent f = [] \<and> i < length (subViews (on f)) \<and>
          (\<exists>q. subViews (on f) ! i = (k, q) \<and> trades_of (on f) k = r @ q)
      | Serving i \<Rightarrow>
          i < length (subViews (on f)) \<and>
          (\<exists>n. along (trades_of (on f) k) 0 (concat (sent f)) = Some n \<and>
               subViews (on f) ! i = (k, drop n (trades_of (on f) k))))"

definition feed_ok :: "string \<Rightarrow> TradeFeed \<Rightarrow> bool" where
  "feed_ok k f \<longleftrightarrow>
     sim_wf (on f) \<and> trade_ids_ok (on f) \<and> hears (faults (on f)) \<and> stands k f \<and>
     (\<forall>p\<in>set (over f). along (trades_of (on f) k) 0 (concat p) \<noteq> None)"

lemma trades_distinct: "trade_ids_ok s \<Longrightarrow> distinct (trades_of s k)"
  using numbered_ids [of 0 "seq s" "trades_of s k"] by (auto simp: trade_ids_ok_def distinct_map)

lemma along_take:
  assumes "along T 0 (concat ps) \<noteq> None"
  shows "along T 0 (concat (take n ps)) \<noteq> None"
proof -
  have "along T 0 (concat (take n ps) @ concat (drop n ps)) \<noteq> None"
    using assms by (simp flip: concat_append)
  then show ?thesis by (auto simp: along_append split: option.splits)
qed

text \<open>What the subscribers and the rules are does not matter to orders, accounts and their trades.\<close>

lemma sim_cong:
  assumes "accounts s' = accounts s" and "sim_orders s' = sim_orders s" and "seq s' = seq s"
  shows "sim_wf s \<Longrightarrow> sim_wf s'" "trade_ids_ok s \<Longrightarrow> trade_ids_ok s'" "trades_of s' k = trades_of s k"
  using wf_still [of s s'] assms by (simp_all add: still_def trade_ids_ok_def trades_of_def)

lemma unsubscribe_simps [simp]:
  "accounts (unsubscribe i s) = accounts s" "sim_orders (unsubscribe i s) = sim_orders s"
  "seq (unsubscribe i s) = seq s" "faults (unsubscribe i s) = faults s"
  "subViews (unsubscribe i s) = drop_nth i (subViews s)"
  by (simp_all add: unsubscribe_def subViews_def drop_nth_def take_map drop_map)

lemmas unsubscribed [simp] = sim_cong [where s' = "unsubscribe i s" and s = s for i s, simplified]

lemma drop_nth_shifted:
  "i \<noteq> j \<Longrightarrow> i < length xs \<Longrightarrow> shifted j i < length (drop_nth j xs) \<and> drop_nth j xs ! shifted j i = xs ! i"
  by (auto simp: drop_nth_def shifted_def nth_append min_def)

subsection \<open>Every step keeps it\<close>

text \<open>The end of a session files what reached the client.\<close>

lemma hangUp_ok:
  assumes "sim_wf (on f)" and "trade_ids_ok (on f)" and "hears (faults (on f))"
    and "along (trades_of (on f) k) 0 (concat (sent f)) \<noteq> None"
    and "\<forall>p\<in>set (over f). along (trades_of (on f) k) 0 (concat p) \<noteq> None"
  shows "feed_ok k (hangUp i got f)"
  using assms along_take [OF assms(4), of got] by (auto simp: feed_ok_def hangUp_def stands_def)

lemma op_ok:
  assumes ok: "feed_ok k f" and "adds_only (\<lambda>act. act \<noteq> ''silence'') op" and room: "roomy (feedStep K k (Op op) f)"
  shows "feed_ok k (feedStep K k (Op op) f)"
proof -
  define s where "s = on f"
  define s' where "s' = sim_step K op s"
  obtain ts where ts: "booked ts s s'" using step_booked [of s K op] ok by (auto simp: s_def s'_def feed_ok_def)
  have wf: "sim_wf s'" using fed.step_kept_all [of s s K op] ok by (simp add: s_def s'_def feed_ok_def)
  have ids: "trade_ids_ok s'" using trade_ids_booked [OF _ ts] ok by (simp add: s_def feed_ok_def)
  have rules: "hears (faults s')" using step_plain assms(2) ok by (simp add: s_def s'_def feed_ok_def)
  have trades: "trades_of s' k = trades_of s k @ own k ts" using ts by (simp add: booked_def)
  have view: "i < length (subViews s') \<and> subViews s' ! i = (k, q @ own k ts)"
    if "i < length (subViews s)" "subViews s ! i = (k, q)" "slot_of (phase f) = Some i" for i q
  proof -
    have "prefix (map (view_after ts) (subViews s)) (subViews s')" using ts by (simp add: booked_def)
    then have i: "i < length (subViews s')" "subViews s' ! i = view_after ts (k, q)"
      using that(1,2) by (auto elim!: prefixE simp: nth_append)
    then have "length (offers (own k ts) q) < subBuffer"
      using room that(3) by (simp add: roomy_def s'_def [symmetric] s_def [symmetric] subViews_def view_after_def)
    from offers_room [OF this] i show ?thesis by (simp add: view_after_def)
  qed
  have old: "\<forall>p\<in>set (over f). along (trades_of s' k) 0 (concat p) \<noteq> None"
    using ok along_grow [where T = "trades_of s k" and n = 0] unfolding trades by (force simp: feed_ok_def s_def)
  have "stands k (f\<lparr>on := s'\<rparr>)"
  proof (cases "phase f")
    case Idle
    then show ?thesis using ok by (simp add: feed_ok_def stands_def)
  next
    case (Greeting i r)
    then show ?thesis using ok view by (auto simp: feed_ok_def stands_def s_def [symmetric] trades)
  next
    case (Serving i)
    then obtain n where n: "along (trades_of s k) 0 (concat (sent f)) = Some n" "i < length (subViews s)"
      "subViews s ! i = (k, drop n (trades_of s k))"
      using ok by (auto simp: feed_ok_def stands_def s_def [symmetric])
    have "n \<le> length (trades_of s k)" using along_bounds [OF n(1)] by simp
    then show ?thesis using along_grow [OF n(1)] view [OF n(2,3)] Serving by (simp add: stands_def trades)
  qed
  then show ?thesis using wf ids rules old by (simp add: feed_ok_def s'_def s_def)
qed

lemma SubscribeTrades_replay:
  assumes "SubscribeTrades K ctx k s0 = (r, s)" and "sim_wf s0" and "k \<noteq> ''''"
  shows "accounts s = accounts s0" "sim_orders s = sim_orders s0" "seq s = seq s0"
    "\<forall>replay. r = Ok replay \<longrightarrow> replay = trades_of s0 k \<and>
       (\<exists>t. tradeSubs s = tradeSubs s0 @ [\<lparr>es_key = k, es_queue = [], es_exp = t\<rparr>])"
  using assms wf_account [of s0 k]
  by (auto simp: SubscribeTrades_def checkAccount_def Let_def trades_of_def account_ok_def
      split: prod.splits option.splits outcome.splits if_splits)

lemma connect_ok:
  assumes "feed_ok k f" and "k \<noteq> ''''"
  shows "feed_ok k (connect K ctx k f)"
proof (cases "phase f")
  case Idle
  obtain r s where sub: "SubscribeTrades K ctx k (on f) = (r, s)" by (cases "SubscribeTrades K ctx k (on f)")
  have "sim_wf (on f)" using assms(1) by (simp add: feed_ok_def)
  note same = SubscribeTrades_replay [OF sub this assms(2)]
  have "hears (faults s)" using queries_plain(9) [of _ "on f" K ctx k] assms(1) sub by (simp add: feed_ok_def)
  then have core: "sim_wf s" "trade_ids_ok s" "hears (faults s)" "trades_of s k = trades_of (on f) k"
    using sim_cong [OF same(1-3)] assms(1) by (auto simp: feed_ok_def)
  show ?thesis
  proof (cases r)
    case (Ok replay)
    then obtain t where "replay = trades_of (on f) k"
      "tradeSubs s = tradeSubs (on f) @ [\<lparr>es_key = k, es_queue = [], es_exp = t\<rparr>]"
      using same(4) by blast
    with Ok Idle sub core assms(1) show ?thesis
      by (auto simp: connect_def feed_ok_def stands_def subViews_def nth_append)
  qed (use Idle sub core assms(1) in \<open>auto simp: connect_def feed_ok_def stands_def\<close>)
qed (use assms in \<open>simp_all add: connect_def\<close>)

lemma greet_ok:
  assumes ok: "feed_ok k f"
  shows "feed_ok k (greet f)"
proof (cases "phase f")
  case (Greeting i r)
  from ok Greeting obtain q where q: "sent f = []" "i < length (subViews (on f))" "subViews (on f) ! i = (k, q)"
    "trades_of (on f) k = r @ q"
    by (auto simp: feed_ok_def stands_def)
  have walk: "along (r @ q) 0 r = Some (length r)"
    using along_grow [of r 0 r "length r" q] along_walk [of "[]" r] trades_distinct [of "on f" k] ok q(4)
    by (simp add: feed_ok_def)
  then have twice: "along (r @ q) 0 (r @ r) = Some (length r)" by (simp add: along_append along_known)
  obtain e msgs ft where send: "sendReplay ''SubscribeTrades'' r (faults (on f)) = ((e, msgs), ft)"
    by (metis prod.collapse)
  have sends: "hears ft \<and> (e = None \<longrightarrow> along (r @ q) 0 (concat msgs) = Some (length r))"
    using streamSend_hears [of "faults (on f)" "''SubscribeTrades''" r e msgs ft] send ok walk twice
    by (auto simp: sendReplay_def feed_ok_def split: if_splits)
  define f1 where "f1 = f\<lparr>on := (on f)\<lparr>faults := ft\<rparr>\<rparr>"
  have core: "sim_wf (on f1)" "trade_ids_ok (on f1)" "hears (faults (on f1))" "trades_of (on f1) k = r @ q"
    "\<forall>p\<in>set (over f1). along (r @ q) 0 (concat p) \<noteq> None" "subViews (on f1) = subViews (on f)" "sent f1 = []"
    using sim_cong [of "on f1" "on f"] sends ok q by (auto simp: f1_def feed_ok_def subViews_def)
  have run: "greet f = (if e \<noteq> None then hangUp i 0 f1 else f1\<lparr>phase := Serving i, sent := msgs\<rparr>)"
    using Greeting send by (simp add: greet_def f1_def Let_def)
  have "feed_ok k (hangUp i 0 f1)" by (rule hangUp_ok) (use core in auto)
  moreover have "feed_ok k (f1\<lparr>phase := Serving i, sent := msgs\<rparr>)" if "e = None"
    using sends that ok core q by (auto simp: feed_ok_def stands_def)
  ultimately show ?thesis by (simp add: run)
qed (use ok in \<open>simp_all add: greet_def\<close>)

text \<open>A turn of the loop sends the next trade of the channel, once or twice, or none.\<close>

lemma runEventStream_turn:
  assumes "hears ft" and "runEventStream m turn now sub ft = ((e, evs), sub', ft')"
  shows "hears ft' \<and> es_key sub' = es_key sub \<and>
    ((evs = [] \<and> (es_queue sub' = es_queue sub \<or> e \<noteq> None)) \<or>
     (\<exists>ev. es_queue sub = ev # es_queue sub' \<and> (evs = [ev] \<or> evs = [ev, ev])))"
proof (cases turn)
  case Event
  show ?thesis
  proof (cases "es_queue sub")
    case (Cons ev q)
    obtain r ft1 where send: "streamSend m ev ft = (r, ft1)" by (cases "streamSend m ev ft")
    obtain e1 msgs where r: "r = (e1, msgs)" by (cases r)
    have "r = (e, evs)" "sub' = sub\<lparr>es_queue := q\<rparr>" "ft' = ft1"
      using assms(2) Event Cons send by (auto simp: runEventStream_def streamEvent_def)
    then show ?thesis using streamSend_hears [OF assms(1) send [unfolded r]] r Cons by (auto split: if_splits)
  qed (use assms Event in \<open>auto simp: runEventStream_def streamEvent_def\<close>)
next
  case TokenCheck
  then show ?thesis
    using assms streamCheck_hears [OF assms(1), of m now sub] by (auto simp: runEventStream_def split: prod.splits)
qed (use assms in \<open>auto simp: runEventStream_def\<close>)

lemma serveTurn_ok:
  assumes ok: "feed_ok k f"
  shows "feed_ok k (serveTurn turn f)"
proof (cases "phase f")
  case (Serving i)
  define T where "T = trades_of (on f) k"
  obtain n where n: "along T 0 (concat (sent f)) = Some n" "i < length (tradeSubs (on f))"
    "es_key (tradeSubs (on f) ! i) = k" "es_queue (tradeSubs (on f) ! i) = drop n T"
    using ok Serving by (auto simp: feed_ok_def stands_def subViews_def T_def)
  obtain e evs sub ft where
    run: "runEventStream ''SubscribeTrades'' turn (clock (on f)) (tradeSubs (on f) ! i) (faults (on f)) = ((e, evs), sub, ft)"
    by (metis prod.collapse)
  have hears: "hears (faults (on f))" using ok by (simp add: feed_ok_def)
  note turn = runEventStream_turn [OF hears run]
  define f1 where "f1 = f\<lparr>on := (on f)\<lparr>tradeSubs := (tradeSubs (on f))[i := sub], faults := ft\<rparr>,
      sent := sent f @ map (\<lambda>t. [t]) evs\<rparr>"
  have core: "sim_wf (on f1)" "trade_ids_ok (on f1)" "hears (faults (on f1))" "trades_of (on f1) k = T"
    "\<forall>p\<in>set (over f1). along T 0 (concat p) \<noteq> None" "phase f1 = Serving i"
    using sim_cong [of "on f1" "on f"] turn ok Serving by (auto simp: f1_def feed_ok_def T_def)
  have view: "i < length (subViews (on f1))" "subViews (on f1) ! i = (es_key sub, es_queue sub)"
    using n(2) by (simp_all add: f1_def subViews_def)
  have sent: "concat (sent f1) = concat (sent f) @ evs" by (simp add: f1_def)
  have next_one: "n < length T \<and> T ! n = ev \<and> along T n [ev] = Some (Suc n) \<and> along T n [ev, ev] = Some (Suc n) \<and>
      es_queue sub = drop (Suc n) T" if "drop n T = ev # es_queue sub" for ev
  proof -
    have "n < length T" using that by (cases "n < length T") simp_all
    moreover from this have "T ! n = ev" "es_queue sub = drop (Suc n) T"
      using that Cons_nth_drop_Suc [of n T] by simp_all
    moreover have "T ! n \<notin> set (take n T)"
      using distinct_later [of T n] trades_distinct [of "on f" k] ok calculation(1) by (simp add: feed_ok_def T_def)
    ultimately show ?thesis by (auto simp: take_Suc_set)
  qed
  consider (none) "evs = []" "es_queue sub = drop n T \<or> e \<noteq> None"
    | (one) ev where "drop n T = ev # es_queue sub" "evs = [ev] \<or> evs = [ev, ev]"
    using turn n(4) by auto
  then have "along T 0 (concat (sent f1)) \<noteq> None \<and> (e = None \<longrightarrow> stands k f1)"
  proof cases
    case none
    then show ?thesis using n view turn core by (auto simp: sent stands_def)
  next
    case one
    then have "along T 0 (concat (sent f1)) = Some (Suc n)"
      using n(1) next_one [OF one(1)] by (auto simp: sent along_append)
    then show ?thesis using n(3) next_one [OF one(1)] view turn core by (simp add: stands_def)
  qed
  moreover have "serveTurn turn f = (if e \<noteq> None then hangUp i (length (sent f1)) f1 else f1)"
    using Serving run by (simp add: serveTurn_def f1_def Let_def)
  ultimately show ?thesis
    using hangUp_ok [of f1 k i] core by (auto simp: feed_ok_def)
qed (use ok in \<open>simp_all add: serveTurn_def\<close>)

lemma cut_ok:
  assumes "feed_ok k f"
  shows "feed_ok k (cut got f)"
  using assms hangUp_ok [of f k] by (cases "phase f") (auto simp: cut_def feed_ok_def stands_def)

lemma leaves_ok:
  assumes "feed_ok k f"
  shows "feed_ok k (leaves j f)"
  using assms drop_nth_shifted [of _ j "subViews (on f)"]
  by (cases "phase f") (auto simp: leaves_def feed_ok_def stands_def)

lemma feedStep_ok:
  assumes "feed_ok k f" and "k \<noteq> ''''" and "audible st" and "roomy (feedStep K k st f)"
  shows "feed_ok k (feedStep K k st f)"
  using assms op_ok [OF assms(1)]
  by (cases st) (auto intro: connect_ok greet_ok serveTurn_ok cut_ok leaves_ok simp del: feedStep.simps(1))

lemma tradeRun_ok:
  "feed_ok k f \<Longrightarrow> k \<noteq> '''' \<Longrightarrow> \<forall>st\<in>set sts. audible st \<Longrightarrow> keepsUp K k sts f \<Longrightarrow> feed_ok k (tradeRun K k sts f)"
  by (induction sts arbitrary: f) (simp_all add: tradeRun_def feedStep_ok)

subsection \<open>Nothing is made up\<close>

text \<open>
  Whatever rules silence streams and however full a channel gets, what travels to the client are trades booked
  on the account: those in the session's channel and replay, those on their way and those of ended sessions.
\<close>

definition genuine :: "string \<Rightarrow> TradeFeed \<Rightarrow> bool" where
  "genuine k f \<longleftrightarrow>
     sim_wf (on f) \<and> trade_ids_ok (on f) \<and>
     (\<forall>p\<in>set (sent f # over f). set (concat p) \<subseteq> set (trades_of (on f) k)) \<and>
     (\<forall>i. slot_of (phase f) = Some i \<longrightarrow>
        i < length (subViews (on f)) \<and>
        (\<exists>q. subViews (on f) ! i = (k, q) \<and> set q \<subseteq> set (trades_of (on f) k))) \<and>
     (\<forall>i r. phase f = Greeting i r \<longrightarrow> set r \<subseteq> set (trades_of (on f) k))"

lemma offers_set: "set (offers ts q) \<subseteq> set q \<union> set ts"
proof (induction ts arbitrary: q)
  case (Cons t ts)
  have "set (offer subBuffer t q) \<subseteq> insert t (set q)" by (auto simp: offer_def)
  with Cons.IH [of "offer subBuffer t q"] show ?case by (auto simp: offers_def)
qed (simp add: offers_def)

lemma streamSend_only: "set (snd (fst (streamSend m msg ft))) \<subseteq> {msg}"
  by (auto simp: streamSend_def Let_def split_beta split: option.splits)

lemma runEventStream_only:
  assumes "runEventStream m turn now sub ft = ((e, evs), sub', ft')"
  shows "es_key sub' = es_key sub" "set evs \<union> set (es_queue sub') \<subseteq> set (es_queue sub)"
proof -
  have "set msgs \<subseteq> {x}" if "streamSend m x ft = ((e, msgs), ft')" for x msgs
    using streamSend_only [of m x ft] that by simp
  then show "es_key sub' = es_key sub" "set evs \<union> set (es_queue sub') \<subseteq> set (es_queue sub)"
    using assms by (fastforce simp: runEventStream_def streamEvent_def split: StreamTurn.splits list.splits prod.splits)+
qed

lemma hangUp_genuine: "genuine k f \<Longrightarrow> genuine k (hangUp i got f)"
  by (auto simp: genuine_def hangUp_def dest!: in_set_takeD)

lemma op_genuine:
  assumes ok: "genuine k f"
  shows "genuine k (feedStep K k (Op op) f)"
proof -
  define s where "s = on f"
  define s' where "s' = sim_step K op s"
  obtain ts where ts: "booked ts s s'" using step_booked [of s K op] ok by (auto simp: s_def s'_def genuine_def)
  have wf: "sim_wf s'" using fed.step_kept_all [of s s K op] ok by (simp add: s_def s'_def genuine_def)
  have ids: "trade_ids_ok s'" using trade_ids_booked [OF _ ts] ok by (simp add: s_def genuine_def)
  have trades: "trades_of s' k = trades_of s k @ own k ts" using ts by (simp add: booked_def)
  have "i < length (subViews s') \<and> (\<exists>q. subViews s' ! i = (k, q) \<and> set q \<subseteq> set (trades_of s' k))"
    if slot: "slot_of (phase f) = Some i" for i
  proof -
    obtain q where q: "i < length (subViews s)" "subViews s ! i = (k, q)" "set q \<subseteq> set (trades_of s k)"
      using ok slot by (auto simp: genuine_def s_def)
    have "prefix (map (view_after ts) (subViews s)) (subViews s')" using ts by (simp add: booked_def)
    then have "i < length (subViews s')" "subViews s' ! i = view_after ts (k, q)"
      using q(1,2) by (auto elim!: prefixE simp: nth_append)
    with q(3) offers_set [of "own k ts" q] show ?thesis by (auto simp: view_after_def trades)
  qed
  with ok wf ids show ?thesis
    by (simp add: genuine_def s'_def [symmetric] s_def [symmetric] trades) blast
qed

lemma connect_genuine:
  assumes "genuine k f" and "k \<noteq> ''''"
  shows "genuine k (connect K ctx k f)"
proof (cases "phase f")
  case Idle
  obtain r s where sub: "SubscribeTrades K ctx k (on f) = (r, s)" by (cases "SubscribeTrades K ctx k (on f)")
  have "sim_wf (on f)" using assms(1) by (simp add: genuine_def)
  note same = SubscribeTrades_replay [OF sub this assms(2)]
  have core: "sim_wf s" "trade_ids_ok s" "trades_of s k = trades_of (on f) k"
    using sim_cong [OF same(1-3)] assms(1) by (auto simp: genuine_def)
  show ?thesis
  proof (cases r)
    case (Ok replay)
    then obtain t where "replay = trades_of (on f) k"
      "tradeSubs s = tradeSubs (on f) @ [\<lparr>es_key = k, es_queue = [], es_exp = t\<rparr>]"
      using same(4) by blast
    with Ok Idle sub core assms(1) show ?thesis
      by (auto simp: connect_def genuine_def subViews_def nth_append)
  qed (use Idle sub core assms(1) in \<open>auto simp: connect_def genuine_def\<close>)
qed (use assms in \<open>simp_all add: connect_def\<close>)

lemma greet_genuine:
  assumes ok: "genuine k f"
  shows "genuine k (greet f)"
proof (cases "phase f")
  case (Greeting i r)
  obtain e msgs ft where send: "sendReplay ''SubscribeTrades'' r (faults (on f)) = ((e, msgs), ft)"
    by (metis prod.collapse)
  have "set msgs \<subseteq> {r}"
    using streamSend_only [of "''SubscribeTrades''" r "faults (on f)"] send
    by (auto simp: sendReplay_def split: if_splits)
  then have msgs: "set (concat msgs) \<subseteq> set r" by auto
  define f1 where "f1 = f\<lparr>on := (on f)\<lparr>faults := ft\<rparr>\<rparr>"
  have "sim_wf (on f1)" "trade_ids_ok (on f1)" "trades_of (on f1) k = trades_of (on f) k"
    "subViews (on f1) = subViews (on f)" "sent f1 = sent f" "over f1 = over f" "phase f1 = phase f"
    using ok sim_cong [of "on f1" "on f"] by (simp_all add: f1_def genuine_def subViews_def)
  then have f1: "genuine k f1" using ok by (simp add: genuine_def)
  then have "genuine k (f1\<lparr>phase := Serving i, sent := msgs\<rparr>)"
    using msgs Greeting by (auto simp: genuine_def f1_def)
  with hangUp_genuine [OF f1, of i 0] show ?thesis using Greeting send by (simp add: greet_def f1_def Let_def)
qed (use ok in \<open>simp_all add: greet_def\<close>)

lemma serveTurn_genuine:
  assumes ok: "genuine k f"
  shows "genuine k (serveTurn turn f)"
proof (cases "phase f")
  case (Serving i)
  obtain e evs sub ft where
    run: "runEventStream ''SubscribeTrades'' turn (clock (on f)) (tradeSubs (on f) ! i) (faults (on f)) = ((e, evs), sub, ft)"
    by (metis prod.collapse)
  define f1 where "f1 = f\<lparr>on := (on f)\<lparr>tradeSubs := (tradeSubs (on f))[i := sub], faults := ft\<rparr>,
      sent := sent f @ map (\<lambda>t. [t]) evs\<rparr>"
  have slot: "i < length (tradeSubs (on f))" "es_key (tradeSubs (on f) ! i) = k"
    "set (es_queue (tradeSubs (on f) ! i)) \<subseteq> set (trades_of (on f) k)"
    using ok Serving by (auto simp: genuine_def subViews_def)
  have "genuine k f1"
    using ok slot runEventStream_only [OF run] sim_cong [of "on f1" "on f"] Serving
    by (auto simp: f1_def genuine_def subViews_def)
  then show ?thesis
    using hangUp_genuine [of k f1 i] Serving run by (simp add: serveTurn_def f1_def Let_def)
qed (use ok in \<open>simp_all add: serveTurn_def\<close>)

lemma leaves_genuine: "genuine k f \<Longrightarrow> genuine k (leaves j f)"
  using drop_nth_shifted [of _ j "subViews (on f)"]
  by (cases "phase f") (auto simp: leaves_def genuine_def)

lemma feedStep_genuine: "genuine k f \<Longrightarrow> k \<noteq> '''' \<Longrightarrow> genuine k (feedStep K k st f)"
  by (cases st)
    (auto simp: cut_def intro: op_genuine [simplified] connect_genuine greet_genuine serveTurn_genuine leaves_genuine
      hangUp_genuine split: Phase.splits)

lemma tradeRun_genuine: "genuine k f \<Longrightarrow> k \<noteq> '''' \<Longrightarrow> genuine k (tradeRun K k sts f)"
  by (induction sts arbitrary: f) (simp_all add: tradeRun_def feedStep_genuine)

subsection \<open>From the match to the strategy\<close>

text \<open>
  The client's sessions over a feed: those that reached the simulator received its responses, and between them may
  lie others whose connection or subscription failed.
\<close>

definition met :: "TradeFeed \<Rightarrow> AccountTrade Session list \<Rightarrow> bool" where
  "met f ses \<longleftrightarrow>
     map responses (filter (\<lambda>se. connErr se = None \<and> subErr se = None) ses) =
       over f @ (if phase f = Idle then [] else [sent f])"

definition caught_up :: "TradeFeed \<Rightarrow> bool" where
  "caught_up f = (case phase f of Serving i \<Rightarrow> es_queue (tradeSubs (on f) ! i) = [] | _ \<Rightarrow> False)"

lemma met_along:
  assumes "feed_ok k f" and "met f ses" and "se \<in> set ses"
  shows "along (trades_of (on f) k) 0 (offered se) \<noteq> None"
proof (cases "connErr se = None \<and> subErr se = None")
  case True
  then have "responses se \<in> set (map responses (filter (\<lambda>se. connErr se = None \<and> subErr se = None) ses))"
    using assms(3) by auto
  then have "responses se \<in> set (over f @ (if phase f = Idle then [] else [sent f]))"
    using assms(2) unfolding met_def by (simp only:)
  then have "responses se \<in> set (over f) \<or> phase f \<noteq> Idle \<and> responses se = sent f" by (auto split: if_splits)
  moreover have "offered se = concat (responses se)" using True by (simp add: offered_def)
  ultimately show ?thesis using assms(1) by (cases "phase f") (auto simp: feed_ok_def stands_def)
qed (auto simp: offered_def)

lemma met_genuine:
  assumes "genuine k f" and "met f ses" and "se \<in> set ses"
  shows "set (offered se) \<subseteq> set (trades_of (on f) k)"
proof (cases "connErr se = None \<and> subErr se = None")
  case True
  then have "responses se \<in> set (map responses (filter (\<lambda>se. connErr se = None \<and> subErr se = None) ses))"
    using assms(3) by auto
  then have "responses se \<in> set (sent f # over f)"
    using assms(2) unfolding met_def by (auto split: if_splits)
  moreover have "offered se = concat (responses se)" using True by (simp add: offered_def)
  ultimately show ?thesis using assms(1) by (simp only: genuine_def)
qed (auto simp: offered_def)

text \<open>Of a feed that neither loses an event nor is silenced, everything arrives in order.\<close>

lemma folded_in_order:
  assumes ok: "feed_ok k F" and met: "met F ses"
  shows "prefix (folded sched ses) (map atId (trades_of (on F) k))"
    and "caught_up F \<Longrightarrow> work (subscribed ses) \<le> n \<Longrightarrow> folded (fair_rounds n) ses = map atId (trades_of (on F) k)"
proof -
  define T where "T = trades_of (on F) k"
  have ids: "distinct (map atId T)" "'''' \<notin> atId ` set T"
    using numbered_ids [of 0 "seq (on F)" T] ok by (auto simp: feed_ok_def trade_ids_ok_def T_def)
  have each: "along (map atId T) 0 (map atId (offered se)) = along T 0 (offered se)" "along T 0 (offered se) \<noteq> None"
    if "se \<in> set ses" for se
    using met_along [OF ok met that] along_map [OF _ ids(1), of 0 "offered se"] by (auto simp: T_def)
  then have "\<forall>se\<in>set ses. along (map atId T) 0 (map atId (offered se)) \<noteq> None" by simp
  note once = sessions_folded_once [OF ids this]
  show "prefix (folded sched ses) (map atId (trades_of (on F) k))"
    using once(1) [of sched] by (simp add: T_def)
  assume up: "caught_up F" and long: "work (subscribed ses) \<le> n"
  obtain i where i: "phase F = Serving i" "es_queue (tradeSubs (on F) ! i) = []"
    using up by (auto simp: caught_up_def split: Phase.splits)
  then obtain m where m: "along T 0 (concat (sent F)) = Some m" "drop m T = []"
    using ok by (auto simp: feed_ok_def stands_def subViews_def T_def)
  have "sent F \<in> set (map responses (filter (\<lambda>se. connErr se = None \<and> subErr se = None) ses))"
    using met i(1) by (simp add: met_def)
  then obtain se where se: "se \<in> set ses" "offered se = concat (sent F)" by (auto simp: offered_def)
  have "m = length T" using along_bounds [OF m(1)] m(2) by simp
  with once(2) [OF se(1) _ long] each(1) [OF se(1)] m(1) se(2)
  show "folded (fair_rounds n) ses = map atId (trades_of (on F) k)" by (simp add: T_def)
qed

lemma fold_trades_subset: "set (fst (fold_trades ts d)) \<subseteq> set ts"
proof (induction ts arbitrary: d)
  case (Cons t ts)
  from Cons.IH [of "snd (SeenTrade t d)"] show ?case by (simp only: fold_trades_Cons) auto
qed simp

lemma folded_genuine:
  assumes ok: "genuine k F" and met: "met F ses"
  shows "distinct (folded sched ses) \<and> set (folded sched ses) \<subseteq> set (map atId (trades_of (on F) k))"
proof -
  define T where "T = trades_of (on F) k"
  define got where "got = taken (runStream runTradeStream sched (subscribed ses))"
  have ids: "'''' \<notin> atId ` set T"
    using numbered_ids [of 0 "seq (on F)" T] ok by (auto simp: genuine_def trade_ids_ok_def T_def)
  have "got @ chan (runStream runTradeStream sched (subscribed ses)) @
      ahead (runStream runTradeStream sched (subscribed ses)) = concat (map offered ses)"
    using lossless [of orderStreamBufferSize sched "subscribed ses"]
    by (simp add: got_def runTradeStream_def all_items_def [symmetric])
  then have "set got \<subseteq> set (concat (map offered ses))" by (metis Un_upper1 set_append)
  then have got: "set (map atId got) \<subseteq> set (map atId T)"
    using met_genuine [OF ok met] by (fastforce simp: T_def)
  have sub: "set (folded sched ses) \<subseteq> set (map atId got)"
    unfolding folded_def got_def [symmetric] by (rule fold_trades_subset)
  then have "filter (\<lambda>t. t \<noteq> '''') (folded sched ses) = folded sched ses"
    using got ids by (auto simp: filter_id_conv)
  then have "distinct (folded sched ses)"
    using fold_trades_distinct [of "map atId got" zero_dedup] by (simp add: folded_def got_def)
  then show ?thesis using sub got by (auto simp: T_def)
qed

text \<open>
  C16. What the strategy hears of an account's own fills. Whatever operations, fault rules, subscriptions, duplicated
  messages, killed streams, breaks and refused sessions there were, and however the client's goroutines are scheduled:
  the trades the dedup lets through are fills the simulator booked on the account, none of them twice. If besides no
  rule that silences streams was added (\<open>audible\<close>) and the subscription's channel of 4096 never filled up (\<open>keepsUp\<close>),
  they are the account's first ones, in order and without a gap; and all of them, once the running session has emptied
  its channel and the client's goroutines have had their turns.
\<close>

theorem fills_reach_strategy:
  assumes "k \<noteq> ''''" and "met (tradeRun K k sts (quietFeed (NewSim cfg now r))) ses"
  shows "let F = tradeRun K k sts (quietFeed (NewSim cfg now r)); fills = map atId (trades_of (on F) k)
    in distinct (folded sched ses) \<and> set (folded sched ses) \<subseteq> set fills \<and>
       ((\<forall>st\<in>set sts. audible st) \<and> keepsUp K k sts (quietFeed (NewSim cfg now r)) \<longrightarrow>
          prefix (folded sched ses) fills \<and>
          (caught_up F \<longrightarrow> (\<forall>n\<ge>work (subscribed ses). folded (fair_rounds n) ses = fills)))"
proof -
  define F where "F = tradeRun K k sts (quietFeed (NewSim cfg now r))"
  have met: "met F ses" using assms(2) by (simp add: F_def)
  have "genuine k (quietFeed (NewSim cfg now r))"
    by (simp add: genuine_def quietFeed_def wf_NewSim trade_ids_NewSim)
  then have any: "genuine k F" unfolding F_def by (rule tradeRun_genuine) (rule assms(1))
  have "hears (faults (NewSim cfg now r))" by (simp add: rules_all_def NewSim_def Let_def)
  then have start: "feed_ok k (quietFeed (NewSim cfg now r))"
    by (simp add: feed_ok_def quietFeed_def stands_def wf_NewSim trade_ids_NewSim)
  have "feed_ok k F" if "\<forall>st\<in>set sts. audible st" "keepsUp K k sts (quietFeed (NewSim cfg now r))"
    unfolding F_def using start assms(1) that by (rule tradeRun_ok)
  with folded_in_order [OF _ met] folded_genuine [OF any met] show ?thesis
    unfolding Let_def F_def [symmetric] by blast
qed

text \<open>The fill of the sample run; a first session that breaks off after the replay, a refused one, and another replay.\<close>

lemma tradeRun_append: "tradeRun K k (xs @ ys) f = tradeRun K k ys (tradeRun K k xs f)"
  by (simp add: tradeRun_def)

lemma keepsUp_append: "keepsUp K k (xs @ ys) f \<longleftrightarrow> keepsUp K k xs f \<and> keepsUp K k ys (tradeRun K k xs f)"
  by (induction xs arbitrary: f) (simp_all add: tradeRun_def)

lemma tradeRun_ops: "tradeRun K k (map Op ops) f = f\<lparr>on := sim_run K ops (on f)\<rparr>"
  by (induction ops arbitrary: f) (simp_all add: tradeRun_def sim_run_def)

lemma keepsUp_ops: "phase f = Idle \<Longrightarrow> keepsUp K k (map Op ops) f"
  by (induction ops arbitrary: f) (simp_all add: roomy_def)

lemma sample_quiet:
  "clock sample_done = sample_start" "tokens sample_done = []" "revokeBefore sample_done = 0"
  "tradeSubs sample_done = []" "rules (faults sample_done) = []"
  by (simp_all add: sample_done_def sample_ops_def sim_run_def run_defs exec_defs sample_sim_eq sample_req_def
      order_id_def Let_def)

definition reset_session :: "AccountTrade list list \<Rightarrow> AccountTrade Session" where
  "reset_session rs = \<lparr>connErr = None, subErr = None, responses = rs, recvErr = Leaf 14 ''reset''\<rparr>"

definition sample_steps :: "feed_step list" where
  "sample_steps = map Op sample_ops @ [Connects sample_ctx, Greets, Cuts 1, Connects sample_ctx, Greets]"

lemma sample_subscribe:
  assumes "accounts s ''SIM-1'' = Some a" and "clock s = sample_start" and "tokens s = []" and "revokeBefore s = 0"
    and "rules (faults s) = []"
  shows "SubscribeTrades sample_codec sample_ctx ''SIM-1'' s = (Ok (a_trades a),
    s\<lparr>tradeSubs := tradeSubs s @ [\<lparr>es_key = a_id a, es_queue = [], es_exp = unixEpoch + 1000 * second\<rparr>]\<rparr>)"
proof -
  have gate: "gateReadOnly m (faults s) = ((None, 0), faults s)" for m
    using assms(5) by (simp add: gateReadOnly_def gate_def noDirective_def)
  show ?thesis using assms by (simp add: SubscribeTrades_def gate)
qed

theorem fills_reach_strategy_witness:
  "\<exists>t ses. trades_of sample_done ''SIM-1'' = [t] \<and>
     map responses ses = [[[t]], [], [[t]]] \<and> folded (fair_rounds 100) ses = [atId t]"
proof -
  obtain a t where a: "accounts sample_done ''SIM-1'' = Some a" "a_trades a = [t]"
    using sample_fill(2) by (auto simp: length_Suc_conv)
  have send: "streamSend ''SubscribeTrades'' [t] (faults s) = ((None, [[t]]), faults s)" if "rules (faults s) = []" for s
    using that by (simp add: streamSend_def gateKill_def peek_def noDirective_def Let_def)
  define ses where "ses = [reset_session [[t]],
      \<lparr>connErr = None, subErr = Some (Leaf 16 ''token''), responses = [], recvErr = Leaf 16 ''token''\<rparr>, reset_session [[t]]]"
  define f where "f = quietFeed sample_done"
  define sub where "sub = \<lparr>es_key = a_id a, es_queue = [] :: AccountTrade list, es_exp = unixEpoch + 1000 * second\<rparr>"
  define busy where "busy = f\<lparr>on := sample_done\<lparr>tradeSubs := [sub]\<rparr>, phase := Greeting 0 [t]\<rparr>"
  have start: "tradeRun sample_codec ''SIM-1'' (map Op sample_ops) (quietFeed (NewSim sample_config sample_start sample_rand)) = f"
    by (simp add: tradeRun_ops quietFeed_def f_def sample_run)
  have one: "connect sample_codec sample_ctx ''SIM-1'' (f\<lparr>over := ov\<rparr>) = busy\<lparr>over := ov\<rparr>" for ov
    using sample_subscribe [of sample_done a] a sample_quiet
    by (simp add: connect_def f_def quietFeed_def busy_def sub_def)
  have two: "greet (busy\<lparr>over := ov\<rparr>) = busy\<lparr>phase := Serving 0, sent := [[t]], over := ov\<rparr>" for ov
    using send [of "on busy"] sample_quiet(5) by (simp add: greet_def sendReplay_def busy_def f_def quietFeed_def)
  have three: "cut (Suc 0) (busy\<lparr>phase := Serving 0, sent := [[t]], over := []\<rparr>) = f\<lparr>over := [[[t]]]\<rparr>"
    using sample_quiet(4)
    by (simp add: cut_def hangUp_def busy_def f_def quietFeed_def unsubscribe_def drop_nth_def)
  have f0: "f = f\<lparr>over := []\<rparr>" by (simp add: f_def quietFeed_def)
  define F where "F = busy\<lparr>phase := Serving 0, sent := [[t]], over := [[[t]]]\<rparr>"
  have run: "tradeRun sample_codec ''SIM-1'' sample_steps (quietFeed (NewSim sample_config sample_start sample_rand)) = F"
    unfolding sample_steps_def tradeRun_append start
    by (subst f0) (simp add: tradeRun_def one two three F_def)
  have "keepsUp sample_codec ''SIM-1'' [Connects sample_ctx, Greets, Cuts 1, Connects sample_ctx, Greets] (f\<lparr>over := []\<rparr>)"
    by (simp only: keepsUp.simps feedStep.simps One_nat_def one two three)
      (simp add: roomy_def busy_def sub_def subBuffer_def f_def quietFeed_def)
  then have room: "keepsUp sample_codec ''SIM-1'' sample_steps (quietFeed (NewSim sample_config sample_start sample_rand))"
    unfolding sample_steps_def keepsUp_append start using f0 keepsUp_ops [of "quietFeed s" for s] by (simp add: quietFeed_def)
  have met: "met F ses" by (simp add: met_def F_def ses_def reset_session_def)
  have "caught_up F" by (simp add: caught_up_def F_def busy_def sub_def)
  moreover have "work (subscribed ses) \<le> 100"
    by (simp add: work_def subscribed_def ses_def reset_session_def session_work_def)
  moreover have "trades_of (on F) ''SIM-1'' = [t]" using a by (simp add: F_def busy_def trades_of_def)
  moreover have "\<forall>st\<in>set sample_steps. audible st" by (simp add: sample_steps_def sample_ops_def)
  ultimately have "folded (fair_rounds 100) ses = [atId t]"
    using fills_reach_strategy [of "''SIM-1''" sample_codec sample_steps sample_config sample_start sample_rand ses] run met room
    by (simp add: Let_def)
  moreover have "trades_of sample_done ''SIM-1'' = [t]" using a by (simp add: trades_of_def)
  ultimately show ?thesis by (intro exI [of _ t] exI [of _ ses]) (simp add: ses_def reset_session_def)
qed

end
