(* ===== verification/ModLog.thy ===== *)
theory ModLog
  imports Wire
begin

text \<open>
  The logs of \<open>modlog/modlog.go\<close>: the registry of one logger per module, the files behind them and the records
  written. Messages come rendered; the time stamp in front of a record is left out. A path is the pair of
  directory and file name that \<open>filepath.Join\<close> is given.
\<close>

subsection \<open>Levels\<close>

definition LevelWarn :: int where
  "LevelWarn = 0"

definition LevelCritical :: int where
  "LevelCritical = 1"

definition levelString :: "int \<Rightarrow> string" where
  "levelString lv =
     (if lv = LevelCritical then ''CRITICAL'' else if lv = LevelWarn then ''WARNING'' else ''INFO'')"

subsection \<open>Loggers\<close>

datatype sink = Stderr | LogFile string string

text \<open>A logger is the list of sinks its \<open>io.MultiWriter\<close> writes to in turn.\<close>

type_synonym Logger = "sink list"

text \<open>
  The process: its environment, whether it is a test binary, which directories can be made, which files opened
  and which sinks written; the registry, the files opened so far and the records written.
\<close>

record Process =
  Getenv :: "string \<Rightarrow> string"
  Testing :: bool
  mkdirs :: "string \<Rightarrow> bool"
  opens :: "string \<Rightarrow> string \<Rightarrow> bool"
  writable :: "sink \<Rightarrow> bool"
  loggers :: "string \<rightharpoonup> Logger"
  opened :: "(string \<times> string) list"
  records :: "(sink \<times> string) list"

definition envDir :: string where
  "envDir = ''QUANTCORE_LOG_DIR''"

definition defaultDir :: string where
  "defaultDir = ''logs''"

definition tradesName :: string where
  "tradesName = ''trades''"

definition log_dir :: "Process \<Rightarrow> string" where
  "log_dir p = (let d = Getenv p envDir in if d \<noteq> '''' then d else defaultDir)"

text \<open>\<open>MultiWriter\<close> stops at the first sink that cannot be written; \<open>Printf\<close> drops that error.\<close>

fun writeRecord :: "Logger \<Rightarrow> string \<Rightarrow> Process \<Rightarrow> Process" where
  "writeRecord [] msg p = p"
| "writeRecord (k # ks) msg p =
     (if writable p k then writeRecord ks msg (p\<lparr>records := records p @ [(k, msg)]\<rparr>) else p)"

definition openLogFile :: "string \<Rightarrow> Process \<Rightarrow> (go_error + sink) \<times> Process" where
  "openLogFile mname p =
     (let d = log_dir p; f = mname @ ''.log''
      in if \<not> mkdirs p d then (Inl (Leaf code_Unknown ''mkdir''), p)
         else if \<not> opens p d f then (Inl (Leaf code_Unknown ''open''), p)
         else (Inr (LogFile d f), p\<lparr>opened := opened p @ [(d, f)]\<rparr>))"

definition For :: "string \<Rightarrow> Process \<Rightarrow> Logger \<times> Process" where
  "For mname p =
     (case loggers p mname of
        Some l \<Rightarrow> (l, p)
      | None \<Rightarrow>
          (let (w, p1) =
             (if Testing p then ([Stderr], p)
              else (case openLogFile mname p of
                      (Inl e, p1) \<Rightarrow> ([Stderr], writeRecord [Stderr] (''[modlog] cannot open log file for module '' @ mname) p1)
                    | (Inr f, p1) \<Rightarrow> ([Stderr, f], p1)))
           in (w, p1\<lparr>loggers := (loggers p1)(mname \<mapsto> w)\<rparr>)))"

definition Trades :: "Process \<Rightarrow> Logger \<times> Process" where
  "Trades = For tradesName"

definition Log :: "Logger \<Rightarrow> int \<Rightarrow> string \<Rightarrow> Process \<Rightarrow> Process" where
  "Log l level msg = writeRecord l (''['' @ levelString level @ ''] '' @ msg)"

definition Critical :: "Logger \<Rightarrow> string \<Rightarrow> Process \<Rightarrow> Process" where
  "Critical l msg = Log l LevelCritical msg"

definition Warn :: "Logger \<Rightarrow> string \<Rightarrow> Process \<Rightarrow> Process" where
  "Warn l msg = Log l LevelWarn msg"

subsection \<open>One logger per module\<close>

lemma writeRecord_frame [simp]:
  "loggers (writeRecord l msg p) = loggers p" "opened (writeRecord l msg p) = opened p"
  "Getenv (writeRecord l msg p) = Getenv p"
  by (induction l msg p rule: writeRecord.induct) simp_all

lemma For_registers: "For mname p = (l, p') \<Longrightarrow> loggers p' mname = Some l"
  by (auto simp: For_def Let_def split: option.splits prod.splits)

lemma For_again: "For mname p = (l, p') \<Longrightarrow> For mname p' = (l, p')"
  using For_registers [of mname p l p'] by (simp add: For_def)

lemma For_keeps: "loggers p m = Some l \<Longrightarrow> loggers (snd (For mname p)) m = Some l"
  by (auto simp: For_def openLogFile_def Let_def split: option.splits)

text \<open>Every logger writes to standard error first, to a file at most besides; no module's file is opened twice.\<close>

definition registry_ok :: "Process \<Rightarrow> bool" where
  "registry_ok p \<longleftrightarrow>
     (\<forall>m l. loggers p m = Some l \<longrightarrow> l = [Stderr] \<or> l = [Stderr, LogFile (log_dir p) (m @ ''.log'')]) \<and>
     distinct (opened p) \<and> snd ` set (opened p) \<subseteq> (\<lambda>m. m @ ''.log'') ` dom (loggers p)"

lemma For_cases:
  assumes "For m p = (l, p')"
  shows "(loggers p m = Some l \<and> p' = p) \<or>
    (loggers p m = None \<and> loggers p' = (loggers p)(m \<mapsto> l) \<and> log_dir p' = log_dir p \<and>
      (l = [Stderr] \<and> opened p' = opened p \<or>
       l = [Stderr, LogFile (log_dir p) (m @ ''.log'')] \<and> opened p' = opened p @ [(log_dir p, m @ ''.log'')]))"
  using assms by (auto simp: For_def openLogFile_def log_dir_def Let_def split: option.splits if_splits)

lemma For_ok:
  assumes "registry_ok p"
  shows "registry_ok (snd (For m p))"
proof -
  obtain l p' where f: "For m p = (l, p')" by (cases "For m p")
  note ok = assms [unfolded registry_ok_def]
  from For_cases [OF f] consider (old) "p' = p"
    | (plain) "loggers p' = (loggers p)(m \<mapsto> [Stderr])" "log_dir p' = log_dir p" "opened p' = opened p"
    | (disk) "loggers p m = None" "loggers p' = (loggers p)(m \<mapsto> [Stderr, LogFile (log_dir p) (m @ ''.log'')])"
        "log_dir p' = log_dir p" "opened p' = opened p @ [(log_dir p, m @ ''.log'')]"
    by (elim disjE conjE) simp_all
  then show ?thesis
  proof cases
    case old
    then show ?thesis using assms f by simp
  next
    case plain
    then show ?thesis using ok f by (auto simp: registry_ok_def)
  next
    case disk
    then have "(log_dir p, m @ ''.log'') \<notin> set (opened p)" using ok by force
    then show ?thesis using ok f disk by (auto simp: registry_ok_def)
  qed
qed

lemma For_run_ok:
  assumes "loggers p = Map.empty" and "opened p = []"
  shows "registry_ok (fold (\<lambda>m p. snd (For m p)) ms p)"
proof -
  have "registry_ok p" using assms by (simp add: registry_ok_def)
  then show ?thesis by (induction ms arbitrary: p) (simp_all add: For_ok)
qed

text \<open>A record of a level reaches standard error whenever that can be written, whatever became of the file.\<close>

lemma Log_reaches_stderr:
  assumes "For mname p = (l, p1)" and "registry_ok p" and "writable p1 Stderr"
  shows "\<exists>rs. records (Log l level msg p1) = records p1 @ (Stderr, ''['' @ levelString level @ ''] '' @ msg) # rs"
proof -
  have "registry_ok p1" using For_ok [OF assms(2), of mname] assms(1) by simp
  then have "l = [Stderr] \<or> (\<exists>f. l = [Stderr, f])"
    using For_registers [OF assms(1)] unfolding registry_ok_def by blast
  then show ?thesis using assms(3) by (auto simp: Log_def)
qed

end
