(* ===== verification/SimServer.thy ===== *)
theory SimServer
  imports SimState
begin

text \<open>
  Starting and closing the simulator's server: \<open>server.go\<close>, \<open>startControl\<close> of \<open>control.go\<close> and \<open>Close\<close> of \<open>sim.go\<close>.
  What is modelled is what is held: the addresses listened on and the simulators whose goroutines run. The
  calls of the services are in the other theories, serving them is gRPC's and \<open>net/http\<close>'s.
\<close>

subsection \<open>What a process holds\<close>

text \<open>
  \<open>pick\<close> is the operating system's choice for an address to listen on: the address got, which is another one where
  the port asked for is 0, and none where it cannot be had.
\<close>

record Host =
  pick :: "string \<Rightarrow> string list \<Rightarrow> string option"
  bound :: "string list"
  live :: "nat list"
  fresh :: nat

definition netListen :: "string \<Rightarrow> Host \<Rightarrow> (go_error + string) \<times> Host" where
  "netListen addr h =
     (case pick h addr (bound h) of
        None \<Rightarrow> (Inl (Leaf code_Unknown ''listen''), h)
      | Some a \<Rightarrow> (Inr a, h\<lparr>bound := a # bound h\<rparr>))"

definition lisClose :: "string \<Rightarrow> Host \<Rightarrow> Host" where
  "lisClose a h = h\<lparr>bound := removeAll a (bound h)\<rparr>"

text \<open>\<open>NewSim\<close> makes the stop channel; \<open>Close\<close> closes it once and waits for the simulator's goroutines.\<close>

definition startSim :: "Host \<Rightarrow> nat \<times> Host" where
  "startSim h = (fresh h, h\<lparr>live := fresh h # live h, fresh := fresh h + 1\<rparr>)"

definition sim_Close :: "nat \<Rightarrow> Host \<Rightarrow> Host" where
  "sim_Close i h = h\<lparr>live := removeAll i (live h)\<rparr>"

lemma sim_Close_twice: "sim_Close i (sim_Close i h) = sim_Close i h"
  by (simp add: sim_Close_def)

subsection \<open>The server\<close>

text \<open>\<open>httpStop\<close> is the control plane's stop function: shutting its server down closes its listener.\<close>

definition startControl :: "string \<Rightarrow> Host \<Rightarrow> (go_error + string) \<times> Host" where
  "startControl addr h =
     (case netListen addr h of
        (Inl e, h1) \<Rightarrow> (Inl (Wrapped (''brokersim: control listen '' @ addr) e), h1)
      | (Inr lis, h1) \<Rightarrow> (Inr lis, h1))"

record Server =
  srvSim :: nat
  grpcLis :: string
  httpStop :: "string option"

text \<open>Stopping the gRPC server closes the listener it serves or would come to serve.\<close>

definition grpcStop :: "string \<Rightarrow> Host \<Rightarrow> Host" where
  "grpcStop = lisClose"

definition Start :: "string \<Rightarrow> string \<Rightarrow> Host \<Rightarrow> (go_error + Server) \<times> Host" where
  "Start grpcAddr controlAddr h0 =
     (let (s, h1) = startSim h0
      in case netListen grpcAddr h1 of
           (Inl e, h2) \<Rightarrow> (Inl (Wrapped (''brokersim: listen '' @ grpcAddr) e), sim_Close s h2)
         | (Inr lis, h2) \<Rightarrow>
             (let srv = \<lparr>srvSim = s, grpcLis = lis, httpStop = None\<rparr>
              in if controlAddr \<noteq> '''' then
                   (case startControl controlAddr h2 of
                      (Inl e, h3) \<Rightarrow> (Inl e, sim_Close s (lisClose lis (grpcStop lis h3)))
                    | (Inr ctl, h3) \<Rightarrow> (Inr (srv\<lparr>httpStop := Some ctl\<rparr>), h3))
                 else (Inr srv, h2)))"

definition Addr :: "Server \<Rightarrow> string" where
  "Addr s = grpcLis s"

definition server_Close :: "Server \<Rightarrow> Host \<Rightarrow> Host" where
  "server_Close s h =
     sim_Close (srvSim s)
       (case httpStop s of None \<Rightarrow> grpcStop (grpcLis s) h | Some ctl \<Rightarrow> lisClose ctl (grpcStop (grpcLis s) h))"

subsection \<open>Nothing is left over\<close>

text \<open>The operating system hands out no address that is taken; the ids of simulators are new ones.\<close>

definition host_ok :: "Host \<Rightarrow> bool" where
  "host_ok h \<longleftrightarrow> (\<forall>addr bs a. pick h addr bs = Some a \<longrightarrow> a \<notin> set bs) \<and> (\<forall>i\<in>set (live h). i < fresh h)"

lemma removeAll_new [simp]: "x \<notin> set xs \<Longrightarrow> removeAll x xs = xs"
  by (simp add: removeAll_id)

lemma Start_refused:
  assumes "host_ok h" and "Start g c h = (Inl e, h')"
  shows "bound h' = bound h \<and> live h' = live h"
  using assms
  by (auto simp: Start_def startSim_def netListen_def startControl_def sim_Close_def lisClose_def grpcStop_def host_ok_def
      Let_def split: option.splits if_splits prod.splits sum.splits)

lemma Close_frees:
  assumes "host_ok h" and "Start g c h = (Inr s, h1)"
  shows "Addr s \<in> set (bound h1) \<and> live h1 \<noteq> [] \<and>
    bound (server_Close s h1) = bound h \<and> live (server_Close s h1) = live h \<and> server_Close s (server_Close s h1) = server_Close s h1"
proof -
  have new: "a \<notin> set bs" if "pick h addr bs = Some a" for addr bs a using assms(1) that by (simp add: host_ok_def)
  have sim: "fresh h \<notin> set (live h)" using assms(1) by (auto simp: host_ok_def)
  obtain lis where lis: "pick h g (bound h) = Some lis" "srvSim s = fresh h" "grpcLis s = lis"
    and c: "case httpStop s of
         None \<Rightarrow> h1 = h\<lparr>live := fresh h # live h, fresh := fresh h + 1, bound := lis # bound h\<rparr>
       | Some ctl \<Rightarrow> pick h c (lis # bound h) = Some ctl \<and>
           h1 = h\<lparr>live := fresh h # live h, fresh := fresh h + 1, bound := ctl # lis # bound h\<rparr>"
    using assms(2)
    by (auto simp: Start_def startSim_def netListen_def startControl_def Let_def
        split: option.splits if_splits prod.splits sum.splits)
  show ?thesis
    using c new [OF lis(1)] sim lis
    by (cases "httpStop s") (auto simp: server_Close_def sim_Close_def lisClose_def grpcStop_def Addr_def dest!: new)
qed

end
