(* ===== verification/Spec2Isabelle.thy ===== *)
theory Spec2Isabelle
  imports OrderRegistry Limiter EngineTheorems SimProtocol GrpcClient ClientAuth BookFeed SimHttp LiveReconcile LiveQuota LiveFills ModLog SimServer
begin

text \<open>
  A verification development of QuantCore, a Go program that trades a pair of instruments against a broker. File
  names below are relative to \<open>src/\<close>.

  \<^bold>\<open>The program.\<close> Its parts are
  \<^item> the execution engine (\<open>strategies/execengine\<close>): it keeps a position in two legs that hedge each other, by working
    clips of passive (maker) orders and completing them with market (taker) orders, under a kill-switch, a degraded
    mode with queues of obligations, and a limiter of order placements;
  \<^item> the broker adapter (\<open>finambroker\<close>): it implements the engine's maker and taker ports over the broker's API,
    resolving placements whose outcome is unknown under one client order id, polls the quota and reconciles positions;
  \<^item> the API client (\<open>trade/finam\<close>, \<open>grpcclient\<close>): connections, token, unary calls, the order book and the event streams,
    the market schedule;
  \<^item> the broker simulator (\<open>brokersim\<close>): accounts, orders, matching, public books, fault injection, event streams and an
    HTTP control plane;
  \<^item> logging (\<open>modlog\<close>).
  A runner (not in the repository) calls the engine's handlers one at a time; the engine calls the ports; the adapter
  calls the client; the client talks to the broker or to the simulator; fills and order states come back on the
  client's streams.

  \<^bold>\<open>The theories.\<close> Shared: \<open>Prelude\<close> (Go times and durations, the state monad of the engine with a small calculus of
  weakest preconditions, sums over finite maps), \<open>BrokerErrors\<close> (\<open>broker_errors.go\<close>), \<open>Wire\<close> (the messages both sides of
  the API read, status codes, decimals and number texts).
  \<^item> Engine data: \<open>QuoteBook\<close> (\<open>quotebook.go\<close>), \<open>Recovery\<close> (\<open>recoverymachine.go\<close>), \<open>OrderRegistry\<close> (\<open>orderregistry.go\<close>,
    \<open>hedgemanager.go\<close>, \<open>dedup.go\<close>), \<open>Limiter\<close> (\<open>limiter.go\<close>), \<open>EngineTypes\<close> (\<open>types.go\<close>, configuration and state of
    \<open>engine.go\<close>, the ports).
  \<^item> Engine operations, each Go function a definition of its name: \<open>EngineOrders\<close> (\<open>engine_orders.go\<close>, \<open>engine_hedge.go\<close>,
    the obligations of \<open>engine_recovery.go\<close>), \<open>EngineClip\<close> (\<open>engine_clip.go\<close>), \<open>EngineCore\<close> (\<open>engine.go\<close>,
    \<open>engine_quote.go\<close>, \<open>Halt\<close>, \<open>Reconcile\<close>, \<open>StateLabel\<close>).
  \<^item> Engine laws: \<open>EngineBalance\<close> (the locale \<open>broker\<close> of what a broker promises, and the balance of the book),
    \<open>EngineInvariant\<close>, \<open>EngineHandlers\<close>, \<open>EngineSafety\<close>, \<open>EngineScript\<close> (a scripted broker that provides the laws),
    \<open>EngineTheorems\<close>, \<open>EngineSuspend\<close>.
  \<^item> Simulator: \<open>SimBook\<close> (\<open>book.go\<close>), \<open>SimFaults\<close> (\<open>faults.go\<close>), \<open>SimState\<close> (\<open>sim.go\<close>, \<open>auth.go\<close>), \<open>SimOrders\<close>
    (\<open>orders.go\<close>, the matching of \<open>marketdata.go\<close>), \<open>SimControl\<close> (\<open>control.go\<close>, \<open>accounts.go\<close>, subscriptions), \<open>SimAssets\<close>
    (\<open>assets.go\<close>, the unary book), \<open>SimStreams\<close> (the loops that serve streams), \<open>SimHttp\<close> (the HTTP handlers), \<open>SimServer\<close>
    (\<open>server.go\<close>).
  \<^item> Simulator laws: \<open>SimMoves\<close> (every operation is made of a few moves; locales say what an invariant must survive),
    \<open>SimInvariant\<close>, \<open>SimIdentity\<close>, \<open>SimFeed\<close> (interpretations of these locales), \<open>SimTheorems\<close>, \<open>SimProtocol\<close>.
  \<^item> Client: \<open>FinamClient\<close> (\<open>orders.go\<close>, \<open>account_snapshot.go\<close>, \<open>trades.go\<close>, \<open>transactions.go\<close>, \<open>metrics.go\<close>), \<open>ClientBook\<close> and
    \<open>BookFeed\<close> (\<open>orderbook.go\<close>), \<open>ClientStreams\<close> (\<open>orderstream.go\<close>, \<open>account_stream.go\<close>), \<open>MarketHours\<close> and \<open>MarketTheorems\<close>
    (\<open>assets.go\<close>), \<open>ClientAuth\<close> (\<open>auth.go\<close>), \<open>GrpcClient\<close> (\<open>grpcclient.go\<close>).
  \<^item> Adapter and compositions: \<open>Placer\<close> and \<open>PlacerTheorems\<close> (\<open>finambroker.go\<close>, \<open>errors.go\<close>), then with the simulator on
    the other side: \<open>LivePlacer\<close>, \<open>LiveContract\<close>, \<open>LiveTheorems\<close> (placement over a network that loses answers),
    \<open>LiveQueries\<close> (round trips through the wire), \<open>LiveEngine\<close> (the engine wired to placer, limiter and simulator),
    \<open>LiveQuota\<close>, \<open>LiveReconcile\<close>, \<open>LiveFills\<close> (own fills from the match to the strategy's dedup).
  \<^item> \<open>ModLog\<close> (\<open>modlog.go\<close>).
\<close>

text \<open>
  \<^bold>\<open>How state and code correspond.\<close> A Go struct is a record with its fields, an enumeration a datatype, a method a
  definition that takes and returns the state. What runs under one lock is one atomic step; goroutines interleave
  between steps (operations of the simulator in any order, turns of a stream's two goroutines, accesses to the shared
  fields in \<open>GrpcClient\<close>). The engine runs on one goroutine and is written in a state monad whose state holds the
  engine and the world behind its ports. Errors are values: \<open>go_error\<close> is a chain of wrapped errors, a result is a sum, an
  \<open>outcome\<close> of a handler is a value, an error or a panic.

  \<^bold>\<open>What is shown.\<close> Engine: after \<open>Halt\<close> nothing is ever placed; the two legs stay balanced at the hedge ratio, queued
  debts included; the fill sink credits each order its lots once; nothing owed is forgotten; every placement is
  booked on the limiter. Limiter: the reserve is kept, and what it grants the simulator admits. Simulator: orders,
  client ids, accounts and trades are consistent over every sequence of operations, terminal orders are frozen, an
  account is what its trades say, control requests refine operations. Client: the folded book is the simulator's
  book, crossed books are withheld and the fiftieth in a row resubscribes, the execution price is what eating the book
  costs, the newest snapshots are kept, the schedule monitor reports the cached schedule,
  paging and dialling end, no interleaving closes a channel twice. Compositions: a placement reported as successful is
  exactly one order at the simulator, a position set at the simulator is read back, a reconcile pass sees the
  simulator's account, only booked fills reach the strategy and each at most once, all of them in order where no event
  is lost on the simulator's side, and the balance of the legs holds of
  the engine over placer, limiter and simulator. Interfaces are locales (\<open>broker\<close>, \<open>reserve_limiter\<close>, \<open>order_broker\<close> and the
  \<open>sim_moves\<close> family), interpreted on the definitions that model the code.

  \<^bold>\<open>Abstractions.\<close> Prices, lots and money are reals or, in the engine, lots are integers as in the code; the rounding of
  \<open>float64\<close> is not modelled. A time is an integer of nanoseconds from Go's zero time, and durations are integers; where the code's
  64-bit arithmetic can wrap, in the dial backoff and the refresh delay, it is written with words or with the wrap.
  Counters that would need astronomically many steps to wrap are naturals. The texts NaN and Inf, which Go parses as
  floats, are no values of \<open>decimal\<close>. The clock does not move within a step. One call of a broker port is one step, so the
  two legs of a raced clip are placed in either order but their placers' requests do not alternate (\<open>raceTakers\<close>),
  and no spend comes between the request and the answer of a quota poll (\<open>poll\<close>). The
  order in which Go ranges over a map is a parameter (the list of keys as visited) or does not matter and is a map. Random
  sources are sequences of draws. JSON, base64 and protobuf encodings are parameters or bodies are taken as decoded. What
  is not under \<open>src/\<close> (gRPC connections and stubs, the operating system) is a parameter of the definitions that use
  it, and its documented behaviour a named hypothesis where a property needs it.

  \<^bold>\<open>Bounds and fuel.\<close> Loops that end by their own structure are recursions over it. \<open>GetAllAssets\<close> has the page budget of
  the code; the dial loop returns an option, and a theorem says exactly when it returns; the schedule monitor, the auth
  monitor, the quota poll and the streams run over the list of events they meet. \<open>fair_rounds n\<close> gives each of a stream's
  goroutines \<open>n\<close> turns, and \<open>work\<close> bounds the turns that are enough.

  \<^bold>\<open>Not modelled.\<close> Serving connections and encoding messages, the dial options for keepalive and flow control, the text of
  log records, \<open>clock.go\<close> of the engine (the clock is one of the engine's ports) and \<open>log.go\<close> of the client (one call of
  \<open>For\<close>). The strategies that decide what position to take are not part of the repository: the decider is a port.
  Tests are not modelled.
\<close>

end
